(* ===== verification/Fs_Prelude.thy ===== *)
theory Fs_Prelude
  imports Main "HOL-Library.Word"
begin

text \<open>
  Shared vocabulary of the development: machine integers and bytes, Go's \<open>io.Reader\<close>
  and \<open>io.Writer\<close> as explicit streams, big- and little-endian integers
  (\<open>encoding/binary\<close>), the interface of a prefix codec, and the interface of a
  state machine whose steps keep an invariant.
\<close>

unbundle bit_operations_syntax

named_theorems stream_simps \<open>rewrite rules of the reader and writer streams\<close>
named_theorems codec_simps \<open>length and decoding rules of the integer codecs\<close>

section \<open>Machine integers and bytes\<close>

type_synonym byte = "8 word"
type_synonym u16 = "16 word"
type_synonym u32 = "32 word"
type_synonym u64 = "64 word"
type_synonym bytes = "8 word list"

section \<open>Readers and writers\<close>

text \<open>
  A reader is the bytes still to come and the error its end reports (\<open>IoEOF\<close> for an
  orderly end). \<open>read_full\<close> is \<open>io.ReadFull\<close>: nothing read gives the end's own error,
  a short read at an orderly end gives \<open>io.ErrUnexpectedEOF\<close>, and either way the bytes
  that were there are consumed.
\<close>

datatype io_error = IoEOF | IoUnexpectedEOF | IoFail nat

record reader =
  r_data :: bytes
  r_end :: io_error

definition read_full :: "nat \<Rightarrow> reader \<Rightarrow> (io_error + bytes) \<times> reader" where
  "read_full n r =
     (if n \<le> length (r_data r) then (Inr (take n (r_data r)), r\<lparr>r_data := drop n (r_data r)\<rparr>)
      else (Inl (if r_data r \<noteq> [] \<and> r_end r = IoEOF then IoUnexpectedEOF else r_end r),
            r\<lparr>r_data := []\<rparr>))"

lemma read_full_append [stream_simps]:
  "n = length xs \<Longrightarrow>
   read_full n \<lparr>r_data = xs @ ys, r_end = e\<rparr> = (Inr xs, \<lparr>r_data = ys, r_end = e\<rparr>)"
  by (simp add: read_full_def)

lemma read_full_InrD:
  assumes "read_full n r = (Inr xs, r')"
  shows "r_data r = xs @ r_data r'" "length xs = n" "r_end r' = r_end r"
  using assms by (auto simp: read_full_def split: if_splits)

lemma read_full_InlD:
  assumes "read_full n r = (Inl e, r')"
  shows "r_data r' = []" "length (r_data r) < n" "r_end r' = r_end r"
  using assms by (auto simp: read_full_def split: if_splits)

text \<open>
  A writer is the bytes it has taken and how many more it will take (\<open>None\<close>: no bound).
  A write past the bound takes what fits and reports an error, as a failing
  \<open>io.Writer\<close> does.
\<close>

record writer =
  w_out :: bytes
  w_room :: "nat option"

definition write_all :: "bytes \<Rightarrow> writer \<Rightarrow> bool \<times> writer" where
  "write_all bs w =
     (case w_room w of
        None \<Rightarrow> (True, w\<lparr>w_out := w_out w @ bs\<rparr>)
      | Some k \<Rightarrow>
          if length bs \<le> k then (True, w\<lparr>w_out := w_out w @ bs, w_room := Some (k - length bs)\<rparr>)
          else (False, w\<lparr>w_out := w_out w @ take k bs, w_room := Some 0\<rparr>))"

lemma write_all_unbounded [stream_simps]:
  "write_all bs \<lparr>w_out = xs, w_room = None\<rparr> = (True, \<lparr>w_out = xs @ bs, w_room = None\<rparr>)"
  by (simp add: write_all_def)

lemma write_all_TrueD: "write_all bs w = (True, w') \<Longrightarrow> w_out w' = w_out w @ bs"
  by (auto simp: write_all_def split: option.splits if_splits)

lemma write_all_prefix: "\<exists>k. w_out (snd (write_all bs w)) = w_out w @ take k bs"
  by (auto simp: write_all_def split: option.splits intro: exI [of _ "length bs"])

section \<open>Fixed-width integers on the wire\<close>

fun be_bytes :: "nat \<Rightarrow> 'a::len word \<Rightarrow> bytes" where
  "be_bytes 0 x = []"
| "be_bytes (Suc k) x = ucast (drop_bit (8 * k) x) # be_bytes k x"

fun be_word :: "bytes \<Rightarrow> 'a::len word" where
  "be_word [] = 0"
| "be_word (b # bs) = push_bit (8 * length bs) (ucast b) OR be_word bs"

definition be16 :: "u16 \<Rightarrow> bytes" where "be16 x = be_bytes 2 x"
definition be32 :: "u32 \<Rightarrow> bytes" where "be32 x = be_bytes 4 x"
definition be64 :: "u64 \<Rightarrow> bytes" where "be64 x = be_bytes 8 x"
definition le64 :: "u64 \<Rightarrow> bytes" where "le64 x = rev (be_bytes 8 x)"

lemma length_be_bytes [simp]: "length (be_bytes k x) = k"
  by (induction k) auto

lemma be_word_be_bytes: "be_word (be_bytes k x) = take_bit (8 * k) x"
proof (induction k)
  case (Suc k)
  show ?case
  proof (rule bit_word_eqI)
    fix n assume n: "n < LENGTH('a)"
    show "bit (be_word (be_bytes (Suc k) x) :: 'a word) n = bit (take_bit (8 * Suc k) x) n"
      using n by (auto simp: Suc bit_simps not_less)
  qed
qed simp

lemma length_be [simp, codec_simps]:
  "length (be16 x) = 2" "length (be32 y) = 4" "length (be64 z) = 8" "length (le64 z) = 8"
  by (simp_all add: be16_def be32_def be64_def le64_def)

lemma be_word_be [simp, codec_simps]:
  "be_word (be16 x) = x" "be_word (be32 y) = y" "be_word (be64 z) = z"
  by (simp_all add: be16_def be32_def be64_def be_word_be_bytes take_bit_word_eq_self)

text \<open>The bytes spelt out, for evaluating closed instances.\<close>

lemma be_unfold:
  "be16 x = [ucast (drop_bit 8 x), ucast x]"
  "be32 y = [ucast (drop_bit 24 y), ucast (drop_bit 16 y), ucast (drop_bit 8 y), ucast y]"
  by (simp_all add: be16_def be32_def eval_nat_numeral)

lemma unat_ucast_u32_u64 [simp]: "unat (ucast (x :: u32) :: u64) = unat x"
proof -
  have "unat x < 2 ^ 32" using unsigned_less [where w = x and 'a = nat] by simp
  then have "unat x < 2 ^ 64" by simp
  then show ?thesis by (simp add: unsigned_ucast_eq take_bit_nat_eq_self)
qed

lemma ucast_u32_u64_of_nat: "(ucast (x :: u32) :: u64) = of_nat (unat x)"
  by (metis unat_ucast_u32_u64 of_nat_unat ucast_id)

lemma le64_inject: "le64 x = le64 y \<longleftrightarrow> x = y"
  by (metis be_word_be(3) be64_def le64_def rev_rev_ident)

text \<open>The bytes of a Go string.\<close>

definition byte_of_char :: "char \<Rightarrow> byte" where "byte_of_char c = of_nat (of_char c)"

definition char_of_byte :: "byte \<Rightarrow> char" where "char_of_byte b = char_of (unat b)"

lemma char_byte_char [simp, codec_simps]: "char_of_byte (byte_of_char c) = c"
proof -
  have "unat (of_nat (of_char c) :: byte) = of_char c"
    using nat_of_char_less_256 [of c] by (simp add: unat_of_nat)
  then show ?thesis by (simp add: char_of_byte_def byte_of_char_def)
qed

section \<open>The interface of a prefix codec\<close>

text \<open>
  What a frame reader needs from the codec of its parts: decoding an encoded value
  returns it and leaves the rest of the stream, and only well-formed values ever come
  out. \<open>dec_many\<close> is the loop that reads a counted sequence.
\<close>

fun dec_many :: "(reader \<Rightarrow> ('e + 'a) \<times> reader) \<Rightarrow> nat \<Rightarrow> reader \<Rightarrow> ('e + 'a list) \<times> reader" where
  "dec_many dec 0 r = (Inr [], r)"
| "dec_many dec (Suc n) r =
     (case dec r of
        (Inl e, r1) \<Rightarrow> (Inl e, r1)
      | (Inr x, r1) \<Rightarrow>
          (case dec_many dec n r1 of
             (Inl e, r2) \<Rightarrow> (Inl e, r2)
           | (Inr xs, r2) \<Rightarrow> (Inr (x # xs), r2)))"

locale counted_codec =
  fixes enc :: "'a \<Rightarrow> bytes"
    and dec :: "reader \<Rightarrow> ('c + 'a) \<times> reader"
    and ok :: "'a \<Rightarrow> bool"
  assumes dec_enc: "ok x \<Longrightarrow>
      dec \<lparr>r_data = enc x @ rest, r_end = e\<rparr> = (Inr x, \<lparr>r_data = rest, r_end = e\<rparr>)"
    and dec_ok: "dec r = (Inr x, r') \<Longrightarrow> ok x"
begin

lemma dec_many_enc:
  "list_all ok xs \<Longrightarrow>
   dec_many dec (length xs) \<lparr>r_data = concat (map enc xs) @ rest, r_end = e\<rparr>
     = (Inr xs, \<lparr>r_data = rest, r_end = e\<rparr>)"
  by (induction xs) (simp_all add: dec_enc)

lemma dec_many_ok:
  "dec_many dec n r = (Inr xs, r') \<Longrightarrow> list_all ok xs \<and> length xs = n"
proof (induction n arbitrary: r xs r')
  case (Suc n)
  obtain d r1 where 1: "dec r = (d, r1)" by (cases "dec r") auto
  obtain ds r2 where 2: "dec_many dec n r1 = (ds, r2)" by (cases "dec_many dec n r1") auto
  show ?case
    using Suc.prems Suc.IH [of r1 _ r2] 1 2 dec_ok [of r _ r1]
    by (cases d; cases ds) auto
qed simp

lemma enc_inject:
  assumes "ok x" "ok y" "enc x @ r1 = enc y @ r2"
  shows "x = y \<and> r1 = r2"
proof -
  have "(Inr x :: 'c + 'a, \<lparr>r_data = r1, r_end = IoEOF\<rparr>) = dec \<lparr>r_data = enc y @ r2, r_end = IoEOF\<rparr>"
    unfolding assms(3) [symmetric] by (rule dec_enc [OF assms(1), symmetric])
  also have "\<dots> = (Inr y, \<lparr>r_data = r2, r_end = IoEOF\<rparr>)"
    by (rule dec_enc [OF assms(2)])
  finally show ?thesis by simp
qed

end

section \<open>The interface of a state machine that keeps an invariant\<close>

text \<open>
  The events of a run are guarded by what their environment guarantees of them in the state they
  meet (a clock that does not go back, an identifier never used before). A machine that keeps its
  invariant at every guarded step has it after every guarded run, and a property of single steps
  from such states holds along the run.
\<close>

fun run_ok :: "('op \<Rightarrow> 's \<Rightarrow> 's) \<Rightarrow> ('op \<Rightarrow> 's \<Rightarrow> bool) \<Rightarrow> 's \<Rightarrow> 'op list \<Rightarrow> bool" where
  "run_ok step ok s [] = True"
| "run_ok step ok s (e # es) = (ok e s \<and> run_ok step ok (step e s) es)"

lemma run_ok_append: "run_ok step ok s (es @ fs) \<longleftrightarrow> run_ok step ok s es \<and> run_ok step ok (fold step es s) fs"
  by (induction es arbitrary: s) auto

lemma run_ok_trivial [simp]: "run_ok step (\<lambda>_ _. True) s es"
  by (induction es arbitrary: s) auto

locale invariant_machine =
  fixes step :: "'op \<Rightarrow> 's \<Rightarrow> 's"
    and ok :: "'op \<Rightarrow> 's \<Rightarrow> bool"
    and inv :: "'s \<Rightarrow> bool"
  assumes inv_step: "inv s \<Longrightarrow> ok e s \<Longrightarrow> inv (step e s)"
begin

lemma inv_run: "inv s \<Longrightarrow> run_ok step ok s es \<Longrightarrow> inv (fold step es s)"
  by (induction es arbitrary: s) (simp_all add: inv_step)

text \<open>What no guarded step from a good state undoes holds at the end of every run.\<close>

lemma kept_run:
  assumes "inv s" "run_ok step ok s es" "P s"
    and "\<And>s e. inv s \<Longrightarrow> ok e s \<Longrightarrow> P s \<Longrightarrow> P (step e s)"
  shows "P (fold step es s)"
  using assms(1,2,3)
proof (induction es arbitrary: s)
  case (Cons e es)
  then show ?case using inv_step [of s e] assms(4) [of s e] by simp
qed simp

end

end
