(* ===== verification/Fs_Decimal.thy ===== *)
theory Fs_Decimal
  imports Fs_Prelude
begin

text \<open>
  Decimal numerals, as \<open>strconv\<close> and \<open>fmt\<close> print them, with what the components need to know of
  them: only digits, never empty, and different for different numbers.
\<close>

fun dec_string :: "nat \<Rightarrow> string" where
  "dec_string n = (if n < 10 then [char_of (48 + n)] else dec_string (n div 10) @ [char_of (48 + n mod 10)])"

declare dec_string.simps [simp del]

lemma dec_string_unfold:
  "n < 10 \<Longrightarrow> dec_string n = [char_of (48 + n)]"
  "\<not> n < 10 \<Longrightarrow> dec_string n = dec_string (n div 10) @ [char_of (48 + n mod 10)]"
  by (subst dec_string.simps, simp)+

lemma dec_string_ne: "dec_string n \<noteq> []"
  by (cases "n < 10") (simp_all add: dec_string_unfold)

lemma digit_inject: "m < 10 \<Longrightarrow> n < 10 \<Longrightarrow> (char_of (48 + m) :: char) = char_of (48 + n) \<Longrightarrow> m = (n::nat)"
proof -
  assume b: "m < 10" "n < 10" and e: "(char_of (48 + m) :: char) = char_of (48 + n)"
  have "(of_char (char_of (48 + m)) :: nat) = of_char (char_of (48 + n))" using e by (rule arg_cong)
  then have "(48 + m) mod 256 = (48 + n) mod 256" by (simp only: of_char_of)
  then show "m = n" using b by simp
qed

lemma dec_string_inject: "dec_string m = dec_string n \<Longrightarrow> m = n"
proof (induction m arbitrary: n rule: less_induct)
  case (less m)
  have len: "k < 10 \<longleftrightarrow> length (dec_string k) = 1" for k
    using dec_string_ne [of "k div 10"] by (cases "k < 10") (simp_all add: dec_string_unfold)
  show ?case
  proof (cases "m < 10")
    case True
    then have "n < 10" using less.prems len by metis
    with True less.prems show ?thesis using digit_inject by (simp add: dec_string_unfold)
  next
    case False
    then have n: "\<not> n < 10" using less.prems len by metis
    have e: "dec_string (m div 10) = dec_string (n div 10)" "(char_of (48 + m mod 10) :: char) = char_of (48 + n mod 10)"
      using less.prems False n by (simp_all add: dec_string_unfold)
    have "m div 10 = n div 10" using less.IH [OF _ e(1)] False by simp
    moreover have "m mod 10 = n mod 10" using digit_inject [OF _ _ e(2)] by simp
    ultimately show ?thesis by (metis div_mult_mod_eq)
  qed
qed

lemma dec_string_digits: "c \<in> set (dec_string n) \<Longrightarrow> 48 \<le> (of_char c :: nat) \<and> (of_char c :: nat) \<le> 57"
proof (induction n rule: less_induct)
  case (less n)
  have d: "48 \<le> (of_char (char_of (48 + k) :: char) :: nat) \<and> (of_char (char_of (48 + k) :: char) :: nat) \<le> 57"
    if "k < 10" for k :: nat using that by simp
  show ?case
    using less.IH [of "n div 10"] less.prems d [of n] d [of "n mod 10"] by (cases "n < 10") (auto simp: dec_string_unfold)
qed

text \<open>\<open>strconv.FormatInt(n, 10)\<close>.\<close>

definition int_string :: "int \<Rightarrow> string" where
  "int_string n = (if n < 0 then CHR ''-'' # dec_string (nat (- n)) else dec_string (nat n))"

lemma int_string_inject: "int_string m = int_string n \<Longrightarrow> m = n"
proof -
  assume e: "int_string m = int_string n"
  have minus: "CHR ''-'' # xs \<noteq> dec_string k" "dec_string k \<noteq> CHR ''-'' # xs" for k xs
    using dec_string_digits [of "CHR ''-''" k] by (cases "dec_string k"; auto)+
  show "m = n"
    using e minus by (auto simp: int_string_def split: if_splits dest!: dec_string_inject)
qed

end
