(* ===== verification/Fs_Errors.thy ===== *)
theory Fs_Errors
  imports Fs_Prelude
begin

text \<open>
  The error values of the program. \<open>internal/fserrors\<close> declares the sentinels; the wire
  package and Go's \<open>io\<close> and \<open>context\<close> packages add a few more. An error value
  is the list of sentinels its \<open>%w\<close> chain reaches, outermost first; the texts are not
  modelled. \<open>errors.Is\<close> is membership.
\<close>

datatype (plugins only: size code) sentinel =
    ErrServerUnreachable
  | ErrCodeNotFound
  | ErrCodeAlreadyClaimed
  | ErrInvalidCodeFormat
  | ErrReceiverDeclined
  | ErrSessionExpired
  | ErrDiskFull
  | ErrWriteFailed
  | ErrReadFailed
  | ErrHashMismatch
  | ErrPathTraversal
  | ErrTargetExists
  | ErrConnectFailed
  | ErrProtocolError
  | ErrConfigCorrupted
  | ErrRateLimited
  | ErrServerRetired
  | ErrPartialMismatch
  | ErrTransientFailure
  | ErrWrongPassword
  | ErrPeerAuthFailed
  | ErrRelayCapHit
  | ErrRelayBudgetExhausted
  | ErrUsage
  | ErrSourceNotFound
  | ErrUserCancelled
  | ErrLANListenerFailed
  | ErrServerAuthRequired
  | ErrRelayIdleTimeout
  | ErrServerStartup
  | ErrPasswordRequired
  | ErrPeerCancelled
  | ErrUpdateFailed
  | ErrIncompatibleVersion
  | ErrUninstallFailed
  | ErrUnsendableSymlink
  | ErrManifestWriteFailed
  | ErrHomebrewManaged
  | ErrUpdateRootRefused
  | ErrUpdateDevBuild
  | ErrClientTooOld
  | ErrRelayFailed
  | ErrUDPBlocked
  | ErrDoctorFailed
  | ErrTooManyPairingFailures
  | ErrServerCertUntrusted
  | ErrFilesSkipped
  | ErrTooManyEntries
  \<comment> \<open>wire: control.go and data.go\<close>
  | WireUnsupportedVersion | WireFrameTooLarge
  | WireChunkTooLarge | WireWrongFrameType | WireMalformedChunk
  \<comment> \<open>io and context\<close>
  | GoEOF | GoUnexpectedEOF | CtxCanceled | CtxDeadlineExceeded

type_synonym goerr = "sentinel list"

definition err_is :: "goerr \<Rightarrow> sentinel \<Rightarrow> bool" where
  "err_is e s \<longleftrightarrow> s \<in> set e"

fun io_goerr :: "io_error \<Rightarrow> goerr" where
  "io_goerr IoEOF = [GoEOF]"
| "io_goerr IoUnexpectedEOF = [GoUnexpectedEOF]"
| "io_goerr (IoFail n) = []"

lemma err_is_simps [simp]:
  "err_is [] s = False" "err_is (t # e) s = (s = t \<or> err_is e s)"
  by (auto simp: err_is_def)

end
