(* ===== verification/Wire_Proto.thy ===== *)
theory Wire_Proto
  imports Fs_Errors
begin

text \<open>
  \<open>internal/wire/wire.go\<close> and \<open>internal/wire/payloads.go\<close>: the protocol versions and their
  negotiation, the frame types, the limits, the enumerations carried on the wire, and the
  payloads of the control frames. A Go enumeration over a fixed-width integer stays that
  integer where the code compares it with many constants (frame types, error codes, segment flags),
  and is a datatype with a constructor for unnamed values otherwise.
\<close>

section \<open>Versions\<close>

definition ProtocolVersion :: byte where "ProtocolVersion = 0x03"
definition MinProtocolVersion :: byte where "MinProtocolVersion = 0x03"

text \<open>\<open>None\<close> stands for the result \<open>(0, false)\<close>.\<close>

definition Negotiate :: "byte \<Rightarrow> byte \<Rightarrow> byte option" where
  "Negotiate peerMin peerMax =
     (let hi = min peerMax ProtocolVersion; lo = max peerMin MinProtocolVersion
      in if peerMin = 0 \<or> hi < lo then None else Some hi)"

lemma Negotiate_SomeD:
  assumes "Negotiate a b = Some v"
  shows "a \<noteq> 0" "a \<le> v" "v \<le> b" "MinProtocolVersion \<le> v" "v \<le> ProtocolVersion"
  using assms by (auto simp: Negotiate_def Let_def not_less split: if_splits)

section \<open>Limits\<close>

definition MaxControlFrameSize :: nat where "MaxControlFrameSize = 64 * 1024"
definition MaxChunkSize :: nat where "MaxChunkSize = 1024 * 1024"

lemma MaxChunkSize_pos [simp]: "0 < MaxChunkSize" "MaxChunkSize \<noteq> 0"
  by (simp_all add: MaxChunkSize_def)

section \<open>Frame types\<close>

named_theorems frame_types \<open>the numeric values of the frame types\<close>

definition TypeHello :: byte where [frame_types]: "TypeHello = 0x01"
definition TypeHelloAck :: byte where [frame_types]: "TypeHelloAck = 0x02"
definition TypePasswordChallenge :: byte where [frame_types]: "TypePasswordChallenge = 0x03"
definition TypePasswordResponse :: byte where [frame_types]: "TypePasswordResponse = 0x04"
definition TypeListingBatch :: byte where [frame_types]: "TypeListingBatch = 0x05"
definition TypeListingEnd :: byte where [frame_types]: "TypeListingEnd = 0x06"
definition TypeClassifyBatch :: byte where [frame_types]: "TypeClassifyBatch = 0x07"
definition TypeClassifyEnd :: byte where [frame_types]: "TypeClassifyEnd = 0x08"
definition TypePasswordVerified :: byte where [frame_types]: "TypePasswordVerified = 0x09"
definition TypeTransferComplete :: byte where [frame_types]: "TypeTransferComplete = 0x0A"
definition TypeTransferAck :: byte where [frame_types]: "TypeTransferAck = 0x0B"
definition TypeVerifyRequest :: byte where [frame_types]: "TypeVerifyRequest = 0x0C"
definition TypeVerifyResponse :: byte where [frame_types]: "TypeVerifyResponse = 0x0D"
definition TypeError :: byte where [frame_types]: "TypeError = 0xFE"
definition TypeChunk :: byte where [frame_types]: "TypeChunk = 0x10"

section \<open>Enumerations\<close>

text \<open>
  The peer may send a value without a name; the last constructor of each type holds it, and
  the code's \<open>default\<close> branches decide what it means.
\<close>

datatype TransferMode = ModeFiles | ModeStream | ModeOther byte

datatype EntryType = EntryFile | EntryDir | EntrySymlink | EntryOther byte

datatype DecisionAction = DecisionSend | DecisionSkip | DecisionResume | DecisionOther byte

section \<open>Error codes\<close>

named_theorems error_codes \<open>the numeric values of the error codes\<close>

definition ErrCodeWrongPassword :: u16 where [error_codes]: "ErrCodeWrongPassword = 2"
definition ErrCodeFileHashMismatch :: u16 where [error_codes]: "ErrCodeFileHashMismatch = 8"
definition ErrCodeProtocolError :: u16 where [error_codes]: "ErrCodeProtocolError = 10"
definition ErrCodePartialMismatch :: u16 where [error_codes]: "ErrCodePartialMismatch = 11"
definition ErrCodeTargetExists :: u16 where [error_codes]: "ErrCodeTargetExists = 12"
definition ErrCodeWriteFailed :: u16 where [error_codes]: "ErrCodeWriteFailed = 13"
definition ErrCodePasswordRequired :: u16 where [error_codes]: "ErrCodePasswordRequired = 14"
definition ErrCodeCancelled :: u16 where [error_codes]: "ErrCodeCancelled = 15"
definition ErrCodeListingInvalid :: u16 where [error_codes]: "ErrCodeListingInvalid = 16"
definition ErrCodeDeclined :: u16 where [error_codes]: "ErrCodeDeclined = 17"
definition ErrCodeReadFailed :: u16 where [error_codes]: "ErrCodeReadFailed = 18"
definition ErrCodeDiskFull :: u16 where [error_codes]: "ErrCodeDiskFull = 19"
definition ErrCodeTooManyEntries :: u16 where [error_codes]: "ErrCodeTooManyEntries = 20"

section \<open>Flag bits of chunks and segments\<close>

definition FlagCompressed :: byte where "FlagCompressed = push_bit 0 1"
definition SegFlagEOF :: byte where "SegFlagEOF = push_bit 0 1"
definition SegFlagSkip :: byte where "SegFlagSkip = push_bit 1 1"
definition SegFlagRestart :: byte where "SegFlagRestart = push_bit 2 1"
definition SegFlagChanged :: byte where "SegFlagChanged = push_bit 3 1"

section \<open>Control-frame payloads\<close>

text \<open>Strings are Isabelle strings, whose characters are the bytes Go's strings hold.\<close>

record SenderHello =
  sh_MinVersion :: byte
  sh_MaxVersion :: byte
  sh_Caps :: u64
  sh_Hostname :: string
  sh_OS :: string
  sh_ClientVersion :: string
  sh_HasPassword :: bool
  sh_Mode :: TransferMode
  sh_IsText :: bool
  sh_DisplayName :: string

record ReceiverHello =
  rh_MinVersion :: byte
  rh_MaxVersion :: byte
  rh_Caps :: u64
  rh_Hostname :: string
  rh_OS :: string
  rh_ClientVersion :: string
  rh_Accepts :: bool

record PasswordChallenge =
  pc_Nonce :: bytes
  pc_Share :: bytes

record PasswordResponse =
  pr_Share :: bytes
  pr_Tag :: bytes

record PasswordVerified =
  pv_Tag :: bytes

record ListingEntry =
  le_Index :: u32
  le_RelativePath :: string
  le_Size :: u64
  le_ModTimeSec :: int
  le_Mode :: u32
  le_Type :: EntryType
  le_SymlinkTarget :: string

record Decision =
  d_Index :: u32
  d_Action :: DecisionAction
  d_ResumeOffset :: u64
  d_PrefixRoot :: bytes
  d_Kept :: bool

record FileHash =
  fh_Index :: u32
  fh_Hash :: bytes

record ErrorFrame =
  ef_Code :: u16
  ef_Message :: string

end
