(* ===== verification/Wire_Control.thy ===== *)
theory Wire_Control
  imports Wire_Proto
begin

text \<open>
  \<open>internal/wire/control.go\<close>: control frames, a six-byte header (version, type, big-endian
  length) and a payload. The payload codec is Go's \<open>encoding/gob\<close>; it is a parameter:
  \<open>gob_enc\<close> and \<open>gob_dec\<close> map a payload to bytes and back and may fail.
\<close>

definition controlHeaderSize :: nat where "controlHeaderSize = 6"

definition control_header :: "byte \<Rightarrow> nat \<Rightarrow> bytes" where
  "control_header ft n = ProtocolVersion # ft # be32 (of_nat n)"

lemma length_control_header [simp]: "length (control_header ft n) = controlHeaderSize"
  by (simp add: control_header_def controlHeaderSize_def)

text \<open>
  \<open>WriteControl\<close>. A nil payload is \<open>None\<close>; \<open>Some\<close> of an error is the error the code
  returns, and the writer shows what reached the stream by then.
\<close>

definition WriteControl ::
  "('p \<Rightarrow> bytes option) \<Rightarrow> byte \<Rightarrow> 'p option \<Rightarrow> writer \<Rightarrow> goerr option \<times> writer" where
  "WriteControl gob_enc ft payload w =
     (case (case payload of None \<Rightarrow> Some [] | Some p \<Rightarrow> gob_enc p) of
        None \<Rightarrow> (Some [], w)
      | Some body \<Rightarrow>
          if MaxControlFrameSize < length body then (Some [WireFrameTooLarge], w)
          else (case write_all (control_header ft (length body)) w of
                  (False, w1) \<Rightarrow> (Some [], w1)
                | (True, w1) \<Rightarrow>
                    if body = [] then (None, w1)
                    else (case write_all body w1 of
                            (False, w2) \<Rightarrow> (Some [], w2)
                          | (True, w2) \<Rightarrow> (None, w2))))"

text \<open>
  \<open>ReadControlRaw\<close>: the frame type is returned even when the frame is refused after its
  header was read, and is 0 when the header itself could not be read.
\<close>

definition ReadControlRaw :: "reader \<Rightarrow> byte \<times> (goerr + bytes) \<times> reader" where
  "ReadControlRaw r =
     (case read_full controlHeaderSize r of
        (Inl e, r1) \<Rightarrow> (0, Inl (io_goerr e), r1)
      | (Inr h, r1) \<Rightarrow>
          let ver = h ! 0; ft = h ! 1; len = (be_word (take 4 (drop 2 h)) :: u32)
          in if ver < MinProtocolVersion \<or> ProtocolVersion < ver
             then (ft, Inl [WireUnsupportedVersion], r1)
             else if MaxControlFrameSize < unat len then (ft, Inl [WireFrameTooLarge], r1)
             else if len = 0 then (ft, Inr [], r1)
             else (case read_full (unat len) r1 of
                     (Inl e, r2) \<Rightarrow> (ft, Inl (io_goerr e), r2)
                   | (Inr body, r2) \<Rightarrow> (ft, Inr body, r2)))"

text \<open>
  \<open>Decode\<close> and \<open>ReadControl\<close>: an empty body or a nil target leaves the target alone, which
  is \<open>Inr None\<close> here.
\<close>

definition Decode :: "(bytes \<Rightarrow> 'p option) \<Rightarrow> bytes \<Rightarrow> bool \<Rightarrow> goerr + 'p option" where
  "Decode gob_dec body has_target =
     (if body = [] \<or> \<not> has_target then Inr None
      else (case gob_dec body of None \<Rightarrow> Inl [] | Some p \<Rightarrow> Inr (Some p)))"

definition ReadControl ::
  "(bytes \<Rightarrow> 'p option) \<Rightarrow> bool \<Rightarrow> reader \<Rightarrow> byte \<times> (goerr + 'p option) \<times> reader" where
  "ReadControl gob_dec has_target r =
     (case ReadControlRaw r of
        (ft, Inl e, r1) \<Rightarrow> (ft, Inl e, r1)
      | (ft, Inr body, r1) \<Rightarrow>
          if body = [] \<or> \<not> has_target then (ft, Inr None, r1)
          else (case gob_dec body of
                  None \<Rightarrow> (ft, Inl [], r1)
                | Some p \<Rightarrow> (ft, Inr (Some p), r1)))"

section \<open>Framing is a prefix codec\<close>

text \<open>The bytes of one frame, and which frames fit.\<close>

definition control_frame :: "byte \<times> bytes \<Rightarrow> bytes" where
  "control_frame f = control_header (fst f) (length (snd f)) @ snd f"

definition control_ok :: "byte \<times> bytes \<Rightarrow> bool" where
  "control_ok f \<longleftrightarrow> length (snd f) \<le> MaxControlFrameSize"

definition read_frame :: "reader \<Rightarrow> (goerr + byte \<times> bytes) \<times> reader" where
  "read_frame r = (case ReadControlRaw r of
     (ft, Inl e, r1) \<Rightarrow> (Inl e, r1) | (ft, Inr body, r1) \<Rightarrow> (Inr (ft, body), r1))"

lemma unat_of_nat_frame: "n \<le> MaxControlFrameSize \<Longrightarrow> unat (of_nat n :: u32) = n"
  by (simp add: MaxControlFrameSize_def unat_of_nat)

lemma ReadControlRaw_frame:
  assumes "length body \<le> MaxControlFrameSize"
  shows "ReadControlRaw \<lparr>r_data = control_frame (ft, body) @ rest, r_end = e\<rparr>
       = (ft, Inr body, \<lparr>r_data = rest, r_end = e\<rparr>)"
proof -
  let ?h = "control_header ft (length body)"
  have h: "read_full controlHeaderSize \<lparr>r_data = ?h @ body @ rest, r_end = e\<rparr>
         = (Inr ?h, \<lparr>r_data = body @ rest, r_end = e\<rparr>)"
    by (rule read_full_append) simp
  have len: "(be_word (take 4 (drop 2 ?h)) :: u32) = of_nat (length body)"
    by (simp add: control_header_def)
  have l0: "(of_nat (length body) :: u32) = 0 \<longleftrightarrow> body = []"
    using unat_of_nat_frame [OF assms] unat_0_iff [of "of_nat (length body) :: u32"] by auto
  have b: "read_full (length body) \<lparr>r_data = body @ rest, r_end = e\<rparr>
         = (Inr body, \<lparr>r_data = rest, r_end = e\<rparr>)"
    by (rule read_full_append) simp
  have hd: "?h ! 0 = ProtocolVersion" "?h ! 1 = ft"
      "\<not> ProtocolVersion < MinProtocolVersion" "\<not> ProtocolVersion < ProtocolVersion"
    by (simp_all add: control_header_def MinProtocolVersion_def ProtocolVersion_def)
  have "ReadControlRaw \<lparr>r_data = ?h @ body @ rest, r_end = e\<rparr> =
      (if body = [] then (ft, Inr [], \<lparr>r_data = body @ rest, r_end = e\<rparr>)
       else (ft, Inr body, \<lparr>r_data = rest, r_end = e\<rparr>))"
    using assms
    by (simp only: ReadControlRaw_def h prod.case sum.case Let_def len l0 hd b
        unat_of_nat_frame [OF assms] assms [folded not_less] if_False if_True simp_thms split: if_split)
  then show ?thesis by (simp add: control_frame_def split: if_splits)
qed

lemma ReadControlRaw_InrD:
  assumes "ReadControlRaw r = (ft, Inr body, r')"
  shows "length body \<le> MaxControlFrameSize"
  using assms
  by (auto simp: ReadControlRaw_def Let_def split: prod.splits sum.splits if_splits
      dest!: read_full_InrD(2) [of "unat _"])

interpretation ctl: counted_codec control_frame read_frame control_ok
proof unfold_locales
  show "read_frame \<lparr>r_data = control_frame f @ rest, r_end = e\<rparr> = (Inr f, \<lparr>r_data = rest, r_end = e\<rparr>)"
    if "control_ok f" for f rest e
    using ReadControlRaw_frame [of "snd f" "fst f" rest e] that
    by (simp add: read_frame_def control_ok_def)
  show "control_ok f" if "read_frame r = (Inr f, r')" for r f r'
    using that ReadControlRaw_InrD
    by (auto simp: read_frame_def control_ok_def split: prod.splits sum.splits)
qed

lemma WriteControl_ok:
  "WriteControl gob_enc ft payload w = (None, w') \<Longrightarrow>
   \<exists>body. (case payload of None \<Rightarrow> Some [] | Some p \<Rightarrow> gob_enc p) = Some body
     \<and> length body \<le> MaxControlFrameSize \<and> w_out w' = w_out w @ control_frame (ft, body)"
  by (auto simp: WriteControl_def control_frame_def split: option.splits if_splits prod.splits bool.splits
      dest!: write_all_TrueD)

section \<open>Properties\<close>

text \<open>
  Control frames round-trip: whatever \<open>WriteControl\<close> reports as written, a reader that
  finds those bytes at the head of its stream reads back as the same frame type and, through
  \<open>gob\<close>, the same payload, with the rest of the stream untouched. The hypothesis is gob's own
  contract: decoding an encoding gives the value, and a value's encoding is not empty.
\<close>

theorem control_roundtrip:
  assumes gob: "\<And>p b. gob_enc p = Some b \<Longrightarrow> b \<noteq> [] \<and> gob_dec b = Some p"
    and wr: "WriteControl gob_enc ft payload w = (None, w')"
    and bs: "w_out w' = w_out w @ bs"
  shows "ReadControl gob_dec True \<lparr>r_data = bs @ rest, r_end = e\<rparr>
       = (ft, Inr payload, \<lparr>r_data = rest, r_end = e\<rparr>)"
proof -
  from WriteControl_ok [OF wr] obtain body where
    body: "(case payload of None \<Rightarrow> Some [] | Some p \<Rightarrow> gob_enc p) = Some body"
    and len: "length body \<le> MaxControlFrameSize" and eq: "bs = control_frame (ft, body)"
    using bs by auto
  show ?thesis
    unfolding eq ReadControl_def using ReadControlRaw_frame [OF len] body gob
    by (cases payload) auto
qed

theorem control_roundtrip_witness:
  "ReadControl (\<lambda>b. Some b) True
     \<lparr>r_data = [0x03, 0x06, 0, 0, 0, 1, 42] @ [7], r_end = IoEOF\<rparr>
   = (TypeListingEnd, Inr (Some [42]), \<lparr>r_data = [7], r_end = IoEOF\<rparr>)"
proof -
  let ?enc = "\<lambda>b::bytes. if b = [] then None else Some b"
  have w: "WriteControl ?enc TypeListingEnd (Some [42]) \<lparr>w_out = [], w_room = None\<rparr>
     = (None, \<lparr>w_out = [0x03, 0x06, 0, 0, 0, 1, 42], w_room = None\<rparr>)"
    by (simp add: WriteControl_def control_header_def write_all_def MaxControlFrameSize_def
        ProtocolVersion_def TypeListingEnd_def be_unfold)
  show ?thesis
    by (rule control_roundtrip [of ?enc _ TypeListingEnd "Some [42]" "\<lparr>w_out = [], w_room = None\<rparr>", OF _ w])
      (auto split: if_splits)
qed

text \<open>
  A hostile peer cannot make the reader allocate or accept an oversized or
  version-foreign frame: whatever bytes arrive, an accepted frame carries a supported version
  and a body of at most 64 KiB, and a refused one has consumed at most its header and the
  declared body.
\<close>

theorem control_read_bounded:
  assumes "ReadControlRaw r = (ft, res, r')"
  shows "\<exists>used. r_data r = used @ r_data r' \<and> length used \<le> controlHeaderSize + MaxControlFrameSize
       \<and> (\<forall>body. res = Inr body \<longrightarrow>
            length body \<le> MaxControlFrameSize \<and> MinProtocolVersion \<le> used ! 0 \<and> used ! 0 \<le> ProtocolVersion
            \<and> ft = used ! 1)"
proof (cases "read_full controlHeaderSize r")
  case (Pair h r1)
  show ?thesis
  proof (cases h)
    case (Inl e)
    with Pair assms read_full_InlD [OF Pair [unfolded Inl]] show ?thesis
      by (auto simp: ReadControlRaw_def)
  next
    case (Inr hd6)
    note h = read_full_InrD [OF Pair [unfolded Inr]]
    let ?len = "be_word (take 4 (drop 2 hd6)) :: u32"
    have nth: "(hd6 @ ys) ! 0 = hd6 ! 0" "(hd6 @ ys) ! 1 = hd6 ! 1" for ys
      using h(2) by (simp_all add: nth_append controlHeaderSize_def)
    let ?goal = "\<lambda>b. r_data r1 = b @ r_data r' \<and> length b \<le> MaxControlFrameSize
        \<and> (\<forall>body. res = Inr body \<longrightarrow> length body \<le> MaxControlFrameSize
             \<and> MinProtocolVersion \<le> hd6 ! 0 \<and> hd6 ! 0 \<le> ProtocolVersion \<and> ft = hd6 ! 1)"
    have unf: "(ft, res, r') =
        (if hd6 ! 0 < MinProtocolVersion \<or> ProtocolVersion < hd6 ! 0
         then (hd6 ! 1, Inl [WireUnsupportedVersion], r1)
         else if MaxControlFrameSize < unat ?len then (hd6 ! 1, Inl [WireFrameTooLarge], r1)
         else if ?len = 0 then (hd6 ! 1, Inr [], r1)
         else (case read_full (unat ?len) r1 of
                 (Inl e, r2) \<Rightarrow> (hd6 ! 1, Inl (io_goerr e), r2)
               | (Inr body, r2) \<Rightarrow> (hd6 ! 1, Inr body, r2)))"
      unfolding assms [symmetric] ReadControlRaw_def Pair Inr by (simp only: prod.case sum.case Let_def)
    have used: "\<exists>b. ?goal b"
    proof (cases "r' = r1")
      case True
      with unf show ?thesis
        by (intro exI [of _ "[]"]) (auto simp: not_less split: if_splits prod.splits sum.splits dest!: read_full_InrD(2))
    next
      case False
      with unf have n: "\<not> MaxControlFrameSize < unat ?len" "\<not> hd6 ! 0 < MinProtocolVersion"
          "\<not> ProtocolVersion < hd6 ! 0" "ft = hd6 ! 1"
        and rd: "(case read_full (unat ?len) r1 of (Inl e, r2) \<Rightarrow> (Inl (io_goerr e), r2)
                   | (Inr body, r2) \<Rightarrow> (Inr body, r2)) = (res, r')"
        by (auto split: if_splits prod.splits sum.splits)
      show ?thesis
      proof (cases "fst (read_full (unat ?len) r1)")
        case (Inl e)
        with rd n read_full_InlD [of "unat ?len" r1 e r'] show ?thesis
          by (intro exI [of _ "r_data r1"]) (auto simp: not_less split: prod.splits)
      next
        case (Inr body)
        with rd n read_full_InrD [of "unat ?len" r1 body r'] show ?thesis
          by (intro exI [of _ body]) (auto simp: not_less split: prod.splits)
      qed
    qed
    then obtain b where b: "r_data r1 = b @ r_data r'" "length b \<le> MaxControlFrameSize"
      "\<forall>body. res = Inr body \<longrightarrow> length body \<le> MaxControlFrameSize
             \<and> MinProtocolVersion \<le> hd6 ! 0 \<and> hd6 ! 0 \<le> ProtocolVersion \<and> ft = hd6 ! 1" by blast
    have "r_data r = (hd6 @ b) @ r_data r'" "length (hd6 @ b) \<le> controlHeaderSize + MaxControlFrameSize"
      using h b by simp_all
    then show ?thesis using b(3) nth by metis
  qed
qed

theorem control_read_bounded_witness:
  "\<exists>used. [0x03, 0x06, 0, 0, 0, 0, 9] = used @ [9 :: byte] \<and> length used \<le> controlHeaderSize + MaxControlFrameSize
       \<and> (\<forall>body. (Inr [] :: goerr + bytes) = Inr body \<longrightarrow>
            length body \<le> MaxControlFrameSize \<and> MinProtocolVersion \<le> used ! 0 \<and> used ! 0 \<le> ProtocolVersion
            \<and> TypeListingEnd = used ! 1)"
proof -
  have "ReadControlRaw \<lparr>r_data = [0x03, 0x06, 0, 0, 0, 0, 9], r_end = IoEOF\<rparr>
      = (TypeListingEnd, Inr [], \<lparr>r_data = [9], r_end = IoEOF\<rparr>)"
    by (simp add: ReadControlRaw_def read_full_def controlHeaderSize_def Let_def MinProtocolVersion_def
        ProtocolVersion_def MaxControlFrameSize_def TypeListingEnd_def)
  from control_read_bounded [OF this] show ?thesis by simp
qed

end
