(* ===== verification/Wire_Chunk.thy ===== *)
theory Wire_Chunk
  imports Wire_Proto
begin

text \<open>
  \<open>internal/wire/data.go\<close>: the chunk frames of the data stream. A chunk has a fixed header, a
  counted list of segment headers (with a root hash after each that ends a file) and one
  payload. \<open>ReadChunkBuf\<close>'s recycled buffer only decides where the payload bytes live, so
  \<open>ReadChunk\<close> here is both.
\<close>

definition chunkFixedHeader :: nat where "chunkFixedHeader = 1 + 1 + 4 + 2"

record Segment =
  sg_FileIndex :: u32
  sg_Length :: u32
  sg_EOF :: bool
  sg_Skip :: bool
  sg_Restart :: bool
  sg_Changed :: bool
  sg_RootHash :: bytes

definition zero_hash :: bytes where "zero_hash = replicate 32 0"

definition seg_flags :: "Segment \<Rightarrow> byte" where
  "seg_flags s =
     (if sg_EOF s then SegFlagEOF else 0) OR
     (if sg_Skip s then SegFlagSkip else 0) OR
     (if sg_Restart s then SegFlagRestart else 0) OR
     (if sg_Changed s then SegFlagChanged else 0)"

record Chunk =
  ck_Compressed :: bool
  ck_Segments :: "Segment list"
  ck_Payload :: bytes

section \<open>Writing\<close>

definition seg_bytes :: "Segment \<Rightarrow> bytes" where
  "seg_bytes s = be32 (sg_FileIndex s) @ be32 (sg_Length s) @ [seg_flags s] @
     (if sg_EOF s then sg_RootHash s else [])"

definition chunk_bytes :: "Chunk \<Rightarrow> bytes" where
  "chunk_bytes c =
     [TypeChunk, if ck_Compressed c then FlagCompressed else 0] @
     be32 (of_nat (length (ck_Payload c))) @ be16 (of_nat (length (ck_Segments c))) @
     concat (map seg_bytes (ck_Segments c)) @ ck_Payload c"

definition WriteChunk :: "Chunk \<Rightarrow> writer \<Rightarrow> goerr option \<times> writer" where
  "WriteChunk c w =
     (if MaxChunkSize < length (ck_Payload c) then (Some [WireChunkTooLarge], w)
      else if ck_Segments c = [] \<or> 0xFFFF < length (ck_Segments c) then (Some [WireMalformedChunk], w)
      else (case write_all (chunk_bytes c) w of
              (False, w1) \<Rightarrow> (Some [], w1)
            | (True, w1) \<Rightarrow> (None, w1)))"

section \<open>Reading\<close>

definition seg_validate :: "Segment \<Rightarrow> goerr option" where
  "seg_validate s =
     (if sg_Skip s \<and> (sg_EOF s \<or> sg_Restart s \<or> sg_Changed s \<or> sg_Length s \<noteq> 0) then Some [WireMalformedChunk]
      else if sg_Changed s \<and> \<not> sg_EOF s then Some [WireMalformedChunk]
      else if sg_Restart s \<and> sg_Length s = 0 then Some [WireMalformedChunk]
      else if sg_Length s = 0 \<and> \<not> sg_EOF s \<and> \<not> sg_Skip s then Some [WireMalformedChunk]
      else None)"

definition parse_seg :: "bytes \<Rightarrow> Segment" where
  "parse_seg seg =
     \<lparr>sg_FileIndex = be_word (take 4 seg), sg_Length = be_word (take 4 (drop 4 seg)),
      sg_EOF = (seg ! 8 AND SegFlagEOF \<noteq> 0), sg_Skip = (seg ! 8 AND SegFlagSkip \<noteq> 0),
      sg_Restart = (seg ! 8 AND SegFlagRestart \<noteq> 0),
      sg_Changed = (seg ! 8 AND SegFlagChanged \<noteq> 0), sg_RootHash = zero_hash\<rparr>"

definition read_segment :: "reader \<Rightarrow> (goerr + Segment) \<times> reader" where
  "read_segment r =
     (case read_full 9 r of
        (Inl e, r1) \<Rightarrow> (Inl (io_goerr e), r1)
      | (Inr seg, r1) \<Rightarrow>
          let s = parse_seg seg
          in (case seg_validate s of
                Some e \<Rightarrow> (Inl e, r1)
              | None \<Rightarrow>
                  if sg_EOF s then
                    (case read_full 32 r1 of
                       (Inl e, r2) \<Rightarrow> (Inl (io_goerr e), r2)
                     | (Inr h, r2) \<Rightarrow> (Inr (s\<lparr>sg_RootHash := h\<rparr>), r2))
                  else (Inr s, r1)))"

definition segments_sum :: "Segment list \<Rightarrow> u64" where
  "segments_sum segs = foldl (\<lambda>sum s. sum + ucast (sg_Length s)) 0 segs"

definition SegmentsSum :: "Chunk \<Rightarrow> u64" where
  "SegmentsSum c = segments_sum (ck_Segments c)"

definition ReadChunk :: "reader \<Rightarrow> (goerr + Chunk) \<times> reader" where
  "ReadChunk r =
     (case read_full chunkFixedHeader r of
        (Inl e, r1) \<Rightarrow> (Inl (io_goerr e), r1)
      | (Inr fixed, r1) \<Rightarrow>
          if fixed ! 0 \<noteq> TypeChunk then (Inl [WireWrongFrameType], r1)
          else
            let compressed = (fixed ! 1 AND FlagCompressed \<noteq> 0);
                payloadLen = (be_word (take 4 (drop 2 fixed)) :: u32);
                segCount = (be_word (drop 6 fixed) :: u16)
            in if MaxChunkSize < unat payloadLen then (Inl [WireChunkTooLarge], r1)
               else if segCount = 0 then (Inl [WireMalformedChunk], r1)
               else (case dec_many read_segment (unat segCount) r1 of
                       (Inl e, r2) \<Rightarrow> (Inl e, r2)
                     | (Inr segs, r2) \<Rightarrow>
                         let sum = segments_sum segs
                         in if MaxChunkSize < unat sum then (Inl [WireChunkTooLarge], r2)
                            else if \<not> compressed \<and> sum \<noteq> ucast payloadLen then (Inl [WireMalformedChunk], r2)
                            else if payloadLen = 0
                            then (Inr \<lparr>ck_Compressed = compressed, ck_Segments = segs, ck_Payload = []\<rparr>, r2)
                            else (case read_full (unat payloadLen) r2 of
                                    (Inl e, r3) \<Rightarrow> (Inl (io_goerr e), r3)
                                  | (Inr p, r3) \<Rightarrow>
                                      (Inr \<lparr>ck_Compressed = compressed, ck_Segments = segs, ck_Payload = p\<rparr>, r3))))"

section \<open>Segments are a prefix codec\<close>

definition seg_ok :: "Segment \<Rightarrow> bool" where
  "seg_ok s \<longleftrightarrow> seg_validate s = None \<and>
     (if sg_EOF s then length (sg_RootHash s) = 32 else sg_RootHash s = zero_hash)"

lemma seg_flags_bits:
  "(seg_flags s AND SegFlagEOF \<noteq> 0) = sg_EOF s" "(seg_flags s AND SegFlagSkip \<noteq> 0) = sg_Skip s"
  "(seg_flags s AND SegFlagRestart \<noteq> 0) = sg_Restart s" "(seg_flags s AND SegFlagChanged \<noteq> 0) = sg_Changed s"
  by (cases "sg_EOF s"; cases "sg_Skip s"; cases "sg_Restart s"; cases "sg_Changed s";
      simp add: seg_flags_def SegFlagEOF_def SegFlagSkip_def SegFlagRestart_def SegFlagChanged_def)+

lemma seg_validate_hash [simp]: "seg_validate (s\<lparr>sg_RootHash := h\<rparr>) = seg_validate s"
  by (simp add: seg_validate_def)

definition seg_header :: "Segment \<Rightarrow> bytes" where
  "seg_header s = be32 (sg_FileIndex s) @ be32 (sg_Length s) @ [seg_flags s]"

lemma length_seg_header [simp]: "length (seg_header s) = 9"
  by (simp add: seg_header_def)

lemma seg_bytes_header: "seg_bytes s = seg_header s @ (if sg_EOF s then sg_RootHash s else [])"
  by (simp add: seg_bytes_def seg_header_def)

lemma parse_seg_header: "parse_seg (seg_header s) = s\<lparr>sg_RootHash := zero_hash\<rparr>"
proof -
  have "seg_header s ! 8 = seg_flags s"
    by (simp add: seg_header_def nth_append)
  then show ?thesis
    by (simp only: parse_seg_def seg_flags_bits) (simp add: seg_header_def)
qed

lemma parse_seg_hash: "sg_RootHash (parse_seg h) = zero_hash"
  by (simp add: parse_seg_def)

lemma read_segment_bytes:
  assumes ok: "seg_ok s"
  shows "read_segment \<lparr>r_data = seg_bytes s @ rest, r_end = e\<rparr> = (Inr s, \<lparr>r_data = rest, r_end = e\<rparr>)"
proof -
  let ?t = "if sg_EOF s then sg_RootHash s else []"
  have h: "read_full 9 \<lparr>r_data = seg_header s @ ?t @ rest, r_end = e\<rparr>
      = (Inr (seg_header s), \<lparr>r_data = ?t @ rest, r_end = e\<rparr>)"
    by (rule read_full_append) simp
  have v: "seg_validate s = None"
    using ok by (simp add: seg_ok_def)
  have "read_segment \<lparr>r_data = seg_header s @ ?t @ rest, r_end = e\<rparr> =
     (if sg_EOF s then
        (case read_full 32 \<lparr>r_data = ?t @ rest, r_end = e\<rparr> of
           (Inl e, r2) \<Rightarrow> (Inl (io_goerr e), r2)
         | (Inr h, r2) \<Rightarrow> (Inr (s\<lparr>sg_RootHash := zero_hash, sg_RootHash := h\<rparr>), r2))
      else (Inr (s\<lparr>sg_RootHash := zero_hash\<rparr>), \<lparr>r_data = ?t @ rest, r_end = e\<rparr>))"
    unfolding read_segment_def h by (simp add: parse_seg_header v Let_def split del: if_split)
  also have "\<dots> = (Inr s, \<lparr>r_data = rest, r_end = e\<rparr>)"
    using ok read_full_append [of 32 "sg_RootHash s" rest e]
    by (auto simp: seg_ok_def)
  finally show ?thesis by (simp add: seg_bytes_header)
qed

lemma read_segment_ok:
  assumes "read_segment r = (Inr s, r')"
  shows "seg_ok s"
proof -
  obtain d r1 where d: "read_full 9 r = (d, r1)" by (cases "read_full 9 r") auto
  with assms obtain h where "d = Inr h" by (cases d) (auto simp: read_segment_def)
  with d assms have v: "seg_validate (parse_seg h) = None"
    by (auto simp: read_segment_def Let_def split: option.splits)
  with d \<open>d = Inr h\<close> assms have res: "(if sg_EOF (parse_seg h) then
          (case read_full 32 r1 of (Inl e, r2) \<Rightarrow> (Inl (io_goerr e), r2)
           | (Inr x, r2) \<Rightarrow> (Inr ((parse_seg h)\<lparr>sg_RootHash := x\<rparr>), r2))
        else (Inr (parse_seg h), r1)) = (Inr s, r')"
    by (simp add: read_segment_def Let_def split del: if_split)
  show ?thesis
  proof (cases "sg_EOF (parse_seg h)")
    case True
    with res obtain x where x: "read_full 32 r1 = (Inr x, r')" "s = (parse_seg h)\<lparr>sg_RootHash := x\<rparr>"
      by (auto split: prod.splits sum.splits)
    then show ?thesis
      using v True read_full_InrD(2) [OF x(1)] by (simp add: seg_ok_def)
  next
    case False
    with res v show ?thesis by (auto simp: seg_ok_def parse_seg_hash)
  qed
qed

interpretation seg: counted_codec seg_bytes read_segment seg_ok
  by unfold_locales (fact read_segment_bytes read_segment_ok)+

section \<open>Chunks\<close>

text \<open>The chunks \<open>ReadChunk\<close> accepts. \<open>seg_total\<close> is their length sum without wrap-around.\<close>

definition seg_total :: "Segment list \<Rightarrow> nat" where
  "seg_total segs = (\<Sum>s\<leftarrow>segs. unat (sg_Length s))"

definition chunk_ok :: "Chunk \<Rightarrow> bool" where
  "chunk_ok c \<longleftrightarrow> ck_Segments c \<noteq> [] \<and> length (ck_Segments c) \<le> 0xFFFF \<and> list_all seg_ok (ck_Segments c)
     \<and> length (ck_Payload c) \<le> MaxChunkSize \<and> seg_total (ck_Segments c) \<le> MaxChunkSize
     \<and> (ck_Compressed c \<or> seg_total (ck_Segments c) = length (ck_Payload c))"

lemma seg_total_simps [simp]:
  "seg_total [] = 0" "seg_total (s # ss) = unat (sg_Length s) + seg_total ss"
  "seg_total (xs @ ys) = seg_total xs + seg_total ys"
  by (simp_all add: seg_total_def)

lemma seg_total_bound: "seg_total segs \<le> length segs * 2 ^ 32"
proof (induction segs)
  case (Cons s segs)
  have "unat (sg_Length s) < 2 ^ 32" using unsigned_less [where w = "sg_Length s" and 'a = nat] by simp
  with Cons show ?case by simp
qed simp

text \<open>The 64-bit accumulator of the reader cannot wrap: a chunk has at most 65535 segments.\<close>

lemma segments_sum_of_nat: "segments_sum segs = of_nat (seg_total segs)"
proof -
  have "foldl (\<lambda>sum s. sum + ucast (sg_Length s)) a segs = a + of_nat (seg_total segs)" for a :: u64
    by (induction segs arbitrary: a) (simp_all add: add.assoc)
  then show ?thesis by (simp add: segments_sum_def)
qed

lemma unat_segments_sum: "length segs \<le> 0xFFFF \<Longrightarrow> unat (segments_sum segs) = seg_total segs"
  using seg_total_bound [of segs] by (simp add: segments_sum_of_nat unat_of_nat)


lemma WriteChunk_ok:
  "WriteChunk c w = (None, w') \<Longrightarrow> w_out w' = w_out w @ chunk_bytes c"
  by (auto simp: WriteChunk_def split: if_splits prod.splits bool.splits dest: write_all_TrueD)

definition chunk_header :: "Chunk \<Rightarrow> bytes" where
  "chunk_header c =
     [TypeChunk, if ck_Compressed c then FlagCompressed else 0] @
     be32 (of_nat (length (ck_Payload c))) @ be16 (of_nat (length (ck_Segments c)))"

lemma length_chunk_header [simp]: "length (chunk_header c) = chunkFixedHeader"
  by (simp add: chunk_header_def chunkFixedHeader_def)

lemma chunk_bytes_header:
  "chunk_bytes c = chunk_header c @ concat (map seg_bytes (ck_Segments c)) @ ck_Payload c"
  by (simp add: chunk_bytes_def chunk_header_def)

lemma ReadChunk_chunk_bytes:
  assumes ok: "chunk_ok c"
  shows "ReadChunk \<lparr>r_data = chunk_bytes c @ rest, r_end = e\<rparr> = (Inr c, \<lparr>r_data = rest, r_end = e\<rparr>)"
proof -
  let ?h = "chunk_header c" and ?ss = "ck_Segments c" and ?p = "ck_Payload c"
  let ?r1 = "\<lparr>r_data = concat (map seg_bytes ?ss) @ ?p @ rest, r_end = e\<rparr>"
  have h: "read_full chunkFixedHeader \<lparr>r_data = ?h @ concat (map seg_bytes ?ss) @ ?p @ rest, r_end = e\<rparr>
       = (Inr ?h, ?r1)"
    by (rule read_full_append) simp
  have hd: "?h ! 0 = TypeChunk" "(?h ! 1 AND FlagCompressed = 0) = (\<not> ck_Compressed c)"
      "take 4 (drop 2 ?h) = be32 (of_nat (length ?p))" "drop 6 ?h = be16 (of_nat (length ?ss))"
    by (simp_all add: chunk_header_def FlagCompressed_def)
  have plen: "unat (of_nat (length ?p) :: u32) = length ?p"
    using ok by (simp add: chunk_ok_def MaxChunkSize_def unat_of_nat)
  have slen: "unat (of_nat (length ?ss) :: u16) = length ?ss"
    using ok by (simp add: chunk_ok_def unat_of_nat)
  have s0: "(of_nat (length ?ss) :: u16) \<noteq> 0"
    using slen ok by (metis chunk_ok_def length_0_conv unat_0)
  have p0: "(of_nat (length ?p) :: u32) = 0 \<longleftrightarrow> ?p = []"
    using plen unat_0_iff [of "of_nat (length ?p) :: u32"] by auto
  have segs: "dec_many read_segment (length ?ss) ?r1 = (Inr ?ss, \<lparr>r_data = ?p @ rest, r_end = e\<rparr>)"
    using ok by (intro seg.dec_many_enc) (simp add: chunk_ok_def)
  have sum: "unat (segments_sum ?ss) = seg_total ?ss"
    using ok by (intro unat_segments_sum) (simp add: chunk_ok_def)
  have payl: "(segments_sum ?ss = ucast (of_nat (length ?p) :: u32)) = (seg_total ?ss = length ?p)"
  proof -
    have "unat (ucast (of_nat (length ?p) :: u32) :: u64) = length ?p"
      using plen by simp
    then show ?thesis using sum by (metis word_unat_eq_iff)
  qed
  have body: "read_full (length ?p) \<lparr>r_data = ?p @ rest, r_end = e\<rparr> = (Inr ?p, \<lparr>r_data = rest, r_end = e\<rparr>)"
    by (rule read_full_append) simp
  have bnd: "\<not> MaxChunkSize < length ?p" "\<not> MaxChunkSize < seg_total ?ss"
      "\<not> (\<not> ck_Compressed c \<and> seg_total ?ss \<noteq> length ?p)"
    using ok by (auto simp: chunk_ok_def)
  have "ReadChunk \<lparr>r_data = ?h @ concat (map seg_bytes ?ss) @ ?p @ rest, r_end = e\<rparr> =
     (if ?p = [] then (Inr \<lparr>ck_Compressed = ck_Compressed c, ck_Segments = ?ss, ck_Payload = []\<rparr>,
                       \<lparr>r_data = ?p @ rest, r_end = e\<rparr>)
      else (Inr \<lparr>ck_Compressed = ck_Compressed c, ck_Segments = ?ss, ck_Payload = ?p\<rparr>,
            \<lparr>r_data = rest, r_end = e\<rparr>))"
    by (simp only: ReadChunk_def h prod.case sum.case Let_def hd be_word_be plen slen s0 segs sum
        payl p0 body bnd if_False if_True simp_thms split: if_split)
  then show ?thesis
    by (cases c) (simp add: chunk_bytes_header split: if_splits)
qed

lemma ReadChunk_ok:
  assumes "ReadChunk r = (Inr c, r')"
  shows "chunk_ok c"
proof -
  from assms obtain fixed r1 where f: "read_full chunkFixedHeader r = (Inr fixed, r1)"
    by (auto simp: ReadChunk_def split: prod.splits sum.splits)
  let ?pl = "be_word (take 4 (drop 2 fixed)) :: u32" and ?n = "be_word (drop 6 fixed) :: u16"
  from assms f obtain segs r2 where s: "dec_many read_segment (unat ?n) r1 = (Inr segs, r2)"
    and n: "?n \<noteq> 0" and pl: "unat ?pl \<le> MaxChunkSize" and c: "ck_Segments c = segs"
      "ck_Compressed c = (fixed ! 1 AND FlagCompressed \<noteq> 0)"
    and sum: "unat (segments_sum segs) \<le> MaxChunkSize"
      "ck_Compressed c \<or> segments_sum segs = ucast ?pl"
    and p: "length (ck_Payload c) = unat ?pl"
    by (auto simp: ReadChunk_def Let_def not_less split: prod.splits sum.splits if_splits
        dest: read_full_InrD(2))
  have sl: "list_all seg_ok segs \<and> length segs = unat ?n"
    by (rule seg.dec_many_ok [OF s])
  have n2: "length segs \<le> 0xFFFF" "segs \<noteq> []"
    using sl n unsigned_less [where w = ?n and 'a = nat] unat_0_iff [of ?n] by auto
  have "unat (ucast ?pl :: u64) = unat ?pl" by simp
  then show ?thesis
    using sl n2 pl c sum p unat_segments_sum [OF n2(1)] by (auto simp: chunk_ok_def)
qed

interpretation chk: counted_codec chunk_bytes ReadChunk chunk_ok
  by unfold_locales (fact ReadChunk_chunk_bytes ReadChunk_ok)+

section \<open>Properties\<close>

text \<open>
  C21. The data stream is a faithful record of the chunks written to it: a sequence of
  well-formed chunks whose writes all succeeded is read back as exactly that sequence, with
  the bytes behind it untouched. Because the theorem leaves the tail arbitrary, no chunk is a
  prefix of another's encoding and framing cannot slip.
\<close>

theorem chunk_stream_roundtrip:
  assumes ok: "list_all chunk_ok cs"
  shows "(\<forall>c \<in> set cs. WriteChunk c \<lparr>w_out = xs, w_room = None\<rparr>
           = (None, \<lparr>w_out = xs @ chunk_bytes c, w_room = None\<rparr>))
    \<and> dec_many ReadChunk (length cs) \<lparr>r_data = concat (map chunk_bytes cs) @ rest, r_end = e\<rparr>
       = (Inr cs, \<lparr>r_data = rest, r_end = e\<rparr>)"
proof
  show "\<forall>c \<in> set cs. WriteChunk c \<lparr>w_out = xs, w_room = None\<rparr>
           = (None, \<lparr>w_out = xs @ chunk_bytes c, w_room = None\<rparr>)"
    using ok by (auto simp: list_all_iff WriteChunk_def chunk_ok_def not_less stream_simps)
qed (rule chk.dec_many_enc [OF ok])

definition sample_chunk :: Chunk where
  "sample_chunk = \<lparr>ck_Compressed = False,
     ck_Segments = [\<lparr>sg_FileIndex = 3, sg_Length = 2, sg_EOF = True, sg_Skip = False, sg_Restart = True,
                     sg_Changed = False, sg_RootHash = replicate 32 9\<rparr>,
                    \<lparr>sg_FileIndex = 4, sg_Length = 0, sg_EOF = False, sg_Skip = True, sg_Restart = False,
                     sg_Changed = False, sg_RootHash = zero_hash\<rparr>],
     ck_Payload = [1, 2]\<rparr>"

lemma sample_chunk_ok: "chunk_ok sample_chunk"
  by (simp add: sample_chunk_def chunk_ok_def seg_ok_def seg_validate_def MaxChunkSize_def)

theorem chunk_stream_roundtrip_witness:
  "dec_many ReadChunk 2 \<lparr>r_data = concat (map chunk_bytes [sample_chunk, sample_chunk]) @ [5], r_end = IoEOF\<rparr>
     = (Inr [sample_chunk, sample_chunk], \<lparr>r_data = [5], r_end = IoEOF\<rparr>)"
  using chunk_stream_roundtrip [of "[sample_chunk, sample_chunk]" "[]" "[5]" IoEOF] sample_chunk_ok
  by (simp add: numeral_2_eq_2 del: dec_many.simps)

text \<open>
  C22. Nothing malformed gets past the chunk reader: whatever bytes a peer sends, an accepted
  chunk has between 1 and 65535 segments, every one with an admissible combination of flags,
  a payload and a segment length sum of at most 1 MiB, and, when it is not compressed,
  lengths that add up to the payload exactly, so the slices \<open>plain[off:off+len]\<close> the receiver
  takes are always in range.
\<close>

theorem chunk_read_sound:
  assumes "ReadChunk r = (Inr c, r')"
  shows "0 < length (ck_Segments c) \<and> length (ck_Segments c) \<le> 0xFFFF
    \<and> list_all (\<lambda>s. seg_validate s = None) (ck_Segments c)
    \<and> length (ck_Payload c) \<le> MaxChunkSize \<and> seg_total (ck_Segments c) \<le> MaxChunkSize
    \<and> unat (SegmentsSum c) = seg_total (ck_Segments c)
    \<and> (ck_Compressed c \<or> seg_total (ck_Segments c) = length (ck_Payload c))"
  using ReadChunk_ok [OF assms]
  by (auto simp: chunk_ok_def seg_ok_def list_all_iff SegmentsSum_def unat_segments_sum)

theorem chunk_read_sound_witness:
  "0 < length (ck_Segments sample_chunk) \<and> seg_total (ck_Segments sample_chunk) \<le> MaxChunkSize"
proof -
  have "ReadChunk \<lparr>r_data = chunk_bytes sample_chunk @ [], r_end = IoEOF\<rparr>
      = (Inr sample_chunk, \<lparr>r_data = [], r_end = IoEOF\<rparr>)"
    by (rule ReadChunk_chunk_bytes [OF sample_chunk_ok])
  from chunk_read_sound [OF this] show ?thesis by blast
qed

end
