(* ===== verification/File_Hash.thy ===== *)
theory File_Hash
  imports Wire_Proto
begin

text \<open>
  \<open>internal/transfer/filehash.go\<close>: the block-tree hash of a file. Its two primitives come from
  the blake3 module, which is not part of the repository: \<open>bh\<close> is the plain hash of a block
  and \<open>fk\<close> the derive-key hash of the root context over everything written to it. The worker
  goroutines only decide when a block's slot is filled, and every reader waits for them, so a
  slot holds its hash from the start here; the buffer pool is not observable.
\<close>

definition hashBlockSize :: nat where "hashBlockSize = MaxChunkSize"

lemma hashBlockSize_pos [simp]: "0 < hashBlockSize" "hashBlockSize \<noteq> 0"
  by (simp_all add: hashBlockSize_def)

definition foldRoot :: "(bytes \<Rightarrow> bytes) \<Rightarrow> bytes list \<Rightarrow> u64 \<Rightarrow> bytes" where
  "foldRoot fk blocks n = fk (concat blocks @ le64 n)"

record fileHasher =
  h_results :: "bytes list"
  h_cur :: "bytes option"
  h_n :: u64

definition newFileHasher :: fileHasher where
  "newFileHasher = \<lparr>h_results = [], h_cur = None, h_n = 0\<rparr>"

definition fh_seed :: "bytes list \<Rightarrow> fileHasher \<Rightarrow> fileHasher" where
  "fh_seed blocks h =
     h\<lparr>h_results := h_results h @ blocks, h_n := of_nat (length blocks) * of_nat hashBlockSize\<rparr>"

definition fh_dispatch :: "(bytes \<Rightarrow> bytes) \<Rightarrow> bytes \<Rightarrow> fileHasher \<Rightarrow> fileHasher" where
  "fh_dispatch bh b h = h\<lparr>h_results := h_results h @ [bh b]\<rparr>"

definition cur_bytes :: "fileHasher \<Rightarrow> bytes" where
  "cur_bytes h = (case h_cur h of None \<Rightarrow> [] | Some c \<Rightarrow> c)"

text \<open>
  One turn of \<open>Write\<close>'s loop per equation. A current block longer than a full one would make
  Go's slice expression panic; \<open>hasher_ok\<close> below, which every operation keeps, excludes it.
\<close>

function fh_Write :: "(bytes \<Rightarrow> bytes) \<Rightarrow> bytes \<Rightarrow> fileHasher \<Rightarrow> fileHasher" where
  "fh_Write bh p h =
     (if p = [] \<or> hashBlockSize < length (cur_bytes h) then h
      else
        let k = min (length p) (hashBlockSize - length (cur_bytes h));
            cur = cur_bytes h @ take k p;
            h1 = h\<lparr>h_n := h_n h + of_nat k\<rparr>
        in if length cur = hashBlockSize
           then fh_Write bh (drop k p) ((fh_dispatch bh cur h1)\<lparr>h_cur := None\<rparr>)
           else fh_Write bh (drop k p) (h1\<lparr>h_cur := Some cur\<rparr>))"
  by pat_completeness auto
termination
proof (relation "measure (\<lambda>(bh, p, h). 2 * length p + (if length (cur_bytes h) = hashBlockSize then 1 else 0))",
    goal_cases)
  case 1 then show ?case by simp
next
  case (2 bh p h k cur h1)
  then show ?case by (auto simp: cur_bytes_def min_def)
next
  case (3 bh p h k cur h1)
  then show ?case by (auto simp: cur_bytes_def min_def)
qed

declare fh_Write.simps [simp del]

definition fh_addBlock :: "(bytes \<Rightarrow> bytes) \<Rightarrow> bytes \<Rightarrow> fileHasher \<Rightarrow> fileHasher" where
  "fh_addBlock bh b h = fh_dispatch bh b (h\<lparr>h_n := h_n h + of_nat (length b)\<rparr>)"

definition fh_blocks :: "(bytes \<Rightarrow> bytes) \<Rightarrow> fileHasher \<Rightarrow> bytes list" where
  "fh_blocks bh h =
     (case h_cur h of None \<Rightarrow> h_results h | Some c \<Rightarrow> h_results (fh_dispatch bh c h))"

definition fh_Sum :: "(bytes \<Rightarrow> bytes) \<Rightarrow> (bytes \<Rightarrow> bytes) \<Rightarrow> fileHasher \<Rightarrow> bytes" where
  "fh_Sum bh fk h = foldRoot fk (fh_blocks bh h) (h_n h)"

text \<open>
  \<open>hashBlocks\<close> reads the first \<open>n\<close> bytes of an open file, whose bytes are \<open>f\<close>; \<open>None\<close> is the
  short read that ends it with an error.
\<close>

function hashBlocks_loop ::
  "(bytes \<Rightarrow> bytes) \<Rightarrow> bytes \<Rightarrow> nat \<Rightarrow> nat \<Rightarrow> fileHasher \<Rightarrow> bytes list option" where
  "hashBlocks_loop bh f n d h =
     (if d < n then
        let want = min hashBlockSize (n - d); b = take want (drop d f)
        in if length b < want then None
           else hashBlocks_loop bh f n (d + length b) (fh_addBlock bh b h)
      else Some (fh_blocks bh h))"
  by pat_completeness auto
termination
  by (relation "measure (\<lambda>(bh, f, n, d, h). n - d)")
    (auto simp: min_def not_less intro!: diff_less_mono2)

declare hashBlocks_loop.simps [simp del]

definition hashBlocks :: "(bytes \<Rightarrow> bytes) \<Rightarrow> bytes \<Rightarrow> nat \<Rightarrow> bytes list option" where
  "hashBlocks bh f n = hashBlocks_loop bh f n 0 newFileHasher"

text \<open>\<open>hashFileRoot\<close>: \<open>None\<close> for a path that cannot be opened, else the file's bytes.\<close>

definition hashFileRoot :: "(bytes \<Rightarrow> bytes) \<Rightarrow> (bytes \<Rightarrow> bytes) \<Rightarrow> bytes option \<Rightarrow> bytes option" where
  "hashFileRoot bh fk file =
     (case file of
        None \<Rightarrow> None
      | Some f \<Rightarrow>
          (case hashBlocks bh f (length f) of
             None \<Rightarrow> None
           | Some blocks \<Rightarrow> Some (foldRoot fk blocks (of_nat (length f)))))"

definition bytesRoot :: "(bytes \<Rightarrow> bytes) \<Rightarrow> (bytes \<Rightarrow> bytes) \<Rightarrow> bytes \<Rightarrow> bytes" where
  "bytesRoot bh fk b = fh_Sum bh fk (fh_Write bh b newFileHasher)"

section \<open>The specification: the root of a byte string\<close>

text \<open>The comment at the head of the file: the fold over the hashes of the blocks.\<close>

function blocks_of :: "bytes \<Rightarrow> bytes list" where
  "blocks_of xs = (if xs = [] then [] else take hashBlockSize xs # blocks_of (drop hashBlockSize xs))"
  by pat_completeness auto
termination
  by (relation "measure length") auto

declare blocks_of.simps [simp del]

definition tree_root :: "(bytes \<Rightarrow> bytes) \<Rightarrow> (bytes \<Rightarrow> bytes) \<Rightarrow> bytes \<Rightarrow> bytes" where
  "tree_root bh fk xs = foldRoot fk (map bh (blocks_of xs)) (of_nat (length xs))"

lemma blocks_of_Nil [simp]: "blocks_of [] = []"
  by (simp add: blocks_of.simps)

lemma blocks_of_short: "xs \<noteq> [] \<Longrightarrow> length xs \<le> hashBlockSize \<Longrightarrow> blocks_of xs = [xs]"
  by (subst blocks_of.simps) simp

lemma blocks_of_append:
  "hashBlockSize dvd length xs \<Longrightarrow> blocks_of (xs @ ys) = blocks_of xs @ blocks_of ys"
proof (induction xs rule: blocks_of.induct)
  case (1 xs)
  show ?case
  proof (cases "xs = []")
    case False
    with 1(2) have le: "hashBlockSize \<le> length xs" by (simp add: dvd_imp_le)
    with 1 False have "blocks_of (drop hashBlockSize xs @ ys) = blocks_of (drop hashBlockSize xs) @ blocks_of ys"
      by (simp add: dvd_diff_nat)
    with le False show ?thesis
      by (subst (1 2) blocks_of.simps) simp
  qed simp
qed

lemma concat_blocks_of: "concat (blocks_of xs) = xs"
proof (induction xs rule: blocks_of.induct)
  case (1 xs)
  then show ?case by (cases "xs = []") (simp_all add: blocks_of.simps [of xs])
qed

text \<open>The part of a byte string that fills whole blocks, and the rest.\<close>

definition whole :: "bytes \<Rightarrow> bytes" where
  "whole xs = take (length xs div hashBlockSize * hashBlockSize) xs"

definition partial :: "bytes \<Rightarrow> bytes" where
  "partial xs = drop (length xs div hashBlockSize * hashBlockSize) xs"

lemma whole_partial [simp]: "whole xs @ partial xs = xs"
  by (simp add: whole_def partial_def)

lemma length_whole: "length (whole xs) = length xs div hashBlockSize * hashBlockSize"
  by (simp add: whole_def div_times_less_eq_dividend)

lemma length_partial: "length (partial xs) = length xs mod hashBlockSize"
  by (simp add: partial_def minus_div_mult_eq_mod)

lemma whole_dvd [simp]: "hashBlockSize dvd length (whole xs)"
  by (simp add: length_whole)

lemma length_partial_less [simp]: "length (partial xs) < hashBlockSize"
  by (simp add: length_partial)

lemma whole_partial_unique:
  assumes "xs = w @ p" "hashBlockSize dvd length w" "length p < hashBlockSize"
  shows "whole xs = w" "partial xs = p"
proof -
  from assms(2) obtain k where "length w = hashBlockSize * k" by (auto simp: dvd_def)
  then have "length xs div hashBlockSize * hashBlockSize = length w"
    using assms(1,3) by simp
  then show "whole xs = w" "partial xs = p"
    using assms(1) by (simp_all add: whole_def partial_def)
qed

lemma blocks_of_whole:
  "blocks_of xs = blocks_of (whole xs) @ (if partial xs = [] then [] else [partial xs])"
proof -
  have "blocks_of (whole xs @ partial xs) = blocks_of (whole xs) @ blocks_of (partial xs)"
    by (rule blocks_of_append) simp
  then show ?thesis
    using blocks_of_short [of "partial xs"] less_imp_le [OF length_partial_less [of xs]] by auto
qed

section \<open>The hasher's interface\<close>

text \<open>
  What the transfer engine relies on: the hasher absorbs bytes in order and its sum is the root
  of everything absorbed; a resumable one can start from the block hashes of an aligned prefix.
\<close>

locale byte_hasher =
  fixes rep :: "'h \<Rightarrow> bytes \<Rightarrow> bool"
    and fresh :: 'h
    and absorb :: "bytes \<Rightarrow> 'h \<Rightarrow> 'h"
    and digest :: "'h \<Rightarrow> bytes"
    and rootf :: "bytes \<Rightarrow> bytes"
  assumes rep_new: "rep fresh []"
    and rep_write: "rep h xs \<Longrightarrow> rep (absorb p h) (xs @ p)"
    and sum_rep: "rep h xs \<Longrightarrow> digest h = rootf xs"
begin

lemma rep_writes: "rep h xs \<Longrightarrow> rep (fold absorb ps h) (xs @ concat ps)"
proof (induction ps arbitrary: h xs)
  case (Cons p ps)
  from Cons.IH [OF rep_write [OF Cons.prems, of p]] show ?case by simp
qed simp

lemma sum_writes: "digest (fold absorb ps fresh) = rootf (concat ps)"
  using sum_rep [OF rep_writes [OF rep_new, of ps]] by simp

end

locale resumable_hasher = byte_hasher +
  fixes prefix_hashes :: "bytes \<Rightarrow> bytes list option"
    and seed :: "bytes list \<Rightarrow> 'a"
  assumes rep_seed: "prefix_hashes pre = Some bs \<Longrightarrow> rep (seed bs) pre"
begin

lemma sum_resumed:
  "prefix_hashes pre = Some bs \<Longrightarrow> digest (fold absorb ps (seed bs)) = rootf (pre @ concat ps)"
  using sum_rep [OF rep_writes [OF rep_seed, of pre bs ps]] by simp

end

section \<open>The program's hasher meets it\<close>

definition hasher_rep :: "(bytes \<Rightarrow> bytes) \<Rightarrow> fileHasher \<Rightarrow> bytes \<Rightarrow> bool" where
  "hasher_rep bh h xs \<longleftrightarrow>
     h_results h = map bh (blocks_of (whole xs)) \<and>
     h_cur h = (if partial xs = [] then None else Some (partial xs)) \<and>
     h_n h = of_nat (length xs)"

definition hasher_ok :: "fileHasher \<Rightarrow> bool" where
  "hasher_ok h \<longleftrightarrow> length (cur_bytes h) < hashBlockSize"

lemma whole_Nil [simp]: "whole [] = []" and partial_Nil [simp]: "partial [] = []"
  by (simp_all add: whole_def partial_def)

lemma hasher_rep_new: "hasher_rep bh newFileHasher []"
  by (simp add: hasher_rep_def newFileHasher_def)

lemma hasher_rep_cur: "hasher_rep bh h xs \<Longrightarrow> cur_bytes h = partial xs"
  by (auto simp: hasher_rep_def cur_bytes_def)

lemma hasher_rep_ok: "hasher_rep bh h xs \<Longrightarrow> hasher_ok h"
  by (simp add: hasher_ok_def hasher_rep_cur)

lemma hasher_rep_Write: "hasher_rep bh h xs \<Longrightarrow> hasher_rep bh (fh_Write bh p h) (xs @ p)"
proof (induction bh p h arbitrary: xs rule: fh_Write.induct)
  case (1 bh p h)
  note rep = 1(3)
  let ?c = "partial xs"
  have cur: "cur_bytes h = ?c" by (rule hasher_rep_cur [OF rep])
  show ?case
  proof (cases "p = []")
    case False
    let ?k = "min (length p) (hashBlockSize - length ?c)"
    let ?cur = "?c @ take ?k p"
    have k: "?k \<le> length p" "length ?c + ?k \<le> hashBlockSize"
      using length_partial_less [of xs] by linarith+
    have split: "xs @ take ?k p = whole xs @ ?cur" by simp
    have go: "\<not> (p = [] \<or> hashBlockSize < length (cur_bytes h))"
      using False less_imp_le [OF length_partial_less [of xs]] by (simp add: cur not_less)
    have n: "h_n h + of_nat ?k = (of_nat (length (xs @ take ?k p)) :: u64)"
      using rep k by (simp add: hasher_rep_def)
    show ?thesis
    proof (cases "length ?cur = hashBlockSize")
      case True
      let ?h = "(fh_dispatch bh ?cur (h\<lparr>h_n := h_n h + of_nat ?k\<rparr>))\<lparr>h_cur := None\<rparr>"
      have w: "whole (xs @ take ?k p) = whole xs @ ?cur" "partial (xs @ take ?k p) = []"
        by (rule whole_partial_unique [of _ "whole xs @ ?cur" "[]"], use True split in simp_all)+
      have ne: "?cur \<noteq> []"
      proof
        assume "?cur = []"
        with True have "hashBlockSize = 0" by simp
        then show False by simp
      qed
      have "blocks_of ?cur = [?cur]"
        by (rule blocks_of_short [OF ne eq_imp_le [OF True]])
      then have "blocks_of (whole xs @ ?cur) = blocks_of (whole xs) @ [?cur]"
        by (simp only: blocks_of_append [OF whole_dvd])
      then have r: "hasher_rep bh ?h (xs @ take ?k p)"
        using rep n w by (simp add: hasher_rep_def fh_dispatch_def)
      have "hasher_rep bh (fh_Write bh (drop ?k p) ?h) ((xs @ take ?k p) @ drop ?k p)"
        by (rule 1(1) [OF go refl refl refl, unfolded cur, OF True r])
      moreover have "fh_Write bh p h = fh_Write bh (drop ?k p) ?h"
        using go True by (subst fh_Write.simps) (simp add: cur Let_def)
      ultimately show ?thesis by simp
    next
      case nf: False
      let ?h = "h\<lparr>h_n := h_n h + of_nat ?k, h_cur := Some ?cur\<rparr>"
      have len: "length ?cur < hashBlockSize" using nf k by simp
      note w = whole_partial_unique [OF split whole_dvd len]
      have "0 < ?k" using False by simp
      then have "?cur \<noteq> []" using False by simp
      then have r: "hasher_rep bh ?h (xs @ take ?k p)"
        using rep n w by (simp add: hasher_rep_def)
      have "hasher_rep bh (fh_Write bh (drop ?k p) ?h) ((xs @ take ?k p) @ drop ?k p)"
        by (rule 1(2) [OF go refl refl refl, unfolded cur, OF nf r])
      moreover have "fh_Write bh p h = fh_Write bh (drop ?k p) ?h"
        using go nf by (subst fh_Write.simps) (simp add: cur Let_def)
      ultimately show ?thesis by simp
    qed
  qed (simp add: rep fh_Write.simps [of bh "[]"])
qed

lemma fh_blocks_rep: "hasher_rep bh h xs \<Longrightarrow> fh_blocks bh h = map bh (blocks_of xs)"
  by (subst blocks_of_whole) (auto simp: fh_blocks_def hasher_rep_def fh_dispatch_def)

lemma fh_Sum_rep: "hasher_rep bh h xs \<Longrightarrow> fh_Sum bh fk h = tree_root bh fk xs"
  by (simp add: fh_Sum_def tree_root_def fh_blocks_rep) (simp add: hasher_rep_def)

text \<open>Reading a file block by block gives the hashes of its blocks.\<close>

lemma blocks_of_step:
  "d < length xs \<Longrightarrow> blocks_of (drop d xs) =
     take hashBlockSize (drop d xs) # blocks_of (drop (d + hashBlockSize) xs)"
  by (subst blocks_of.simps) (simp add: add.commute)

lemma fh_blocks_addBlock:
  "h_cur h = None \<Longrightarrow> fh_blocks bh (fh_addBlock bh b h) = fh_blocks bh h @ [bh b]"
  "h_cur h = None \<Longrightarrow> h_cur (fh_addBlock bh b h) = None"
  by (simp_all add: fh_blocks_def fh_addBlock_def fh_dispatch_def)

lemma hashBlocks_loop_blocks:
  assumes "n \<le> length f" "d \<le> n" "h_cur h = None"
  shows "hashBlocks_loop bh f n d h = Some (fh_blocks bh h @ map bh (blocks_of (drop d (take n f))))"
  using assms
proof (induction bh f n d h rule: hashBlocks_loop.induct)
  case (1 bh f n d h)
  show ?case
  proof (cases "d < n")
    case True
    let ?k = "min hashBlockSize (n - d)"
    let ?b = "take ?k (drop d f)"
    have len: "length ?b = ?k" using 1(2) True by simp
    have b: "?b = take hashBlockSize (drop d (take n f))"
      by (simp add: drop_take min.commute)
    have rest: "drop (d + ?k) (take n f) = drop (d + hashBlockSize) (take n f)"
    proof (cases "hashBlockSize \<le> n - d")
      case False
      then have "length (take n f) \<le> d + ?k" "length (take n f) \<le> d + hashBlockSize" by auto
      then show ?thesis by (simp only: drop_all)
    qed (simp add: min_def)
    have k: "\<not> length ?b < ?k" "d + length ?b \<le> n" using len True by simp_all
    have "hashBlocks_loop bh f n d h = hashBlocks_loop bh f n (d + length ?b) (fh_addBlock bh ?b h)"
      by (subst hashBlocks_loop.simps) (simp only: True k Let_def if_True if_False)
    also have "\<dots> = Some (fh_blocks bh (fh_addBlock bh ?b h) @ map bh (blocks_of (drop (d + length ?b) (take n f))))"
      by (rule 1(1) [OF True refl refl k(1) 1(2) k(2)]) (simp add: fh_blocks_addBlock 1(4))
    also have "\<dots> = Some (fh_blocks bh h @ map bh (?b # blocks_of (drop (d + hashBlockSize) (take n f))))"
      by (simp only: fh_blocks_addBlock [OF 1(4)] len rest) simp
    also have "?b # blocks_of (drop (d + hashBlockSize) (take n f)) = blocks_of (drop d (take n f))"
      unfolding b by (rule blocks_of_step [symmetric]) (use True 1(2) in simp)
    finally show ?thesis .
  next
    case False
    with 1 show ?thesis by (subst hashBlocks_loop.simps) simp
  qed
qed

lemma hashBlocks_blocks: "n \<le> length f \<Longrightarrow> hashBlocks bh f n = Some (map bh (blocks_of (take n f)))"
  by (simp add: hashBlocks_def hashBlocks_loop_blocks newFileHasher_def fh_blocks_def)

lemma hashBlocks_loop_short:
  assumes "length f < n" "d \<le> length f"
  shows "hashBlocks_loop bh f n d h = None"
  using assms
proof (induction bh f n d h rule: hashBlocks_loop.induct)
  case (1 bh f n d h)
  then show ?case by (subst hashBlocks_loop.simps) (auto simp: Let_def min_def)
qed

lemma hashBlocks_short: "length f < n \<Longrightarrow> hashBlocks bh f n = None"
  by (simp add: hashBlocks_def hashBlocks_loop_short)

lemma hashFileRoot_tree: "hashFileRoot bh fk (Some f) = Some (tree_root bh fk f)"
  by (simp add: hashFileRoot_def hashBlocks_blocks tree_root_def)

text \<open>The block hashes of an aligned prefix, as both peers compute them for a resume.\<close>

definition aligned_hashes :: "(bytes \<Rightarrow> bytes) \<Rightarrow> bytes \<Rightarrow> bytes list option" where
  "aligned_hashes bh pre =
     (if length pre mod hashBlockSize = 0 then hashBlocks bh pre (length pre) else None)"

lemma length_blocks_of_aligned:
  "hashBlockSize dvd length xs \<Longrightarrow> length (blocks_of xs) * hashBlockSize = length xs"
proof (induction xs rule: blocks_of.induct)
  case (1 xs)
  show ?case
  proof (cases "xs = []")
    case False
    with 1(2) have "hashBlockSize \<le> length xs" by (simp add: dvd_imp_le)
    with 1 False show ?thesis by (subst blocks_of.simps) (simp add: dvd_diff_nat)
  qed simp
qed

lemma hasher_rep_seed:
  assumes "aligned_hashes bh pre = Some bs"
  shows "hasher_rep bh (fh_seed bs newFileHasher) pre"
proof -
  from assms have d: "hashBlockSize dvd length pre" and bs: "bs = map bh (blocks_of pre)"
    by (auto simp: aligned_hashes_def hashBlocks_blocks mod_eq_0_iff_dvd split: if_splits)
  have "whole pre = pre" "partial pre = []"
    by (rule whole_partial_unique [of _ pre "[]"], use d in simp_all)+
  then show ?thesis
    using length_blocks_of_aligned [OF d]
    by (simp add: hasher_rep_def fh_seed_def newFileHasher_def bs flip: of_nat_mult)
qed

interpretation fh: resumable_hasher "hasher_rep bh" newFileHasher "fh_Write bh" "fh_Sum bh fk"
    "tree_root bh fk" "aligned_hashes bh" "\<lambda>bs. fh_seed bs newFileHasher"
  for bh fk
  by unfold_locales (fact hasher_rep_new, erule hasher_rep_Write, erule fh_Sum_rep, erule hasher_rep_seed)

section \<open>Properties\<close>

text \<open>
  C19. The root of a file does not depend on how its bytes arrive: however the stream is cut
  into \<open>Write\<close> calls, the incremental, block-parallel hasher gives the root that
  \<open>hashFileRoot\<close> computes from the finished file on disk, and the root of the specification.
\<close>

theorem hash_write_split:
  "fh_Sum bh fk (fold (fh_Write bh) ps newFileHasher) = tree_root bh fk (concat ps)
   \<and> hashFileRoot bh fk (Some (concat ps)) = Some (tree_root bh fk (concat ps))
   \<and> bytesRoot bh fk (concat ps) = tree_root bh fk (concat ps)"
proof -
  have "bytesRoot bh fk (concat ps) = tree_root bh fk (concat ps)"
    using fh.sum_writes [where bh = bh and ps = "[concat ps]"] by (simp add: bytesRoot_def)
  then show ?thesis by (simp add: fh.sum_writes hashFileRoot_tree)
qed

text \<open>
  C20. Resuming does not change the root: a hasher seeded with the block hashes of the first
  \<open>k\<close> blocks that are already on disk, and then fed the remaining bytes in any pieces, ends
  with the root of the whole file; and the prefix root the receiver offers is the root of
  exactly those bytes.
\<close>

theorem hash_resume:
  assumes k: "k * hashBlockSize \<le> length f"
    and bs: "hashBlocks bh f (k * hashBlockSize) = Some bs"
    and ps: "concat ps = drop (k * hashBlockSize) f"
  shows "fh_Sum bh fk (fold (fh_Write bh) ps (fh_seed bs newFileHasher)) = tree_root bh fk f
    \<and> foldRoot fk bs (of_nat (k * hashBlockSize)) = tree_root bh fk (take (k * hashBlockSize) f)"
proof -
  let ?pre = "take (k * hashBlockSize) f"
  have b: "bs = map bh (blocks_of ?pre)"
    using bs hashBlocks_blocks [OF k, of bh] by simp
  then have "aligned_hashes bh ?pre = Some bs"
    using k by (simp add: aligned_hashes_def hashBlocks_blocks min_def)
  from fh.sum_resumed [OF this, of fk ps] show ?thesis
    using k by (simp add: ps b tree_root_def min_def)
qed

theorem hash_resume_witness:
  "fh_Sum id id (fold (fh_Write id) [[1], [2]] (fh_seed [] newFileHasher)) = tree_root id id [1, 2]"
proof -
  have "hashBlocks id [1, 2] (0 * hashBlockSize) = Some []"
    by (simp add: hashBlocks_blocks)
  from hash_resume [OF _ this, of "[[1], [2]]" id] show ?thesis by simp
qed

end
