(* ===== verification/Chunk_Packer.thy ===== *)
theory Chunk_Packer
  imports Wire_Chunk
begin

text \<open>
  \<open>internal/transfer/pack.go\<close>: the sender's chunk packer and the decoding of a chunk's payload.
  The packer runs in two goroutines. The first fills the buffer and hands full chunks over a
  channel; \<open>pp_out\<close> is everything handed over, in order. The second compresses and writes them
  (\<open>write_turn\<close>). The first sees the second's error only through \<open>failed\<close>, at a moment the
  scheduler chooses: the \<open>k\<close>-th call reads \<open>obs k\<close>, for an arbitrary \<open>obs\<close>. The zstd encoder and
  decoder are not part of the repository and are the parameters \<open>zenc\<close> and \<open>zdec\<close>.
\<close>

section \<open>Filling chunks\<close>

record packed =
  pk_segs :: "Segment list"
  pk_buf :: bytes

record chunkPacker =
  pp_buf :: bytes
  pp_segs :: "Segment list"
  pp_restart :: "u32 set"
  pp_out :: "packed list"
  pp_ticks :: nat

type_synonym observer = "nat \<Rightarrow> goerr option"

definition newChunkPacker :: chunkPacker where
  "newChunkPacker = \<lparr>pp_buf = [], pp_segs = [], pp_restart = {}, pp_out = [], pp_ticks = 0\<rparr>"

definition failed :: "observer \<Rightarrow> chunkPacker \<Rightarrow> goerr option \<times> chunkPacker" where
  "failed obs p = (obs (pp_ticks p), p\<lparr>pp_ticks := Suc (pp_ticks p)\<rparr>)"

definition maxSegmentsPerChunk :: nat where "maxSegmentsPerChunk = 4096"

definition needNewSegment :: "u32 \<Rightarrow> chunkPacker \<Rightarrow> bool" where
  "needNewSegment index p \<longleftrightarrow>
     pp_segs p = [] \<or> sg_FileIndex (last (pp_segs p)) \<noteq> index \<or> sg_EOF (last (pp_segs p))"

definition markRestart :: "u32 \<Rightarrow> chunkPacker \<Rightarrow> chunkPacker" where
  "markRestart index p = p\<lparr>pp_restart := insert index (pp_restart p)\<rparr>"

definition flush :: "observer \<Rightarrow> chunkPacker \<Rightarrow> goerr option \<times> chunkPacker" where
  "flush obs p =
     (if pp_segs p = [] then failed obs p
      else failed obs (p\<lparr>pp_out := pp_out p @ [\<lparr>pk_segs = pp_segs p, pk_buf = pp_buf p\<rparr>],
                        pp_buf := [], pp_segs := []\<rparr>))"

definition new_segment :: "u32 \<Rightarrow> Segment" where
  "new_segment index = \<lparr>sg_FileIndex = index, sg_Length = 0, sg_EOF = False, sg_Skip = False,
     sg_Restart = False, sg_Changed = False, sg_RootHash = zero_hash\<rparr>"

text \<open>One turn of \<open>appendBytes\<close>'s loop: the error or the bytes left, in two halves.\<close>

definition open_segment :: "u32 \<Rightarrow> chunkPacker \<Rightarrow> chunkPacker" where
  "open_segment index p =
     (if needNewSegment index p then
        if index \<in> pp_restart p
        then p\<lparr>pp_segs := pp_segs p @ [(new_segment index)\<lparr>sg_Restart := True\<rparr>],
               pp_restart := pp_restart p - {index}\<rparr>
        else p\<lparr>pp_segs := pp_segs p @ [new_segment index]\<rparr>
      else p)"

definition put_bytes :: "bytes \<Rightarrow> chunkPacker \<Rightarrow> chunkPacker" where
  "put_bytes d p =
     p\<lparr>pp_buf := pp_buf p @ d,
       pp_segs := butlast (pp_segs p) @
         [(last (pp_segs p))\<lparr>sg_Length := sg_Length (last (pp_segs p)) + of_nat (length d)\<rparr>]\<rparr>"

definition append_turn ::
  "observer \<Rightarrow> u32 \<Rightarrow> bytes \<Rightarrow> chunkPacker \<Rightarrow> (goerr option \<times> chunkPacker) \<times> bytes" where
  "append_turn obs index data p =
     (case (if MaxChunkSize - length (pp_buf p) = 0 \<or>
               (needNewSegment index p \<and> maxSegmentsPerChunk \<le> length (pp_segs p))
            then (flush obs p, MaxChunkSize)
            else ((None, p), MaxChunkSize - length (pp_buf p))) of
        ((Some e, p1), space) \<Rightarrow> ((Some e, p1), data)
      | ((None, p1), space) \<Rightarrow>
          let k = min space (length data); p2 = put_bytes (take k data) (open_segment index p1)
          in (if length (pp_buf p2) = MaxChunkSize then flush obs p2 else (None, p2), drop k data))"

lemma append_turn_shorter:
  "data \<noteq> [] \<Longrightarrow> append_turn obs index data p = ((None, p'), rest) \<Longrightarrow> length rest < length data"
  by (auto simp: append_turn_def Let_def MaxChunkSize_def split: if_splits prod.splits option.splits)

function append_loop ::
  "observer \<Rightarrow> u32 \<Rightarrow> bytes \<Rightarrow> chunkPacker \<Rightarrow> goerr option \<times> chunkPacker" where
  "append_loop obs index data p =
     (if data = [] then (None, p)
      else (case append_turn obs index data p of
              ((Some e, p1), _) \<Rightarrow> (Some e, p1)
            | ((None, p1), rest) \<Rightarrow> append_loop obs index rest p1))"
  by pat_completeness auto
termination
  by (relation "measure (\<lambda>(obs, index, data, p). length data)")
    (auto dest: append_turn_shorter [OF _ sym])

declare append_loop.simps [simp del]

definition appendBytes ::
  "observer \<Rightarrow> u32 \<Rightarrow> bytes \<Rightarrow> chunkPacker \<Rightarrow> goerr option \<times> chunkPacker" where
  "appendBytes obs index data p =
     (case failed obs p of
        (Some e, p1) \<Rightarrow> (Some e, p1)
      | (None, p1) \<Rightarrow> append_loop obs index data p1)"

definition addMarker :: "observer \<Rightarrow> Segment \<Rightarrow> chunkPacker \<Rightarrow> goerr option \<times> chunkPacker" where
  "addMarker obs seg p =
     (case failed obs p of
        (Some e, p1) \<Rightarrow> (Some e, p1)
      | (None, p1) \<Rightarrow>
          (case (if maxSegmentsPerChunk \<le> length (pp_segs p1) then flush obs p1 else (None, p1)) of
             (Some e, p2) \<Rightarrow> (Some e, p2)
           | (None, p2) \<Rightarrow> (None, p2\<lparr>pp_segs := pp_segs p2 @ [seg]\<rparr>)))"

definition endFile ::
  "observer \<Rightarrow> u32 \<Rightarrow> bytes \<Rightarrow> bool \<Rightarrow> chunkPacker \<Rightarrow> goerr option \<times> chunkPacker" where
  "endFile obs index root changed p =
     (if pp_segs p \<noteq> [] \<and> sg_FileIndex (last (pp_segs p)) = index \<and> \<not> sg_EOF (last (pp_segs p))
      then (None, p\<lparr>pp_segs := butlast (pp_segs p) @
              [(last (pp_segs p))\<lparr>sg_EOF := True, sg_Changed := changed, sg_RootHash := root\<rparr>]\<rparr>)
      else addMarker obs
             ((new_segment index)\<lparr>sg_EOF := True, sg_Changed := changed, sg_RootHash := root\<rparr>) p)"

definition skipFile :: "observer \<Rightarrow> u32 \<Rightarrow> chunkPacker \<Rightarrow> goerr option \<times> chunkPacker" where
  "skipFile obs index p =
     addMarker obs ((new_segment index)\<lparr>sg_Skip := True\<rparr>) (p\<lparr>pp_restart := pp_restart p - {index}\<rparr>)"

section \<open>Compressing and writing chunks\<close>

record packWriter =
  pw_w :: writer
  pw_err :: "goerr option"
  pw_skip :: nat
  pw_backoff :: nat

definition newPackWriter :: "writer \<Rightarrow> packWriter" where
  "newPackWriter w = \<lparr>pw_w = w, pw_err = None, pw_skip = 0, pw_backoff = 0\<rparr>"

definition compress_choice ::
  "(bytes \<Rightarrow> bytes) \<Rightarrow> bytes \<Rightarrow> packWriter \<Rightarrow> (bool \<times> bytes) \<times> packWriter" where
  "compress_choice zenc buf s =
     (if buf = [] then ((False, buf), s)
      else if 0 < pw_skip s then ((False, buf), s\<lparr>pw_skip := pw_skip s - 1\<rparr>)
      else let z = zenc buf in
           if length z + length z div 10 < length buf
           then ((True, z), s\<lparr>pw_backoff := 0\<rparr>)
           else let b = min (max 1 (pw_backoff s * 2)) 64
                in ((False, buf), s\<lparr>pw_backoff := b, pw_skip := b\<rparr>))"

definition write_turn :: "(bytes \<Rightarrow> bytes) \<Rightarrow> packed \<Rightarrow> packWriter \<Rightarrow> packWriter" where
  "write_turn zenc c s =
     (if pw_err s \<noteq> None then s
      else (case compress_choice zenc (pk_buf c) s of
              ((compressed, payload), s1) \<Rightarrow>
                (case WriteChunk \<lparr>ck_Compressed = compressed, ck_Segments = pk_segs c,
                                  ck_Payload = payload\<rparr> (pw_w s1) of
                   (None, w1) \<Rightarrow> s1\<lparr>pw_w := w1\<rparr>
                 | (Some e, w1) \<Rightarrow> s1\<lparr>pw_w := w1, pw_err := Some e\<rparr>)))"

definition writeLoop :: "(bytes \<Rightarrow> bytes) \<Rightarrow> packed list \<Rightarrow> packWriter \<Rightarrow> packWriter" where
  "writeLoop zenc cs s = fold (write_turn zenc) cs s"

text \<open>\<open>Close\<close> waits for the writer goroutine to drain the channel and reports its first error.\<close>

definition packer_Close :: "(bytes \<Rightarrow> bytes) \<Rightarrow> writer \<Rightarrow> chunkPacker \<Rightarrow> goerr option \<times> writer" where
  "packer_Close zenc w p =
     (let s = writeLoop zenc (pp_out p) (newPackWriter w) in (pw_err s, pw_w s))"

definition decodeChunkPayload :: "(bytes \<Rightarrow> bytes option) \<Rightarrow> Chunk \<Rightarrow> goerr + bytes" where
  "decodeChunkPayload zdec c =
     (case (if ck_Compressed c then zdec (ck_Payload c) else Some (ck_Payload c)) of
        None \<Rightarrow> Inl [ErrProtocolError]
      | Some plain \<Rightarrow>
          if MaxChunkSize < length plain then Inl [ErrProtocolError]
          else if of_nat (length plain) \<noteq> SegmentsSum c then Inl [ErrProtocolError]
          else Inr plain)"

section \<open>What a sequence of chunks says\<close>

text \<open>
  Chunks matter to the receiver only through the per-file events they carry, in order: bytes of
  a file, its end with its root, its being dropped, its starting over.
\<close>

datatype event =
    EvRestart u32
  | EvByte u32 byte
  | EvEnd u32 bytes bool
  | EvSkip u32

definition seg_events :: "Segment \<Rightarrow> bytes \<Rightarrow> event list" where
  "seg_events s d =
     (if sg_Restart s then [EvRestart (sg_FileIndex s)] else []) @
     map (EvByte (sg_FileIndex s)) d @
     (if sg_EOF s then [EvEnd (sg_FileIndex s) (sg_RootHash s) (sg_Changed s)] else []) @
     (if sg_Skip s then [EvSkip (sg_FileIndex s)] else [])"

fun packed_events :: "Segment list \<Rightarrow> bytes \<Rightarrow> event list" where
  "packed_events [] buf = []"
| "packed_events (s # ss) buf =
     seg_events s (take (unat (sg_Length s)) buf) @ packed_events ss (drop (unat (sg_Length s)) buf)"

definition out_events :: "packed list \<Rightarrow> event list" where
  "out_events cs = concat (map (\<lambda>c. packed_events (pk_segs c) (pk_buf c)) cs)"

text \<open>The packer's abstract state: the events so far, and the files marked to start over.\<close>

type_synonym pack_state = "event list \<times> u32 set"

definition pack_abs :: "chunkPacker \<Rightarrow> pack_state" where
  "pack_abs p = (out_events (pp_out p) @ packed_events (pp_segs p) (pp_buf p), pp_restart p)"

datatype pack_op = PkAppend u32 bytes | PkEnd u32 bytes bool | PkSkip u32 | PkRestart u32 | PkFlush

fun pack_step :: "observer \<Rightarrow> pack_op \<Rightarrow> chunkPacker \<Rightarrow> goerr option \<times> chunkPacker" where
  "pack_step obs (PkAppend i d) p = appendBytes obs i d p"
| "pack_step obs (PkEnd i root ch) p = endFile obs i root ch p"
| "pack_step obs (PkSkip i) p = skipFile obs i p"
| "pack_step obs (PkRestart i) p = (None, markRestart i p)"
| "pack_step obs PkFlush p = flush obs p"

fun pack_run :: "observer \<Rightarrow> pack_op list \<Rightarrow> chunkPacker \<Rightarrow> goerr option \<times> chunkPacker" where
  "pack_run obs [] p = (None, p)"
| "pack_run obs (op # ops) p =
     (case pack_step obs op p of
        (Some e, p1) \<Rightarrow> (Some e, p1)
      | (None, p1) \<Rightarrow> pack_run obs ops p1)"

fun abs_step :: "pack_op \<Rightarrow> pack_state \<Rightarrow> pack_state" where
  "abs_step (PkAppend i d) (L, M) =
     (if d = [] then (L, M)
      else (L @ (if i \<in> M then [EvRestart i] else []) @ map (EvByte i) d, M - {i}))"
| "abs_step (PkEnd i root ch) (L, M) = (L @ [EvEnd i root ch], M)"
| "abs_step (PkSkip i) (L, M) = (L @ [EvSkip i], M - {i})"
| "abs_step (PkRestart i) (L, M) = (L, insert i M)"
| "abs_step PkFlush (L, M) = (L, M)"

text \<open>
  The order the sender keeps: nothing for a file right after it was dropped, and no restart
  mark pending in the middle of a file's bytes.
\<close>

definition skipped_last :: "u32 \<Rightarrow> event list \<Rightarrow> bool" where
  "skipped_last i L \<longleftrightarrow> L \<noteq> [] \<and> last L = EvSkip i"

definition bytes_last :: "u32 \<Rightarrow> event list \<Rightarrow> bool" where
  "bytes_last i L \<longleftrightarrow> L \<noteq> [] \<and> (case last L of EvByte j b \<Rightarrow> j = i | _ \<Rightarrow> False)"

fun abs_fine :: "pack_op \<Rightarrow> pack_state \<Rightarrow> bool" where
  "abs_fine (PkAppend i d) (L, M) \<longleftrightarrow> \<not> skipped_last i L \<and> \<not> (i \<in> M \<and> bytes_last i L)"
| "abs_fine (PkEnd i root ch) (L, M) \<longleftrightarrow> \<not> skipped_last i L \<and> length root = 32"
| "abs_fine (PkSkip i) (L, M) \<longleftrightarrow> True"
| "abs_fine (PkRestart i) (L, M) \<longleftrightarrow> True"
| "abs_fine PkFlush (L, M) \<longleftrightarrow> True"

fun abs_run_fine :: "pack_op list \<Rightarrow> pack_state \<Rightarrow> bool" where
  "abs_run_fine [] a \<longleftrightarrow> True"
| "abs_run_fine (op # ops) a \<longleftrightarrow> abs_fine op a \<and> abs_run_fine ops (abs_step op a)"

section \<open>The packer implements it\<close>

definition packed_ok :: "packed \<Rightarrow> bool" where
  "packed_ok c \<longleftrightarrow> pk_segs c \<noteq> [] \<and> length (pk_segs c) \<le> maxSegmentsPerChunk \<and>
     list_all seg_ok (pk_segs c) \<and> seg_total (pk_segs c) = length (pk_buf c) \<and>
     length (pk_buf c) \<le> MaxChunkSize"

definition packer_ok :: "chunkPacker \<Rightarrow> bool" where
  "packer_ok p \<longleftrightarrow> list_all packed_ok (pp_out p) \<and> length (pp_segs p) \<le> maxSegmentsPerChunk \<and>
     list_all seg_ok (pp_segs p) \<and> seg_total (pp_segs p) = length (pp_buf p) \<and>
     length (pp_buf p) \<le> MaxChunkSize"

lemma packed_events_append:
  "seg_total ss \<le> length buf \<Longrightarrow>
   packed_events (ss @ ts) buf = packed_events ss (take (seg_total ss) buf) @ packed_events ts (drop (seg_total ss) buf)"
proof (induction ss arbitrary: buf)
  case (Cons s ss)
  then have "packed_events (ss @ ts) (drop (unat (sg_Length s)) buf) =
      packed_events ss (take (seg_total ss) (drop (unat (sg_Length s)) buf)) @
      packed_events ts (drop (seg_total ss) (drop (unat (sg_Length s)) buf))"
    by (simp add: seg_total_def)
  then show ?case
    by (simp add: seg_total_def drop_take add.commute min_def)
qed (simp add: seg_total_def)

lemma packed_events_snoc:
  assumes "seg_total ss + unat (sg_Length s) = length buf"
  shows "packed_events (ss @ [s]) buf
    = packed_events ss (take (seg_total ss) buf) @ seg_events s (drop (seg_total ss) buf)"
  using assms by (simp add: packed_events_append)

lemma failed_simp [simp]:
  "failed obs p = (e, p') \<longleftrightarrow> e = obs (pp_ticks p) \<and> p' = p\<lparr>pp_ticks := Suc (pp_ticks p)\<rparr>"
  by (auto simp: failed_def)

lemma pack_abs_ticks [simp]: "pack_abs (p\<lparr>pp_ticks := n\<rparr>) = pack_abs p"
  "packer_ok (p\<lparr>pp_ticks := n\<rparr>) = packer_ok p"
  by (simp_all add: pack_abs_def packer_ok_def)

lemma packer_ok_new: "packer_ok newChunkPacker" "pack_abs newChunkPacker = ([], {})"
  by (simp_all add: packer_ok_def newChunkPacker_def pack_abs_def out_events_def seg_total_def)

lemma flush_sim:
  assumes "packer_ok p"
  shows "packer_ok (snd (flush obs p))" "pack_abs (snd (flush obs p)) = pack_abs p"
    "pp_segs (snd (flush obs p)) = []" "pp_restart (snd (flush obs p)) = pp_restart p"
    "pp_buf (snd (flush obs p)) = []"
  using assms
  by (auto simp: flush_def failed_def packer_ok_def packed_ok_def pack_abs_def out_events_def seg_total_def)

lemma packed_events_end:
  assumes "seg_total ss + unat (sg_Length s) = length buf" "\<not> sg_EOF s" "seg_ok s"
  shows "packed_events (ss @ [s]) buf \<noteq> []"
    "sg_Skip s \<Longrightarrow> last (packed_events (ss @ [s]) buf) = EvSkip (sg_FileIndex s)"
    "\<not> sg_Skip s \<Longrightarrow> \<exists>b. last (packed_events (ss @ [s]) buf) = EvByte (sg_FileIndex s) b"
proof -
  have len: "\<not> sg_Skip s \<Longrightarrow> sg_Length s \<noteq> 0"
    using assms(2,3) by (auto simp: seg_ok_def seg_validate_def split: if_splits)
  then have "\<not> sg_Skip s \<Longrightarrow> drop (seg_total ss) buf \<noteq> []"
    using assms(1) unat_gt_0 [of "sg_Length s"] by fastforce
  then show "packed_events (ss @ [s]) buf \<noteq> []"
    "sg_Skip s \<Longrightarrow> last (packed_events (ss @ [s]) buf) = EvSkip (sg_FileIndex s)"
    "\<not> sg_Skip s \<Longrightarrow> \<exists>b. last (packed_events (ss @ [s]) buf) = EvByte (sg_FileIndex s) b"
    using assms(1,2)
    by (cases "sg_Skip s"; simp add: packed_events_snoc seg_events_def last_map)+
qed

lemma last_segment:
  assumes ok: "packer_ok p" and abs: "pack_abs p = (L, M)" and ne: "pp_segs p \<noteq> []"
    and idx: "sg_FileIndex (last (pp_segs p)) = i" and eof: "\<not> sg_EOF (last (pp_segs p))"
  shows "sg_Skip (last (pp_segs p)) \<Longrightarrow> skipped_last i L"
    "\<not> sg_Skip (last (pp_segs p)) \<Longrightarrow> bytes_last i L"
proof -
  define ss s where "ss = butlast (pp_segs p)" and "s = last (pp_segs p)"
  have segs: "pp_segs p = ss @ [s]" using ne by (simp add: ss_def s_def)
  have tot: "seg_total ss + unat (sg_Length s) = length (pp_buf p)" and sok: "seg_ok s"
    using ok by (simp_all add: packer_ok_def segs)
  have L: "L = out_events (pp_out p) @ packed_events (ss @ [s]) (pp_buf p)"
    using abs by (simp add: pack_abs_def segs)
  note ends = packed_events_end [OF tot _ sok]
  show "sg_Skip (last (pp_segs p)) \<Longrightarrow> skipped_last i L"
    "\<not> sg_Skip (last (pp_segs p)) \<Longrightarrow> bytes_last i L"
    using ends eof idx by (auto simp: L segs skipped_last_def bytes_last_def)
qed

lemma unat_of_nat_u32: "n \<le> MaxChunkSize \<Longrightarrow> unat (of_nat n :: u32) = n"
  by (simp add: unat_of_nat MaxChunkSize_def)

lemma new_segment_simps [simp]:
  "sg_FileIndex (new_segment i) = i" "sg_Length (new_segment i) = 0" "\<not> sg_EOF (new_segment i)"
  "\<not> sg_Skip (new_segment i)" "\<not> sg_Restart (new_segment i)" "\<not> sg_Changed (new_segment i)"
  "sg_RootHash (new_segment i) = zero_hash"
  by (simp_all add: new_segment_def)

lemma of_nat_u32_pos: "0 < n \<Longrightarrow> n \<le> MaxChunkSize \<Longrightarrow> (of_nat n :: u32) \<noteq> 0"
  using unat_of_nat_u32 [of n] by (metis less_irrefl unat_0)

lemma open_put_new:
  assumes ok: "packer_ok p" and d: "d \<noteq> []" "length (pp_buf p) + length d \<le> MaxChunkSize"
    and need: "needNewSegment i p" "length (pp_segs p) < maxSegmentsPerChunk"
    and abs: "pack_abs p = (L, M)"
  shows "packer_ok (put_bytes d (open_segment i p))
    \<and> pack_abs (put_bytes d (open_segment i p)) = abs_step (PkAppend i d) (L, M)"
proof -
  define s where "s = (new_segment i)\<lparr>sg_Restart := i \<in> M, sg_Length := of_nat (length d)\<rparr>"
  have len: "unat (sg_Length s) = length d" "sg_Length s \<noteq> 0"
    using d by (simp_all add: s_def unat_of_nat_u32 of_nat_u32_pos)
  have M: "pp_restart p = M" and L: "L = out_events (pp_out p) @ packed_events (pp_segs p) (pp_buf p)"
    using abs by (simp_all add: pack_abs_def)
  have upd: "(new_segment i)\<lparr>sg_Restart := False\<rparr> = new_segment i" by (simp add: new_segment_def)
  have q: "put_bytes d (open_segment i p) = p\<lparr>pp_segs := pp_segs p @ [s],
      pp_buf := pp_buf p @ d, pp_restart := M - {i}\<rparr>"
    using need M upd by (auto simp: open_segment_def put_bytes_def s_def)
  have "seg_ok s"
    using len(2) by (simp add: s_def seg_ok_def seg_validate_def)
  then have "packer_ok (p\<lparr>pp_segs := pp_segs p @ [s], pp_buf := pp_buf p @ d, pp_restart := M - {i}\<rparr>)"
    using ok need(2) d(2) len(1) by (simp add: packer_ok_def)
  moreover have tot: "seg_total (pp_segs p) = length (pp_buf p)"
    using ok by (simp add: packer_ok_def)
  then have "packed_events (pp_segs p @ [s]) (pp_buf p @ d)
      = packed_events (pp_segs p) (pp_buf p) @ seg_events s d"
    by (subst packed_events_snoc) (simp_all add: len)
  moreover have "seg_events s d = (if i \<in> M then [EvRestart i] else []) @ map (EvByte i) d"
    by (simp add: seg_events_def s_def)
  ultimately show ?thesis
    unfolding q using d(1) by (simp add: pack_abs_def L)
qed

lemma open_put_same:
  assumes ok: "packer_ok p" and d: "d \<noteq> []" "length (pp_buf p) + length d \<le> MaxChunkSize"
    and same: "\<not> needNewSegment i p"
    and abs: "pack_abs p = (L, M)" and fine: "abs_fine (PkAppend i d) (L, M)"
  shows "packer_ok (put_bytes d (open_segment i p))
    \<and> pack_abs (put_bytes d (open_segment i p)) = abs_step (PkAppend i d) (L, M)"
proof -
  define ss s where "ss = butlast (pp_segs p)" and "s = last (pp_segs p)"
  have ne: "pp_segs p \<noteq> []" and idx: "sg_FileIndex s = i" and eof: "\<not> sg_EOF s"
    using same by (auto simp: needNewSegment_def s_def)
  have segs: "pp_segs p = ss @ [s]" using ne by (simp add: ss_def s_def)
  have skip: "\<not> sg_Skip s" and iM: "i \<notin> M"
    using last_segment [OF ok abs ne] idx eof fine by (auto simp: s_def)
  have tot: "seg_total ss + unat (sg_Length s) = length (pp_buf p)" and sok: "seg_ok s"
    using ok by (simp_all add: packer_ok_def segs)
  define s' where "s' = s\<lparr>sg_Length := sg_Length s + of_nat (length d)\<rparr>"
  have small: "unat (sg_Length s) + length d \<le> MaxChunkSize" using tot d(2) by simp
  have "sg_Length s + of_nat (length d) = of_nat (unat (sg_Length s) + length d)" by simp
  then have len: "unat (sg_Length s') = unat (sg_Length s) + length d"
    using unat_of_nat_u32 [OF small] by (simp add: s'_def)
  have pos: "sg_Length s' \<noteq> 0"
    using len d(1) by (metis add_is_0 length_0_conv unat_0)
  have q: "put_bytes d (open_segment i p) = p\<lparr>pp_segs := ss @ [s'], pp_buf := pp_buf p @ d\<rparr>"
    using same by (simp add: open_segment_def put_bytes_def segs s'_def)
  have "seg_ok s'"
    using sok skip eof pos by (auto simp: s'_def seg_ok_def seg_validate_def split: if_splits)
  then have "packer_ok (p\<lparr>pp_segs := ss @ [s'], pp_buf := pp_buf p @ d\<rparr>)"
    using ok d(2) len tot by (simp add: packer_ok_def segs)
  moreover have "seg_events s' (drop (seg_total ss) (pp_buf p) @ d)
      = seg_events s (drop (seg_total ss) (pp_buf p)) @ map (EvByte i) d"
    using skip eof idx by (simp add: seg_events_def s'_def)
  then have "packed_events (ss @ [s']) (pp_buf p @ d) = packed_events (ss @ [s]) (pp_buf p) @ map (EvByte i) d"
    using tot by (simp add: packed_events_snoc len)
  ultimately show ?thesis
    unfolding q using d(1) abs iM by (auto simp: pack_abs_def segs)
qed

lemma open_put:
  assumes "packer_ok p" "d \<noteq> []" "length (pp_buf p) + length d \<le> MaxChunkSize"
    "needNewSegment i p \<Longrightarrow> length (pp_segs p) < maxSegmentsPerChunk"
    "pack_abs p = (L, M)" "abs_fine (PkAppend i d) (L, M)"
  shows "packer_ok (put_bytes d (open_segment i p))
    \<and> pack_abs (put_bytes d (open_segment i p)) = abs_step (PkAppend i d) (L, M)"
  using assms open_put_new [of p d i L M] open_put_same [of p d i L M] by blast

lemma abs_fine_append: "abs_fine (PkAppend i d) a = abs_fine (PkAppend i d') a"
  by (cases a) simp

lemma abs_append_append:
  "d \<noteq> [] \<Longrightarrow> abs_step (PkAppend i d') (abs_step (PkAppend i d) a) = abs_step (PkAppend i (d @ d')) a"
  "d \<noteq> [] \<Longrightarrow> abs_fine (PkAppend i d') (abs_step (PkAppend i d) a)"
  by (cases a; auto simp: skipped_last_def last_map)+

lemma maybe_flush_sim:
  assumes "packer_ok p"
  shows "packer_ok (snd (if b then flush obs p else (None, p)))
    \<and> pack_abs (snd (if b then flush obs p else (None, p))) = pack_abs p"
  using assms by (simp add: flush_sim)

lemma append_turn_sim:
  assumes ok: "packer_ok p" and data: "data \<noteq> []" and abs: "pack_abs p = (L, M)"
    and fine: "abs_fine (PkAppend i data) (L, M)"
    and turn: "append_turn obs i data p = ((None, p'), rest)"
  shows "\<exists>d. d \<noteq> [] \<and> data = d @ rest \<and> packer_ok p' \<and> pack_abs p' = abs_step (PkAppend i d) (L, M)"
proof -
  let ?full = "MaxChunkSize - length (pp_buf p) = 0 \<or>
      (needNewSegment i p \<and> maxSegmentsPerChunk \<le> length (pp_segs p))"
  let ?first = "if ?full then (flush obs p, MaxChunkSize) else ((None, p), MaxChunkSize - length (pp_buf p))"
  obtain e p1 space where first: "?first = ((e, p1), space)" by (metis surj_pair)
  have e: "e = None" using turn first by (auto simp: append_turn_def split: option.splits)
  let ?k = "min space (length data)"
  let ?d = "take ?k data" and ?p2 = "put_bytes (take ?k data) (open_segment i p1)"
  have t: "(if length (pp_buf ?p2) = MaxChunkSize then flush obs ?p2 else (None, ?p2)) = (None, p')"
    and rest: "rest = drop ?k data"
    using turn unfolding append_turn_def first by (simp_all add: e Let_def)
  have p1: "packer_ok p1 \<and> pack_abs p1 = (L, M) \<and> 0 < space \<and> length (pp_buf p1) + space \<le> MaxChunkSize
      \<and> (needNewSegment i p1 \<longrightarrow> length (pp_segs p1) < maxSegmentsPerChunk)"
  proof (cases ?full)
    case True
    then have f: "p1 = snd (flush obs p)" "space = MaxChunkSize" using first by auto
    show ?thesis
      unfolding f using flush_sim [OF ok, of obs] abs by (simp add: MaxChunkSize_def maxSegmentsPerChunk_def)
  next
    case False
    then have "p1 = p" "space = MaxChunkSize - length (pp_buf p)" using first by auto
    then show ?thesis using False ok abs by (auto simp: packer_ok_def)
  qed
  then have d: "?d \<noteq> []" using data by simp
  have p2: "packer_ok ?p2 \<and> pack_abs ?p2 = abs_step (PkAppend i ?d) (L, M)"
  proof (rule open_put [OF _ d])
    show "abs_fine (PkAppend i ?d) (L, M)" using fine by (simp add: abs_fine_append [of i ?d _ data])
    show "length (pp_buf p1) + length ?d \<le> MaxChunkSize" using p1 by (auto simp: min_def)
  qed (use p1 in simp_all)
  have "packer_ok p' \<and> pack_abs p' = pack_abs ?p2"
    using maybe_flush_sim [of ?p2 "length (pp_buf ?p2) = MaxChunkSize" obs] p2 unfolding t by simp
  then show ?thesis
    using d p2 rest by (intro exI [of _ ?d]) simp
qed

lemma append_loop_sim:
  assumes "packer_ok p" "abs_fine (PkAppend i data) (pack_abs p)" "append_loop obs i data p = (None, p')"
  shows "packer_ok p' \<and> pack_abs p' = abs_step (PkAppend i data) (pack_abs p)"
  using assms
proof (induction obs i data p rule: append_loop.induct)
  case (1 obs i data p)
  obtain L M where a: "pack_abs p = (L, M)" by (cases "pack_abs p") auto
  show ?case
  proof (cases "data = []")
    case True
    then show ?thesis using 1(2,4) a unfolding True append_loop.simps [of obs i "[]"] by simp
  next
    case False
    obtain e p1 rest where t: "append_turn obs i data p = ((e, p1), rest)" by (metis surj_pair)
    have step: "append_loop obs i data p
        = (case e of Some e \<Rightarrow> (Some e, p1) | None \<Rightarrow> append_loop obs i rest p1)"
      by (subst append_loop.simps) (simp only: False t prod.case if_False)
    have e: "e = None" and l: "append_loop obs i rest p1 = (None, p')"
      using 1(4) unfolding step by (cases e; simp)+
    have fine: "abs_fine (PkAppend i data) (L, M)" using 1(3) by (simp only: a)
    from append_turn_sim [OF 1(2) False a fine t [unfolded e]] obtain d
      where d: "d \<noteq> []" "data = d @ rest" "packer_ok p1" "pack_abs p1 = abs_step (PkAppend i d) (L, M)" by blast
    have "packer_ok p' \<and> pack_abs p' = abs_step (PkAppend i rest) (pack_abs p1)"
      by (rule 1(1) [OF False t [symmetric] refl e d(3) _ l]) (simp only: d(4) abs_append_append(2) [OF d(1)])
    then show ?thesis
      unfolding a d(4) abs_append_append(1) [OF d(1)] d(2) .
  qed
qed

lemma addMarker_sim:
  assumes ok: "packer_ok p" and abs: "pack_abs p = (L, M)"
    and seg: "seg_ok s" "sg_Length s = 0"
    and res: "addMarker obs s p = (None, p')"
  shows "packer_ok p' \<and> pack_abs p' = (L @ seg_events s [], M)"
proof -
  let ?p1 = "p\<lparr>pp_ticks := Suc (pp_ticks p)\<rparr>"
  let ?r = "if maxSegmentsPerChunk \<le> length (pp_segs ?p1) then flush obs ?p1 else (None, ?p1)"
  obtain e p2 where r: "?r = (e, p2)" by (cases ?r) auto
  have p': "e = None" "p' = p2\<lparr>pp_segs := pp_segs p2 @ [s]\<rparr>"
    using res unfolding addMarker_def failed_def prod.case
    by (auto simp: r [simplified] split: option.splits)
  have "packer_ok p2 \<and> pack_abs p2 = (L, M)"
    using maybe_flush_sim [of ?p1 "maxSegmentsPerChunk \<le> length (pp_segs ?p1)" obs] ok abs
    unfolding r by simp
  moreover have "length (pp_segs p2) < maxSegmentsPerChunk"
  proof (cases "maxSegmentsPerChunk \<le> length (pp_segs ?p1)")
    case True
    then have "p2 = snd (flush obs ?p1)" using r by auto
    then show ?thesis using flush_sim(3) [of ?p1 obs] ok by (simp add: maxSegmentsPerChunk_def)
  qed (use r in auto)
  ultimately show ?thesis
    using seg unfolding p'(2)
    by (auto simp: packer_ok_def pack_abs_def packed_events_append)
qed

lemma endFile_open_sim:
  assumes ok: "packer_ok p" and abs: "pack_abs p = (L, M)" and fine: "\<not> skipped_last i L" "length root = 32"
    and cond: "pp_segs p \<noteq> []" "sg_FileIndex (last (pp_segs p)) = i" "\<not> sg_EOF (last (pp_segs p))"
  shows "packer_ok (snd (endFile obs i root ch p))
    \<and> pack_abs (snd (endFile obs i root ch p)) = (L @ [EvEnd i root ch], M)"
proof -
  define ss s where "ss = butlast (pp_segs p)" and "s = last (pp_segs p)"
  have segs: "pp_segs p = ss @ [s]" using cond(1) by (simp add: ss_def s_def)
  have skip: "\<not> sg_Skip s" using last_segment(1) [OF ok abs cond] fine(1) by (auto simp: s_def)
  have tot: "seg_total ss + unat (sg_Length s) = length (pp_buf p)" and sok: "seg_ok s"
    using ok by (simp_all add: packer_ok_def segs)
  define s' where "s' = s\<lparr>sg_EOF := True, sg_Changed := ch, sg_RootHash := root\<rparr>"
  have len: "sg_Length s' = sg_Length s" by (simp add: s'_def)
  have q: "snd (endFile obs i root ch p) = p\<lparr>pp_segs := ss @ [s']\<rparr>"
    using cond by (simp add: endFile_def segs s'_def)
  have "seg_ok s'"
    using sok skip fine(2) by (auto simp: s'_def seg_ok_def seg_validate_def split: if_splits)
  moreover have "seg_events s' (drop (seg_total ss) (pp_buf p))
      = seg_events s (drop (seg_total ss) (pp_buf p)) @ [EvEnd i root ch]"
    using skip cond(2,3) by (simp add: seg_events_def s'_def segs)
  ultimately show ?thesis
    unfolding q using ok abs tot
    by (auto simp: packer_ok_def pack_abs_def segs packed_events_snoc len)
qed

lemma seg_ok_markers [simp]:
  "length root = 32 \<Longrightarrow> seg_ok ((new_segment i)\<lparr>sg_EOF := True, sg_Changed := ch, sg_RootHash := root\<rparr>)"
  "seg_ok ((new_segment i)\<lparr>sg_Skip := True\<rparr>)"
  by (simp_all add: seg_ok_def seg_validate_def)

lemma pack_step_sim:
  assumes ok: "packer_ok p" and fine: "abs_fine op (pack_abs p)" and res: "pack_step obs op p = (None, p')"
  shows "packer_ok p' \<and> pack_abs p' = abs_step op (pack_abs p)"
proof -
  obtain L M where a: "pack_abs p = (L, M)" by (cases "pack_abs p") auto
  show ?thesis
  proof (cases op)
    case (PkAppend i d)
    then have "append_loop obs i d (p\<lparr>pp_ticks := Suc (pp_ticks p)\<rparr>) = (None, p')"
      using res by (simp add: appendBytes_def failed_def split: option.splits)
    with append_loop_sim [OF _ _ this] ok fine PkAppend show ?thesis by simp
  next
    case (PkEnd i root ch)
    with fine a have f: "\<not> skipped_last i L" "length root = 32" by auto
    show ?thesis
    proof (cases "pp_segs p \<noteq> [] \<and> sg_FileIndex (last (pp_segs p)) = i \<and> \<not> sg_EOF (last (pp_segs p))")
      case True
      then show ?thesis
        using endFile_open_sim [OF ok a f, of obs ch] res PkEnd a by simp
    next
      case False
      then have "addMarker obs ((new_segment i)\<lparr>sg_EOF := True, sg_Changed := ch, sg_RootHash := root\<rparr>) p = (None, p')"
        using res PkEnd by (simp add: endFile_def split: if_splits)
      from addMarker_sim [OF ok a _ _ this] f show ?thesis
        by (simp add: PkEnd a seg_events_def)
    qed
  next
    case (PkSkip i)
    then have m: "addMarker obs ((new_segment i)\<lparr>sg_Skip := True\<rparr>) (p\<lparr>pp_restart := pp_restart p - {i}\<rparr>) = (None, p')"
      using res by (simp add: skipFile_def)
    have "packer_ok (p\<lparr>pp_restart := pp_restart p - {i}\<rparr>)"
      "pack_abs (p\<lparr>pp_restart := pp_restart p - {i}\<rparr>) = (L, M - {i})"
      using ok a by (simp_all add: packer_ok_def pack_abs_def)
    from addMarker_sim [OF this seg_ok_markers(2) _ m] show ?thesis
      by (simp add: PkSkip a seg_events_def)
  next
    case (PkRestart i)
    then show ?thesis using res ok by (auto simp: markRestart_def packer_ok_def pack_abs_def)
  next
    case PkFlush
    then have "p' = snd (flush obs p)" using res by (simp add: flush_def)
    then show ?thesis using flush_sim [OF ok, of obs] PkFlush a by simp
  qed
qed

text \<open>
  The packer's interface for the sender: while no call fails, each operation does to the event
  log what its abstract version says. The sender's lemmas are proved from this alone.
\<close>

locale event_packer =
  fixes do_op :: "'op \<Rightarrow> 'p \<Rightarrow> 'e option \<times> 'p"
    and good :: "'p \<Rightarrow> bool"
    and log :: "'p \<Rightarrow> 'a"
    and log_step :: "'op \<Rightarrow> 'a \<Rightarrow> 'a"
    and log_fine :: "'op \<Rightarrow> 'a \<Rightarrow> bool"
  assumes do_op_sim: "good p \<Longrightarrow> log_fine op (log p) \<Longrightarrow> do_op op p = (None, p') \<Longrightarrow>
      good p' \<and> log p' = log_step op (log p)"
begin

fun do_ops :: "'op list \<Rightarrow> 'p \<Rightarrow> 'e option \<times> 'p" where
  "do_ops [] p = (None, p)"
| "do_ops (x # xs) p =
     (case do_op x p of (Some e, p1) \<Rightarrow> (Some e, p1) | (None, p1) \<Rightarrow> do_ops xs p1)"

fun log_run_fine :: "'op list \<Rightarrow> 'a \<Rightarrow> bool" where
  "log_run_fine [] a \<longleftrightarrow> True"
| "log_run_fine (x # xs) a \<longleftrightarrow> log_fine x a \<and> log_run_fine xs (log_step x a)"

lemma do_ops_sim:
  "good p \<Longrightarrow> log_run_fine xs (log p) \<Longrightarrow> do_ops xs p = (None, p') \<Longrightarrow>
   good p' \<and> log p' = fold log_step xs (log p)"
proof (induction xs arbitrary: p)
  case (Cons x xs)
  obtain e p1 where s: "do_op x p = (e, p1)" by (cases "do_op x p") auto
  have e: "e = None" "do_ops xs p1 = (None, p')"
    using Cons.prems(3) s by (auto split: option.splits)
  have f: "log_fine x (log p)" "log_run_fine xs (log_step x (log p))"
    using Cons.prems(2) by simp_all
  from do_op_sim [OF Cons.prems(1) f(1) s [unfolded e]] f(2) Cons.IH [of p1] e(2)
  show ?case by simp
qed simp

lemma do_ops_append:
  "do_ops (xs @ ys) p = (case do_ops xs p of (Some e, p1) \<Rightarrow> (Some e, p1) | (None, p1) \<Rightarrow> do_ops ys p1)"
  by (induction xs arbitrary: p) (auto split: prod.splits option.splits)

lemma log_run_fine_append:
  "log_run_fine (xs @ ys) a \<longleftrightarrow> log_run_fine xs a \<and> log_run_fine ys (fold log_step xs a)"
  by (induction xs arbitrary: a) auto

end

interpretation pk: event_packer "pack_step obs" packer_ok pack_abs abs_step abs_fine
  for obs
  by unfold_locales (rule pack_step_sim)

lemma pack_run_do_ops: "pack_run obs ops p = pk.do_ops obs ops p"
  by (induction ops arbitrary: p) (auto split: prod.splits option.splits)

lemma abs_run_fine_log: "abs_run_fine ops a = pk.log_run_fine ops a"
  by (induction ops arbitrary: a) auto

lemma pack_run_sim:
  "packer_ok p \<Longrightarrow> abs_run_fine ops (pack_abs p) \<Longrightarrow> pack_run obs ops p = (None, p') \<Longrightarrow>
   packer_ok p' \<and> pack_abs p' = fold abs_step ops (pack_abs p)"
  unfolding pack_run_do_ops abs_run_fine_log by (rule pk.do_ops_sim)

section \<open>The writer goroutine\<close>

definition zstd_inverse :: "(bytes \<Rightarrow> bytes) \<Rightarrow> (bytes \<Rightarrow> bytes option) \<Rightarrow> bool" where
  "zstd_inverse zenc zdec \<longleftrightarrow> (\<forall>b. length b \<le> MaxChunkSize \<longrightarrow> zdec (zenc b) = Some b)"

definition chunk_events :: "(bytes \<Rightarrow> bytes option) \<Rightarrow> Chunk \<Rightarrow> event list option" where
  "chunk_events zdec c =
     (case decodeChunkPayload zdec c of
        Inl e \<Rightarrow> None
      | Inr plain \<Rightarrow> Some (packed_events (ck_Segments c) plain))"

fun stream_events :: "(bytes \<Rightarrow> bytes option) \<Rightarrow> Chunk list \<Rightarrow> event list option" where
  "stream_events zdec [] = Some []"
| "stream_events zdec (c # cs) =
     (case chunk_events zdec c of
        None \<Rightarrow> None
      | Some es \<Rightarrow> map_option (append es) (stream_events zdec cs))"

lemma decode_packed:
  assumes c: "packed_ok c" and p: "(if z then zdec pl else Some pl) = Some (pk_buf c)"
  shows "decodeChunkPayload zdec \<lparr>ck_Compressed = z, ck_Segments = pk_segs c, ck_Payload = pl\<rparr> = Inr (pk_buf c)"
proof -
  have "length (pk_segs c) \<le> 0xFFFF" using c by (simp add: packed_ok_def maxSegmentsPerChunk_def)
  then have "SegmentsSum \<lparr>ck_Compressed = z, ck_Segments = pk_segs c, ck_Payload = pl\<rparr> = of_nat (length (pk_buf c))"
    using unat_segments_sum [of "pk_segs c"] c
    by (simp add: SegmentsSum_def packed_ok_def word_unat_eq_iff unat_of_nat MaxChunkSize_def)
  then show ?thesis
    using c p by (cases z) (simp_all add: decodeChunkPayload_def packed_ok_def)
qed

lemma packed_chunk_ok:
  assumes "packed_ok c" "length pl \<le> MaxChunkSize" "z \<or> pl = pk_buf c"
  shows "chunk_ok \<lparr>ck_Compressed = z, ck_Segments = pk_segs c, ck_Payload = pl\<rparr>"
  using assms by (auto simp: packed_ok_def chunk_ok_def maxSegmentsPerChunk_def Suc_le_eq)

lemma compress_choice_cases:
  assumes "compress_choice zenc buf s = ((z, pl), s1)"
  shows "pw_w s1 = pw_w s \<and> pw_err s1 = pw_err s \<and>
    ((\<not> z \<and> pl = buf) \<or> (z \<and> pl = zenc buf \<and> length pl < length buf))"
  using assms by (auto simp: compress_choice_def Let_def split: if_splits)

lemma write_turn_ok:
  assumes c: "packed_ok c" and ok: "pw_err (write_turn zenc c s) = None" and z: "zstd_inverse zenc zdec"
  shows "\<exists>ck. w_out (pw_w (write_turn zenc c s)) = w_out (pw_w s) @ chunk_bytes ck \<and> chunk_ok ck \<and>
    chunk_events zdec ck = Some (packed_events (pk_segs c) (pk_buf c))"
proof -
  obtain cmp pl s1 where ch: "compress_choice zenc (pk_buf c) s = ((cmp, pl), s1)" by (metis surj_pair)
  let ?ck = "\<lparr>ck_Compressed = cmp, ck_Segments = pk_segs c, ck_Payload = pl\<rparr>"
  obtain e w1 where w: "WriteChunk ?ck (pw_w s1) = (e, w1)" by (metis surj_pair)
  have s: "pw_err s = None" using ok by (auto simp: write_turn_def split: if_splits)
  then have e: "e = None" and res: "pw_w (write_turn zenc c s) = w1"
    using ok ch w by (auto simp: write_turn_def split: option.splits)
  have pl: "length pl \<le> MaxChunkSize" "cmp \<or> pl = pk_buf c" "(if cmp then zdec pl else Some pl) = Some (pk_buf c)"
    using compress_choice_cases [OF ch] c z by (auto simp: packed_ok_def zstd_inverse_def)
  have "w_out w1 = w_out (pw_w s) @ chunk_bytes ?ck"
    using WriteChunk_ok [OF w [unfolded e]] compress_choice_cases [OF ch] by simp
  then show ?thesis
    unfolding res using packed_chunk_ok [OF c pl(1,2)] decode_packed [OF c, of cmp zdec pl] pl(3)
    by (intro exI [of _ ?ck]) (simp add: chunk_events_def)
qed

lemma write_turn_err: "pw_err s \<noteq> None \<Longrightarrow> write_turn zenc c s = s"
  by (simp add: write_turn_def)

lemma writeLoop_err: "pw_err s \<noteq> None \<Longrightarrow> writeLoop zenc cs s = s"
  by (induction cs) (simp_all add: writeLoop_def write_turn_err)

lemma writeLoop_ok:
  assumes "list_all packed_ok cs" "pw_err (writeLoop zenc cs s) = None" "zstd_inverse zenc zdec"
  shows "\<exists>cks. w_out (pw_w (writeLoop zenc cs s)) = w_out (pw_w s) @ concat (map chunk_bytes cks) \<and>
    length cks = length cs \<and> list_all chunk_ok cks \<and> stream_events zdec cks = Some (out_events cs)"
  using assms
proof (induction cs arbitrary: s)
  case Nil
  then show ?case by (simp add: writeLoop_def out_events_def)
next
  case (Cons c cs)
  let ?s = "write_turn zenc c s"
  have l: "writeLoop zenc (c # cs) s = writeLoop zenc cs ?s" by (simp add: writeLoop_def)
  have "pw_err ?s = None" using Cons.prems(2) by (cases "pw_err ?s = None") (auto simp: l writeLoop_err)
  with Cons.prems obtain ck where 1: "w_out (pw_w ?s) = w_out (pw_w s) @ chunk_bytes ck" "chunk_ok ck"
    "chunk_events zdec ck = Some (packed_events (pk_segs c) (pk_buf c))"
    using write_turn_ok [of c zenc s zdec] by auto
  from Cons.IH [of ?s] Cons.prems obtain cks where
    2: "w_out (pw_w (writeLoop zenc cs ?s)) = w_out (pw_w ?s) @ concat (map chunk_bytes cks)"
    "length cks = length cs" "list_all chunk_ok cks" "stream_events zdec cks = Some (out_events cs)"
    by (auto simp: l)
  show ?case
    using 1 2 by (intro exI [of _ "ck # cks"]) (simp add: l out_events_def)
qed

text \<open>The bytes a closed packer has put on the wire are chunks that say what its operations say.\<close>

lemma packed_on_wire:
  assumes run: "pack_run obs (ops @ [PkFlush]) newChunkPacker = (None, p)"
    and fine: "abs_run_fine ops ([], {})"
    and close: "packer_Close zenc \<lparr>w_out = [], w_room = room\<rparr> p = (None, w)"
    and zstd: "zstd_inverse zenc zdec"
  shows "\<exists>cks. w_out w = concat (map chunk_bytes cks) \<and> length cks = length (pp_out p) \<and> list_all chunk_ok cks
    \<and> stream_events zdec cks = Some (fst (fold abs_step ops ([], {})))"
proof -
  have "abs_run_fine (ops @ [PkFlush]) ([], {})"
    using fine unfolding abs_run_fine_log pk.log_run_fine_append
    by (cases "fold abs_step ops ([], {})") simp
  then have abs: "packer_ok p" "pack_abs p = fold abs_step (ops @ [PkFlush]) ([], {})"
    using pack_run_sim [OF packer_ok_new(1) _ run] packer_ok_new(2) by simp_all
  have empty: "pp_segs p = []"
  proof -
    obtain q where "pack_run obs ops newChunkPacker = (None, q)" "pack_run obs [PkFlush] q = (None, p)"
      using run by (auto simp: pack_run_do_ops pk.do_ops_append split: prod.splits option.splits)
    then show ?thesis
      by (auto simp: flush_def failed_def split: if_splits option.splits)
  qed
  let ?s = "writeLoop zenc (pp_out p) (newPackWriter \<lparr>w_out = [], w_room = room\<rparr>)"
  have c: "pw_err ?s = None" "w = pw_w ?s"
    using close by (simp_all add: packer_Close_def Let_def)
  have "list_all packed_ok (pp_out p)" using abs(1) by (simp add: packer_ok_def)
  from writeLoop_ok [OF this c(1) zstd] obtain cks where
    1: "w_out w = concat (map chunk_bytes cks)" "length cks = length (pp_out p)"
      "list_all chunk_ok cks" "stream_events zdec cks = Some (out_events (pp_out p))"
    by (auto simp: c(2) newPackWriter_def)
  have "out_events (pp_out p) = fst (pack_abs p)"
    using empty by (simp add: pack_abs_def)
  also have "\<dots> = fst (fold abs_step ops ([], {}))"
    unfolding abs(2) by (cases "fold abs_step ops ([], {})") simp
  finally show ?thesis using 1 by (intro exI [of _ cks]) simp
qed

section \<open>Properties\<close>

text \<open>
  C2. Nothing is lost, invented or reordered between the sender's reads and the receiver's
  chunk loop. Take any sequence of packer operations in the order the sender keeps, none of
  which fails, then the final flush and a \<open>Close\<close> that reports no write error. The bytes on
  the wire parse as exactly the chunks handed over, every chunk passes the reader's
  validation, and decoding their payloads gives exactly the events of the operations: each
  file's bytes in order, its end with its root, its restart and skip markers. The scheduler
  (\<open>obs\<close>) and the compression back-off do not matter.
\<close>

theorem packer_stream_faithful:
  assumes run: "pack_run obs (ops @ [PkFlush]) newChunkPacker = (None, p)"
    and fine: "abs_run_fine ops ([], {})"
    and close: "packer_Close zenc \<lparr>w_out = [], w_room = room\<rparr> p = (None, w)"
    and zstd: "zstd_inverse zenc zdec"
  shows "\<exists>cks. dec_many ReadChunk (length (pp_out p)) \<lparr>r_data = w_out w, r_end = IoEOF\<rparr>
      = (Inr cks, \<lparr>r_data = [], r_end = IoEOF\<rparr>)
    \<and> stream_events zdec cks = Some (fst (fold abs_step ops ([], {})))"
proof -
  from packed_on_wire [OF assms] obtain cks where
    "w_out w = concat (map chunk_bytes cks)" "length cks = length (pp_out p)" "list_all chunk_ok cks"
    "stream_events zdec cks = Some (fst (fold abs_step ops ([], {})))" by blast
  then show ?thesis using chk.dec_many_enc [of cks "[]" IoEOF] by (intro exI [of _ cks]) simp
qed

theorem packer_stream_faithful_witness:
  "\<exists>p w cks. pack_run (\<lambda>_. None) ([PkAppend 1 [65], PkEnd 1 zero_hash False] @ [PkFlush]) newChunkPacker = (None, p)
    \<and> packer_Close id \<lparr>w_out = [], w_room = None\<rparr> p = (None, w)
    \<and> stream_events Some cks = Some [EvByte 1 65, EvEnd 1 zero_hash False]"
proof -
  let ?ops = "[PkAppend 1 [65], PkEnd 1 zero_hash False]"
  let ?seg = "(new_segment 1)\<lparr>sg_Length := 1, sg_EOF := True\<rparr>"
  have app: "append_loop (\<lambda>_. None) 1 [65] (newChunkPacker\<lparr>pp_ticks := 1\<rparr>)
      = (None, newChunkPacker\<lparr>pp_ticks := 1, pp_buf := [65], pp_segs := [(new_segment 1)\<lparr>sg_Length := 1\<rparr>]\<rparr>)"
    by (subst append_loop.simps)
      (simp add: append_turn_def newChunkPacker_def MaxChunkSize_def maxSegmentsPerChunk_def needNewSegment_def
        open_segment_def put_bytes_def new_segment_def append_loop.simps [of _ _ "[]"])
  define p where "p = \<lparr>pp_buf = [], pp_segs = [], pp_restart = {},
      pp_out = [\<lparr>pk_segs = [?seg], pk_buf = [65]\<rparr>], pp_ticks = 2\<rparr>"
  have run: "pack_run (\<lambda>_. None) (?ops @ [PkFlush]) newChunkPacker = (None, p)"
    using app
    by (simp add: appendBytes_def failed_def newChunkPacker_def endFile_def flush_def p_def new_segment_def zero_hash_def)
  have fine: "abs_run_fine ?ops ([], {})"
    by (simp add: skipped_last_def zero_hash_def)
  have z: "zstd_inverse id Some" by (simp add: zstd_inverse_def)
  have close: "packer_Close id \<lparr>w_out = [], w_room = None\<rparr> p = (None, snd (packer_Close id \<lparr>w_out = [], w_room = None\<rparr> p))"
    by (simp add: packer_Close_def writeLoop_def newPackWriter_def p_def write_turn_def compress_choice_def
        WriteChunk_def stream_simps MaxChunkSize_def Let_def)
  from packer_stream_faithful [OF run fine close z] show ?thesis
    using run close by auto
qed
end
