(* ===== verification/Safe_Paths.thy ===== *)
theory Safe_Paths
  imports Fs_Errors
begin

text \<open>
  \<open>internal/transfer/paths.go\<close> and \<open>pathIsUnder\<close> of \<open>util.go\<close>: what a peer-supplied path may
  be. The receiver runs on a Unix host (separator \<open>/\<close>, no volume names, \<open>FromSlash\<close> and
  \<open>ToSlash\<close> the identity); \<open>goos\<close> is the operating system \<open>sanitizeRelativePath\<close> is told about.
  \<open>strings.Split\<close>, \<open>filepath.Clean\<close>, \<open>Join\<close>, \<open>Dir\<close>, \<open>Rel\<close> and their kin are modelled on path
  components. Case conversion over Unicode tables is the parameter \<open>upper\<close>.
\<close>

section \<open>Strings and paths of the standard library\<close>

definition has_prefix :: "string \<Rightarrow> string \<Rightarrow> bool" where
  "has_prefix p s \<longleftrightarrow> take (length p) s = p"

definition has_suffix :: "string \<Rightarrow> string \<Rightarrow> bool" where
  "has_suffix p s \<longleftrightarrow> length p \<le> length s \<and> drop (length s - length p) s = p"

fun split_on :: "char \<Rightarrow> string \<Rightarrow> string list" where
  "split_on c [] = [[]]"
| "split_on c (x # xs) =
     (if x = c then [] # split_on c xs
      else (case split_on c xs of [] \<Rightarrow> [[x]] | y # ys \<Rightarrow> (x # y) # ys))"

fun join_with :: "char \<Rightarrow> string list \<Rightarrow> string" where
  "join_with c [] = []"
| "join_with c [x] = x"
| "join_with c (x # y # ys) = x @ c # join_with c (y # ys)"

fun clean_comps :: "bool \<Rightarrow> string list \<Rightarrow> string list \<Rightarrow> string list" where
  "clean_comps rooted acc [] = rev acc"
| "clean_comps rooted acc (c # cs) =
     (if c = [] \<or> c = ''.'' then clean_comps rooted acc cs
      else if c = ''..'' then
        (case acc of
           [] \<Rightarrow> clean_comps rooted (if rooted then [] else [''..'']) cs
         | a # as \<Rightarrow> if a = ''..'' then clean_comps rooted (''..'' # acc) cs
                    else clean_comps rooted as cs)
      else clean_comps rooted (c # acc) cs)"

definition is_abs :: "string \<Rightarrow> bool" where "is_abs s \<longleftrightarrow> has_prefix ''/'' s"

definition path_comps :: "string \<Rightarrow> string list" where
  "path_comps s = clean_comps (is_abs s) [] (split_on (CHR ''/'') s)"

definition path_of :: "bool \<Rightarrow> string list \<Rightarrow> string" where
  "path_of rooted cs =
     (if rooted then CHR ''/'' # join_with (CHR ''/'') cs
      else if cs = [] then ''.'' else join_with (CHR ''/'') cs)"

definition path_clean :: "string \<Rightarrow> string" where
  "path_clean s = path_of (is_abs s) (path_comps s)"

definition path_join :: "string \<Rightarrow> string \<Rightarrow> string" where
  "path_join a b =
     (if a = [] \<and> b = [] then [] else if a = [] then path_clean b
      else if b = [] then path_clean a else path_clean (a @ CHR ''/'' # b))"

text \<open>\<open>filepath.Split\<close> cuts behind the last separator; \<open>Dir\<close> and \<open>Base\<close> build on it.\<close>

definition path_split :: "string \<Rightarrow> string \<times> string" where
  "path_split s =
     (let base = rev (takeWhile (\<lambda>c. c \<noteq> CHR ''/'') (rev s))
      in (take (length s - length base) s, base))"

definition path_dir :: "string \<Rightarrow> string" where
  "path_dir s = path_clean (fst (path_split s))"

definition path_base :: "string \<Rightarrow> string" where
  "path_base s =
     (if s = [] then ''.''
      else let t = rev (dropWhile (\<lambda>c. c = CHR ''/'') (rev s))
           in if t = [] then ''/'' else snd (path_split t))"

definition path_ext :: "string \<Rightarrow> string" where
  "path_ext s =
     (let tail = takeWhile (\<lambda>c. c \<noteq> CHR ''.'' \<and> c \<noteq> CHR ''/'') (rev s); n = length tail
      in if n < length s \<and> rev s ! n = CHR ''.'' then drop (length s - n - 1) s else [])"

text \<open>\<open>filepath.Rel\<close>; \<open>None\<close> is its error.\<close>

fun strip_common :: "string list \<Rightarrow> string list \<Rightarrow> string list \<times> string list" where
  "strip_common (x # xs) (y # ys) = (if x = y then strip_common xs ys else (x # xs, y # ys))"
| "strip_common xs ys = (xs, ys)"

definition path_rel :: "string \<Rightarrow> string \<Rightarrow> string option" where
  "path_rel base targ =
     (if is_abs base \<noteq> is_abs targ then None
      else case strip_common (path_comps base) (path_comps targ) of
        (b, t) \<Rightarrow> if ''..'' \<in> set b then None
                 else Some (path_of False (replicate (length b) ''..'' @ t)))"

section \<open>The program's path rules\<close>

definition pathIsUnder :: "string \<Rightarrow> string \<Rightarrow> bool" where
  "pathIsUnder child parent =
     (case path_rel parent child of
        None \<Rightarrow> False
      | Some rel \<Rightarrow>
          if rel = ''.'' then True
          else if rel = ''..'' \<or> has_prefix ''../'' rel then False
          else \<not> is_abs rel)"

datatype hazard = HazStream | HazChar char | HazReserved | HazTrailing

definition trim_right_spaces :: "string \<Rightarrow> string" where
  "trim_right_spaces s = rev (dropWhile (\<lambda>c. c = CHR '' '') (rev s))"

definition isReservedWindowsName :: "(string \<Rightarrow> string) \<Rightarrow> string \<Rightarrow> bool" where
  "isReservedWindowsName upper component =
     (let stem = takeWhile (\<lambda>c. c \<noteq> CHR ''.'') component;
          up = upper (trim_right_spaces stem)
      in if up \<in> {''CON'', ''PRN'', ''AUX'', ''NUL'', ''CONIN$'', ''CONOUT$''} then True
         else if has_prefix ''COM'' up \<or> has_prefix ''LPT'' up
         then drop 3 up \<in> {''1'', ''2'', ''3'', ''4'', ''5'', ''6'', ''7'', ''8'', ''9'',
                [CHR 0xC2, CHR 0xB9], [CHR 0xC2, CHR 0xB2], [CHR 0xC2, CHR 0xB3]}
         else False)"

text \<open>
  The bytes below \<open>0x80\<close> of a Go string are exactly its ASCII runes, so the rune loop's test is
  one on bytes.
\<close>

definition bad_char :: "char \<Rightarrow> bool" where
  "bad_char c \<longleftrightarrow> (of_char c :: nat) < 0x20 \<or> c \<in> {CHR ''<'', CHR ''>'', CHR 0x22, CHR ''|'', CHR ''?'', CHR ''*'', CHR 0x5C}"

definition windowsPathHazard :: "(string \<Rightarrow> string) \<Rightarrow> string \<Rightarrow> hazard option" where
  "windowsPathHazard upper component =
     (if component = ''.'' \<or> component = ''..'' then None
      else if CHR '':'' \<in> set component then Some HazStream
      else case find bad_char component of
        Some c \<Rightarrow> Some (HazChar c)
      | None \<Rightarrow>
          if isReservedWindowsName upper component then Some HazReserved
          else if component \<noteq> [] \<and> (last component = CHR ''.'' \<or> last component = CHR '' '')
          then Some HazTrailing
          else None)"

text \<open>\<open>None\<close> is a rejected path; the five kinds of rejection differ only in their text.\<close>

definition drive_letter :: "string \<Rightarrow> bool" where
  "drive_letter p \<longleftrightarrow> 2 \<le> length p \<and> p ! 1 = CHR '':'' \<and>
     (let c = of_char (p ! 0) :: nat in (65 \<le> c \<and> c \<le> 90) \<or> (97 \<le> c \<and> c \<le> 122))"

definition sanitizeRelativePath :: "(string \<Rightarrow> string) \<Rightarrow> string \<Rightarrow> string \<Rightarrow> string option" where
  "sanitizeRelativePath upper p goos =
     (if p = [] then None
      else if has_prefix ''/'' p \<or> has_prefix [CHR 0x5C] p then None
      else if is_abs p then None
      else if drive_letter p then None
      else if has_prefix [CHR 0x5C, CHR 0x5C] p \<or> has_prefix ''//'' p then None
      else if goos = ''windows'' \<and>
        list_ex (\<lambda>part. windowsPathHazard upper part \<noteq> None) (split_on (CHR ''/'') p) then None
      else let clean = path_clean p
           in if ''..'' \<in> set (split_on (CHR ''/'') clean) then None else Some clean)"

section \<open>Splitting and cleaning\<close>

lemma split_on_ne [simp]: "split_on c s \<noteq> []"
  by (induction s) (auto split: list.splits)

lemma split_on_free: "x \<in> set (split_on c s) \<Longrightarrow> c \<notin> set x"
  by (induction s arbitrary: x) (auto split: list.splits if_splits)

lemma split_on_append: "split_on c (a @ c # b) = split_on c a @ split_on c b"
  by (induction a) (auto split: list.splits)

lemma split_on_single: "c \<notin> set s \<Longrightarrow> split_on c s = [s]"
  by (induction s) auto

lemma split_join: "cs \<noteq> [] \<Longrightarrow> (\<And>x. x \<in> set cs \<Longrightarrow> c \<notin> set x) \<Longrightarrow> split_on c (join_with c cs) = cs"
  by (induction c cs rule: join_with.induct) (auto simp: split_on_single split_on_append)

definition comp_ok :: "string \<Rightarrow> bool" where
  "comp_ok c \<longleftrightarrow> c \<noteq> [] \<and> c \<noteq> ''.'' \<and> CHR ''/'' \<notin> set c"

text \<open>The component lists of clean paths: parent steps only in front, and none in a rooted path.\<close>

definition normal_comps :: "bool \<Rightarrow> string list \<Rightarrow> bool" where
  "normal_comps rooted cs \<longleftrightarrow> list_all comp_ok cs \<and>
     ''..'' \<notin> set (dropWhile (\<lambda>c. c = ''..'') cs) \<and> (rooted \<longrightarrow> ''..'' \<notin> set cs)"

lemma normal_comps_Nil [simp]: "normal_comps r []"
  by (simp add: normal_comps_def)

lemma dropWhile_snoc:
  "dropWhile P (xs @ [x]) = (if \<forall>y\<in>set xs. P y then (if P x then [] else [x]) else dropWhile P xs @ [x])"
  by (induction xs) auto

lemma normal_comps_snocD:
  "normal_comps r (xs @ [x]) \<Longrightarrow> normal_comps r xs"
  "normal_comps r (xs @ [''..'']) \<Longrightarrow> \<forall>y\<in>set xs. y = ''..''"
proof -
  have nil: "\<forall>y\<in>set xs. y = d \<Longrightarrow> dropWhile (\<lambda>c. c = d) xs = []" for d :: string
    by (simp add: dropWhile_eq_Nil_conv)
  then have nil': "\<forall>y\<in>set xs. y = ''..'' \<Longrightarrow> ''..'' \<notin> set (dropWhile (\<lambda>c. c = ''..'') xs)"
    by (simp only: list.set empty_iff not_False_eq_True)
  then show "normal_comps r (xs @ [x]) \<Longrightarrow> normal_comps r xs"
    by (cases "\<forall>y\<in>set xs. y = ''..''") (auto simp: normal_comps_def dropWhile_snoc)
  show "normal_comps r (xs @ [''..'']) \<Longrightarrow> \<forall>y\<in>set xs. y = ''..''"
    by (rule ccontr) (simp add: normal_comps_def dropWhile_snoc)
qed

lemma normal_comps_push:
  "normal_comps r xs \<Longrightarrow> comp_ok c \<Longrightarrow> c \<noteq> ''..'' \<Longrightarrow> normal_comps r (xs @ [c])"
  "\<not> r \<Longrightarrow> normal_comps r xs \<Longrightarrow> (\<forall>y\<in>set xs. y = ''..'') \<Longrightarrow> normal_comps r (xs @ [''..''])"
  by (auto simp: normal_comps_def dropWhile_snoc comp_ok_def)

lemma clean_comps_normal:
  "normal_comps r (rev acc) \<Longrightarrow> (\<And>c. c \<in> set cs \<Longrightarrow> CHR ''/'' \<notin> set c) \<Longrightarrow> normal_comps r (clean_comps r acc cs)"
proof (induction r acc cs rule: clean_comps.induct)
  case (2 r acc c cs)
  have free: "\<And>d. d \<in> set cs \<Longrightarrow> CHR ''/'' \<notin> set d" using 2(7) by simp
  consider "c = [] \<or> c = ''.''" | "c = ''..''" "acc = []" | a as where "c = ''..''" "acc = a # as" "a = ''..''"
    | a as where "c = ''..''" "acc = a # as" "a \<noteq> ''..''" | "c \<noteq> []" "c \<noteq> ''.''" "c \<noteq> ''..''"
    by (cases acc) auto
  then show ?case
  proof cases
    case 1 then show ?thesis using 2(1) 2(6) free by auto
  next
    case b: 2
    have "normal_comps r (rev (if r then [] else [''..'']))" by (simp add: normal_comps_def comp_ok_def)
    then show ?thesis using 2(2) free b by auto
  next
    case c: 3
    with 2(6) have all: "\<forall>y\<in>set (rev as). y = ''..''" "normal_comps r (rev as @ [''..''])"
      using normal_comps_snocD(2) by auto
    then have "\<not> r" by (auto simp: normal_comps_def)
    with all have "normal_comps r (rev (''..'' # acc))"
      using c normal_comps_push(2) [of r "rev as @ [''..'']"] by auto
    then show ?thesis using 2(3) free c by auto
  next
    case d: 4
    then show ?thesis using 2(4) 2(6) free normal_comps_snocD(1) by auto
  next
    case e: 5
    with 2(7) have "comp_ok c" by (simp add: comp_ok_def)
    with 2(6) e have "normal_comps r (rev (c # acc))" using normal_comps_push(1) by simp
    then show ?thesis using 2(5) free e by auto
  qed
qed simp

lemma path_comps_normal: "normal_comps (is_abs s) (path_comps s)"
  unfolding path_comps_def by (rule clean_comps_normal) (auto dest: split_on_free)

lemma clean_comps_append:
  "clean_comps r acc (xs @ ys) = clean_comps r (rev (clean_comps r acc xs)) ys"
  by (induction r acc xs rule: clean_comps.induct) (auto split: list.splits)

lemma clean_comps_id: "normal_comps r (rev acc @ cs) \<Longrightarrow> clean_comps r acc cs = rev acc @ cs"
proof (induction cs arbitrary: acc)
  case (Cons c cs)
  have ok: "comp_ok c" using Cons.prems by (simp add: normal_comps_def)
  have IH: "clean_comps r (c # acc) cs = rev acc @ c # cs"
    using Cons.IH [of "c # acc"] Cons.prems by simp
  show ?case
  proof (cases "c = ''..''")
    case True
    have "normal_comps r ((rev acc @ [''..'']) @ cs)" using Cons.prems True by simp
    then have "r = False" "\<forall>y\<in>set acc. y = ''..''"
      by (auto simp: normal_comps_def dropWhile_append split: if_splits)
    then show ?thesis using True IH by (cases acc) auto
  next
    case False
    then show ?thesis using ok IH by (simp add: comp_ok_def)
  qed
qed simp

lemma path_of_split:
  "normal_comps r cs \<Longrightarrow> split_on (CHR ''/'') (path_of r cs)
     = (if r then [] # (if cs = [] then [[]] else cs) else if cs = [] then [''.''] else cs)"
  using split_join [of cs "CHR ''/''"]
  by (auto simp: path_of_def normal_comps_def list_all_iff comp_ok_def)

lemma is_abs_path_of: "normal_comps r cs \<Longrightarrow> is_abs (path_of r cs) = r"
  by (cases cs; cases "tl cs"; cases "hd cs")
    (auto simp: path_of_def is_abs_def has_prefix_def normal_comps_def comp_ok_def)

lemma path_comps_of: "normal_comps r cs \<Longrightarrow> path_comps (path_of r cs) = cs"
  using clean_comps_id [of r "[]" cs]
  by (cases r; cases "cs = []") (simp_all add: path_comps_def path_of_split is_abs_path_of)

lemma path_clean_idem [simp]: "path_clean (path_clean s) = path_clean s"
  by (simp add: path_clean_def is_abs_path_of path_comps_of path_comps_normal)

lemma path_comps_clean [simp]: "path_comps (path_clean s) = path_comps s" "is_abs (path_clean s) = is_abs s"
  by (simp_all add: path_clean_def is_abs_path_of path_comps_of path_comps_normal)

section \<open>Joining, and containment\<close>

lemma is_abs_append: "is_abs a \<Longrightarrow> is_abs (a @ b)"
  by (cases a) (auto simp: is_abs_def has_prefix_def)

lemma normal_rooted: "normal_comps True cs \<longleftrightarrow> list_all comp_ok cs \<and> ''..'' \<notin> set cs"
  by (auto simp: normal_comps_def dest: set_dropWhileD)

lemma normal_rooted_take: "normal_comps True cs \<Longrightarrow> normal_comps True (take k cs)"
  by (auto simp: normal_rooted list_all_iff dest: in_set_takeD)

lemma path_comps_join:
  assumes "is_abs dir" "normal_comps True (path_comps dir @ cs)" "normal_comps False cs"
  shows "path_comps (path_join dir (path_of False cs)) = path_comps dir @ cs"
proof -
  let ?c = "path_of False cs"
  have "split_on (CHR ''/'') ?c \<noteq> [[]]"
    using assms(3) by (subst path_of_split) (auto simp: normal_comps_def comp_ok_def)
  then have ne: "dir \<noteq> []" "?c \<noteq> []"
    using assms(1) by (auto simp: is_abs_def has_prefix_def)
  have split: "split_on (CHR ''/'') (dir @ CHR ''/'' # ?c)
      = split_on (CHR ''/'') dir @ (if cs = [] then [''.''] else cs)"
    using path_of_split [OF assms(3)] by (simp add: split_on_append)
  have "path_comps (dir @ CHR ''/'' # ?c) = clean_comps True (rev (path_comps dir)) (if cs = [] then [''.''] else cs)"
    by (simp only: path_comps_def is_abs_append [OF assms(1)] assms(1) split clean_comps_append)
  also have "\<dots> = path_comps dir @ cs"
    using clean_comps_id [of True "rev (path_comps dir)" cs] assms(2) by simp
  finally show ?thesis using ne by (simp add: path_join_def)
qed

lemma strip_common_append: "strip_common xs (xs @ ys) = ([], ys)"
  by (induction xs) simp_all

lemma strip_common_Nil: "strip_common xs ys = ([], t) \<Longrightarrow> ys = xs @ t"
  by (induction xs ys rule: strip_common.induct) (auto split: if_splits)

lemma strip_common_suffix: "strip_common xs ys = (b, t) \<Longrightarrow> set b \<subseteq> set xs \<and> set t \<subseteq> set ys"
  by (induction xs ys rule: strip_common.induct) (auto split: if_splits)

lemma strip_common_list_all: "strip_common xs ys = (b, t) \<Longrightarrow> list_all P ys \<Longrightarrow> list_all P t"
  by (induction xs ys rule: strip_common.induct) (auto split: if_splits)

lemma path_of_False_prefix:
  "path_of False (replicate (Suc n) ''..'' @ t) = ''..'' \<or> has_prefix ''../'' (path_of False (replicate (Suc n) ''..'' @ t))"
  by (cases "replicate n ''..'' @ t") (auto simp: path_of_def has_prefix_def)

lemma path_of_down:
  assumes "t \<noteq> []" "list_all comp_ok t" "''..'' \<notin> set t"
  shows "path_of False t \<noteq> ''.''" "path_of False t \<noteq> ''..''" "\<not> has_prefix ''../'' (path_of False t)"
    "\<not> is_abs (path_of False t)"
proof -
  have n: "normal_comps False t"
    using assms(2,3) by (auto simp: normal_comps_def dest: set_dropWhileD)
  then have s: "split_on (CHR ''/'') (path_of False t) = t"
    using path_of_split [OF n] assms(1) by simp
  show "path_of False t \<noteq> ''.''" "path_of False t \<noteq> ''..''"
    using s assms by (auto simp: comp_ok_def)
  show "\<not> has_prefix ''../'' (path_of False t)"
  proof
    assume "has_prefix ''../'' (path_of False t)"
    then obtain r where "path_of False t = ''..'' @ CHR ''/'' # r"
      by (metis append_Cons append_Nil append_take_drop_id has_prefix_def)
    with s have "t = [''..''] @ split_on (CHR ''/'') r"
      by (simp add: split_on_append [of "CHR ''/''" "''..''"] del: append_Cons append_Nil)
    then show False using assms(3) by simp
  qed
  show "\<not> is_abs (path_of False t)" using is_abs_path_of [OF n] by simp
qed

lemma pathIsUnder_prefix:
  assumes "is_abs parent" "is_abs child"
  shows "pathIsUnder child parent \<longleftrightarrow> (\<exists>t. path_comps child = path_comps parent @ t)"
proof -
  obtain b t where bt: "strip_common (path_comps parent) (path_comps child) = (b, t)"
    by (metis surj_pair)
  have np: "''..'' \<notin> set (path_comps parent)" "''..'' \<notin> set (path_comps child)" "list_all comp_ok (path_comps child)"
    using path_comps_normal [of parent] path_comps_normal [of child] assms by (auto simp: normal_comps_def)
  then have t: "list_all comp_ok t" "''..'' \<notin> set t" "''..'' \<notin> set b"
    using strip_common_list_all [OF bt] strip_common_suffix [OF bt] by auto
  have rel: "path_rel parent child = Some (path_of False (replicate (length b) ''..'' @ t))"
    using assms bt t by (simp add: path_rel_def)
  show ?thesis
  proof (cases b)
    case Nil
    have "pathIsUnder child parent"
      using path_of_down [OF _ t(1,2)]
      by (cases "t = []") (simp_all add: pathIsUnder_def rel Nil path_of_def [of False "[]"])
    then show ?thesis using strip_common_Nil [of _ _ t] bt Nil by auto
  next
    case (Cons x xs)
    have "path_of False (replicate (length b) ''..'' @ t) \<noteq> ''.''"
      using path_of_False_prefix [of "length xs" t] Cons by (auto simp: has_prefix_def)
    then have "\<not> pathIsUnder child parent"
      using path_of_False_prefix [of "length xs" t] Cons by (auto simp: pathIsUnder_def rel)
    moreover have "path_comps child \<noteq> path_comps parent @ t'" for t'
      using bt Cons strip_common_append [of "path_comps parent" t'] by auto
    ultimately show ?thesis by blast
  qed
qed

section \<open>Taking paths apart\<close>

lemma path_split_cut: "CHR ''/'' \<notin> set b \<Longrightarrow> path_split (a @ CHR ''/'' # b) = (a @ ''/'', b)"
proof -
  assume "CHR ''/'' \<notin> set b"
  then have "takeWhile (\<lambda>c. c \<noteq> CHR ''/'') (rev b @ CHR ''/'' # rev a) = rev b"
    by (subst takeWhile_append2) auto
  then show ?thesis by (simp add: path_split_def Let_def)
qed

lemma path_split_base: "CHR ''/'' \<notin> set b \<Longrightarrow> path_split b = ([], b)"
proof -
  assume "CHR ''/'' \<notin> set b"
  then have t: "takeWhile (\<lambda>c. c \<noteq> CHR ''/'') (rev b) = rev b"
    by (auto simp: takeWhile_eq_all_conv)
  show ?thesis unfolding path_split_def t by simp
qed

lemma join_with_snoc: "cs \<noteq> [] \<Longrightarrow> join_with c (cs @ [x]) = join_with c cs @ c # x"
  by (induction c cs rule: join_with.induct) auto

lemma path_of_snoc: "cs \<noteq> [] \<Longrightarrow> path_of r (cs @ [c]) = path_of r cs @ CHR ''/'' # c"
  by (simp add: path_of_def join_with_snoc)

lemma path_comps_slash:
  "path_comps (a @ ''/'') = (if a = [] then [] else path_comps a)" "is_abs (a @ ''/'') = (a = [] \<or> is_abs a)"
proof -
  show 1: "is_abs (a @ ''/'') = (a = [] \<or> is_abs a)" by (cases a) (auto simp: is_abs_def has_prefix_def)
  have "split_on (CHR ''/'') (a @ ''/'') = split_on (CHR ''/'') a @ [[]]"
    using split_on_append [of "CHR ''/''" a "[]"] by simp
  then show "path_comps (a @ ''/'') = (if a = [] then [] else path_comps a)"
    by (auto simp: path_comps_def 1 clean_comps_append)
qed

lemma path_dir_snoc:
  assumes "normal_comps True (cs @ [c])"
  shows "path_dir (path_of True (cs @ [c])) = path_of True cs"
proof -
  have c: "CHR ''/'' \<notin> set c" "normal_comps True cs"
    using assms by (auto simp: normal_comps_def comp_ok_def dest: set_dropWhileD)
  have s: "path_of True (cs @ [c]) = (if cs = [] then [] else path_of True cs) @ CHR ''/'' # c"
    by (simp add: path_of_snoc) (simp add: path_of_def)
  have ne: "path_of True cs \<noteq> []" by (simp add: path_of_def)
  show ?thesis
    using path_comps_of [OF c(2)] is_abs_path_of [OF c(2)] ne
    by (simp add: path_dir_def s path_split_cut [OF c(1)] path_clean_def path_comps_slash [of "[]", simplified]
        path_comps_slash)
qed

lemma path_join_beside:
  assumes "normal_comps False cs" "comp_ok x" "x \<noteq> ''..''"
  shows "path_join (if cs = [] then [] else path_of False cs @ ''/'') x = path_of False (cs @ [x])"
proof -
  have n: "normal_comps False (cs @ [x])" using normal_comps_push(1) assms by blast
  have x: "CHR ''/'' \<notin> set x" "x \<noteq> []" "\<not> is_abs x"
    using assms(2) by (auto simp: comp_ok_def is_abs_def has_prefix_def) (cases x; auto)
  show ?thesis
  proof (cases "cs = []")
    case True
    then show ?thesis using x assms(2,3) by (simp add: path_join_def path_clean_def path_comps_def split_on_single comp_ok_def path_of_def)
  next
    case False
    let ?p = "path_of False cs"
    have p: "?p \<noteq> []" "\<not> is_abs ?p" "split_on (CHR ''/'') ?p = cs"
      using path_of_split [OF assms(1)] is_abs_path_of [OF assms(1)] False split_on.simps(1) [of "CHR ''/''"] assms(1)
      by (auto simp: normal_comps_def comp_ok_def)
    have abs: "\<not> is_abs (?p @ t)" for t using p(1,2) by (cases ?p) (auto simp: is_abs_def has_prefix_def)
    have "split_on (CHR ''/'') (?p @ CHR ''/'' # CHR ''/'' # x) = cs @ [[], x]"
      using split_on_append [of "CHR ''/''" ?p "CHR ''/'' # x"] p(3) x(1) by (simp add: split_on_single)
    then have "path_comps (?p @ CHR ''/'' # CHR ''/'' # x) = clean_comps False (rev (clean_comps False [] cs)) [[], x]"
      by (simp add: path_comps_def abs clean_comps_append)
    also have "\<dots> = cs @ [x]"
      using clean_comps_id [of False "[]" cs] assms by (simp add: comp_ok_def)
    finally show ?thesis
      using p(1) x(2) False by (simp add: path_join_def path_clean_def abs)
  qed
qed

section \<open>Properties\<close>

lemma clean_comps_subset: "set (clean_comps r acc cs) \<subseteq> set acc \<union> set cs"
  by (induction r acc cs rule: clean_comps.induct) (auto split: list.splits if_splits)

text \<open>What a successful \<open>sanitizeRelativePath\<close> returns, in components.\<close>

lemma sanitize_SomeD:
  assumes "sanitizeRelativePath upper p goos = Some clean"
  shows "clean = path_of False (path_comps p)" "''..'' \<notin> set (path_comps p)" "normal_comps False (path_comps p)"
    "\<not> is_abs p" "goos = ''windows'' \<Longrightarrow> list_all (\<lambda>c. windowsPathHazard upper c = None) (path_comps p)"
proof -
  have abs: "\<not> is_abs p" and c: "clean = path_clean p" and dd: "''..'' \<notin> set (split_on (CHR ''/'') clean)"
    and hz: "goos = ''windows'' \<Longrightarrow> list_all (\<lambda>c. windowsPathHazard upper c = None) (split_on (CHR ''/'') p)"
    using assms by (auto simp: sanitizeRelativePath_def Let_def list_all_iff list_ex_iff split: if_splits)
  show n: "normal_comps False (path_comps p)" "\<not> is_abs p" using path_comps_normal [of p] abs by simp_all
  show e: "clean = path_of False (path_comps p)" using c abs by (simp add: path_clean_def)
  show "''..'' \<notin> set (path_comps p)"
    using dd path_of_split [OF n(1)] by (auto simp: e split: if_splits)
  show "goos = ''windows'' \<Longrightarrow> list_all (\<lambda>c. windowsPathHazard upper c = None) (path_comps p)"
    using hz clean_comps_subset [of False "[]" "split_on (CHR ''/'') p"] abs
    by (auto simp: list_all_iff path_comps_def)
qed

lemma sanitize_join:
  assumes s: "sanitizeRelativePath upper p goos = Some clean" and d: "is_abs dir"
  shows "path_comps (path_join dir clean) = path_comps dir @ path_comps p" "is_abs (path_join dir clean)"
proof -
  note sn = sanitize_SomeD [OF s]
  have "''..'' \<notin> set (path_comps dir)" "list_all comp_ok (path_comps dir)"
    using path_comps_normal [of dir] d by (simp_all add: normal_comps_def)
  then have "normal_comps True (path_comps dir @ path_comps p)"
    using sn(2,3) by (auto simp: normal_comps_def dest: set_dropWhileD)
  from path_comps_join [OF d this sn(3)] show "path_comps (path_join dir clean) = path_comps dir @ path_comps p"
    by (simp only: sn(1))
  show "is_abs (path_join dir clean)"
    using d is_abs_append [OF d] by (auto simp: path_join_def)
qed

text \<open>
  C15. A path a peer names cannot leave the receive folder. Whatever bytes arrive, when
  \<open>SanitizeRelativePath\<close> accepts them the result is clean, relative and free of parent steps;
  joined to any absolute receive folder its components are the folder's followed by its own,
  so the target lies under the folder by the code's own test (the classifier's second line of
  defence never fires); and with Windows as the receiver no component is a hazard.
\<close>

theorem sanitize_contained:
  assumes "sanitizeRelativePath upper p goos = Some clean" and "is_abs dir"
  shows "path_clean clean = clean \<and> \<not> is_abs clean \<and> ''..'' \<notin> set (path_comps clean)
    \<and> path_comps (path_join dir clean) = path_comps dir @ path_comps clean
    \<and> pathIsUnder (path_join dir clean) (path_clean dir)
    \<and> (goos = ''windows'' \<longrightarrow> list_all (\<lambda>c. windowsPathHazard upper c = None) (path_comps clean))"
proof -
  note sn = sanitize_SomeD [OF assms(1)] and sj = sanitize_join [OF assms]
  have c: "path_comps clean = path_comps p" "\<not> is_abs clean"
    using path_comps_of [OF sn(3)] is_abs_path_of [OF sn(3)] by (simp_all add: sn(1))
  moreover have "path_clean clean = clean" using c by (simp add: path_clean_def sn(1))
  moreover have "pathIsUnder (path_join dir clean) (path_clean dir)"
    using sj assms(2) by (subst pathIsUnder_prefix) auto
  ultimately show ?thesis using sn sj by simp
qed

theorem sanitize_contained_witness:
  "sanitizeRelativePath id ''a//b/../c'' ''linux'' = Some ''a/c''
   \<and> pathIsUnder (path_join ''/recv'' ''a/c'') (path_clean ''/recv'')"
proof -
  have s: "sanitizeRelativePath id ''a//b/../c'' ''linux'' = Some ''a/c''"
    by (simp add: sanitizeRelativePath_def has_prefix_def is_abs_def drive_letter_def path_clean_def
        path_comps_def path_of_def)
  have "is_abs ''/recv''" by (simp add: is_abs_def has_prefix_def)
  from sanitize_contained [OF s this] s show ?thesis by blast
qed

end
