(* ===== verification/Fs_Model.thy ===== *)
theory Fs_Model
  imports Safe_Paths "HOL-Library.AList"
begin

text \<open>
  The receiving file system as the transfer engine sees it: a finite map from paths to nodes.
  Paths are clean absolute strings; a symbolic link is a node that only says whether it leads
  to a folder. Every call that can fail consumes one entry of an arbitrary fault schedule, so
  disk-full and permission errors may strike anywhere. A failing write may have put some bytes
  down first. The clock is the disk's own.
\<close>

datatype node =
    NFile bytes u32 int
  | NDir u32
  | NLink bool

type_synonym fs = "(string \<times> node) list"

datatype fault_kind = NoSpace | CrossDevice | OtherFault

datatype fault = Fault (flt_kind: fault_kind) (flt_wrote: nat)

type_synonym faults = "nat \<Rightarrow> fault option"

record disk =
  dk_fs :: fs
  dk_tick :: nat
  dk_now :: int

definition lstat :: "disk \<Rightarrow> string \<Rightarrow> node option" where
  "lstat d p = map_of (dk_fs d) p"

definition dk_put :: "string \<Rightarrow> node \<Rightarrow> disk \<Rightarrow> disk" where
  "dk_put p n d = d\<lparr>dk_fs := AList.update p n (dk_fs d)\<rparr>"

definition dk_del :: "string \<Rightarrow> disk \<Rightarrow> disk" where
  "dk_del p d = d\<lparr>dk_fs := AList.delete p (dk_fs d)\<rparr>"

definition tick :: "disk \<Rightarrow> disk" where
  "tick d = d\<lparr>dk_tick := Suc (dk_tick d)\<rparr>"

definition next_fault :: "faults \<Rightarrow> disk \<Rightarrow> fault option" where
  "next_fault flt d = flt (dk_tick d)"

fun is_regular :: "node option \<Rightarrow> bool" where
  "is_regular (Some (NFile c m t)) = True"
| "is_regular _ = False"

fun is_dir :: "node option \<Rightarrow> bool" where
  "is_dir (Some (NDir m)) = True"
| "is_dir _ = False"

fun is_link :: "node option \<Rightarrow> bool" where
  "is_link (Some (NLink b)) = True"
| "is_link _ = False"

text \<open>\<open>os.Stat\<close> follows links: whether a path leads to a folder.\<close>

fun leads_to_dir :: "node option \<Rightarrow> bool" where
  "leads_to_dir (Some (NDir m)) = True"
| "leads_to_dir (Some (NLink b)) = b"
| "leads_to_dir _ = False"

fun node_bytes :: "node option \<Rightarrow> bytes" where
  "node_bytes (Some (NFile c m t)) = c"
| "node_bytes _ = []"

fun node_mode :: "node option \<Rightarrow> u32" where
  "node_mode (Some (NFile c m t)) = m"
| "node_mode (Some (NDir m)) = m"
| "node_mode _ = 0"

fun node_mtime :: "node option \<Rightarrow> int" where
  "node_mtime (Some (NFile c m t)) = t"
| "node_mtime _ = 0"

lemma is_regular_iff: "is_regular n \<longleftrightarrow> (\<exists>m t. n = Some (NFile (node_bytes n) m t))"
  by (cases n rule: is_regular.cases) auto

definition dir_empty :: "disk \<Rightarrow> string \<Rightarrow> bool" where
  "dir_empty d p \<longleftrightarrow> list_all (\<lambda>e. fst e = p \<or> path_dir (fst e) \<noteq> p) (dk_fs d)"

section \<open>System calls\<close>

text \<open>Each returns the error, if any, and the disk after it.\<close>

definition os_Remove :: "faults \<Rightarrow> string \<Rightarrow> disk \<Rightarrow> fault option \<times> disk" where
  "os_Remove flt p d =
     (case next_fault flt d of
        Some f \<Rightarrow> (Some f, tick d)
      | None \<Rightarrow>
          (case lstat d p of
             None \<Rightarrow> (Some (Fault OtherFault 0), tick d)
           | Some n \<Rightarrow>
               if is_dir (Some n) \<and> \<not> dir_empty d p then (Some (Fault OtherFault 0), tick d)
               else (None, dk_del p (tick d))))"

definition os_Mkdir :: "faults \<Rightarrow> string \<Rightarrow> u32 \<Rightarrow> disk \<Rightarrow> fault option \<times> disk" where
  "os_Mkdir flt p mode d =
     (case next_fault flt d of
        Some f \<Rightarrow> (Some f, tick d)
      | None \<Rightarrow>
          if lstat d p \<noteq> None \<or> \<not> leads_to_dir (lstat d (path_dir p)) then (Some (Fault OtherFault 0), tick d)
          else (None, dk_put p (NDir mode) (tick d)))"

text \<open>\<open>O_RDWR|O_CREATE|O_TRUNC\<close> and \<open>O_RDWR\<close>; the callers rule out links at the path.\<close>

definition os_Create :: "faults \<Rightarrow> string \<Rightarrow> u32 \<Rightarrow> disk \<Rightarrow> fault option \<times> disk" where
  "os_Create flt p mode d =
     (case next_fault flt d of
        Some f \<Rightarrow> (Some f, tick d)
      | None \<Rightarrow>
          (case lstat d p of
             Some (NFile c m t) \<Rightarrow> (None, dk_put p (NFile [] m (dk_now d)) (tick d))
           | Some _ \<Rightarrow> (Some (Fault OtherFault 0), tick d)
           | None \<Rightarrow>
               if leads_to_dir (lstat d (path_dir p))
               then (None, dk_put p (NFile [] mode (dk_now d)) (tick d))
               else (Some (Fault OtherFault 0), tick d)))"

definition os_Open :: "faults \<Rightarrow> string \<Rightarrow> disk \<Rightarrow> fault option \<times> disk" where
  "os_Open flt p d =
     (case next_fault flt d of
        Some f \<Rightarrow> (Some f, tick d)
      | None \<Rightarrow> (if is_regular (lstat d p) then None else Some (Fault OtherFault 0), tick d))"

definition pad_to :: "nat \<Rightarrow> bytes \<Rightarrow> bytes" where
  "pad_to n c = c @ replicate (n - length c) 0"

definition overwrite_at :: "nat \<Rightarrow> bytes \<Rightarrow> bytes \<Rightarrow> bytes" where
  "overwrite_at off b c = take off (pad_to off c) @ b @ drop (off + length b) c"

definition set_bytes :: "string \<Rightarrow> bytes \<Rightarrow> disk \<Rightarrow> disk" where
  "set_bytes p c d =
     (case lstat d p of
        Some (NFile c0 m t) \<Rightarrow> dk_put p (NFile c m (dk_now d)) d
      | _ \<Rightarrow> d)"

text \<open>\<open>os.WriteFile\<close>: create or truncate, then write.\<close>

definition os_WriteFile :: "faults \<Rightarrow> string \<Rightarrow> bytes \<Rightarrow> u32 \<Rightarrow> disk \<Rightarrow> fault option \<times> disk" where
  "os_WriteFile flt p b mode d =
     (case os_Create flt p mode d of
        (Some f, d1) \<Rightarrow> (Some f, d1)
      | (None, d1) \<Rightarrow>
          (case next_fault flt d1 of
             Some f \<Rightarrow> (Some f, set_bytes p (take (flt_wrote f) b) (tick d1))
           | None \<Rightarrow> (None, set_bytes p b (tick d1))))"

definition f_WriteAt :: "faults \<Rightarrow> string \<Rightarrow> bytes \<Rightarrow> nat \<Rightarrow> disk \<Rightarrow> fault option \<times> disk" where
  "f_WriteAt flt p b off d =
     (case next_fault flt d of
        Some f \<Rightarrow>
          (Some f,
           if take (flt_wrote f) b = [] then tick d
           else set_bytes p (overwrite_at off (take (flt_wrote f) b) (node_bytes (lstat d p))) (tick d))
      | None \<Rightarrow> (None, set_bytes p (overwrite_at off b (node_bytes (lstat d p))) (tick d)))"

definition f_Truncate :: "faults \<Rightarrow> string \<Rightarrow> nat \<Rightarrow> disk \<Rightarrow> fault option \<times> disk" where
  "f_Truncate flt p n d =
     (case next_fault flt d of
        Some f \<Rightarrow> (Some f, tick d)
      | None \<Rightarrow> (None, set_bytes p (take n (pad_to n (node_bytes (lstat d p)))) (tick d)))"

text \<open>\<open>fsync\<close> changes nothing this model sees; it can fail.\<close>

definition f_Sync :: "faults \<Rightarrow> disk \<Rightarrow> fault option \<times> disk" where
  "f_Sync flt d = (next_fault flt d, tick d)"

definition os_Chmod :: "faults \<Rightarrow> string \<Rightarrow> u32 \<Rightarrow> disk \<Rightarrow> fault option \<times> disk" where
  "os_Chmod flt p mode d =
     (case next_fault flt d of
        Some f \<Rightarrow> (Some f, tick d)
      | None \<Rightarrow>
          (case lstat d p of
             Some (NFile c m t) \<Rightarrow> (None, dk_put p (NFile c mode t) (tick d))
           | Some (NDir m) \<Rightarrow> (None, dk_put p (NDir mode) (tick d))
           | _ \<Rightarrow> (Some (Fault OtherFault 0), tick d)))"

definition os_Chtimes :: "faults \<Rightarrow> string \<Rightarrow> int \<Rightarrow> disk \<Rightarrow> fault option \<times> disk" where
  "os_Chtimes flt p t d =
     (case next_fault flt d of
        Some f \<Rightarrow> (Some f, tick d)
      | None \<Rightarrow>
          (case lstat d p of
             Some (NFile c m t0) \<Rightarrow> (None, dk_put p (NFile c m t) (tick d))
           | _ \<Rightarrow> (Some (Fault OtherFault 0), tick d)))"

definition os_Rename :: "faults \<Rightarrow> string \<Rightarrow> string \<Rightarrow> disk \<Rightarrow> fault option \<times> disk" where
  "os_Rename flt src dst d =
     (case next_fault flt d of
        Some f \<Rightarrow> (Some f, tick d)
      | None \<Rightarrow>
          (case lstat d src of
             None \<Rightarrow> (Some (Fault OtherFault 0), tick d)
           | Some n \<Rightarrow>
               if is_dir (lstat d dst) \<or> \<not> leads_to_dir (lstat d (path_dir dst))
               then (Some (Fault OtherFault 0), tick d)
               else if src = dst then (None, tick d)
               else (None, dk_put dst n (dk_del src (tick d)))))"

text \<open>
  \<open>os.MkdirAll\<close>: the missing folders above a path, from the top down. The recursion is on the
  path's components.
\<close>

fun mkdirs :: "faults \<Rightarrow> u32 \<Rightarrow> string list \<Rightarrow> string list \<Rightarrow> disk \<Rightarrow> fault option \<times> disk" where
  "mkdirs flt mode pre [] d = (None, d)"
| "mkdirs flt mode pre (c # cs) d =
     (let p = path_of True (pre @ [c]) in
      if leads_to_dir (lstat d p) then mkdirs flt mode (pre @ [c]) cs d
      else (case os_Mkdir flt p mode d of
              (Some f, d1) \<Rightarrow> (Some f, d1)
            | (None, d1) \<Rightarrow> mkdirs flt mode (pre @ [c]) cs d1))"

definition os_MkdirAll :: "faults \<Rightarrow> string \<Rightarrow> u32 \<Rightarrow> disk \<Rightarrow> fault option \<times> disk" where
  "os_MkdirAll flt p mode d = mkdirs flt mode [] (path_comps p) d"

text \<open>
  Calls whose error the code drops (\<open>_ = os.Remove(p)\<close>): only the disk is left.
\<close>

definition ignoring :: "(disk \<Rightarrow> fault option \<times> disk) \<Rightarrow> disk \<Rightarrow> disk" where
  "ignoring op d = snd (op d)"

text \<open>\<open>moveFile\<close> of \<open>fsmeta.go\<close>; \<open>tmp\<close> is the name \<open>os.CreateTemp\<close> picks beside the
  target, and 384 is the mode \<open>0600\<close> it creates it with.\<close>

definition copy_over :: "faults \<Rightarrow> string \<Rightarrow> string \<Rightarrow> string \<Rightarrow> disk \<Rightarrow> fault option \<times> disk" where
  "copy_over flt tmp src dst d =
     (case f_WriteAt flt tmp (node_bytes (lstat d src)) 0 d of
        (Some f, d1) \<Rightarrow> (Some f, d1)
      | (None, d1) \<Rightarrow>
          let d2 = ignoring (os_Chmod flt tmp (node_mode (lstat d1 src))) d1;
              d3 = ignoring (os_Chtimes flt tmp (node_mtime (lstat d2 src))) d2
          in (case f_Sync flt d3 of
                (Some f, d4) \<Rightarrow> (Some f, d4)
              | (None, d4) \<Rightarrow>
                  (case os_Rename flt tmp dst d4 of
                     (Some f, d5) \<Rightarrow> (Some f, d5)
                   | (None, d5) \<Rightarrow> (None, ignoring (os_Remove flt src) d5))))"

definition moveFile :: "faults \<Rightarrow> string \<Rightarrow> string \<Rightarrow> string \<Rightarrow> disk \<Rightarrow> fault option \<times> disk" where
  "moveFile flt tmp src dst d =
     (case os_Rename flt src dst d of
        (None, d1) \<Rightarrow> (None, d1)
      | (Some f, d1) \<Rightarrow>
          if flt_kind f \<noteq> CrossDevice then (Some f, d1)
          else (case os_Open flt src d1 of
                  (Some f, d2) \<Rightarrow> (Some f, d2)
                | (None, d2) \<Rightarrow>
                    (case os_Create flt tmp 384 d2 of
                       (Some f, d3) \<Rightarrow> (Some f, d3)
                     | (None, d3) \<Rightarrow>
                         (case copy_over flt tmp src dst d3 of
                            (e, d4) \<Rightarrow> (e, ignoring (os_Remove flt tmp) d4)))))"

section \<open>What a call leaves alone\<close>

named_theorems fs_simps \<open>what a path shows after a change\<close>
named_theorems fs_frame \<open>which paths a call can change\<close>

lemma lstat_put [fs_simps]: "lstat (dk_put p n d) q = (if q = p then Some n else lstat d q)"
  by (simp add: lstat_def dk_put_def update_conv')

lemma lstat_del [fs_simps]: "lstat (dk_del p d) q = (if q = p then None else lstat d q)"
  by (simp add: lstat_def dk_del_def delete_conv')

lemma lstat_tick [fs_simps]: "lstat (tick d) q = lstat d q"
  by (simp add: lstat_def tick_def)

lemma lstat_set_bytes [fs_simps]: "q \<noteq> p \<Longrightarrow> lstat (set_bytes p c d) q = lstat d q"
  by (simp add: set_bytes_def fs_simps split: option.splits node.splits)

definition same_outside :: "string set \<Rightarrow> disk \<Rightarrow> disk \<Rightarrow> bool" where
  "same_outside P d d' \<longleftrightarrow> (\<forall>q. q \<notin> P \<longrightarrow> lstat d' q = lstat d q)"

lemma same_outside_refl [simp]: "same_outside P d d"
  by (simp add: same_outside_def)

lemma same_outside_trans: "same_outside P d d' \<Longrightarrow> same_outside P d' d'' \<Longrightarrow> same_outside P d d''"
  by (simp add: same_outside_def)

lemma same_outside_mono: "same_outside P d d' \<Longrightarrow> P \<subseteq> Q \<Longrightarrow> same_outside Q d d'"
  by (auto simp: same_outside_def)

lemma same_outsideD: "same_outside P d d' \<Longrightarrow> q \<notin> P \<Longrightarrow> lstat d' q = lstat d q"
  by (simp add: same_outside_def)

lemma frame_Remove [fs_frame]: "same_outside {p} d (snd (os_Remove flt p d))"
  by (auto simp: same_outside_def os_Remove_def fs_simps split: option.splits)

lemma frame_Create [fs_frame]: "same_outside {p} d (snd (os_Create flt p m d))"
  by (auto simp: same_outside_def os_Create_def fs_simps split: option.splits node.splits)

lemma frame_Mkdir [fs_frame]: "same_outside {p} d (snd (os_Mkdir flt p m d))"
  by (auto simp: same_outside_def os_Mkdir_def fs_simps split: option.splits)

lemma frame_Open [fs_frame]: "same_outside P d (snd (os_Open flt p d))"
  by (auto simp: same_outside_def os_Open_def fs_simps split: option.splits)

lemma frame_Sync [fs_frame]: "same_outside P d (snd (f_Sync flt d))"
  by (auto simp: same_outside_def f_Sync_def fs_simps)

lemma frame_WriteAt [fs_frame]: "same_outside {p} d (snd (f_WriteAt flt p b off d))"
  by (auto simp: same_outside_def f_WriteAt_def fs_simps split: option.splits)

lemma frame_Truncate [fs_frame]: "same_outside {p} d (snd (f_Truncate flt p n d))"
  by (auto simp: same_outside_def f_Truncate_def fs_simps split: option.splits)

lemma frame_Chmod [fs_frame]: "same_outside {p} d (snd (os_Chmod flt p m d))"
  by (auto simp: same_outside_def os_Chmod_def fs_simps split: option.splits node.splits)

lemma frame_Chtimes [fs_frame]: "same_outside {p} d (snd (os_Chtimes flt p t d))"
  by (auto simp: same_outside_def os_Chtimes_def fs_simps split: option.splits node.splits)

lemma frame_Rename [fs_frame]: "same_outside {src, dst} d (snd (os_Rename flt src dst d))"
  by (auto simp: same_outside_def os_Rename_def fs_simps split: option.splits)

lemma frame_WriteFile [fs_frame]: "same_outside {p} d (snd (os_WriteFile flt p b m d))"
proof -
  obtain e d1 where c: "os_Create flt p m d = (e, d1)" by (metis surj_pair)
  have "same_outside {p} d d1" using frame_Create [of p d flt m] by (simp add: c)
  then show ?thesis
    by (cases e) (auto simp: os_WriteFile_def c same_outside_def fs_simps split: option.splits)
qed

lemma frame_copy_over [fs_frame]: "same_outside {tmp, src, dst} d (snd (copy_over flt tmp src dst d))"
proof -
  obtain e1 d1 where 1: "f_WriteAt flt tmp (node_bytes (lstat d src)) 0 d = (e1, d1)" by (metis surj_pair)
  define d2 where "d2 = ignoring (os_Chmod flt tmp (node_mode (lstat d1 src))) d1"
  define d3 where "d3 = ignoring (os_Chtimes flt tmp (node_mtime (lstat d2 src))) d2"
  obtain e4 d4 where 4: "f_Sync flt d3 = (e4, d4)" by (metis surj_pair)
  obtain e5 d5 where 5: "os_Rename flt tmp dst d4 = (e5, d5)" by (metis surj_pair)
  let ?P = "{tmp, src, dst}"
  have a: "same_outside ?P d d1"
    using frame_WriteAt [of tmp d flt "node_bytes (lstat d src)" 0] by (auto simp: 1 intro: same_outside_mono)
  have b: "same_outside ?P d1 d2" "same_outside ?P d2 d3"
    unfolding d2_def d3_def ignoring_def by (rule same_outside_mono, rule fs_frame, simp)+
  have c: "same_outside ?P d3 d4" using frame_Sync [of ?P d3 flt] by (simp add: 4)
  have d: "same_outside ?P d4 d5"
    using frame_Rename [of tmp dst d4 flt] by (auto simp: 5 intro: same_outside_mono)
  have e: "same_outside ?P d5 (snd (os_Remove flt src d5))"
    by (rule same_outside_mono, rule fs_frame) simp
  note s4 = same_outside_trans [OF same_outside_trans [OF same_outside_trans [OF a b(1)] b(2)] c]
  note s5 = same_outside_trans [OF s4 d]
  note s6 = same_outside_trans [OF s5 e]
  show ?thesis
    unfolding copy_over_def 1 prod.case Let_def d2_def [symmetric] d3_def [symmetric] 4 5
    by (cases e1; cases e4; cases e5) (simp_all add: ignoring_def a s4 s5 s6)
qed

lemma frame_moveFile [fs_frame]: "same_outside {tmp, src, dst} d (snd (moveFile flt tmp src dst d))"
proof -
  let ?P = "{tmp, src, dst}"
  obtain e1 d1 where 1: "os_Rename flt src dst d = (e1, d1)" by (metis surj_pair)
  obtain e2 d2 where 2: "os_Open flt src d1 = (e2, d2)" by (metis surj_pair)
  obtain e3 d3 where 3: "os_Create flt tmp 384 d2 = (e3, d3)" by (metis surj_pair)
  obtain e4 d4 where 4: "copy_over flt tmp src dst d3 = (e4, d4)" by (metis surj_pair)
  have a: "same_outside ?P d d1"
    using frame_Rename [of src dst d flt] by (auto simp: 1 intro: same_outside_mono)
  have b: "same_outside ?P d1 d2" using frame_Open [of ?P d1 flt src] by (simp add: 2)
  have c: "same_outside ?P d2 d3"
    using frame_Create [of tmp d2 flt "384"] by (auto simp: 3 intro: same_outside_mono)
  have d: "same_outside ?P d3 d4" using frame_copy_over [of tmp src dst d3 flt] by (simp add: 4)
  have e: "same_outside ?P d4 (snd (os_Remove flt tmp d4))"
    by (rule same_outside_mono, rule fs_frame) simp
  note s2 = same_outside_trans [OF a b]
  note s3 = same_outside_trans [OF s2 c]
  note s5 = same_outside_trans [OF same_outside_trans [OF s3 d] e]
  show ?thesis
    unfolding moveFile_def 1 2 3 4 prod.case
    by (cases e1; cases e2; cases e3) (simp_all add: ignoring_def a s2 s3 s5)
qed

section \<open>What a successful call does\<close>

lemma Chmod_bytes [fs_simps]:
  "node_bytes (lstat (snd (os_Chmod flt p m d)) q) = node_bytes (lstat d q)"
  "is_regular (lstat (snd (os_Chmod flt p m d)) q) = is_regular (lstat d q)"
  by (auto simp: os_Chmod_def fs_simps split: option.splits node.splits)

lemma Chtimes_bytes [fs_simps]:
  "node_bytes (lstat (snd (os_Chtimes flt p t d)) q) = node_bytes (lstat d q)"
  "is_regular (lstat (snd (os_Chtimes flt p t d)) q) = is_regular (lstat d q)"
  by (auto simp: os_Chtimes_def fs_simps split: option.splits node.splits)

lemma set_bytes_same [fs_simps]:
  "is_regular (lstat d p) \<Longrightarrow> node_bytes (lstat (set_bytes p c d) p) = c"
  "is_regular (lstat (set_bytes p c d) q) = is_regular (lstat d q)"
  by (auto simp: set_bytes_def fs_simps split: option.splits node.splits)

lemma Create_ok:
  "os_Create flt p m d = (None, d') \<Longrightarrow> is_regular (lstat d' p) \<and> node_bytes (lstat d' p) = []"
  by (auto simp: os_Create_def fs_simps split: option.splits node.splits if_splits)

lemma WriteAt_ok:
  "f_WriteAt flt p b off d = (None, d') \<Longrightarrow> is_regular (lstat d p) \<Longrightarrow>
   is_regular (lstat d' p) \<and> node_bytes (lstat d' p) = overwrite_at off b (node_bytes (lstat d p))"
  by (auto simp: f_WriteAt_def fs_simps split: option.splits)

lemma Truncate_ok:
  "f_Truncate flt p n d = (None, d') \<Longrightarrow> is_regular (lstat d p) \<Longrightarrow>
   is_regular (lstat d' p) \<and> node_bytes (lstat d' p) = take n (pad_to n (node_bytes (lstat d p)))"
  by (auto simp: f_Truncate_def fs_simps split: option.splits)

lemma Rename_ok:
  "os_Rename flt src dst d = (None, d') \<Longrightarrow> src \<noteq> dst \<Longrightarrow> lstat d' dst = lstat d src \<and> lstat d' src = None"
  by (auto simp: os_Rename_def fs_simps split: option.splits if_splits)

lemma overwrite_fresh: "overwrite_at 0 b [] = b"
  by (simp add: overwrite_at_def)

lemma copy_over_ok:
  assumes ok: "copy_over flt tmp src dst d = (None, d')"
    and ne: "tmp \<noteq> src" "tmp \<noteq> dst" "src \<noteq> dst"
    and t: "is_regular (lstat d tmp)" "node_bytes (lstat d tmp) = []"
  shows "is_regular (lstat d' dst) \<and> node_bytes (lstat d' dst) = node_bytes (lstat d src)"
proof -
  obtain e1 d1 where 1: "f_WriteAt flt tmp (node_bytes (lstat d src)) 0 d = (e1, d1)" by (metis surj_pair)
  define d2 where "d2 = ignoring (os_Chmod flt tmp (node_mode (lstat d1 src))) d1"
  define d3 where "d3 = ignoring (os_Chtimes flt tmp (node_mtime (lstat d2 src))) d2"
  obtain e4 d4 where 4: "f_Sync flt d3 = (e4, d4)" by (metis surj_pair)
  obtain e5 d5 where 5: "os_Rename flt tmp dst d4 = (e5, d5)" by (metis surj_pair)
  have e: "e1 = None" "e4 = None" "e5 = None" and d': "d' = ignoring (os_Remove flt src) d5"
    using ok unfolding copy_over_def 1 prod.case Let_def d2_def [symmetric] d3_def [symmetric] 4 5
    by (auto split: option.splits)
  have r1: "is_regular (lstat d1 tmp)" "node_bytes (lstat d1 tmp) = node_bytes (lstat d src)"
    using WriteAt_ok [OF 1 [unfolded e] t(1)] t(2) overwrite_fresh by simp_all
  then have r3: "is_regular (lstat d3 tmp)" "node_bytes (lstat d3 tmp) = node_bytes (lstat d src)"
    by (simp_all add: d3_def d2_def ignoring_def fs_simps)
  have r4: "lstat d4 tmp = lstat d3 tmp" using 4 by (auto simp: f_Sync_def fs_simps)
  have r5: "lstat d5 dst = lstat d3 tmp" using Rename_ok [OF 5 [unfolded e] ne(2)] r4 by simp
  have "lstat d' dst = lstat d5 dst"
    unfolding d' ignoring_def using ne(3) by (intro same_outsideD [OF frame_Remove]) simp
  then show ?thesis using r5 r3 by simp
qed

lemma moveFile_ok:
  assumes ok: "moveFile flt tmp src dst d = (None, d')"
    and ne: "tmp \<noteq> src" "tmp \<noteq> dst" "src \<noteq> dst" and src: "is_regular (lstat d src)"
  shows "is_regular (lstat d' dst) \<and> node_bytes (lstat d' dst) = node_bytes (lstat d src)"
proof -
  obtain e1 d1 where 1: "os_Rename flt src dst d = (e1, d1)" by (metis surj_pair)
  show ?thesis
  proof (cases e1)
    case None
    then show ?thesis using ok 1 Rename_ok [OF _ ne(3)] src by (auto simp: moveFile_def)
  next
    case (Some f)
    have same: "lstat d1 q = lstat d q" for q
      using 1 Some by (auto simp: os_Rename_def fs_simps split: option.splits if_splits)
    obtain e2 d2 where 2: "os_Open flt src d1 = (e2, d2)" by (metis surj_pair)
    obtain e3 d3 where 3: "os_Create flt tmp 384 d2 = (e3, d3)" by (metis surj_pair)
    obtain e4 d4 where 4: "copy_over flt tmp src dst d3 = (e4, d4)" by (metis surj_pair)
    have x: "flt_kind f = CrossDevice"
      using ok unfolding moveFile_def 1 prod.case Some option.case by (simp split: if_splits)
    have e: "e2 = None" "e3 = None" "e4 = None" and d': "d' = ignoring (os_Remove flt tmp) d4"
      using ok x unfolding moveFile_def 1 2 3 4 prod.case Some option.case
      by (auto simp: 3 4 split: option.splits)
    have "lstat d2 src = lstat d src"
      using 2 same by (auto simp: os_Open_def fs_simps split: option.splits)
    moreover have "lstat d3 src = lstat d2 src"
      using same_outsideD [OF frame_Create [of tmp d2 flt 384], of src] ne(1) by (auto simp: 3)
    ultimately have "is_regular (lstat d4 dst) \<and> node_bytes (lstat d4 dst) = node_bytes (lstat d src)"
      using copy_over_ok [OF 4 [unfolded e] ne] Create_ok [OF 3 [unfolded e]] by simp
    moreover have "lstat d' dst = lstat d4 dst"
      unfolding d' ignoring_def using ne(2) by (intro same_outsideD [OF frame_Remove]) simp
    ultimately show ?thesis by simp
  qed
qed

end
