(* ===== verification/Partial_Store.thy ===== *)
theory Partial_Store
  imports Fs_Model Wire_Proto File_Hash
begin

text \<open>
  \<open>internal/transfer/partials.go\<close>: the hidden folder of partial downloads and their sidecars,
  and the file-mode and name rules of \<open>fsmeta.go\<close>. What lies outside the repository is bundled
  in \<open>env\<close>: the fault schedule and the receive folder, the two blake3 hashes, SHA-256, the
  Unicode normal form and case folding, the identifier \<open>hex (blake3 rel)\<close> of a path, the JSON
  encoding of a sidecar, the zstd decoder and the name \<open>os.CreateTemp\<close> would choose.
\<close>

record partialMeta =
  pm_Path :: string
  pm_Size :: u64
  pm_ModTime :: int

record env =
  ev_flt :: faults
  ev_dir :: string
  ev_goos :: string
  ev_upper :: "string \<Rightarrow> string"
  ev_nfc :: "string \<Rightarrow> string"
  ev_casefold :: "string \<Rightarrow> string"
  ev_id :: "string \<Rightarrow> string"
  ev_meta_enc :: "partialMeta \<Rightarrow> bytes"
  ev_meta_dec :: "bytes \<Rightarrow> partialMeta option"
  ev_bh :: "bytes \<Rightarrow> bytes"
  ev_fk :: "bytes \<Rightarrow> bytes"
  ev_sha :: "bytes \<Rightarrow> string"
  ev_zdec :: "bytes \<Rightarrow> bytes option"
  ev_tmp :: "string \<Rightarrow> string"
  ev_umask :: u32

section \<open>Modes, names and times\<close>

text \<open>384, 448, 511 and 493 are the octal modes 0600, 0700, 0777 and 0755.\<close>

definition fileMode :: "u32 \<Rightarrow> u32 \<Rightarrow> u32" where
  "fileMode umask perm = ((perm AND NOT umask) AND 511) OR 384"

definition dirMode :: "u32 \<Rightarrow> u32 \<Rightarrow> u32" where
  "dirMode umask perm = ((perm AND NOT umask) AND 511) OR 448"

record fsSemantics =
  sem_foldCase :: bool
  sem_foldNorm :: bool
  sem_coarseMtime :: bool

definition nameKey :: "env \<Rightarrow> fsSemantics \<Rightarrow> string \<Rightarrow> string" where
  "nameKey ev sem rel =
     (let r1 = (if sem_foldNorm sem then ev_nfc ev rel else rel)
      in if sem_foldCase sem then ev_casefold ev r1 else r1)"

definition sameMtime :: "fsSemantics \<Rightarrow> int \<Rightarrow> int \<Rightarrow> bool" where
  "sameMtime sem local remote =
     (let d = local - remote
      in if sem_coarseMtime sem then -2 \<le> d \<and> d \<le> 2 else d = 0)"

section \<open>The store\<close>

definition stateDirName :: string where "stateDirName = ''.fsend''"

definition partialMaxAge :: int where "partialMaxAge = 7 * 24 * 3600"

definition PartialDir :: "env \<Rightarrow> string" where
  "PartialDir ev = path_join (ev_dir ev) stateDirName"

definition ps_data :: "env \<Rightarrow> string \<Rightarrow> string" where
  "ps_data ev rel = path_join (PartialDir ev) (ev_id ev rel @ ''.partial'')"

definition ps_meta :: "env \<Rightarrow> string \<Rightarrow> string" where
  "ps_meta ev rel = path_join (PartialDir ev) (ev_id ev rel @ ''.meta'')"

definition ps_ensure :: "env \<Rightarrow> disk \<Rightarrow> fault option \<times> disk" where
  "ps_ensure ev d =
     (case lstat d (PartialDir ev) of
        Some n \<Rightarrow> (if is_dir (Some n) then (None, d) else (Some (Fault OtherFault 0), d))
      | None \<Rightarrow> os_Mkdir (ev_flt ev) (PartialDir ev) 448 d)"

definition ps_remove :: "env \<Rightarrow> string \<Rightarrow> disk \<Rightarrow> disk" where
  "ps_remove ev rel d =
     ignoring (os_Remove (ev_flt ev) (ps_meta ev rel)) (ignoring (os_Remove (ev_flt ev) (ps_data ev rel)) d)"

definition ps_dropMeta :: "env \<Rightarrow> string \<Rightarrow> disk \<Rightarrow> disk" where
  "ps_dropMeta ev rel d = ignoring (os_Remove (ev_flt ev) (ps_meta ev rel)) d"

text \<open>\<open>os.ReadFile\<close> of the sidecar, then \<open>json.Unmarshal\<close>.\<close>

definition read_meta :: "env \<Rightarrow> string \<Rightarrow> disk \<Rightarrow> partialMeta option \<times> disk" where
  "read_meta ev rel d =
     (case os_Open (ev_flt ev) (ps_meta ev rel) d of
        (Some f, d1) \<Rightarrow> (None, d1)
      | (None, d1) \<Rightarrow> (ev_meta_dec ev (node_bytes (lstat d1 (ps_meta ev rel))), d1))"

definition meta_matches :: "string \<Rightarrow> ListingEntry \<Rightarrow> partialMeta \<Rightarrow> bool" where
  "meta_matches rel e m \<longleftrightarrow> pm_Path m = rel \<and> pm_Size m = le_Size e \<and> pm_ModTime m = le_ModTimeSec e"

definition ps_lookup :: "env \<Rightarrow> string \<Rightarrow> ListingEntry \<Rightarrow> disk \<Rightarrow> (string \<times> nat) option \<times> disk" where
  "ps_lookup ev rel e d =
     (case lstat d (ps_data ev rel) of
        None \<Rightarrow> (None, d)
      | Some n \<Rightarrow>
          if \<not> is_regular (Some n) then (None, d)
          else (case read_meta ev rel d of
                  (m, d1) \<Rightarrow>
                    let ok = (case m of None \<Rightarrow> False | Some m \<Rightarrow> meta_matches rel e m);
                        size = length (node_bytes (Some n))
                    in if \<not> ok \<or> unat (le_Size e) < size then (None, ps_remove ev rel d1)
                       else (Some (ps_data ev rel, size), d1)))"

definition ps_create :: "env \<Rightarrow> string \<Rightarrow> ListingEntry \<Rightarrow> disk \<Rightarrow> (fault + string) \<times> disk" where
  "ps_create ev rel e d =
     (case ps_ensure ev d of
        (Some f, d1) \<Rightarrow> (Inl f, d1)
      | (None, d1) \<Rightarrow>
          if (lstat d1 (ps_data ev rel) \<noteq> None \<and> \<not> is_regular (lstat d1 (ps_data ev rel))) \<or>
             (lstat d1 (ps_meta ev rel) \<noteq> None \<and> \<not> is_regular (lstat d1 (ps_meta ev rel)))
          then (Inl (Fault OtherFault 0), d1)
          else (case os_WriteFile (ev_flt ev) (ps_meta ev rel)
                       (ev_meta_enc ev \<lparr>pm_Path = rel, pm_Size = le_Size e, pm_ModTime = le_ModTimeSec e\<rparr>) 384 d1 of
                  (Some f, d2) \<Rightarrow> (Inl f, d2)
                | (None, d2) \<Rightarrow>
                    (case os_Create (ev_flt ev) (ps_data ev rel) 384 d2 of
                       (Some f, d3) \<Rightarrow> (Inl f, d3)
                     | (None, d3) \<Rightarrow> (Inr (ps_data ev rel), d3))))"

definition dir_children :: "disk \<Rightarrow> string \<Rightarrow> string list" where
  "dir_children d dir = filter (\<lambda>p. path_dir p = dir \<and> p \<noteq> dir) (map fst (dk_fs d))"

definition trim_suffix :: "string \<Rightarrow> string \<Rightarrow> string" where
  "trim_suffix suf s = (if has_suffix suf s then take (length s - length suf) s else s)"

text \<open>One turn of \<open>sweep\<close>'s loop; an hour is 3600 s. Removed entries are no longer regular.\<close>

definition sweep_entry :: "env \<Rightarrow> string \<Rightarrow> disk \<Rightarrow> disk" where
  "sweep_entry ev p d =
     (if \<not> is_regular (lstat d p) then d
      else let age = dk_now d - node_mtime (lstat d p) in
        if has_suffix ''.partial'' p then
          (if partialMaxAge < age
           then ignoring (os_Remove (ev_flt ev) (trim_suffix ''.partial'' p @ ''.meta''))
                  (ignoring (os_Remove (ev_flt ev) p) d)
           else d)
        else if has_suffix ''.meta'' p then
          (if lstat d (trim_suffix ''.meta'' p @ ''.partial'') = None \<and> 3600 < age
           then ignoring (os_Remove (ev_flt ev) p) d
           else d)
        else d)"

definition ps_sweep :: "env \<Rightarrow> disk \<Rightarrow> disk" where
  "ps_sweep ev d = fold (sweep_entry ev) (dir_children d (PartialDir ev)) d"

definition ps_tidy :: "env \<Rightarrow> disk \<Rightarrow> disk" where
  "ps_tidy ev d = ignoring (os_Remove (ev_flt ev) (PartialDir ev)) d"

definition ps_hasPartials :: "env \<Rightarrow> disk \<Rightarrow> bool" where
  "ps_hasPartials ev d = list_ex (has_suffix ''.partial'') (dir_children d (PartialDir ev))"

text \<open>
  \<open>strings.EqualFold\<close> against an ASCII name: ASCII letters without case, and the one other rune
  that folds to one of them, the long s (\<open>C5 BF\<close>).
\<close>

definition ascii_lower :: "char \<Rightarrow> char" where
  "ascii_lower c = (let n = of_char c :: nat in if 65 \<le> n \<and> n \<le> 90 then char_of (n + 32) else c)"

fun fold_ascii :: "string \<Rightarrow> string" where
  "fold_ascii (a # b # cs) =
     (if a = CHR 0xC5 \<and> b = CHR 0xBF then CHR ''s'' # fold_ascii cs
      else ascii_lower a # fold_ascii (b # cs))"
| "fold_ascii [a] = [ascii_lower a]"
| "fold_ascii [] = []"

definition isReserved :: "string \<Rightarrow> bool" where
  "isReserved rel \<longleftrightarrow> fold_ascii (takeWhile (\<lambda>c. c \<noteq> CHR ''/'') rel) = stateDirName"

section \<open>Where the store's files are\<close>

text \<open>
  What the code relies on: the receive folder is absolute and clean, an identifier is a plain
  name (hex digits), a sidecar's JSON decodes to what was encoded.
\<close>

definition env_ok :: "env \<Rightarrow> bool" where
  "env_ok ev \<longleftrightarrow> is_abs (ev_dir ev) \<and> path_clean (ev_dir ev) = ev_dir ev
     \<and> (\<forall>r. ev_id ev r \<noteq> [] \<and> CHR ''/'' \<notin> set (ev_id ev r))
     \<and> (\<forall>m. ev_meta_dec ev (ev_meta_enc ev m) = Some m)"

lemma path_comps_child:
  assumes "is_abs dir" "comp_ok c" "c \<noteq> ''..''"
  shows "path_comps (path_join dir c) = path_comps dir @ [c]" "is_abs (path_join dir c)"
proof -
  have n: "normal_comps False [c]" using assms(2,3) by (simp add: normal_comps_def)
  have "normal_comps True (path_comps dir @ [c])"
    using path_comps_normal [of dir] assms by (simp add: normal_comps_push(1))
  from path_comps_join [OF assms(1) this n] show "path_comps (path_join dir c) = path_comps dir @ [c]"
    using assms(2) by (simp add: path_of_def)
  show "is_abs (path_join dir c)"
    using assms(1) is_abs_append [OF assms(1)] by (auto simp: path_join_def)
qed

lemma path_join_clean: "path_join a b = path_clean (path_join a b) \<or> path_join a b = []"
  by (auto simp: path_join_def)

lemma clean_eqI:
  assumes "path_clean a = a" "path_clean b = b" "is_abs a = is_abs b" "path_comps a = path_comps b"
  shows "a = b"
proof -
  have "a = path_of (is_abs a) (path_comps a)" "b = path_of (is_abs b) (path_comps b)"
    using assms(1,2) by (simp_all only: path_clean_def)
  then show ?thesis using assms(3,4) by simp
qed

lemma suffix_comp_ok:
  assumes "x \<noteq> []" "CHR ''/'' \<notin> set x" "CHR ''/'' \<notin> set suf" "1 < length suf"
  shows "comp_ok (x @ suf)" "x @ suf \<noteq> ''..''"
proof -
  have l: "2 < length (x @ suf)" using assms(1,4) by (cases x) auto
  show "comp_ok (x @ suf)" using l assms(2,3) by (auto simp: comp_ok_def dest: arg_cong [where f = length])
  show "x @ suf \<noteq> ''..''" using l by (auto dest: arg_cong [where f = length])
qed

lemma store_paths:
  assumes "env_ok ev"
  shows "path_comps (PartialDir ev) = path_comps (ev_dir ev) @ [stateDirName]"
    "path_comps (ps_data ev rel) = path_comps (ev_dir ev) @ [stateDirName, ev_id ev rel @ ''.partial'']"
    "path_comps (ps_meta ev rel) = path_comps (ev_dir ev) @ [stateDirName, ev_id ev rel @ ''.meta'']"
    "is_abs (PartialDir ev)" "is_abs (ps_data ev rel)" "is_abs (ps_meta ev rel)"
proof -
  have abs: "is_abs (ev_dir ev)" using assms by (simp add: env_ok_def)
  have st: "comp_ok stateDirName" "stateDirName \<noteq> ''..''" by (simp_all add: comp_ok_def stateDirName_def)
  show 1: "path_comps (PartialDir ev) = path_comps (ev_dir ev) @ [stateDirName]" "is_abs (PartialDir ev)"
    using path_comps_child [OF abs st] by (simp_all add: PartialDir_def)
  have id: "ev_id ev rel \<noteq> []" "CHR ''/'' \<notin> set (ev_id ev rel)" using assms by (simp_all add: env_ok_def)
  show "path_comps (ps_data ev rel) = path_comps (ev_dir ev) @ [stateDirName, ev_id ev rel @ ''.partial'']"
    "is_abs (ps_data ev rel)"
    using path_comps_child [OF 1(2) suffix_comp_ok(1) [OF id] suffix_comp_ok(2) [OF id], of "''.partial''"] by (simp_all add: ps_data_def 1)
  show "path_comps (ps_meta ev rel) = path_comps (ev_dir ev) @ [stateDirName, ev_id ev rel @ ''.meta'']"
    "is_abs (ps_meta ev rel)"
    using path_comps_child [OF 1(2) suffix_comp_ok(1) [OF id] suffix_comp_ok(2) [OF id], of "''.meta''"] by (simp_all add: ps_meta_def 1)
qed

lemma last_chars: "x @ ''.partial'' \<noteq> y @ ''.meta''"
proof
  assume "x @ ''.partial'' = y @ ''.meta''"
  then have "last (x @ ''.partial'') = last (y @ ''.meta'')" by simp
  then show False by simp
qed

lemma data_neq_meta: "env_ok ev \<Longrightarrow> ps_data ev r \<noteq> ps_meta ev r'"
  using store_paths(2) [of ev r] store_paths(3) [of ev r'] last_chars by auto

lemma store_neq_dir: "env_ok ev \<Longrightarrow> ps_data ev r \<noteq> PartialDir ev" "env_ok ev \<Longrightarrow> ps_meta ev r \<noteq> PartialDir ev"
  using store_paths(1) [of ev] store_paths(2,3) [of ev r] by auto

section \<open>Frames\<close>

lemma frame_ignoring: "same_outside P d (snd (op d)) \<Longrightarrow> same_outside P d (ignoring op d)"
  by (simp add: ignoring_def)

lemma frame_ps_remove [fs_frame]: "same_outside {ps_data ev r, ps_meta ev r} d (ps_remove ev r d)"
  unfolding ps_remove_def
  by (rule same_outside_trans; rule frame_ignoring, rule same_outside_mono, rule frame_Remove, simp)

lemma frame_ps_dropMeta [fs_frame]: "same_outside {ps_meta ev r} d (ps_dropMeta ev r d)"
  unfolding ps_dropMeta_def by (rule frame_ignoring, rule frame_Remove)

lemma frame_ps_ensure [fs_frame]: "same_outside {PartialDir ev} d (snd (ps_ensure ev d))"
  by (auto simp: ps_ensure_def intro: fs_frame split: option.splits)

lemma read_meta_same: "lstat (snd (read_meta ev r d)) q = lstat d q"
  by (auto simp: read_meta_def os_Open_def fs_simps split: option.splits prod.splits if_splits)

lemma frame_ps_lookup [fs_frame]: "same_outside {ps_data ev r, ps_meta ev r} d (snd (ps_lookup ev r e d))"
proof -
  obtain m d1 where m: "read_meta ev r d = (m, d1)" by (metis surj_pair)
  have "same_outside {ps_data ev r, ps_meta ev r} d d1"
    using read_meta_same [of ev r d] by (simp add: m same_outside_def)
  then show ?thesis
    using same_outside_trans [OF _ frame_ps_remove [of ev r d1]]
    by (auto simp: ps_lookup_def m Let_def split: option.splits)
qed

lemma frame_ps_create [fs_frame]:
  "same_outside {PartialDir ev, ps_data ev r, ps_meta ev r} d (snd (ps_create ev r e d))"
proof -
  let ?P = "{PartialDir ev, ps_data ev r, ps_meta ev r}"
  obtain e1 d1 where 1: "ps_ensure ev d = (e1, d1)" by (metis surj_pair)
  let ?b = "ev_meta_enc ev \<lparr>pm_Path = r, pm_Size = le_Size e, pm_ModTime = le_ModTimeSec e\<rparr>"
  obtain e2 d2 where 2: "os_WriteFile (ev_flt ev) (ps_meta ev r) ?b 384 d1 = (e2, d2)" by (metis surj_pair)
  obtain e3 d3 where 3: "os_Create (ev_flt ev) (ps_data ev r) 384 d2 = (e3, d3)" by (metis surj_pair)
  have s1: "same_outside ?P d d1" using frame_ps_ensure [of ev d] by (auto simp: 1 intro: same_outside_mono)
  have "same_outside ?P d1 d2"
    using frame_WriteFile [of "ps_meta ev r" d1 "ev_flt ev" ?b 384] by (auto simp: 2 intro: same_outside_mono)
  note s2 = same_outside_trans [OF s1 this]
  have "same_outside ?P d2 d3"
    using frame_Create [of "ps_data ev r" d2 "ev_flt ev" 384] by (auto simp: 3 intro: same_outside_mono)
  note s3 = same_outside_trans [OF s2 this]
  show ?thesis
    unfolding ps_create_def 1 2 3 prod.case
    by (cases e1; cases e2; cases e3) (simp_all add: s1 s2 s3)
qed

section \<open>Properties\<close>

lemma ps_create_ok:
  assumes "ps_create ev rel e d = (Inr p, d1)"
  shows "p = ps_data ev rel" "is_regular (lstat d1 p)" "node_bytes (lstat d1 p) = []"
    "ps_data ev rel \<noteq> ps_meta ev rel \<Longrightarrow> is_regular (lstat d1 (ps_meta ev rel)) \<and>
      node_bytes (lstat d1 (ps_meta ev rel))
        = ev_meta_enc ev \<lparr>pm_Path = rel, pm_Size = le_Size e, pm_ModTime = le_ModTimeSec e\<rparr>"
proof -
  let ?b = "ev_meta_enc ev \<lparr>pm_Path = rel, pm_Size = le_Size e, pm_ModTime = le_ModTimeSec e\<rparr>"
  obtain e0 d0 where 0: "ps_ensure ev d = (e0, d0)" by (metis surj_pair)
  obtain e2 d2 where 2: "os_WriteFile (ev_flt ev) (ps_meta ev rel) ?b 384 d0 = (e2, d2)" by (metis surj_pair)
  obtain e3 d3 where 3: "os_Create (ev_flt ev) (ps_data ev rel) 384 d2 = (e3, d3)" by (metis surj_pair)
  have e: "e0 = None" "e2 = None" "e3 = None" "d3 = d1" and p: "p = ps_data ev rel"
    using assms unfolding ps_create_def 0 2 3 prod.case
    by (cases e0; cases e2; cases e3; simp split: if_splits)+
  note 1 = 2 [unfolded e] 3 [unfolded e]
  show "p = ps_data ev rel" "is_regular (lstat d1 p)" "node_bytes (lstat d1 p) = []"
    using p Create_ok [OF 1(2)] by simp_all
  obtain dc where dc: "os_Create (ev_flt ev) (ps_meta ev rel) 384 d0 = (None, dc)"
    "d2 = set_bytes (ps_meta ev rel) ?b (tick dc)"
    using 1(1) by (auto simp: os_WriteFile_def split: prod.splits option.splits)
  have "is_regular (lstat d2 (ps_meta ev rel)) \<and> node_bytes (lstat d2 (ps_meta ev rel)) = ?b"
    using Create_ok [OF dc(1)] by (simp add: dc(2) fs_simps)
  moreover have "ps_data ev rel \<noteq> ps_meta ev rel \<Longrightarrow> lstat d1 (ps_meta ev rel) = lstat d2 (ps_meta ev rel)"
    using same_outsideD [OF frame_Create [of "ps_data ev rel" d2 "ev_flt ev" 384]] 1(2) by simp
  ultimately show "ps_data ev rel \<noteq> ps_meta ev rel \<Longrightarrow> is_regular (lstat d1 (ps_meta ev rel)) \<and>
      node_bytes (lstat d1 (ps_meta ev rel)) = ?b" by simp
qed

lemma Remove_gone: "flt = (\<lambda>_. None) \<Longrightarrow> \<not> is_dir (lstat d p) \<Longrightarrow> lstat (ignoring (os_Remove flt p) d) p = None"
  by (auto simp: ignoring_def os_Remove_def next_fault_def fs_simps split: option.splits)


text \<open>Concrete parameters that meet \<open>env_ok\<close>: a sidecar as size, sign, unary time and path.\<close>

definition sample_meta_enc :: "partialMeta \<Rightarrow> bytes" where
  "sample_meta_enc m = le64 (pm_Size m) @ (if pm_ModTime m < 0 then 1 else 0) #
     replicate (nat \<bar>pm_ModTime m\<bar>) 1 @ 0 # map byte_of_char (pm_Path m)"

definition sample_meta_dec :: "bytes \<Rightarrow> partialMeta option" where
  "sample_meta_dec b =
     (let r = drop 8 b; n = length (takeWhile (\<lambda>x. x = 1) (tl r))
      in if r = [] then None
         else Some \<lparr>pm_Path = map char_of_byte (drop (Suc n) (tl r)), pm_Size = be_word (rev (take 8 b)),
                    pm_ModTime = (if hd r = 1 then - int n else int n)\<rparr>)"

lemma sample_meta_roundtrip: "sample_meta_dec (sample_meta_enc m) = Some m"
proof -
  have "(be_word (rev (le64 (pm_Size m))) :: u64) = pm_Size m"
    using be_word_be(3) by (simp add: le64_def be64_def)
  moreover have "takeWhile (\<lambda>x. x = 1) (replicate n (1::byte) @ 0 # bs) = replicate n 1" for n bs
    by (induction n) auto
  ultimately show ?thesis
    by (simp add: sample_meta_dec_def sample_meta_enc_def Let_def comp_def)
qed

definition sample_env :: env where
  "sample_env = \<lparr>ev_flt = \<lambda>_. None, ev_dir = ''/r'', ev_goos = ''linux'', ev_upper = id, ev_nfc = id,
     ev_casefold = id, ev_id = \<lambda>_. ''x'', ev_meta_enc = sample_meta_enc, ev_meta_dec = sample_meta_dec,
     ev_bh = id, ev_fk = id, ev_sha = \<lambda>b. [], ev_zdec = Some, ev_tmp = id, ev_umask = 18\<rparr>"

lemma sample_env_ok: "env_ok sample_env"
  by (simp add: env_ok_def sample_env_def sample_meta_roundtrip is_abs_def has_prefix_def path_clean_def
      path_comps_def path_of_def)

definition sample_disk :: disk where
  "sample_disk = \<lparr>dk_fs = [(''/'', NDir 493), (''/r'', NDir 493)], dk_tick = 0, dk_now = 0\<rparr>"

definition sample_entry :: ListingEntry where
  "sample_entry = \<lparr>le_Index = 0, le_RelativePath = ''f'', le_Size = 4, le_ModTimeSec = 7, le_Mode = 420,
     le_Type = EntryFile, le_SymlinkTarget = []\<rparr>"

lemmas path_eval = path_join_def path_clean_def path_comps_def path_of_def is_abs_def has_prefix_def
  path_dir_def path_split_def

lemma sample_paths:
  "PartialDir sample_env = ''/r/.fsend''" "ps_data sample_env f = ''/r/.fsend/x.partial''"
  "ps_meta sample_env f = ''/r/.fsend/x.meta''"
  by (simp_all add: PartialDir_def ps_data_def ps_meta_def sample_env_def stateDirName_def path_eval)

lemma sample_env_simps [simp]:
  "ev_flt sample_env = (\<lambda>_. None)" "ev_dir sample_env = ''/r''" "ev_id sample_env r = ''x''"
  "ev_zdec sample_env = Some" "ev_bh sample_env = id" "ev_fk sample_env = id" "ev_upper sample_env = id"
  "ev_nfc sample_env = id" "ev_casefold sample_env = id" "ev_tmp sample_env = id"
  "ev_goos sample_env = ''linux''" "ev_umask sample_env = 18" "ev_sha sample_env b = []"
  by (simp_all add: sample_env_def)

lemma sample_entry_simps [simp]:
  "le_Index sample_entry = 0" "le_RelativePath sample_entry = ''f''" "le_Size sample_entry = 4"
  "le_ModTimeSec sample_entry = 7" "le_Type sample_entry = EntryFile"
  by (simp_all add: sample_entry_def)

lemma sample_dirs:
  "path_dir ''/r/.fsend'' = ''/r''" "path_dir ''/r/.fsend/x.meta'' = ''/r/.fsend''"
  "path_dir ''/r/.fsend/x.partial'' = ''/r/.fsend''"
  by (simp_all add: path_eval)

lemma sample_mkdir:
  "ps_ensure sample_env sample_disk = (None, \<lparr>dk_fs = [(''/'', NDir 493), (''/r'', NDir 493), (''/r/.fsend'', NDir 448)],
      dk_tick = 1, dk_now = 0\<rparr>)"
  by (simp add: ps_ensure_def sample_paths lstat_def sample_disk_def os_Mkdir_def next_fault_def
      dk_put_def tick_def sample_dirs)

lemma sample_create: "\<exists>d. ps_create sample_env ''f'' sample_entry sample_disk = (Inr ''/r/.fsend/x.partial'', d)"
  by (simp add: ps_create_def sample_mkdir sample_paths lstat_def next_fault_def sample_dirs
      os_WriteFile_def os_Create_def dk_put_def tick_def set_bytes_def)


end
