(* ===== verification/Classifier.thy ===== *)
theory Classifier
  imports Partial_Store Fs_Decimal
begin

text \<open>
  \<open>internal/transfer/classify.go\<close>, and \<open>planToDecision\<close>, \<open>manifestStatus\<close> of \<open>recv.go\<close>: what the
  receiver makes of every entry of a listing before a byte of data moves. Every function that
  looks at the disk, or cleans up on it, passes the disk along.
\<close>

section \<open>Plans\<close>

datatype disposition =
    dispNew | dispIdentical | dispDiffers | dispConflict | dispResume | dispVerify | dispRefused

datatype skip_reason = ReservedName | SameName string | FolderInTheWay | SourceUnreadable

record entryPlan =
  ep_entry :: ListingEntry
  ep_rel :: string
  ep_target :: string
  ep_disp :: disposition
  ep_resumeOffset :: u64
  ep_prefixBlocks :: "bytes list"
  ep_partial :: string
  ep_sha256 :: string
  ep_blockedAncestor :: bool
  ep_nonEmptyDir :: bool
  ep_renamed :: bool
  ep_skipReason :: "skip_reason option"

record classifier =
  cl_checksum :: bool
  cl_sem :: fsSemantics

definition needsConsent :: "entryPlan \<Rightarrow> bool" where
  "needsConsent p \<longleftrightarrow> ep_disp p = dispDiffers \<or> ep_disp p = dispConflict"

definition new_plan :: "ListingEntry \<Rightarrow> string \<Rightarrow> string \<Rightarrow> disposition \<Rightarrow> entryPlan" where
  "new_plan e rel target disp = \<lparr>ep_entry = e, ep_rel = rel, ep_target = target, ep_disp = disp,
     ep_resumeOffset = 0, ep_prefixBlocks = [], ep_partial = [], ep_sha256 = [],
     ep_blockedAncestor = False, ep_nonEmptyDir = False, ep_renamed = False, ep_skipReason = None\<rparr>"

section \<open>Walking up from a target\<close>

text \<open>
  Both walks start at the target's folder and go up to the receive folder; a folder is its list
  of components, innermost first, and the empty list is the root of the file system.
\<close>

fun link_above :: "disk \<Rightarrow> string \<Rightarrow> string list \<Rightarrow> bool" where
  "link_above d root [] = False"
| "link_above d root (c # up) =
     (let cur = path_of True (rev (c # up)) in
      if cur = root then False
      else if is_link (lstat d cur) then True
      else link_above d root up)"

definition symlinkAncestor :: "disk \<Rightarrow> string \<Rightarrow> string \<Rightarrow> bool" where
  "symlinkAncestor d target targetDir =
     link_above d (path_clean targetDir) (rev (path_comps (path_dir target)))"

fun blocked_above :: "disk \<Rightarrow> string \<Rightarrow> string list \<Rightarrow> bool" where
  "blocked_above d root [] = (if path_of True [] = root then False
     else (case lstat d (path_of True []) of None \<Rightarrow> False | Some n \<Rightarrow> \<not> is_dir (Some n)))"
| "blocked_above d root (c # up) =
     (let cur = path_of True (rev (c # up)) in
      if cur = root then False
      else (case lstat d cur of
              Some n \<Rightarrow> \<not> is_dir (Some n)
            | None \<Rightarrow> blocked_above d root up))"

definition ancestorBlocked :: "disk \<Rightarrow> string \<Rightarrow> string \<Rightarrow> bool" where
  "ancestorBlocked d target targetDir =
     blocked_above d (path_clean targetDir) (rev (path_comps (path_dir target)))"

definition dirHasEntries :: "env \<Rightarrow> string \<Rightarrow> disk \<Rightarrow> bool \<times> disk" where
  "dirHasEntries ev dir d =
     (case next_fault (ev_flt ev) d of
        Some f \<Rightarrow> (True, tick d)
      | None \<Rightarrow> (\<not> dir_empty d dir, tick d))"

section \<open>Classifying one entry\<close>

definition resumeCandidate :: "env \<Rightarrow> entryPlan \<Rightarrow> disk \<Rightarrow> entryPlan \<times> disk" where
  "resumeCandidate ev p d =
     (if le_Size (ep_entry p) = 0 then (p, d)
      else (case ps_lookup ev (ep_rel p) (ep_entry p) d of
              (None, d1) \<Rightarrow> (p, d1)
            | (Some (path, len), d1) \<Rightarrow>
                let limit = min (of_nat len) (le_Size (ep_entry p) - 1);
                    aligned = limit div of_nat hashBlockSize * of_nat hashBlockSize
                in if aligned = 0 then (p, d1)
                   else (p\<lparr>ep_disp := dispResume, ep_resumeOffset := aligned, ep_partial := path\<rparr>, d1)))"

definition classifyDir :: "env \<Rightarrow> entryPlan \<Rightarrow> disk \<Rightarrow> entryPlan" where
  "classifyDir ev p d =
     (case lstat d (ep_target p) of
        None \<Rightarrow> if ancestorBlocked d (ep_target p) (ev_dir ev) then p\<lparr>ep_disp := dispConflict\<rparr> else p
      | Some n \<Rightarrow> p\<lparr>ep_disp := if is_dir (Some n) then dispIdentical else dispConflict\<rparr>)"

definition classifyExisting :: "env \<Rightarrow> classifier \<Rightarrow> entryPlan \<Rightarrow> node \<Rightarrow> disk \<Rightarrow> entryPlan \<times> disk" where
  "classifyExisting ev cl p n d =
     (let e = ep_entry p in
      if is_regular (Some n) \<and> of_nat (length (node_bytes (Some n))) = le_Size e \<and> cl_checksum cl
      then (p\<lparr>ep_disp := dispVerify\<rparr>, d)
      else if is_regular (Some n) \<and> of_nat (length (node_bytes (Some n))) = le_Size e \<and>
              sameMtime (cl_sem cl) (node_mtime (Some n)) (le_ModTimeSec e)
      then (p\<lparr>ep_disp := dispIdentical\<rparr>, ps_remove ev (ep_rel p) d)
      else if is_dir (Some n)
      then (case dirHasEntries ev (ep_target p) d of
              (b, d1) \<Rightarrow> (p\<lparr>ep_disp := dispConflict, ep_nonEmptyDir := b\<rparr>, d1))
      else if is_link (Some n) then (p\<lparr>ep_disp := dispConflict\<rparr>, d)
      else (p\<lparr>ep_disp := dispDiffers\<rparr>, d))"

definition classifyAbsent :: "env \<Rightarrow> entryPlan \<Rightarrow> disk \<Rightarrow> entryPlan \<times> disk" where
  "classifyAbsent ev p d =
     (case resumeCandidate ev p d of
        (p1, d1) \<Rightarrow>
          if ep_disp p1 = dispResume then (p1, d1)
          else if ancestorBlocked d1 (ep_target p) (ev_dir ev) then (p1\<lparr>ep_disp := dispConflict\<rparr>, d1)
          else (p1\<lparr>ep_disp := dispNew\<rparr>, d1))"

definition classifyOne ::
  "env \<Rightarrow> classifier \<Rightarrow> ListingEntry \<Rightarrow> string \<Rightarrow> string \<Rightarrow> disk \<Rightarrow> entryPlan \<times> disk" where
  "classifyOne ev cl e rel target d =
     (let p = new_plan e rel target dispNew in
      if le_Type e = EntryDir then (classifyDir ev p d, d)
      else (case lstat d target of
              Some n \<Rightarrow> classifyExisting ev cl p n d
            | None \<Rightarrow> classifyAbsent ev p d))"

section \<open>Classifying a listing\<close>

record classify_state =
  cs_exact :: "string set"
  cs_keys :: "string \<rightharpoonup> string"
  cs_plans :: "entryPlan list"
  cs_disk :: disk

definition classify_step ::
  "env \<Rightarrow> classifier \<Rightarrow> ListingEntry \<Rightarrow> classify_state \<Rightarrow> goerr + classify_state" where
  "classify_step ev cl e s =
     (if le_Type e = EntrySymlink then Inl [ErrPathTraversal]
      else case sanitizeRelativePath (ev_upper ev) (le_RelativePath e) (ev_goos ev) of
        None \<Rightarrow> Inl [ErrPathTraversal]
      | Some rel \<Rightarrow>
          let target = path_join (ev_dir ev) rel in
          if \<not> pathIsUnder (path_clean target) (path_clean (ev_dir ev)) then Inl [ErrPathTraversal]
          else if rel \<in> cs_exact s then Inl [ErrProtocolError]
          else
            let s1 = s\<lparr>cs_exact := insert rel (cs_exact s)\<rparr>;
                key = nameKey ev (cl_sem cl) rel;
                collides = (cs_keys s key \<noteq> None);
                s2 = (if collides then s1 else s1\<lparr>cs_keys := (cs_keys s)(key \<mapsto> rel)\<rparr>)
            in if isReserved rel
               then Inr (s2\<lparr>cs_plans := cs_plans s @
                      [(new_plan e rel target dispRefused)\<lparr>ep_skipReason := Some ReservedName\<rparr>]\<rparr>)
               else if collides
               then Inr (s2\<lparr>cs_plans := cs_plans s @
                      [(new_plan e rel target dispRefused)\<lparr>ep_skipReason := Some (SameName (the (cs_keys s key)))\<rparr>]\<rparr>)
               else (case classifyOne ev cl e rel target (cs_disk s) of
                       (p, d1) \<Rightarrow>
                         Inr (s2\<lparr>cs_plans := cs_plans s @
                                [p\<lparr>ep_blockedAncestor := symlinkAncestor d1 target (ev_dir ev)\<rparr>],
                                cs_disk := d1\<rparr>)))"

fun classify_loop ::
  "env \<Rightarrow> classifier \<Rightarrow> ListingEntry list \<Rightarrow> classify_state \<Rightarrow> goerr + classify_state" where
  "classify_loop ev cl [] s = Inr s"
| "classify_loop ev cl (e # es) s =
     (case classify_step ev cl e s of
        Inl err \<Rightarrow> Inl err
      | Inr s1 \<Rightarrow> classify_loop ev cl es s1)"

definition hashPartialPrefix :: "env \<Rightarrow> string \<Rightarrow> nat \<Rightarrow> disk \<Rightarrow> bytes list option \<times> disk" where
  "hashPartialPrefix ev path n d =
     (case os_Open (ev_flt ev) path d of
        (Some f, d1) \<Rightarrow> (None, d1)
      | (None, d1) \<Rightarrow> (hashBlocks (ev_bh ev) (node_bytes (lstat d1 path)) n, d1))"

definition hash_resume_plan :: "env \<Rightarrow> entryPlan \<Rightarrow> disk \<Rightarrow> entryPlan \<times> disk" where
  "hash_resume_plan ev p d =
     (case hashPartialPrefix ev (ep_partial p) (unat (ep_resumeOffset p)) d of
        (None, d1) \<Rightarrow> (p\<lparr>ep_disp := dispNew, ep_resumeOffset := 0, ep_partial := []\<rparr>, ps_remove ev (ep_rel p) d1)
      | (Some blocks, d1) \<Rightarrow> (p\<lparr>ep_prefixBlocks := blocks\<rparr>, d1))"

text \<open>
  \<open>hashResumePrefixes\<close>: the goroutines work on different partials, so one order of their disk
  calls stands for all.
\<close>

fun hashResumePrefixes :: "env \<Rightarrow> entryPlan list \<Rightarrow> disk \<Rightarrow> entryPlan list \<times> disk" where
  "hashResumePrefixes ev [] d = ([], d)"
| "hashResumePrefixes ev (p # ps) d =
     (case (if ep_disp p = dispResume then hash_resume_plan ev p d else (p, d)) of
        (p1, d1) \<Rightarrow> (case hashResumePrefixes ev ps d1 of (ps1, d2) \<Rightarrow> (p1 # ps1, d2)))"

definition classify_run ::
  "env \<Rightarrow> classifier \<Rightarrow> ListingEntry list \<Rightarrow> disk \<Rightarrow> goerr + (entryPlan list \<times> disk)" where
  "classify_run ev cl es d =
     (case classify_loop ev cl es \<lparr>cs_exact = {}, cs_keys = Map.empty, cs_plans = [], cs_disk = d\<rparr> of
        Inl e \<Rightarrow> Inl e
      | Inr s \<Rightarrow> Inr (hashResumePrefixes ev (cs_plans s) (cs_disk s)))"

section \<open>The summary for the accept prompt\<close>

record Conflict =
  cf_RelativePath :: string
  cf_Kind :: string
  cf_LocalSize :: nat
  cf_LocalModTime :: int
  cf_IncomingSize :: u64
  cf_NonEmptyDir :: bool

record SummaryEntry =
  se_Index :: u32
  se_RelativePath :: string
  se_Size :: u64
  se_Status :: string
  se_Type :: EntryType
  se_SymlinkTarget :: string

record classifySummary =
  su_Total :: nat
  su_NewItems :: nat
  su_Identical :: nat
  su_Differing :: nat
  su_Refused :: nat
  su_BytesToRecv :: u64
  su_OfferedBytes :: u64
  su_DifferingBytes :: u64
  su_Files :: "SummaryEntry list"
  su_Conflicts :: "Conflict list"

fun dispStatus :: "disposition \<Rightarrow> string" where
  "dispStatus dispIdentical = ''identical''"
| "dispStatus dispDiffers = ''differs''"
| "dispStatus dispConflict = ''differs''"
| "dispStatus dispResume = ''resume''"
| "dispStatus dispRefused = ''refused''"
| "dispStatus _ = ''new''"

definition underAny :: "string \<Rightarrow> string list \<Rightarrow> bool" where
  "underAny rel dirs = list_ex (\<lambda>d. has_prefix (d @ ''/'') rel) dirs"

definition conflict_of :: "disk \<Rightarrow> entryPlan \<Rightarrow> Conflict" where
  "conflict_of d p =
     (let e = ep_entry p;
          c = \<lparr>cf_RelativePath = le_RelativePath e, cf_Kind = ''differs'', cf_LocalSize = 0, cf_LocalModTime = 0,
               cf_IncomingSize = le_Size e, cf_NonEmptyDir = ep_nonEmptyDir p\<rparr>
      in case lstat d (ep_target p) of
           Some n \<Rightarrow>
             let c1 = c\<lparr>cf_LocalSize := length (node_bytes (Some n)), cf_LocalModTime := node_mtime (Some n)\<rparr>
             in if ep_disp p = dispConflict
                then c1\<lparr>cf_Kind := if is_dir (Some n) then ''folder vs file''
                                  else if is_link (Some n) then ''symlink'' else ''file vs folder''\<rparr>
                else c1
         | None \<Rightarrow> if ep_disp p = dispConflict then c\<lparr>cf_Kind := ''file vs folder''\<rparr> else c)"

fun conflicts_loop :: "disk \<Rightarrow> string list \<Rightarrow> entryPlan list \<Rightarrow> Conflict list" where
  "conflicts_loop d dirs [] = []"
| "conflicts_loop d dirs (p # ps) =
     (if \<not> needsConsent p \<or> ep_blockedAncestor p \<or> underAny (ep_rel p) dirs then conflicts_loop d dirs ps
      else conflict_of d p #
        conflicts_loop d (if le_Type (ep_entry p) = EntryDir then dirs @ [ep_rel p] else dirs) ps)"

definition conflicts :: "disk \<Rightarrow> entryPlan list \<Rightarrow> Conflict list" where
  "conflicts d ps = conflicts_loop d [] ps"

definition summarize_step :: "classifySummary \<Rightarrow> entryPlan \<Rightarrow> classifySummary" where
  "summarize_step s0 p =
     (let e = ep_entry p; s = s0\<lparr>su_OfferedBytes := su_OfferedBytes s0 + le_Size e\<rparr>;
          s1 = (case ep_disp p of
                  dispNew \<Rightarrow> s\<lparr>su_NewItems := Suc (su_NewItems s), su_BytesToRecv := su_BytesToRecv s + le_Size e\<rparr>
                | dispIdentical \<Rightarrow> s\<lparr>su_Identical := Suc (su_Identical s)\<rparr>
                | dispResume \<Rightarrow>
                    let s' = s\<lparr>su_NewItems := Suc (su_NewItems s)\<rparr>
                    in if ep_resumeOffset p < le_Size e
                       then s'\<lparr>su_BytesToRecv := su_BytesToRecv s' + (le_Size e - ep_resumeOffset p)\<rparr> else s'
                | dispRefused \<Rightarrow> if le_Type e \<noteq> EntryDir then s\<lparr>su_Refused := Suc (su_Refused s)\<rparr> else s
                | dispVerify \<Rightarrow> s
                | _ \<Rightarrow> if le_Type e \<noteq> EntryDir
                       then s\<lparr>su_Differing := Suc (su_Differing s), su_DifferingBytes := su_DifferingBytes s + le_Size e\<rparr>
                       else s)
      in if le_Type e \<noteq> EntryDir
         then s1\<lparr>su_Files := su_Files s1 @
                [\<lparr>se_Index = le_Index e, se_RelativePath = le_RelativePath e, se_Size = le_Size e,
                  se_Status = dispStatus (ep_disp p), se_Type = le_Type e, se_SymlinkTarget = le_SymlinkTarget e\<rparr>]\<rparr>
         else s1)"

definition summarize :: "disk \<Rightarrow> entryPlan list \<Rightarrow> classifySummary" where
  "summarize d ps =
     (foldl summarize_step
        \<lparr>su_Total = length ps, su_NewItems = 0, su_Identical = 0, su_Differing = 0, su_Refused = 0,
         su_BytesToRecv = 0, su_OfferedBytes = 0, su_DifferingBytes = 0, su_Files = [], su_Conflicts = []\<rparr>
        ps)\<lparr>su_Conflicts := conflicts d ps\<rparr>"

section \<open>The user's answer for conflicts\<close>

datatype ConflictPolicy = ConflictKeep | ConflictReplace | ConflictRename

definition free_stem :: "string \<Rightarrow> string \<times> string" where
  "free_stem base =
     (let ext = path_ext base; stem = take (length base - length ext) base
      in if stem = [] then (base, []) else (stem, ext))"

definition free_candidate :: "string \<Rightarrow> nat \<Rightarrow> string" where
  "free_candidate rel n =
     (case path_split rel of
        (dir, base) \<Rightarrow>
          (case free_stem base of
             (stem, ext) \<Rightarrow> path_join dir (stem @ '' ('' @ dec_string n @ '')'' @ ext)))"

text \<open>
  \<open>freeName\<close> tries numbers until one is free; nothing bounds the loop, so it is a partial
  function whose \<open>None\<close> is not returning.
\<close>

definition name_taken :: "env \<Rightarrow> classifier \<Rightarrow> string set \<Rightarrow> disk \<Rightarrow> string \<Rightarrow> bool" where
  "name_taken ev cl taken d cand \<longleftrightarrow>
     nameKey ev (cl_sem cl) cand \<in> taken \<or> lstat d (path_join (ev_dir ev) cand) \<noteq> None"

partial_function (option) freeName_from ::
  "env \<Rightarrow> classifier \<Rightarrow> string set \<Rightarrow> disk \<Rightarrow> string \<Rightarrow> nat \<Rightarrow> string option" where
  [code]: "freeName_from ev cl taken d rel n =
     (if name_taken ev cl taken d (free_candidate rel n) then freeName_from ev cl taken d rel (Suc n)
      else Some (free_candidate rel n))"

definition freeName ::
  "env \<Rightarrow> classifier \<Rightarrow> string set \<Rightarrow> disk \<Rightarrow> string \<Rightarrow> (string \<times> string set) option" where
  "freeName ev cl taken d rel =
     (case freeName_from ev cl taken d rel 1 of
        None \<Rightarrow> None
      | Some cand \<Rightarrow> Some (cand, insert (nameKey ev (cl_sem cl) cand) taken))"

definition retarget :: "env \<Rightarrow> entryPlan \<Rightarrow> string \<Rightarrow> disk \<Rightarrow> entryPlan \<times> disk" where
  "retarget ev p rel d =
     (let p1 = p\<lparr>ep_rel := rel, ep_target := path_join (ev_dir ev) rel, ep_renamed := True,
                 ep_nonEmptyDir := False, ep_disp := dispNew\<rparr>
      in if le_Type (ep_entry p) \<noteq> EntryFile then (p1, d)
         else (case resumeCandidate ev p1 d of
                 (p2, d1) \<Rightarrow> if ep_disp p2 = dispResume then hash_resume_plan ev p2 d1 else (p2, d1)))"

definition replace_plan :: "entryPlan \<Rightarrow> entryPlan" where
  "replace_plan p =
     (if needsConsent p \<and> ep_nonEmptyDir p
      then p\<lparr>ep_disp := dispRefused, ep_skipReason := Some FolderInTheWay\<rparr> else p)"

type_synonym moves = "(string \<times> string) list"

definition moved_to :: "moves \<Rightarrow> string \<Rightarrow> string option" where
  "moved_to ms rel =
     (case find (\<lambda>m. has_prefix (fst m @ ''/'') rel) ms of
        None \<Rightarrow> None
      | Some m \<Rightarrow> Some (path_join (snd m) (drop (length (fst m) + 1) rel)))"

fun rename_loop ::
  "env \<Rightarrow> classifier \<Rightarrow> string set \<Rightarrow> moves \<Rightarrow> entryPlan list \<Rightarrow> disk \<Rightarrow> (entryPlan list \<times> disk) option" where
  "rename_loop ev cl taken ms [] d = Some ([], d)"
| "rename_loop ev cl taken ms (p # ps) d =
     (case (if ep_blockedAncestor p \<or> ep_disp p = dispRefused then Some (p, d, taken, ms)
            else case moved_to ms (ep_rel p) of
              Some to \<Rightarrow> (case retarget ev p to d of (p1, d1) \<Rightarrow> Some (p1, d1, taken, ms))
            | None \<Rightarrow>
                if \<not> needsConsent p then Some (p, d, taken, ms)
                else (case freeName ev cl taken d (ep_rel p) of
                        None \<Rightarrow> None
                      | Some (to, taken1) \<Rightarrow>
                          (case retarget ev p to d of
                             (p1, d1) \<Rightarrow>
                               Some (p1, d1, taken1,
                                 if le_Type (ep_entry p) = EntryDir then ms @ [(ep_rel p, to)] else ms)))) of
        None \<Rightarrow> None
      | Some (p1, d1, taken1, ms1) \<Rightarrow>
          (case rename_loop ev cl taken1 ms1 ps d1 of
             None \<Rightarrow> None
           | Some (ps1, d2) \<Rightarrow> Some (p1 # ps1, d2)))"

definition applyPolicy ::
  "env \<Rightarrow> classifier \<Rightarrow> ConflictPolicy \<Rightarrow> entryPlan list \<Rightarrow> disk \<Rightarrow> (entryPlan list \<times> disk) option" where
  "applyPolicy ev cl policy ps d =
     (case policy of
        ConflictReplace \<Rightarrow> Some (map replace_plan ps, d)
      | ConflictRename \<Rightarrow>
          rename_loop ev cl (set (map (\<lambda>p. nameKey ev (cl_sem cl) (ep_rel p)) ps)) [] ps d
      | ConflictKeep \<Rightarrow> Some (ps, d))"

section \<open>Decisions and the manifest\<close>

datatype notice = SkipNotice u32 | KeptNotice string | SkippedNotice string "skip_reason option"

definition planToDecision :: "env \<Rightarrow> entryPlan \<Rightarrow> bool \<Rightarrow> Decision \<times> notice list" where
  "planToDecision ev p approveOverwrite =
     (let e = ep_entry p;
          d = \<lparr>d_Index = le_Index e, d_Action = DecisionSend, d_ResumeOffset = 0, d_PrefixRoot = [], d_Kept = False\<rparr>;
          kept = (d\<lparr>d_Action := DecisionSkip, d_Kept := True\<rparr>,
                  if le_Type e \<noteq> EntryDir then [KeptNotice (le_RelativePath e)] else [])
      in if ep_blockedAncestor p then kept
         else (case ep_disp p of
                 dispIdentical \<Rightarrow> (d\<lparr>d_Action := DecisionSkip\<rparr>,
                   if le_Type e \<noteq> EntryDir then [SkipNotice (le_Index e)] else [])
               | dispResume \<Rightarrow> (d\<lparr>d_Action := DecisionResume, d_ResumeOffset := ep_resumeOffset p,
                   d_PrefixRoot := foldRoot (ev_fk ev) (ep_prefixBlocks p) (ep_resumeOffset p)\<rparr>, [])
               | dispNew \<Rightarrow> (d, [])
               | dispRefused \<Rightarrow> (d\<lparr>d_Action := DecisionSkip, d_Kept := True\<rparr>,
                   [SkippedNotice (ep_rel p) (ep_skipReason p)])
               | dispVerify \<Rightarrow> (d, [])
               | _ \<Rightarrow> if approveOverwrite then (d, []) else kept))"

definition manifestStatus :: "entryPlan \<Rightarrow> DecisionAction \<Rightarrow> string" where
  "manifestStatus p a =
     (if ep_skipReason p \<noteq> None then ''skipped''
      else if ep_renamed p then ''renamed''
      else case a of
        DecisionResume \<Rightarrow> ''resumed''
      | DecisionSkip \<Rightarrow> if ep_disp p = dispIdentical then ''identical'' else ''kept''
      | _ \<Rightarrow> if needsConsent p then ''overwritten'' else ''new'')"

record ManifestEntry =
  me_RelativePath :: string
  me_Size :: u64
  me_Status :: string
  me_SHA256 :: string

definition manifestEntries :: "entryPlan list \<Rightarrow> Decision list \<Rightarrow> ManifestEntry list" where
  "manifestEntries ps ds =
     map (\<lambda>(p, d). \<lparr>me_RelativePath = ep_rel p, me_Size = le_Size (ep_entry p),
                     me_Status = manifestStatus p (d_Action d), me_SHA256 = ep_sha256 p\<rparr>)
       (filter (\<lambda>(p, d). le_Type (ep_entry p) \<noteq> EntryDir) (zip ps ds))"

section \<open>Targets and the partial store\<close>

definition store :: "env \<Rightarrow> string set" where
  "store ev = range (ps_data ev) \<union> range (ps_meta ev)"

lemma store_mem [simp]: "ps_data ev r \<in> store ev" "ps_meta ev r \<in> store ev"
  by (simp_all add: store_def)

text \<open>What holds of the path a plan carries: it came from an accepted peer path.\<close>

definition placed_at :: "env \<Rightarrow> string \<Rightarrow> string \<Rightarrow> bool" where
  "placed_at ev rel target \<longleftrightarrow> target = path_join (ev_dir ev) rel \<and>
     (\<exists>p. sanitizeRelativePath (ev_upper ev) p (ev_goos ev) = Some rel)"

lemma state_dir_head:
  assumes "list_all comp_ok cs" "cs \<noteq> []" "hd cs = stateDirName"
  shows "isReserved (path_of False cs)"
proof -
  obtain cs' where cs: "cs = stateDirName # cs'" using assms(2,3) by (cases cs) auto
  have "takeWhile (\<lambda>c. c \<noteq> CHR ''/'') (path_of False cs) = stateDirName"
    by (cases cs') (simp_all add: cs path_of_def stateDirName_def)
  then show ?thesis by (simp add: isReserved_def stateDirName_def ascii_lower_def)
qed

lemma placed_comps:
  assumes env: "env_ok ev" and p: "placed_at ev rel target" and r: "\<not> isReserved rel"
  obtains q where "target = path_of True (path_comps (ev_dir ev) @ q)"
    "normal_comps True (path_comps (ev_dir ev) @ q)" "\<And>cs. q \<noteq> stateDirName # cs"
proof -
  from p obtain q where q: "sanitizeRelativePath (ev_upper ev) q (ev_goos ev) = Some rel"
    and t: "target = path_join (ev_dir ev) rel" by (auto simp: placed_at_def)
  have abs: "is_abs (ev_dir ev)" "ev_dir ev \<noteq> []"
    using env by (auto simp: env_ok_def is_abs_def has_prefix_def)
  note sn = sanitize_SomeD [OF q] and sj = sanitize_join [OF q abs(1)]
  have "path_clean target = target" using abs(2) by (simp add: t path_join_def)
  then have 1: "target = path_of True (path_comps (ev_dir ev) @ path_comps q)"
    using sj by (simp add: path_clean_def t)
  have 2: "normal_comps True (path_comps (ev_dir ev) @ path_comps q)"
    using path_comps_normal [of target] sj by (simp add: t)
  have "path_comps q \<noteq> stateDirName # cs" for cs
  proof
    assume "path_comps q = stateDirName # cs"
    then show False using state_dir_head [of "path_comps q"] sn(1,3) r by (simp add: normal_comps_def)
  qed
  with 1 2 show thesis by (rule that)
qed

lemma store_comps:
  assumes "env_ok ev" "x \<in> store ev"
  shows "\<exists>y. path_comps x = path_comps (ev_dir ev) @ [stateDirName, y]"
  using assms(2) store_paths(2,3) [OF assms(1)] by (auto simp: store_def)

text \<open>Neither a target nor a folder above it is one of the store's files.\<close>

lemma prefix_not_in_store:
  assumes env: "env_ok ev" and n: "normal_comps True (path_comps (ev_dir ev) @ q)"
    and q: "\<And>cs. q \<noteq> stateDirName # cs"
  shows "path_of True (take k (path_comps (ev_dir ev) @ q)) \<notin> store ev"
    "path_of True (take k (path_comps (ev_dir ev) @ q)) \<noteq> PartialDir ev"
proof -
  let ?D = "path_comps (ev_dir ev)"
  have nk: "normal_comps True (take k (?D @ q))" by (rule normal_rooted_take [OF n])
  have no: "take k (?D @ q) \<noteq> ?D @ stateDirName # cs" for cs
  proof
    assume eq: "take k (?D @ q) = ?D @ stateDirName # cs"
    then have "length (take k (?D @ q)) = length ?D + Suc (length cs)" by simp
    then have "length ?D < k" by (simp add: min_def split: if_splits)
    then have "take (k - length ?D) q = stateDirName # cs" using eq by simp
    then show False using q by (metis append_Cons append_take_drop_id)
  qed
  show "path_of True (take k (?D @ q)) \<notin> store ev"
    using store_comps [OF env] path_comps_of [OF nk] no by metis
  show "path_of True (take k (?D @ q)) \<noteq> PartialDir ev"
    using store_paths(1) [OF env] path_comps_of [OF nk] no by metis
qed

lemma target_not_in_store:
  assumes env: "env_ok ev" and p: "placed_at ev rel target" and r: "\<not> isReserved rel"
  shows "target \<notin> store ev" "target \<noteq> PartialDir ev"
proof -
  obtain q where q: "target = path_of True (path_comps (ev_dir ev) @ q)"
    "normal_comps True (path_comps (ev_dir ev) @ q)" "\<And>cs. q \<noteq> stateDirName # cs"
    using placed_comps [OF env p r] by blast
  from prefix_not_in_store [OF env q(2,3), of "length (path_comps (ev_dir ev) @ q)"] q(1)
  show "target \<notin> store ev" "target \<noteq> PartialDir ev" by auto
qed

lemma link_above_cong:
  "(\<And>k. lstat d' (path_of True (take k (rev rcs))) = lstat d (path_of True (take k (rev rcs)))) \<Longrightarrow>
   link_above d' root rcs = link_above d root rcs"
proof (induction rcs)
  case (Cons c up)
  have full: "lstat d' (path_of True (rev (c # up))) = lstat d (path_of True (rev (c # up)))"
    using Cons.prems [of "length (rev (c # up))"] by simp
  have "lstat d' (path_of True (take k (rev up))) = lstat d (path_of True (take k (rev up)))" for k
  proof (cases "k \<le> length up")
    case True
    then show ?thesis using Cons.prems [of k] by simp
  next
    case False
    then show ?thesis using Cons.prems [of "length up"] by simp
  qed
  then have "link_above d' root up = link_above d root up" by (rule Cons.IH)
  then show ?case using full by (simp only: link_above.simps Let_def)
qed simp

lemma symlinkAncestor_frame:
  assumes env: "env_ok ev" and p: "placed_at ev rel target" and r: "\<not> isReserved rel"
    and fr: "same_outside (store ev) d d'"
  shows "symlinkAncestor d' target (ev_dir ev) = symlinkAncestor d target (ev_dir ev)"
proof -
  obtain q where q: "target = path_of True (path_comps (ev_dir ev) @ q)"
    "normal_comps True (path_comps (ev_dir ev) @ q)" "\<And>cs. q \<noteq> stateDirName # cs"
    using placed_comps [OF env p r] by blast
  let ?cs = "path_comps (ev_dir ev) @ q"
  have dir: "path_comps (path_dir target) = butlast ?cs"
  proof (cases "?cs = []")
    case True
    then show ?thesis by (simp add: q(1) path_of_def path_dir_def path_split_def path_clean_def path_comps_def
          is_abs_def has_prefix_def)
  next
    case False
    then have s: "?cs = butlast ?cs @ [last ?cs]" by simp
    have n: "normal_comps True (butlast ?cs @ [last ?cs])" using q(2) s by simp
    then have "normal_comps True (butlast ?cs)" by (rule normal_comps_snocD(1))
    then show ?thesis using path_dir_snoc [OF n] s path_comps_of by (simp only: q(1))
  qed
  have "lstat d' (path_of True (take k (butlast ?cs))) = lstat d (path_of True (take k (butlast ?cs)))" for k
    using prefix_not_in_store(1) [OF env q(2,3), of "min k (length ?cs - 1)"]
    unfolding butlast_conv_take take_take by (rule same_outsideD [OF fr])
  then show ?thesis unfolding symlinkAncestor_def dir by (intro link_above_cong) simp
qed

lemma frame_remove_store: "same_outside (store ev) d (ps_remove ev r d)"
  by (rule same_outside_mono, rule frame_ps_remove) simp

lemma frame_lookup_store: "same_outside (store ev) d (snd (ps_lookup ev r e d))"
  by (rule same_outside_mono, rule frame_ps_lookup) simp

lemma frame_resumeCandidate: "same_outside (store ev) d (snd (resumeCandidate ev p d))"
  using frame_lookup_store [of ev d "ep_rel p" "ep_entry p"]
  by (auto simp: resumeCandidate_def Let_def split: prod.splits option.splits)

lemma frame_dirHasEntries: "same_outside P d (snd (dirHasEntries ev t d))"
  by (auto simp: dirHasEntries_def same_outside_def fs_simps split: option.splits)

lemma frame_classifyOne: "same_outside (store ev) d (snd (classifyOne ev cl e rel target d))"
proof -
  let ?p = "new_plan e rel target dispNew"
  have "same_outside (store ev) d (snd (classifyAbsent ev ?p d))"
    using frame_resumeCandidate [of ev d ?p] by (auto simp: classifyAbsent_def split: prod.splits)
  moreover have "same_outside (store ev) d (snd (classifyExisting ev cl ?p n d))" for n
  proof -
    obtain b d1 where h: "dirHasEntries ev (ep_target ?p) d = (b, d1)" by (metis surj_pair)
    then have "same_outside (store ev) d d1"
      using frame_dirHasEntries [of "store ev" d ev "ep_target ?p"] by simp
    then show ?thesis
      using frame_remove_store [of ev d "ep_rel ?p"] by (simp add: classifyExisting_def Let_def h)
  qed
  ultimately show ?thesis
    by (auto simp: classifyOne_def Let_def split: option.splits)
qed

lemma frame_hash_resume_plan: "same_outside (store ev) d (snd (hash_resume_plan ev p d))"
proof -
  obtain b d1 where h: "hashPartialPrefix ev (ep_partial p) (unat (ep_resumeOffset p)) d = (b, d1)"
    by (metis surj_pair)
  have "same_outside (store ev) d d1"
    using frame_Open [of "store ev" d "ev_flt ev" "ep_partial p"] h
    by (auto simp: hashPartialPrefix_def split: prod.splits option.splits)
  then show ?thesis
    using same_outside_trans [OF _ frame_remove_store] by (auto simp: hash_resume_plan_def h split: option.splits)
qed

lemma frame_hashResumePrefixes: "same_outside (store ev) d (snd (hashResumePrefixes ev ps d))"
proof (induction ps arbitrary: d)
  case (Cons p ps)
  let ?r = "if ep_disp p = dispResume then hash_resume_plan ev p d else (p, d)"
  have "same_outside (store ev) d (snd ?r)" using frame_hash_resume_plan by simp
  then have "same_outside (store ev) d (snd (hashResumePrefixes ev ps (snd ?r)))"
    by (rule same_outside_trans [OF _ Cons.IH])
  then show ?case by (auto split: prod.splits)
qed simp

section \<open>What the classifier guarantees\<close>

text \<open>
  An entry that will be created, or resumed, had nothing in its place; a resume starts at a
  positive whole number of blocks below the size, covered by the partial.
\<close>

definition resume_ok :: "entryPlan \<Rightarrow> bool" where
  "resume_ok p \<longleftrightarrow> 0 < ep_resumeOffset p \<and> ep_resumeOffset p < le_Size (ep_entry p) \<and>
     hashBlockSize dvd unat (ep_resumeOffset p)"

definition plan_ok :: "env \<Rightarrow> disk \<Rightarrow> entryPlan \<Rightarrow> bool" where
  "plan_ok ev d p \<longleftrightarrow> placed_at ev (ep_rel p) (ep_target p) \<and>
     (ep_disp p \<noteq> dispRefused \<longrightarrow> \<not> isReserved (ep_rel p)) \<and>
     (ep_disp p = dispNew \<or> ep_disp p = dispResume \<longrightarrow> lstat d (ep_target p) = None) \<and>
     (ep_disp p = dispResume \<longrightarrow> resume_ok p)"

lemma hashBlockSize_u64: "unat (of_nat hashBlockSize :: u64) = hashBlockSize"
  by (simp add: unat_of_nat hashBlockSize_def MaxChunkSize_def)

lemma aligned_bounds:
  fixes limit :: u64
  defines "a \<equiv> limit div of_nat hashBlockSize * of_nat hashBlockSize"
  shows "unat a = unat limit div hashBlockSize * hashBlockSize" "a \<le> limit" "hashBlockSize dvd unat a"
proof -
  have q: "unat (limit div of_nat hashBlockSize) = unat limit div hashBlockSize"
    by (simp add: unat_div hashBlockSize_u64)
  have le: "unat limit div hashBlockSize * hashBlockSize \<le> unat limit" by (rule div_times_less_eq_dividend)
  have m: "unat limit < 2 ^ 64" using unsigned_less [where w = limit and 'a = nat] by simp
  have "unat (limit div of_nat hashBlockSize) * unat (of_nat hashBlockSize :: u64) < 2 ^ LENGTH(64)"
    unfolding q hashBlockSize_u64 using le_less_trans [OF le m] by simp
  then show 1: "unat a = unat limit div hashBlockSize * hashBlockSize"
    unfolding a_def by (simp add: unat_mult_lem [THEN iffD1] q hashBlockSize_u64)
  with le show "a \<le> limit" by (simp add: word_le_nat_alt)
  show "hashBlockSize dvd unat a" by (simp add: 1)
qed

lemma resumeCandidate_ok:
  assumes "resumeCandidate ev p d = (p1, d1)" "ep_disp p \<noteq> dispResume"
  shows "(ep_disp p1 = dispResume \<longrightarrow> resume_ok p1) \<and>
    (p1 = p \<or> (\<exists>off path. p1 = p\<lparr>ep_disp := dispResume, ep_resumeOffset := off, ep_partial := path\<rparr>))"
proof (cases "p1 = p")
  case False
  define e where "e = ep_entry p"
  from False assms(1) obtain path sz where
    a: "le_Size e \<noteq> 0" "min (of_nat sz) (le_Size e - 1) div of_nat hashBlockSize * of_nat hashBlockSize \<noteq> 0"
    and p1: "p1 = p\<lparr>ep_disp := dispResume, ep_resumeOffset :=
        min (of_nat sz) (le_Size e - 1) div of_nat hashBlockSize * of_nat hashBlockSize, ep_partial := path\<rparr>"
    by (auto simp: resumeCandidate_def Let_def e_def split: if_splits prod.splits option.splits)
  let ?l = "min (of_nat sz) (le_Size e - 1)"
  have "?l \<le> le_Size e - 1" by simp
  also have "le_Size e - 1 < le_Size e" using a(1) by (simp add: word_less_nat_alt unat_minus_one unat_gt_0)
  finally have "?l div of_nat hashBlockSize * of_nat hashBlockSize < le_Size e"
    using aligned_bounds(2) [of ?l] by (rule le_less_trans [rotated])
  then show ?thesis
    using a(2) aligned_bounds(3) [of ?l] by (auto simp: p1 resume_ok_def e_def word_gt_0)
qed (use assms in simp)

lemma classifyOne_ok:
  assumes pl: "placed_at ev rel target" and r: "\<not> isReserved rel"
    and c: "classifyOne ev cl e rel target d = (p, d1)"
  shows "plan_ok ev d p \<and> ep_entry p = e \<and> ep_rel p = rel \<and> ep_target p = target \<and> ep_disp p \<noteq> dispRefused"
proof -
  let ?p = "new_plan e rel target dispNew"
  have np: "ep_entry ?p = e" "ep_rel ?p = rel" "ep_target ?p = target" "ep_disp ?p = dispNew"
    by (simp_all add: new_plan_def)
  show ?thesis
  proof (cases "le_Type e = EntryDir")
    case True
    then have "p = classifyDir ev ?p d" using c by (auto simp: classifyOne_def Let_def)
    then show ?thesis
      using pl r np by (auto simp: classifyDir_def plan_ok_def split: option.splits)
  next
    case nd: False
    show ?thesis
    proof (cases "lstat d target")
      case None
      then have ca: "classifyAbsent ev ?p d = (p, d1)" using c nd by (simp add: classifyOne_def Let_def)
      obtain p1 d2 where rc: "resumeCandidate ev ?p d = (p1, d2)" by (metis surj_pair)
      from resumeCandidate_ok [OF rc] np have ok: "ep_disp p1 = dispResume \<longrightarrow> resume_ok p1"
        "ep_entry p1 = e" "ep_rel p1 = rel" "ep_target p1 = target" by auto
      have "p = p1 \<or> p = p1\<lparr>ep_disp := dispConflict\<rparr> \<or> p = p1\<lparr>ep_disp := dispNew\<rparr>"
        "ep_disp p = dispResume \<Longrightarrow> p = p1" "ep_disp p \<in> {dispResume, dispConflict, dispNew}"
        using ca by (auto simp: classifyAbsent_def rc split: if_splits)
      then show ?thesis using ok pl r None by (auto simp: plan_ok_def)
    next
      case (Some n)
      then have "classifyExisting ev cl ?p n d = (p, d1)" using c nd by (simp add: classifyOne_def Let_def)
      then have "\<exists>b dsp. p = ?p\<lparr>ep_disp := dsp, ep_nonEmptyDir := b\<rparr> \<and> dsp \<in> {dispVerify, dispIdentical, dispConflict, dispDiffers}"
        by (auto simp: classifyExisting_def new_plan_def Let_def split: if_splits prod.splits)
      then show ?thesis using pl r np by (auto simp: plan_ok_def)
    qed
  qed
qed

lemma plan_ok_frame:
  assumes "env_ok ev" "same_outside (store ev) d d'" "plan_ok ev d' p"
  shows "plan_ok ev d p"
proof -
  have "lstat d (ep_target p) = None" if "ep_disp p = dispNew \<or> ep_disp p = dispResume"
  proof -
    have "ep_target p \<notin> store ev"
      using target_not_in_store(1) [OF assms(1)] assms(3) that by (auto simp: plan_ok_def)
    then show ?thesis using same_outsideD [OF assms(2)] assms(3) that by (auto simp: plan_ok_def)
  qed
  then show ?thesis using assms(3) by (auto simp: plan_ok_def)
qed

definition keyed :: "env \<Rightarrow> classifier \<Rightarrow> entryPlan list \<Rightarrow> string list" where
  "keyed ev cl ps = map (\<lambda>p. nameKey ev (cl_sem cl) (ep_rel p)) (filter (\<lambda>p. ep_disp p \<noteq> dispRefused) ps)"

definition link_ok :: "env \<Rightarrow> disk \<Rightarrow> entryPlan \<Rightarrow> bool" where
  "link_ok ev d p \<longleftrightarrow> (ep_disp p \<noteq> dispRefused \<longrightarrow>
     ep_blockedAncestor p = symlinkAncestor d (ep_target p) (ev_dir ev))"

definition classify_inv :: "env \<Rightarrow> classifier \<Rightarrow> disk \<Rightarrow> ListingEntry list \<Rightarrow> classify_state \<Rightarrow> bool" where
  "classify_inv ev cl d es s \<longleftrightarrow>
     map ep_entry (cs_plans s) = es \<and> same_outside (store ev) d (cs_disk s) \<and>
     (\<forall>p\<in>set (cs_plans s). plan_ok ev d p \<and> link_ok ev d p) \<and>
     set (keyed ev cl (cs_plans s)) \<subseteq> dom (cs_keys s) \<and> distinct (keyed ev cl (cs_plans s))"

lemma classify_step_inv:
  assumes env: "env_ok ev" and inv: "classify_inv ev cl d es s"
    and step: "classify_step ev cl e s = Inr s'"
  shows "classify_inv ev cl d (es @ [e]) s'"
proof -
  from step obtain rel where rel: "sanitizeRelativePath (ev_upper ev) (le_RelativePath e) (ev_goos ev) = Some rel"
    by (auto simp: classify_step_def split: if_splits option.splits)
  define target key where "target = path_join (ev_dir ev) rel" and "key = nameKey ev (cl_sem cl) rel"
  define keys' where "keys' = (if cs_keys s key \<noteq> None then cs_keys s else (cs_keys s)(key \<mapsto> rel))"
  have pl: "placed_at ev rel target" using rel by (auto simp: placed_at_def target_def)
  have "le_Type e \<noteq> EntrySymlink" "pathIsUnder (path_clean target) (path_clean (ev_dir ev))" "rel \<notin> cs_exact s"
    using step rel by (auto simp: classify_step_def target_def Let_def split: if_splits)
  then have body: "
      (let s2 = s\<lparr>cs_exact := insert rel (cs_exact s), cs_keys := keys'\<rparr>
       in if isReserved rel
          then Inr (s2\<lparr>cs_plans := cs_plans s @ [(new_plan e rel target dispRefused)\<lparr>ep_skipReason := Some ReservedName\<rparr>]\<rparr>)
          else if cs_keys s key \<noteq> None
          then Inr (s2\<lparr>cs_plans := cs_plans s @
                 [(new_plan e rel target dispRefused)\<lparr>ep_skipReason := Some (SameName (the (cs_keys s key)))\<rparr>]\<rparr>)
          else (case classifyOne ev cl e rel target (cs_disk s) of
                  (p, d1) \<Rightarrow> Inr (s2\<lparr>cs_plans := cs_plans s @
                    [p\<lparr>ep_blockedAncestor := symlinkAncestor d1 target (ev_dir ev)\<rparr>], cs_disk := d1\<rparr>)))
      = (Inr s' :: goerr + classify_state)"
    using step rel
    by (cases "cs_keys s key")
      (simp_all add: classify_step_def Let_def target_def [symmetric] key_def [symmetric] keys'_def cong: if_cong split del: if_split)
  have refused: "plan_ok ev d ((new_plan e rel target dispRefused)\<lparr>ep_skipReason := w\<rparr>)"
    "link_ok ev d ((new_plan e rel target dispRefused)\<lparr>ep_skipReason := w\<rparr>)" for w
    using pl by (simp_all add: plan_ok_def link_ok_def new_plan_def)
  show ?thesis
  proof (cases "isReserved rel \<or> cs_keys s key \<noteq> None")
    case True
    define w where "w = Some (if isReserved rel then ReservedName else SameName (the (cs_keys s key)))"
    have "cs_plans s' = cs_plans s @ [(new_plan e rel target dispRefused)\<lparr>ep_skipReason := w\<rparr>]"
      "cs_disk s' = cs_disk s" "cs_keys s' = keys'"
      using body True by (cases "isReserved rel"; auto simp: Let_def w_def)+
    moreover have "dom (cs_keys s) \<subseteq> dom keys'" by (auto simp: keys'_def)
    ultimately have new: "cs_plans s' = cs_plans s @ [(new_plan e rel target dispRefused)\<lparr>ep_skipReason := w\<rparr>]"
      "cs_disk s' = cs_disk s" "dom (cs_keys s) \<subseteq> dom (cs_keys s')"
      by simp_all
    have "keyed ev cl (cs_plans s') = keyed ev cl (cs_plans s)"
      by (simp add: new keyed_def new_plan_def)
    moreover have "set (keyed ev cl (cs_plans s)) \<subseteq> dom (cs_keys s')"
      using inv new(3) unfolding classify_inv_def by blast
    ultimately show ?thesis
      using inv refused(1,2) [of w] by (simp add: classify_inv_def new(1,2)) (simp add: new_plan_def)
  next
    case False
    obtain p d1 where c: "classifyOne ev cl e rel target (cs_disk s) = (p, d1)" by (metis surj_pair)
    have s': "cs_plans s' = cs_plans s @ [p\<lparr>ep_blockedAncestor := symlinkAncestor d1 target (ev_dir ev)\<rparr>]"
      "cs_disk s' = d1" "cs_keys s' = (cs_keys s)(key \<mapsto> rel)"
      using body False c by (auto simp: Let_def keys'_def)
    have ok: "plan_ok ev (cs_disk s) p" "ep_entry p = e" "ep_rel p = rel" "ep_disp p \<noteq> dispRefused"
      "ep_target p = target"
      using classifyOne_ok [OF pl _ c] False by auto
    have fr: "same_outside (store ev) d (cs_disk s)" using inv by (simp add: classify_inv_def)
    have "plan_ok ev d p" by (rule plan_ok_frame [OF env fr ok(1)])
    moreover have d1: "same_outside (store ev) d d1"
      using same_outside_trans [OF fr frame_classifyOne] by (metis c snd_conv)
    moreover have "symlinkAncestor d1 target (ev_dir ev) = symlinkAncestor d target (ev_dir ev)"
      using symlinkAncestor_frame [OF env pl _ d1] False by blast
    ultimately show ?thesis
      using inv s' ok False by (auto simp: classify_inv_def keyed_def plan_ok_def link_ok_def resume_ok_def key_def)
  qed
qed

lemma classify_loop_inv:
  "env_ok ev \<Longrightarrow> classify_inv ev cl d es s \<Longrightarrow> classify_loop ev cl es' s = Inr s' \<Longrightarrow>
   classify_inv ev cl d (es @ es') s'"
proof (induction es' arbitrary: es s)
  case (Cons e es')
  then obtain s1 where "classify_step ev cl e s = Inr s1" "classify_loop ev cl es' s1 = Inr s'"
    by (auto split: sum.splits)
  with Cons.IH [of "es @ [e]" s1] Cons.prems classify_step_inv [of ev cl d es s e s1] show ?case by simp
qed simp

text \<open>Hashing the prefixes may only demote a resume to a fresh send.\<close>

definition plan_sim :: "entryPlan \<Rightarrow> entryPlan \<Rightarrow> bool" where
  "plan_sim p p' \<longleftrightarrow> ep_entry p' = ep_entry p \<and> ep_rel p' = ep_rel p \<and> ep_target p' = ep_target p \<and>
     ep_blockedAncestor p' = ep_blockedAncestor p \<and> ep_nonEmptyDir p' = ep_nonEmptyDir p \<and>
     (ep_disp p' = ep_disp p \<and> ep_resumeOffset p' = ep_resumeOffset p \<or> ep_disp p = dispResume \<and> ep_disp p' = dispNew)"

lemma hashResumePrefixes_sim: "list_all2 plan_sim ps (fst (hashResumePrefixes ev ps d))"
proof (induction ps arbitrary: d)
  case (Cons p ps)
  obtain p1 d1 where r: "(if ep_disp p = dispResume then hash_resume_plan ev p d else (p, d)) = (p1, d1)"
    by (metis surj_pair)
  have "plan_sim p p1"
    using r by (auto simp: hash_resume_plan_def plan_sim_def split: if_splits prod.splits option.splits)
  with Cons.IH [of d1] r show ?case by (auto split: prod.splits)
qed simp

lemma plan_sim_ok:
  assumes "plan_ok ev d p \<and> link_ok ev d p" "plan_sim p p'"
  shows "plan_ok ev d p' \<and> link_ok ev d p'"
proof -
  have eq: "ep_entry p' = ep_entry p" "ep_rel p' = ep_rel p" "ep_target p' = ep_target p"
    "ep_blockedAncestor p' = ep_blockedAncestor p"
    using assms(2) by (simp_all add: plan_sim_def)
  consider "ep_disp p' = ep_disp p" "ep_resumeOffset p' = ep_resumeOffset p"
    | "ep_disp p = dispResume" "ep_disp p' = dispNew"
    using assms(2) unfolding plan_sim_def by blast
  then show ?thesis
    using assms(1) by cases (simp_all add: plan_ok_def link_ok_def resume_ok_def eq)
qed

lemma keyed_sim: "list_all2 plan_sim ps ps' \<Longrightarrow> keyed ev cl ps' = keyed ev cl ps"
  by (induction rule: list_all2_induct) (auto simp: keyed_def plan_sim_def)

lemma classify_run_ok:
  assumes env: "env_ok ev" and run: "classify_run ev cl es d = Inr (ps, d')"
  shows "map ep_entry ps = es" "\<And>p. p \<in> set ps \<Longrightarrow> plan_ok ev d p \<and> link_ok ev d p"
    "distinct (keyed ev cl ps)"
    "same_outside (store ev) d d'"
proof -
  let ?s0 = "\<lparr>cs_exact = {}, cs_keys = Map.empty, cs_plans = [], cs_disk = d\<rparr>"
  obtain s where l: "classify_loop ev cl es ?s0 = Inr s" and h: "hashResumePrefixes ev (cs_plans s) (cs_disk s) = (ps, d')"
    using run by (auto simp: classify_run_def split: sum.splits)
  have "classify_inv ev cl d [] ?s0" by (simp add: classify_inv_def keyed_def)
  from classify_loop_inv [OF env this l] have inv: "classify_inv ev cl d es s" by simp
  have sim: "list_all2 plan_sim (cs_plans s) ps" using hashResumePrefixes_sim [of "cs_plans s" ev "cs_disk s"] h by simp
  have "map ep_entry ps = map ep_entry (cs_plans s)"
    using sim by (induction rule: list_all2_induct) (simp_all add: plan_sim_def)
  then show "map ep_entry ps = es" using inv by (simp add: classify_inv_def)
  have all: "\<forall>p\<in>set (cs_plans s). plan_ok ev d p \<and> link_ok ev d p" using inv by (simp add: classify_inv_def)
  show "plan_ok ev d p \<and> link_ok ev d p" if mem: "p \<in> set ps" for p
  proof -
    obtain i where i: "i < length ps" "ps ! i = p" using mem unfolding in_set_conv_nth by blast
    then have "plan_sim (cs_plans s ! i) p" "cs_plans s ! i \<in> set (cs_plans s)"
      using list_all2_nthD2 [OF sim i(1)] list_all2_lengthD [OF sim] by auto
    then show ?thesis using plan_sim_ok all by blast
  qed
  show "distinct (keyed ev cl ps)" using keyed_sim [OF sim] inv by (simp add: classify_inv_def)
  have "same_outside (store ev) d (cs_disk s)" using inv by (simp add: classify_inv_def)
  from same_outside_trans [OF this frame_hashResumePrefixes [of ev "cs_disk s" "cs_plans s"]]
  show "same_outside (store ev) d d'" by (simp add: h)
qed

section \<open>Free names\<close>

definition free_base :: "string \<Rightarrow> nat \<Rightarrow> string" where
  "free_base c n = (case free_stem c of (stem, ext) \<Rightarrow> stem @ '' ('' @ dec_string n @ '')'' @ ext)"

lemma free_base_inject: "free_base c m = free_base c n \<Longrightarrow> m = n"
  by (auto simp: free_base_def split: prod.splits dest: dec_string_inject)

lemma dec_string_free: "CHR ''/'' \<notin> set (dec_string n)"
  using dec_string_digits [of "CHR ''/''" n] by auto

lemma free_base_ok:
  assumes "comp_ok c"
  shows "comp_ok (free_base c n)" "free_base c n \<noteq> ''..''"
proof -
  obtain stem ext where se: "free_stem c = (stem, ext)" by (metis surj_pair)
  have "set stem \<union> set ext \<subseteq> set c"
    using se by (auto simp: free_stem_def path_ext_def Let_def split: if_splits dest: in_set_takeD in_set_dropD)
  then have "CHR ''/'' \<notin> set stem \<union> set ext" using assms by (auto simp: comp_ok_def)
  moreover have "2 < length (free_base c n)" using dec_string_ne [of n] by (simp add: free_base_def se)
  ultimately show "comp_ok (free_base c n)" "free_base c n \<noteq> ''..''"
    using dec_string_free [of n] by (auto simp: free_base_def se comp_ok_def)
qed

lemma free_candidate_comps:
  assumes n: "normal_comps False (cs @ [c])" and dd: "c \<noteq> ''..''"
  shows "free_candidate (path_of False (cs @ [c])) k = path_of False (cs @ [free_base c k])"
    "normal_comps False (cs @ [free_base c k])"
proof -
  have c: "comp_ok c" and cs: "normal_comps False cs"
    using n normal_comps_snocD(1) [OF n] by (simp_all add: normal_comps_def)
  have "CHR ''/'' \<notin> set c" using c by (simp add: comp_ok_def)
  then have "path_split (path_of False (cs @ [c])) = (if cs = [] then [] else path_of False cs @ ''/'', c)"
    using path_split_base path_split_cut path_of_snoc [of cs False c] by (auto simp: path_of_def)
  then show "free_candidate (path_of False (cs @ [c])) k = path_of False (cs @ [free_base c k])"
    using path_join_beside [OF cs free_base_ok(1) [OF c, of k] free_base_ok(2) [OF c, of k]]
    by (cases "cs = []") (simp_all add: free_candidate_def free_base_def split: prod.splits)
  show "normal_comps False (cs @ [free_base c k])"
    by (rule normal_comps_push(1) [OF cs free_base_ok(1) [OF c] free_base_ok(2) [OF c]])
qed

lemma freeName_from_least:
  "\<not> name_taken ev cl taken d (free_candidate rel m) \<Longrightarrow> n \<le> m \<Longrightarrow>
   \<exists>k\<ge>n. freeName_from ev cl taken d rel n = Some (free_candidate rel k) \<and>
     \<not> name_taken ev cl taken d (free_candidate rel k)"
proof (induction "m - n" arbitrary: n)
  case 0
  then show ?case by (intro exI [of _ n]) (subst freeName_from.simps, simp)
next
  case (Suc j)
  show ?case
  proof (cases "name_taken ev cl taken d (free_candidate rel n)")
    case True
    then have "n \<noteq> m" using Suc.prems(1) by auto
    then have "j = m - Suc n" "Suc n \<le> m" using Suc.hyps(2) Suc.prems(2) by auto
    from Suc.hyps(1) [OF this(1) Suc.prems(1) this(2)] True show ?thesis
      by (subst freeName_from.simps) (auto intro: Suc_leD)
  next
    case False
    then show ?thesis by (intro exI [of _ n]) (subst freeName_from.simps, simp)
  qed
qed

section \<open>Properties\<close>

text \<open>
  C23. What classification of an accepted listing gives: one plan per entry, in order; every
  target under the receive folder; the entries that are not refused have pairwise different
  names under the receiving file system's own rules, so no two of them land on one file; and
  classifying has touched nothing on the disk but partial downloads.
\<close>

theorem classify_sound:
  assumes "env_ok ev" "classify_run ev cl es d = Inr (ps, d')"
  shows "map ep_entry ps = es
    \<and> (\<forall>p\<in>set ps. pathIsUnder (ep_target p) (path_clean (ev_dir ev)))
    \<and> distinct (map (\<lambda>p. nameKey ev (cl_sem cl) (ep_rel p)) (filter (\<lambda>p. ep_disp p \<noteq> dispRefused) ps))
    \<and> same_outside (store ev) d d'"
proof -
  note ok = classify_run_ok [OF assms]
  have "pathIsUnder (ep_target p) (path_clean (ev_dir ev))" if mem: "p \<in> set ps" for p
  proof -
    obtain q where q: "sanitizeRelativePath (ev_upper ev) q (ev_goos ev) = Some (ep_rel p)"
      and t: "ep_target p = path_join (ev_dir ev) (ep_rel p)"
      using ok(2) [OF mem] by (auto simp: plan_ok_def placed_at_def)
    have abs: "is_abs (ev_dir ev)" using assms(1) by (simp add: env_ok_def)
    from sanitize_join [OF q abs] show ?thesis
      using abs by (subst pathIsUnder_prefix) (auto simp: t)
  qed
  then show ?thesis using ok by (simp add: keyed_def)
qed

lemma sample_sanitize: "sanitizeRelativePath id ''f'' ''linux'' = Some ''f''"
  by (simp add: sanitizeRelativePath_def drive_letter_def path_eval)

definition sample_classifier :: classifier where
  "sample_classifier = \<lparr>cl_checksum = False, cl_sem = \<lparr>sem_foldCase = False, sem_foldNorm = False, sem_coarseMtime = False\<rparr>\<rparr>"

lemma sample_classify:
  "classify_run sample_env sample_classifier [sample_entry] sample_disk = Inr ([new_plan sample_entry ''f'' ''/r/f'' dispNew], sample_disk)"
proof -
  have t: "path_join ''/r'' ''f'' = ''/r/f''" "path_comps ''/r/f'' = [''r'', ''f'']" "path_comps ''/r'' = [''r'']"
    "path_dir ''/r/f'' = ''/r''" "path_clean ''/r'' = ''/r''" "path_clean ''/r/f'' = ''/r/f''"
    by (simp_all add: path_eval)
  have u: "pathIsUnder ''/r/f'' ''/r''"
    by (subst pathIsUnder_prefix) (simp_all add: t, simp_all add: is_abs_def has_prefix_def)
  have p: "path_of True [''r''] = ''/r''" by (simp add: path_of_def)
  have c: "classifyOne sample_env sample_classifier sample_entry ''f'' ''/r/f'' sample_disk
      = (new_plan sample_entry ''f'' ''/r/f'' dispNew, sample_disk)"
    by (simp add: classifyOne_def sample_disk_def lstat_def classifyAbsent_def resumeCandidate_def
        new_plan_def ps_lookup_def sample_paths ancestorBlocked_def t p Let_def)
  have r: "\<not> isReserved ''f''" by (simp add: isReserved_def ascii_lower_def stateDirName_def)
  have key: "nameKey sample_env (cl_sem sample_classifier) ''f'' = ''f''"
    by (simp add: nameKey_def sample_classifier_def)
  have "symlinkAncestor sample_disk ''/r/f'' ''/r'' = False"
    by (simp add: symlinkAncestor_def t p)
  then have "classify_step sample_env sample_classifier sample_entry
      \<lparr>cs_exact = {}, cs_keys = Map.empty, cs_plans = [], cs_disk = sample_disk\<rparr>
    = Inr \<lparr>cs_exact = {''f''}, cs_keys = [''f'' \<mapsto> ''f''],
        cs_plans = [new_plan sample_entry ''f'' ''/r/f'' dispNew], cs_disk = sample_disk\<rparr>"
    using key by (simp add: classify_step_def sample_sanitize t u r c Let_def) (simp add: new_plan_def)
  then show ?thesis by (simp add: classify_run_def) (simp add: new_plan_def)
qed

theorem classify_sound_witness:
  "same_outside (store sample_env) sample_disk sample_disk
   \<and> map ep_entry [new_plan sample_entry ''f'' ''/r/f'' dispNew] = [sample_entry]"
  using classify_sound [OF sample_env_ok sample_classify] by blast

text \<open>
  Nothing the user has is replaced without consent. When differing entries are to be
  kept, every entry the receiver asks the sender for, or creates, has nothing at its target,
  and no folder on the way to it is a symbolic link; and an asked-for resume starts at a
  positive whole number of blocks below the file's size.
\<close>

theorem keep_consent:
  assumes "env_ok ev" "classify_run ev cl es d = Inr (ps, d')" "p \<in> set ps" "ep_disp p \<noteq> dispVerify"
    and "d_Action (fst (planToDecision ev p False)) \<noteq> DecisionSkip"
  shows "lstat d (ep_target p) = None \<and> \<not> symlinkAncestor d (ep_target p) (ev_dir ev)
    \<and> (d_Action (fst (planToDecision ev p False)) = DecisionResume \<longrightarrow>
        resume_ok p \<and> d_ResumeOffset (fst (planToDecision ev p False)) = ep_resumeOffset p)"
proof -
  have ok: "plan_ok ev d p" "link_ok ev d p" using classify_run_ok(2) [OF assms(1-3)] by auto
  have nb: "\<not> ep_blockedAncestor p" using assms(5) by (auto simp: planToDecision_def Let_def)
  have "ep_disp p = dispNew \<or> ep_disp p = dispResume"
    using assms(4,5) nb by (cases "ep_disp p") (auto simp: planToDecision_def Let_def)
  then show ?thesis
    using ok nb by (auto simp: plan_ok_def link_ok_def planToDecision_def Let_def)
qed

theorem keep_consent_witness:
  "lstat sample_disk ''/r/f'' = None \<and> d_Action (fst (planToDecision sample_env (new_plan sample_entry ''f'' ''/r/f'' dispNew) False)) = DecisionSend"
proof -
  let ?p = "new_plan sample_entry ''f'' ''/r/f'' dispNew"
  have d: "d_Action (fst (planToDecision sample_env ?p False)) = DecisionSend"
    by (simp add: planToDecision_def new_plan_def Let_def)
  have "ep_disp ?p \<noteq> dispVerify" "?p \<in> set [?p]" "ep_target ?p = ''/r/f''" by (simp_all add: new_plan_def)
  with keep_consent [OF sample_env_ok sample_classify, of ?p] d show ?thesis by simp
qed

text \<open>
  Keeping both copies always finds a name. For any relative path that is not the folder
  itself, \<open>freeName\<close> returns, whatever is taken in this transfer or present on disk: a name
  of the form \<open>name (n).ext\<close> in the same folder, free on disk and under the name rules, and now
  marked as taken. The one assumption is that case folding and normalisation keep numbers apart.
\<close>

theorem freeName_total:
  assumes n: "normal_comps False (cs @ [c])" and dd: "c \<noteq> ''..''" and fin: "finite taken"
    and abs: "is_abs (ev_dir ev)" "''..'' \<notin> set cs"
    and keys: "inj (\<lambda>k. nameKey ev (cl_sem cl) (free_candidate (path_of False (cs @ [c])) k))"
  shows "\<exists>k. freeName ev cl taken d (path_of False (cs @ [c])) =
        Some (path_of False (cs @ [free_base c k]),
          insert (nameKey ev (cl_sem cl) (path_of False (cs @ [free_base c k]))) taken)
      \<and> nameKey ev (cl_sem cl) (path_of False (cs @ [free_base c k])) \<notin> taken
      \<and> lstat d (path_join (ev_dir ev) (path_of False (cs @ [free_base c k]))) = None"
proof -
  let ?rel = "path_of False (cs @ [c])"
  let ?key = "\<lambda>k. nameKey ev (cl_sem cl) (free_candidate ?rel k)"
  let ?at = "\<lambda>k. path_join (ev_dir ev) (free_candidate ?rel k)"
  note fc = free_candidate_comps [OF n dd]
  have "comp_ok c" using n by (simp add: normal_comps_def)
  then have "normal_comps True (path_comps (ev_dir ev) @ cs @ [free_base c k])" for k
    using path_comps_normal [of "ev_dir ev"] abs n free_base_ok [of c k]
    unfolding normal_rooted by (simp add: normal_rooted) (simp add: normal_comps_def)
  then have "path_comps (?at k) = path_comps (ev_dir ev) @ cs @ [free_base c k]" for k
    using path_comps_join [OF abs(1) _ fc(2)] by (simp add: fc(1))
  then have at: "?at i = ?at j \<Longrightarrow> free_base c i = free_base c j" for i j
    by (metis append_Cons append_Nil list.inject same_append_eq)
  have "inj ?at" by (rule injI) (rule free_base_inject, rule at)
  then have "finite (?at -` dom (map_of (dk_fs d)))" by (intro finite_vimageI finite_dom_map_of)
  moreover have "finite (?key -` taken)" by (rule finite_vimageI [OF fin keys])
  moreover have "infinite {1::nat..}" by (rule infinite_Ici)
  ultimately obtain m where m: "1 \<le> m" "m \<notin> ?at -` dom (map_of (dk_fs d))" "m \<notin> ?key -` taken"
    by (metis (no_types, lifting) atLeast_iff finite_Un finite_subset subsetI UnCI)
  then have "\<not> name_taken ev cl taken d (free_candidate ?rel m)"
    by (auto simp: name_taken_def lstat_def)
  from freeName_from_least [OF this m(1)] obtain k
    where "freeName_from ev cl taken d ?rel 1 = Some (free_candidate ?rel k)"
      "\<not> name_taken ev cl taken d (free_candidate ?rel k)" by blast
  then show ?thesis
    by (intro exI [of _ k]) (simp add: freeName_def name_taken_def fc(1))
qed


theorem freeName_total_witness:
  "\<exists>k. freeName sample_env sample_classifier {} sample_disk ''f'' =
     Some (free_base ''f'' k, {free_base ''f'' k})"
proof -
  have one: "path_of False ([] @ [x]) = x" "path_of False [x] = x" for x by (simp_all add: path_of_def)
  have n: "normal_comps False ([] @ [''f''])" by (simp add: normal_comps_def comp_ok_def)
  have dd: "''f'' \<noteq> ''..''" by simp
  have key: "nameKey sample_env (cl_sem sample_classifier) x = x" for x
    by (simp add: nameKey_def sample_classifier_def)
  have "inj (\<lambda>k. nameKey sample_env (cl_sem sample_classifier) (free_candidate (path_of False ([] @ [''f''])) k))"
  proof (rule injI)
    fix x y assume "nameKey sample_env (cl_sem sample_classifier) (free_candidate (path_of False ([] @ [''f''])) x)
      = nameKey sample_env (cl_sem sample_classifier) (free_candidate (path_of False ([] @ [''f''])) y)"
    then have "free_base ''f'' x = free_base ''f'' y"
      by (simp only: key one free_candidate_comps(1) [OF n dd, unfolded one])
    then show "x = y" by (rule free_base_inject)
  qed
  from freeName_total [OF n dd _ _ _ this, of "{}" sample_disk] show ?thesis
    using one by (auto simp: key is_abs_def has_prefix_def)
qed

end
