(* ===== verification/Transfer_Control.thy ===== *)
theory Transfer_Control
  imports Wire_Control
begin

text \<open>
  The control stream of a transfer: \<open>internal/transfer/listing.go\<close>, and the helpers of \<open>recv.go\<close>
  that post, read and translate errors and acknowledge completion. The gob encodings of the
  payloads are bundled in \<open>codecs\<close>; the two streams of a session are \<open>streams\<close>.
\<close>

record codecs =
  gob_error_enc :: "ErrorFrame \<Rightarrow> bytes option"
  gob_error_dec :: "bytes \<Rightarrow> ErrorFrame option"
  gob_listing_enc :: "ListingEntry list \<Rightarrow> bytes option"
  gob_listing_dec :: "bytes \<Rightarrow> ListingEntry list option"
  gob_decisions_enc :: "Decision list \<Rightarrow> bytes option"
  gob_decisions_dec :: "bytes \<Rightarrow> Decision list option"
  gob_indices_enc :: "u32 list \<Rightarrow> bytes option"
  gob_indices_dec :: "bytes \<Rightarrow> u32 list option"
  gob_hashes_enc :: "FileHash list \<Rightarrow> bytes option"
  gob_hashes_dec :: "bytes \<Rightarrow> FileHash list option"
  gob_shello_enc :: "SenderHello \<Rightarrow> bytes option"
  gob_shello_dec :: "bytes \<Rightarrow> SenderHello option"
  gob_rhello_enc :: "ReceiverHello \<Rightarrow> bytes option"
  gob_rhello_dec :: "bytes \<Rightarrow> ReceiverHello option"

record streams =
  sm_ctl_in :: reader
  sm_ctl_out :: writer
  sm_ctl_closed :: bool
  sm_data_in :: reader
  sm_data_closed :: bool

text \<open>Writing a control frame to the session; a payload of \<open>None\<close> is an empty body.\<close>

definition send_frame :: "('p \<Rightarrow> bytes option) \<Rightarrow> byte \<Rightarrow> 'p option \<Rightarrow> streams \<Rightarrow> goerr option \<times> streams" where
  "send_frame enc ft payload s =
     (case WriteControl enc ft payload (sm_ctl_out s) of (e, w) \<Rightarrow> (e, s\<lparr>sm_ctl_out := w\<rparr>))"

definition recv_frame :: "streams \<Rightarrow> (goerr + byte \<times> bytes) \<times> streams" where
  "recv_frame s = (case read_frame (sm_ctl_in s) of (r, rd) \<Rightarrow> (r, s\<lparr>sm_ctl_in := rd\<rparr>))"

abbreviation no_payload :: "unit \<Rightarrow> bytes option" where
  "no_payload \<equiv> (\<lambda>_. Some [])"

section \<open>Errors between peers\<close>

definition mapPeerError :: "ErrorFrame \<Rightarrow> goerr" where
  "mapPeerError ef =
     (let c = ef_Code ef in
      if c = ErrCodeWrongPassword then [ErrWrongPassword]
      else if c = ErrCodePasswordRequired then [ErrPasswordRequired]
      else if c = ErrCodeFileHashMismatch then [ErrHashMismatch]
      else if c = ErrCodePartialMismatch then [ErrPartialMismatch]
      else if c = ErrCodeTargetExists then [ErrTargetExists]
      else if c = ErrCodeListingInvalid then [ErrProtocolError]
      else if c = ErrCodeDeclined then [ErrReceiverDeclined]
      else if c = ErrCodeWriteFailed then [ErrWriteFailed]
      else if c = ErrCodeReadFailed then [ErrReadFailed]
      else if c = ErrCodeDiskFull then [ErrDiskFull]
      else if c = ErrCodeTooManyEntries then [ErrTooManyEntries]
      else if c = ErrCodeCancelled then [ErrPeerCancelled]
      else [ErrProtocolError])"

definition zero_error :: ErrorFrame where "zero_error = \<lparr>ef_Code = 0, ef_Message = []\<rparr>"

text \<open>The body's decoding error is dropped: what could not be decoded stays zero.\<close>

definition decode_error :: "codecs \<Rightarrow> bytes \<Rightarrow> ErrorFrame" where
  "decode_error cd body =
     (if body = [] then zero_error else case gob_error_dec cd body of None \<Rightarrow> zero_error | Some ef \<Rightarrow> ef)"

definition peerError :: "codecs \<Rightarrow> bytes \<Rightarrow> goerr" where
  "peerError cd body = mapPeerError (decode_error cd body)"

definition tryReadPeerError :: "codecs \<Rightarrow> streams \<Rightarrow> goerr option \<times> streams" where
  "tryReadPeerError cd s =
     (case ReadControl (gob_error_dec cd) True (sm_ctl_in s) of
        (ft, Inl e, rd) \<Rightarrow> (None, s\<lparr>sm_ctl_in := rd\<rparr>)
      | (ft, Inr ef, rd) \<Rightarrow>
          (if ft \<noteq> TypeError then None
           else Some (mapPeerError (case ef of None \<Rightarrow> zero_error | Some ef \<Rightarrow> ef)), s\<lparr>sm_ctl_in := rd\<rparr>))"

definition drainControl :: "streams \<Rightarrow> streams" where
  "drainControl s = s\<lparr>sm_ctl_closed := True, sm_ctl_in := (sm_ctl_in s)\<lparr>r_data := []\<rparr>\<rparr>"

definition declineTransfer :: "codecs \<Rightarrow> u16 \<Rightarrow> string \<Rightarrow> streams \<Rightarrow> streams" where
  "declineTransfer cd code msg s =
     drainControl (snd (send_frame (gob_error_enc cd) TypeError (Some \<lparr>ef_Code = code, ef_Message = msg\<rparr>)
       (s\<lparr>sm_data_closed := True\<rparr>)))"

definition ackProceed :: "codecs \<Rightarrow> string \<Rightarrow> string \<Rightarrow> string \<Rightarrow> bool \<Rightarrow> streams \<Rightarrow> streams" where
  "ackProceed cd hostname os version accepts s =
     snd (send_frame (gob_rhello_enc cd) TypeHelloAck
       (Some \<lparr>rh_MinVersion = MinProtocolVersion, rh_MaxVersion = ProtocolVersion, rh_Caps = 0,
             rh_Hostname = hostname, rh_OS = os, rh_ClientVersion = version, rh_Accepts = accepts\<rparr>) s)"

text \<open>The receiver's end of a transfer.\<close>

definition finishRecv :: "codecs \<Rightarrow> streams \<Rightarrow> goerr option \<times> streams" where
  "finishRecv cd s =
     (case recv_frame s of
        (Inl e, s1) \<Rightarrow> (Some e, s1)
      | (Inr (ft, body), s1) \<Rightarrow>
          if ft = TypeError then (Some (peerError cd body), s1)
          else if ft \<noteq> TypeTransferComplete then (Some [ErrProtocolError], s1)
          else (case send_frame no_payload TypeTransferAck None s1 of
                  (Some e, s2) \<Rightarrow> (Some e, s2)
                | (None, s2) \<Rightarrow> (None, drainControl s2)))"

text \<open>The sender's end of a transfer.\<close>

definition finishSend :: "codecs \<Rightarrow> streams \<Rightarrow> goerr option \<times> streams" where
  "finishSend cd s =
     (case send_frame no_payload TypeTransferComplete None s of
        (Some e, s1) \<Rightarrow> (Some e, s1)
      | (None, s1) \<Rightarrow>
          (case recv_frame s1 of
             (Inl e, s2) \<Rightarrow> (Some e, s2)
           | (Inr (ft, body), s2) \<Rightarrow>
               if ft = TypeError then (Some (peerError cd body), s2)
               else if ft \<noteq> TypeTransferAck then (Some [ErrProtocolError], s2)
               else (None, s2\<lparr>sm_ctl_closed := True\<rparr>)))"

section \<open>The listing\<close>

definition maxListingBatchBytes :: nat where "maxListingBatchBytes = 56 * 1024"
definition maxListingEntries :: nat where "maxListingEntries = 4000000"

definition maxVerifyIDsPerFrame :: nat where "maxVerifyIDsPerFrame = 800"

lemma maxVerifyIDsPerFrame_pos [simp]: "0 < maxVerifyIDsPerFrame"
  by (simp add: maxVerifyIDsPerFrame_def)

definition entry_est :: "ListingEntry \<Rightarrow> nat" where
  "entry_est e = length (le_RelativePath e) + length (le_SymlinkTarget e) + 48"

definition listing_flush :: "codecs \<Rightarrow> ListingEntry list \<Rightarrow> writer \<Rightarrow> goerr option \<times> writer" where
  "listing_flush cd batch w =
     (if batch = [] then (None, w) else WriteControl (gob_listing_enc cd) TypeListingBatch (Some batch) w)"

fun listing_loop ::
  "codecs \<Rightarrow> ListingEntry list \<Rightarrow> nat \<Rightarrow> ListingEntry list \<Rightarrow> writer \<Rightarrow> goerr option \<times> writer" where
  "listing_loop cd batch sz [] w =
     (case listing_flush cd batch w of
        (Some e, w1) \<Rightarrow> (Some e, w1)
      | (None, w1) \<Rightarrow> WriteControl no_payload TypeListingEnd None w1)"
| "listing_loop cd batch sz (e # es) w =
     (if batch \<noteq> [] \<and> maxListingBatchBytes < sz + entry_est e
      then (case listing_flush cd batch w of
              (Some err, w1) \<Rightarrow> (Some err, w1)
            | (None, w1) \<Rightarrow> listing_loop cd [e] (entry_est e) es w1)
      else listing_loop cd (batch @ [e]) (sz + entry_est e) es w)"

definition sendListing :: "codecs \<Rightarrow> ListingEntry list \<Rightarrow> writer \<Rightarrow> goerr option \<times> writer" where
  "sendListing cd es w = listing_loop cd [] 0 es w"

text \<open>\<open>validateListing\<close>: entry \<open>i\<close> has index \<open>i\<close>; 32 bits are enough for the capped count.\<close>

fun validate_from :: "nat \<Rightarrow> ListingEntry list \<Rightarrow> goerr option" where
  "validate_from i [] = None"
| "validate_from i (e # es) =
     (if le_Index e \<noteq> of_nat i then Some [ErrProtocolError] else validate_from (Suc i) es)"

definition validateListing :: "ListingEntry list \<Rightarrow> goerr option" where
  "validateListing es = validate_from 0 es"

lemma ReadControlRaw_shorter:
  assumes "read_frame r = (Inr f, r')"
  shows "length (r_data r') < length (r_data r)"
proof -
  obtain d r1 where h: "read_full controlHeaderSize r = (d, r1)" by (metis surj_pair)
  with assms obtain hd where d: "d = Inr hd"
    by (cases d) (auto simp: read_frame_def ReadControlRaw_def)
  have "length (r_data r1) < length (r_data r)"
    using read_full_InrD(1,2) [OF h [unfolded d]] by (simp add: controlHeaderSize_def)
  moreover have "length (r_data r') \<le> length (r_data r1)"
    using assms unfolding read_frame_def ReadControlRaw_def h d
    by (auto simp: Let_def split: if_splits prod.splits sum.splits dest: read_full_InrD(1))
  ultimately show ?thesis by simp
qed

function recv_listing_loop :: "codecs \<Rightarrow> ListingEntry list \<Rightarrow> streams \<Rightarrow> (goerr + ListingEntry list) \<times> streams" where
  "recv_listing_loop cd es s =
     (case recv_frame s of
        (Inl e, s1) \<Rightarrow> (Inl e, s1)
      | (Inr (ft, body), s1) \<Rightarrow>
          if ft = TypeListingBatch then
            (case Decode (gob_listing_dec cd) body True of
               Inl e \<Rightarrow> (Inl e, s1)
             | Inr batch \<Rightarrow>
                 let es1 = es @ (case batch of None \<Rightarrow> [] | Some b \<Rightarrow> b)
                 in if maxListingEntries < length es1 then (Inl [ErrTooManyEntries], s1)
                    else recv_listing_loop cd es1 s1)
          else if ft = TypeListingEnd then
            (case validateListing es of
               Some e \<Rightarrow> (Inl e, s1)
             | None \<Rightarrow> (Inr es, s1))
          else if ft = TypeError then (Inl (peerError cd body), s1)
          else (Inl [ErrProtocolError], s1))"
  by pat_completeness auto
termination
  by (relation "measure (\<lambda>(cd, es, s). length (r_data (sm_ctl_in s)))")
    (auto simp: recv_frame_def split: prod.splits dest: ReadControlRaw_shorter)

declare recv_listing_loop.simps [simp del]

definition recvListing :: "codecs \<Rightarrow> streams \<Rightarrow> (goerr + ListingEntry list) \<times> streams" where
  "recvListing cd s = recv_listing_loop cd [] s"

section \<open>Decisions\<close>

definition decision_budget :: nat where "decision_budget = 48 * 1024"

definition decision_est :: "Decision \<Rightarrow> nat" where
  "decision_est d = 24 + length (d_PrefixRoot d) * 2"

fun decisions_loop ::
  "codecs \<Rightarrow> Decision list \<Rightarrow> nat \<Rightarrow> Decision list \<Rightarrow> writer \<Rightarrow> goerr option \<times> writer" where
  "decisions_loop cd batch sz [] w =
     (case (if batch = [] then (None, w)
            else WriteControl (gob_decisions_enc cd) TypeClassifyBatch (Some batch) w) of
        (Some e, w1) \<Rightarrow> (Some e, w1)
      | (None, w1) \<Rightarrow> WriteControl no_payload TypeClassifyEnd None w1)"
| "decisions_loop cd batch sz (d # ds) w =
     (if batch \<noteq> [] \<and> decision_budget < sz + decision_est d
      then (case WriteControl (gob_decisions_enc cd) TypeClassifyBatch (Some batch) w of
              (Some e, w1) \<Rightarrow> (Some e, w1)
            | (None, w1) \<Rightarrow> decisions_loop cd [d] (decision_est d) ds w1)
      else decisions_loop cd (batch @ [d]) (sz + decision_est d) ds w)"

definition sendDecisions :: "codecs \<Rightarrow> Decision list \<Rightarrow> writer \<Rightarrow> goerr option \<times> writer" where
  "sendDecisions cd ds w = decisions_loop cd [] 0 ds w"

section \<open>What was listed is what is received\<close>

lemma recv_frame_frame:
  assumes "length body \<le> MaxControlFrameSize"
    and "sm_ctl_in s = \<lparr>r_data = control_frame (ft, body) @ rest, r_end = e\<rparr>"
  shows "recv_frame s = (Inr (ft, body), s\<lparr>sm_ctl_in := \<lparr>r_data = rest, r_end = e\<rparr>\<rparr>)"
  using ReadControlRaw_frame [OF assms(1)] by (simp add: recv_frame_def read_frame_def assms(2))

lemma listing_types: "TypeListingEnd \<noteq> TypeListingBatch" "TypeListingBatch \<noteq> TypeListingEnd"
  by (simp_all add: frame_types)

text \<open>The gob contract of one payload type: an encoding is not empty and decodes to the value.\<close>

definition gob_ok :: "('p \<Rightarrow> bytes option) \<Rightarrow> (bytes \<Rightarrow> 'p option) \<Rightarrow> bool" where
  "gob_ok enc dec \<longleftrightarrow> (\<forall>p b. enc p = Some b \<longrightarrow> b \<noteq> [] \<and> dec b = Some p)"

lemma gob_okD: "gob_ok enc dec \<Longrightarrow> enc p = Some b \<Longrightarrow> b \<noteq> [] \<and> dec b = Some p"
  by (simp add: gob_ok_def)

lemma recv_listing_batch:
  assumes "gob_ok (gob_listing_enc cd) (gob_listing_dec cd)"
    and "gob_listing_enc cd b = Some body" "length body \<le> MaxControlFrameSize"
    and "sm_ctl_in s = \<lparr>r_data = control_frame (TypeListingBatch, body) @ rest, r_end = e\<rparr>"
    and "length (acc @ b) \<le> maxListingEntries"
  shows "recv_listing_loop cd acc s = recv_listing_loop cd (acc @ b) (s\<lparr>sm_ctl_in := \<lparr>r_data = rest, r_end = e\<rparr>\<rparr>)"
  using recv_frame_frame [OF assms(3,4)] gob_okD [OF assms(1,2)] assms(5)
  by (subst recv_listing_loop.simps) (simp add: Decode_def not_less)

lemma recv_listing_end:
  assumes "validateListing acc = None"
    and "sm_ctl_in s = \<lparr>r_data = control_frame (TypeListingEnd, []) @ rest, r_end = e\<rparr>"
  shows "recv_listing_loop cd acc s = (Inr acc, s\<lparr>sm_ctl_in := \<lparr>r_data = rest, r_end = e\<rparr>\<rparr>)"
  using recv_frame_frame [OF _ assms(2)] assms(1)
  by (subst recv_listing_loop.simps) (simp add: listing_types)

lemma listing_flush_ok:
  assumes "listing_flush cd batch w = (None, w1)" "batch \<noteq> []"
  obtains body where "gob_listing_enc cd batch = Some body" "length body \<le> MaxControlFrameSize"
    "w_out w1 = w_out w @ control_frame (TypeListingBatch, body)"
  using WriteControl_ok [of "gob_listing_enc cd" TypeListingBatch "Some batch" w w1] assms
  by (auto simp: listing_flush_def)

lemma listing_end_ok:
  "WriteControl no_payload TypeListingEnd None w = (None, w1) \<Longrightarrow>
     w_out w1 = w_out w @ control_frame (TypeListingEnd, [])"
  using WriteControl_ok [of no_payload TypeListingEnd None w w1] by auto

lemma listing_loop_recv:
  assumes "gob_ok (gob_listing_enc cd) (gob_listing_dec cd)"
    and "listing_loop cd batch sz es w = (None, w')"
  shows "\<exists>bs. w_out w' = w_out w @ bs \<and>
    (\<forall>acc s rest e. sm_ctl_in s = \<lparr>r_data = bs @ rest, r_end = e\<rparr>
       \<longrightarrow> length (acc @ batch @ es) \<le> maxListingEntries
       \<longrightarrow> validateListing (acc @ batch @ es) = None
       \<longrightarrow> recv_listing_loop cd acc s = (Inr (acc @ batch @ es), s\<lparr>sm_ctl_in := \<lparr>r_data = rest, r_end = e\<rparr>\<rparr>))"
  using assms
proof (induction cd batch sz es w rule: listing_loop.induct)
  case (1 cd batch sz w)
  show ?case
  proof (cases "batch = []")
    case True
    with 1 listing_end_ok [of w w'] show ?thesis
      by (intro exI [of _ "control_frame (TypeListingEnd, [])"]) (auto simp: listing_flush_def recv_listing_end)
  next
    case False
    from 1(2) obtain w1 where f: "listing_flush cd batch w = (None, w1)"
      and e: "WriteControl no_payload TypeListingEnd None w1 = (None, w')"
      by (auto split: prod.splits option.splits)
    from listing_flush_ok [OF f False] obtain body where b: "gob_listing_enc cd batch = Some body"
      "length body \<le> MaxControlFrameSize" "w_out w1 = w_out w @ control_frame (TypeListingBatch, body)" .
    show ?thesis
      using recv_listing_batch [OF 1(1) b(1,2)] b(3) listing_end_ok [OF e]
      by (intro exI [of _ "control_frame (TypeListingBatch, body) @ control_frame (TypeListingEnd, [])"])
        (simp add: recv_listing_end)
  qed
next
  case (2 cd batch sz e es w)
  show ?case
  proof (cases "batch \<noteq> [] \<and> maxListingBatchBytes < sz + entry_est e")
    case True
    with 2(4) obtain w1 where f: "listing_flush cd batch w = (None, w1)"
      and l: "listing_loop cd [e] (entry_est e) es w1 = (None, w')"
      by (auto split: prod.splits option.splits)
    from listing_flush_ok [OF f] True obtain body where b: "gob_listing_enc cd batch = Some body"
      "length body \<le> MaxControlFrameSize" "w_out w1 = w_out w @ control_frame (TypeListingBatch, body)" by blast
    from 2(1) [OF True f [symmetric] refl 2(3) l] obtain bs where
      bs: "w_out w' = w_out w1 @ bs" and
      IH: "\<And>acc s rest e'. sm_ctl_in s = \<lparr>r_data = bs @ rest, r_end = e'\<rparr>
        \<Longrightarrow> length (acc @ [e] @ es) \<le> maxListingEntries \<Longrightarrow> validateListing (acc @ [e] @ es) = None
        \<Longrightarrow> recv_listing_loop cd acc s = (Inr (acc @ [e] @ es), s\<lparr>sm_ctl_in := \<lparr>r_data = rest, r_end = e'\<rparr>\<rparr>)"
      by blast
    show ?thesis
      using recv_listing_batch [OF 2(3) b(1,2)] b(3) bs IH [where acc = "_ @ batch"]
      by (intro exI [of _ "control_frame (TypeListingBatch, body) @ bs"]) simp
  next
    case False
    with 2 show ?thesis by simp
  qed
qed

section \<open>Properties\<close>

text \<open>
  C24. The listing round-trips: whatever \<open>sendListing\<close> reports as sent, in however many batches
  and through whatever room the writer had, \<open>recvListing\<close> on those bytes accepts exactly the
  sender's entries, in order, and leaves the stream at the next frame, provided the indices
  are contiguous from 0 and the count is within the receiver's cap.
\<close>

theorem listing_roundtrip:
  assumes gob: "gob_ok (gob_listing_enc cd) (gob_listing_dec cd)"
    and sent: "sendListing cd es w = (None, w')"
    and bs: "w_out w' = w_out w @ bs"
    and idx: "\<And>i. i < length es \<Longrightarrow> le_Index (es ! i) = of_nat i"
    and cap: "length es \<le> maxListingEntries"
    and inp: "sm_ctl_in s = \<lparr>r_data = bs @ rest, r_end = e\<rparr>"
  shows "recvListing cd s = (Inr es, s\<lparr>sm_ctl_in := \<lparr>r_data = rest, r_end = e\<rparr>\<rparr>)"
proof -
  have "validate_from k xs = None" if "\<And>i. i < length xs \<Longrightarrow> le_Index (xs ! i) = of_nat (k + i)" for k xs
    using that
  proof (induction xs arbitrary: k)
    case (Cons x xs)
    from Cons.prems [of 0] Cons.prems [of "Suc _"] Cons.IH [of "Suc k"] show ?case by simp
  qed simp
  then have v: "validateListing es = None" using idx by (simp add: validateListing_def)
  from listing_loop_recv [OF gob sent [unfolded sendListing_def]] bs v cap inp show ?thesis
    by (auto simp: recvListing_def)
qed

text \<open>Codecs that can encode one payload of each kind; the witnesses use them.\<close>

definition one_enc :: "byte \<Rightarrow> 'p \<Rightarrow> 'p \<Rightarrow> bytes option" where
  "one_enc t v p = (if p = v then Some [t] else None)"

definition one_dec :: "byte \<Rightarrow> 'p \<Rightarrow> bytes \<Rightarrow> 'p option" where
  "one_dec t v b = (if b = [t] then Some v else None)"

lemma one_gob_ok: "gob_ok (one_enc t v) (one_dec t v)"
  by (simp add: gob_ok_def one_enc_def one_dec_def)

definition sample_codecs :: "ListingEntry list \<Rightarrow> Decision list \<Rightarrow> codecs" where
  "sample_codecs es ds = \<lparr>gob_error_enc = one_enc 1 zero_error, gob_error_dec = one_dec 1 zero_error,
     gob_listing_enc = one_enc 2 es, gob_listing_dec = one_dec 2 es,
     gob_decisions_enc = one_enc 3 ds, gob_decisions_dec = one_dec 3 ds,
     gob_indices_enc = one_enc 4 [], gob_indices_dec = one_dec 4 [],
     gob_hashes_enc = one_enc 5 [], gob_hashes_dec = one_dec 5 [],
     gob_shello_enc = \<lambda>_. None, gob_shello_dec = \<lambda>_. None,
     gob_rhello_enc = \<lambda>_. None, gob_rhello_dec = \<lambda>_. None\<rparr>"

definition sample_streams :: "bytes \<Rightarrow> streams" where
  "sample_streams bs = \<lparr>sm_ctl_in = \<lparr>r_data = bs, r_end = IoEOF\<rparr>, sm_ctl_out = \<lparr>w_out = [], w_room = None\<rparr>,
     sm_ctl_closed = False, sm_data_in = \<lparr>r_data = [], r_end = IoEOF\<rparr>, sm_data_closed = False\<rparr>"

definition sample_listing :: "ListingEntry list" where
  "sample_listing = [\<lparr>le_Index = 0, le_RelativePath = ''f'', le_Size = 3, le_ModTimeSec = 5, le_Mode = 0,
     le_Type = EntryFile, le_SymlinkTarget = []\<rparr>]"

theorem listing_roundtrip_witness:
  "\<exists>s'. recvListing (sample_codecs sample_listing [])
      (sample_streams ([0x03, 0x05, 0, 0, 0, 1, 2, 0x03, 0x06, 0, 0, 0, 0] @ [7]))
    = (Inr sample_listing, s'\<lparr>sm_ctl_in := \<lparr>r_data = [7], r_end = IoEOF\<rparr>\<rparr>)"
proof -
  let ?cd = "sample_codecs sample_listing []"
  have sent: "sendListing ?cd sample_listing \<lparr>w_out = [], w_room = None\<rparr>
      = (None, \<lparr>w_out = [0x03, 0x05, 0, 0, 0, 1, 2, 0x03, 0x06, 0, 0, 0, 0], w_room = None\<rparr>)"
    by (simp add: sendListing_def sample_listing_def sample_codecs_def one_enc_def listing_flush_def
        WriteControl_def control_header_def write_all_def MaxControlFrameSize_def ProtocolVersion_def
        frame_types be_unfold)
  show ?thesis
    by (rule exI, rule listing_roundtrip [OF _ sent])
      (simp_all add: sample_codecs_def one_gob_ok sample_listing_def maxListingEntries_def sample_streams_def)
qed

end
