(* ===== verification/Receive_File.thy ===== *)
theory Receive_File
  imports Classifier Transfer_Control
begin

text \<open>
  The in-flight file of \<open>internal/transfer/recv.go\<close>: \<open>recvFile\<close> with \<open>openFile\<close>, \<open>write\<close>,
  \<open>writeSparse\<close> and \<open>abandon\<close>, and the receiver state they share. A pointer into the slice of
  plans is a position of \<open>rv_plans\<close>. An open file is the path it was opened at, which nothing
  renames while it is open. What the receiver is configured with, and what lies outside the
  repository, is the argument \<open>recv_env\<close>: the file-system environment, the gob codecs, the
  user's callbacks, free space, the texts of error messages, and when the context is cancelled.
  File offsets are numbers below \<open>2 ^ 63\<close>, so Go's conversions to \<open>int64\<close> are the identity.
\<close>

section \<open>State\<close>

record recvOptions =
  ro_Hostname :: string
  ro_OS :: string
  ro_ClientVersion :: string
  ro_Conflict :: ConflictPolicy
  ro_Overwrite :: bool
  ro_Checksum :: bool
  ro_Accept :: "(SenderHello \<Rightarrow> classifySummary \<Rightarrow> bool) option"
  ro_ResolveConflicts :: "(Conflict list \<Rightarrow> ConflictPolicy) option"
  ro_Password :: string
  ro_PromptPass :: "(nat \<Rightarrow> goerr + string) option"
  ro_OnManifest :: bool

definition policy :: "recvOptions \<Rightarrow> ConflictPolicy" where
  "policy o' = (if ro_Overwrite o' then ConflictReplace else ro_Conflict o')"

record recv_env =
  re_env :: env
  re_cd :: codecs
  re_opts :: recvOptions
  re_msg :: "string \<Rightarrow> string \<Rightarrow> fault \<Rightarrow> string"
  re_space_msg :: "u64 \<Rightarrow> u64 \<Rightarrow> string"
  re_free :: "disk \<Rightarrow> u64 option"
  re_ctx :: "nat \<Rightarrow> goerr option"

datatype recv_note =
    FileDone string string
  | EntrySkipped string skip_reason
  | SourceChanged string
  | Resumed u32 u64 u64
  | Progress u32 u64
  | Notified notice
  | Manifest "ManifestEntry list"

record pendingFile =
  pf_path :: string
  pf_plan :: nat
  pf_size :: u64

record receiver =
  rv_disk :: disk
  rv_streams :: streams
  rv_plans :: "entryPlan list"
  rv_pending :: "pendingFile list"
  rv_bytes :: u64
  rv_orig :: "(string \<times> u32) list"
  rv_log :: "recv_note list"

record recvFile =
  rf_plan :: nat
  rf_path :: string
  rf_hasher :: fileHasher
  rf_sha :: "bytes option"
  rf_written :: u64
  rf_unsynced :: u64
  rf_tailHole :: bool
  rf_closed :: bool

definition plan_of :: "receiver \<Rightarrow> recvFile \<Rightarrow> entryPlan" where
  "plan_of rv rf = rv_plans rv ! rf_plan rf"

definition log_note :: "recv_note \<Rightarrow> receiver \<Rightarrow> receiver" where
  "log_note n rv = rv\<lparr>rv_log := rv_log rv @ [n]\<rparr>"

definition on_disk :: "(disk \<Rightarrow> 'a \<times> disk) \<Rightarrow> receiver \<Rightarrow> 'a \<times> receiver" where
  "on_disk op rv = (case op (rv_disk rv) of (x, d) \<Rightarrow> (x, rv\<lparr>rv_disk := d\<rparr>))"

section \<open>Declining\<close>

definition decline :: "recv_env \<Rightarrow> u16 \<Rightarrow> string \<Rightarrow> receiver \<Rightarrow> receiver" where
  "decline re code msg rv = rv\<lparr>rv_streams := declineTransfer (re_cd re) code msg (rv_streams rv)\<rparr>"

definition classifyWriteErr :: "fault \<Rightarrow> goerr" where
  "classifyWriteErr f = (if flt_kind f = NoSpace then [ErrDiskFull] else [ErrWriteFailed])"

definition write_code :: "fault \<Rightarrow> u16" where
  "write_code f = (if flt_kind f = NoSpace then ErrCodeDiskFull else ErrCodeWriteFailed)"

definition close_data :: "receiver \<Rightarrow> receiver" where
  "close_data rv = rv\<lparr>rv_streams := (rv_streams rv)\<lparr>sm_data_closed := True\<rparr>\<rparr>"

definition writeFail :: "recv_env \<Rightarrow> string \<Rightarrow> string \<Rightarrow> fault \<Rightarrow> receiver \<Rightarrow> goerr \<times> receiver" where
  "writeFail re op rel f rv =
     (classifyWriteErr f, decline re (write_code f) (re_msg re op rel f) (close_data rv))"

definition guardRegular :: "recv_env \<Rightarrow> string \<Rightarrow> string \<Rightarrow> receiver \<Rightarrow> goerr option \<times> receiver" where
  "guardRegular re path what rv =
     (case lstat (rv_disk rv) path of
        None \<Rightarrow> (None, rv)
      | Some n \<Rightarrow>
          if is_regular (Some n) then (None, rv)
          else (Some [ErrWriteFailed], decline re ErrCodeProtocolError (what @ '' not a regular file'') rv))"

section \<open>Opening and abandoning\<close>

definition abandon :: "recv_env \<Rightarrow> bool \<Rightarrow> recvFile \<Rightarrow> receiver \<Rightarrow> recvFile \<times> receiver" where
  "abandon re keep rf rv =
     (if rf_closed rf then (rf, rv)
      else (rf\<lparr>rf_closed := True\<rparr>,
            if keep then rv
            else rv\<lparr>rv_disk := ps_remove (re_env re) (ep_rel (plan_of rv rf)) (rv_disk rv)\<rparr>))"

definition new_recvFile :: "recv_env \<Rightarrow> nat \<Rightarrow> string \<Rightarrow> recvFile" where
  "new_recvFile re i path =
     \<lparr>rf_plan = i, rf_path = path, rf_hasher = newFileHasher,
      rf_sha = (if ro_OnManifest (re_opts re) then Some [] else None), rf_written = 0, rf_unsynced = 0,
      rf_tailHole = False, rf_closed = False\<rparr>"

text \<open>Opening the partial of a resumed file. Reading it for the manifest's digest can fail.\<close>

definition open_resume :: "recv_env \<Rightarrow> nat \<Rightarrow> receiver \<Rightarrow> (goerr + recvFile) \<times> receiver" where
  "open_resume re i rv0 =
     (let p = rv_plans rv0 ! i; ev = re_env re; off = unat (ep_resumeOffset p);
          rf = new_recvFile re i (ep_partial p)
      in case guardRegular re (ep_partial p) ''partial'' rv0 of
        (Some e, rv1) \<Rightarrow> (Inl e, rv1)
      | (None, rv1) \<Rightarrow>
          (case on_disk (os_Open (ev_flt ev) (ep_partial p)) rv1 of
             (Some f, rv2) \<Rightarrow> apfst Inl (writeFail re ''open partial'' (ep_rel p) f rv2)
           | (None, rv2) \<Rightarrow>
               (case on_disk (f_Truncate (ev_flt ev) (ep_partial p) off) rv2 of
                  (Some f, rv3) \<Rightarrow> apfst Inl (writeFail re ''truncate'' (ep_rel p) f (snd (abandon re False rf rv3)))
                | (None, rv3) \<Rightarrow>
                    (case (if rf_sha rf = None then (None, rv3)
                           else on_disk (os_Open (ev_flt ev) (ep_partial p)) rv3) of
                       (Some f, rv4) \<Rightarrow>
                         apfst Inl (writeFail re ''read partial'' (ep_rel p) f (snd (abandon re False rf rv4)))
                     | (None, rv4) \<Rightarrow>
                         (Inr (rf\<lparr>rf_hasher := fh_seed (ep_prefixBlocks p) newFileHasher,
                                  rf_sha := map_option (\<lambda>_. take off (node_bytes (lstat (rv_disk rv4) (ep_partial p)))) (rf_sha rf),
                                  rf_written := ep_resumeOffset p\<rparr>),
                          log_note (Resumed (le_Index (ep_entry p)) (ep_resumeOffset p) (le_Size (ep_entry p))) rv4)))))"

definition openFile :: "recv_env \<Rightarrow> nat \<Rightarrow> bool \<Rightarrow> receiver \<Rightarrow> (goerr + recvFile) \<times> receiver" where
  "openFile re i restart rv =
     (let p = rv_plans rv ! i in
      if restart \<and> ep_disp p \<noteq> dispResume
      then (Inl [ErrProtocolError], decline re ErrCodeProtocolError ''restart for a file not resumed'' rv)
      else if ep_disp p = dispResume \<and> \<not> restart then open_resume re i rv
      else
        let rv1 = (if restart
                   then rv\<lparr>rv_plans := (rv_plans rv)[i := p\<lparr>ep_disp := dispNew, ep_prefixBlocks := []\<rparr>]\<rparr> else rv)
        in (case on_disk (ps_create (re_env re) (ep_rel p) (ep_entry p)) rv1 of
              (Inl f, rv2) \<Rightarrow> apfst Inl (writeFail re ''create partial'' (ep_rel p) f rv2)
            | (Inr path, rv2) \<Rightarrow> (Inr (new_recvFile re i path), rv2)))"

section \<open>Writing\<close>

definition sparseBlock :: nat where "sparseBlock = 64 * 1024"
definition periodicSync :: u64 where "periodicSync = 64 * 1024 * 1024"

lemma sparseBlock_pos [simp]: "0 < sparseBlock" "sparseBlock \<noteq> 0"
  by (simp_all add: sparseBlock_def)

text \<open>\<open>flush\<close> of \<open>writeSparse\<close>: the pending run from \<open>start\<close> to \<open>e\<close>.\<close>

definition sparse_flush ::
  "faults \<Rightarrow> string \<Rightarrow> nat \<Rightarrow> bytes \<Rightarrow> nat \<Rightarrow> nat \<Rightarrow> disk \<Rightarrow> fault option \<times> disk" where
  "sparse_flush flt path pos data start e d =
     (if start < e then f_WriteAt flt path (drop start (take e data)) (pos + start) d else (None, d))"

function sparse_loop ::
  "faults \<Rightarrow> string \<Rightarrow> nat \<Rightarrow> bytes \<Rightarrow> nat \<Rightarrow> nat \<Rightarrow> disk \<Rightarrow> fault option \<times> nat \<times> disk" where
  "sparse_loop flt path pos data i start d =
     (if length data < i + sparseBlock then (None, start, d)
      else if take sparseBlock (drop i data) = replicate sparseBlock 0
      then (case sparse_flush flt path pos data start i d of
              (Some f, d1) \<Rightarrow> (Some f, start, d1)
            | (None, d1) \<Rightarrow> sparse_loop flt path pos data (i + sparseBlock) (i + sparseBlock) d1)
      else sparse_loop flt path pos data (i + sparseBlock) start d)"
  by pat_completeness auto
termination
  by (relation "measure (\<lambda>(flt, path, pos, data, i, start, d). Suc (length data) - i)")
    (auto simp: not_less sparseBlock_def)

declare sparse_loop.simps [simp del]

text \<open>The result says whether the data ended in a hole.\<close>

definition writeSparse :: "faults \<Rightarrow> string \<Rightarrow> nat \<Rightarrow> bytes \<Rightarrow> disk \<Rightarrow> (fault + bool) \<times> disk" where
  "writeSparse flt path pos data d =
     (let lead = (sparseBlock - pos mod sparseBlock) mod sparseBlock in
      case sparse_loop flt path pos data (min lead (length data)) 0 d of
        (Some f, start, d1) \<Rightarrow> (Inl f, d1)
      | (None, start, d1) \<Rightarrow>
          (case sparse_flush flt path pos data start (length data) d1 of
             (Some f, d2) \<Rightarrow> (Inl f, d2)
           | (None, d2) \<Rightarrow> (Inr (start = length data), d2)))"

definition rf_write :: "recv_env \<Rightarrow> bytes \<Rightarrow> recvFile \<Rightarrow> receiver \<Rightarrow> goerr option \<times> recvFile \<times> receiver" where
  "rf_write re data rf rv =
     (let p = plan_of rv rf; flt = ev_flt (re_env re); n = of_nat (length data) in
      if data = [] then (None, rf, rv)
      else if le_Size (ep_entry p) < rf_written rf + n
      then (Some [ErrProtocolError], rf, decline re ErrCodeProtocolError ''received bytes exceed declared size'' rv)
      else (case on_disk (writeSparse flt (rf_path rf) (unat (rf_written rf)) data) rv of
              (Inl f, rv1) \<Rightarrow>
                (case (if flt_kind f = NoSpace then abandon re False rf rv1 else (rf, rv1)) of
                   (rf1, rv2) \<Rightarrow>
                     (Some (classifyWriteErr f), rf1,
                      decline re (write_code f) (re_msg re ''write'' (ep_rel p) f) (close_data rv2)))
            | (Inr hole, rv1) \<Rightarrow>
                let rf1 = rf\<lparr>rf_tailHole := hole, rf_hasher := fh_Write (ev_bh (re_env re)) data (rf_hasher rf),
                             rf_sha := map_option (\<lambda>s. s @ data) (rf_sha rf),
                             rf_written := rf_written rf + n, rf_unsynced := rf_unsynced rf + n\<rparr>;
                    due = periodicSync \<le> rf_unsynced rf1;
                    rv2 = (if due then snd (on_disk (f_Sync flt) rv1) else rv1);
                    rf2 = (if due then rf1\<lparr>rf_unsynced := 0\<rparr> else rf1)
                in (None, rf2, log_note (Progress (le_Index (ep_entry p)) (rf_written rf2)) rv2)))"


section \<open>A sparse write is a write\<close>

text \<open>
  What a file shows of \<open>start\<close> bytes of \<open>data\<close> written at \<open>pos\<close>: its bytes, continued with
  zeros, are the old ones, continued with zeros up to \<open>pos\<close>, and then the data.
\<close>

definition filled :: "bytes \<Rightarrow> nat \<Rightarrow> bytes \<Rightarrow> bytes \<Rightarrow> bool" where
  "filled c0 pos data c \<longleftrightarrow>
     length c \<le> pos + length data \<and> pad_to (pos + length data) c = pad_to pos c0 @ data"

lemma length_pad_to: "length c \<le> n \<Longrightarrow> length (pad_to n c) = n"
  by (simp add: pad_to_def)

lemma pad_to_more: "length c \<le> m \<Longrightarrow> pad_to (m + k) c = pad_to m c @ replicate k 0"
  by (simp add: pad_to_def replicate_add [symmetric])

lemma pad_to_self: "length c = n \<Longrightarrow> pad_to n c = c"
  by (simp add: pad_to_def)

lemma overwrite_end: "length c \<le> q \<Longrightarrow> overwrite_at q b c = pad_to q c @ b"
  by (simp add: overwrite_at_def length_pad_to)

lemma filled_hole: "filled c0 pos data c \<Longrightarrow> filled c0 pos (data @ replicate k 0) c"
  using pad_to_more [of c "pos + length data" k] by (simp add: filled_def add.assoc)

lemma filled_write:
  assumes "filled c0 pos data c"
  shows "filled c0 pos (data @ b) (overwrite_at (pos + length data) b c)"
proof -
  have len: "length c \<le> pos + length data" using assms by (simp add: filled_def)
  then have o': "overwrite_at (pos + length data) b c = pad_to (pos + length data) c @ b"
    by (rule overwrite_end)
  have l: "length (overwrite_at (pos + length data) b c) = pos + length (data @ b)"
    by (simp only: o' length_append length_pad_to [OF len] add.assoc)
  show ?thesis
    using assms pad_to_self [OF l] l by (simp add: filled_def o')
qed

lemma sparse_flush_ok:
  assumes "sparse_flush flt path pos data start e d = (None, d')"
    and "is_regular (lstat d path)" "filled c0 pos (take start data) (node_bytes (lstat d path))"
    and "start \<le> e" "e \<le> length data"
  shows "is_regular (lstat d' path)" "filled c0 pos (take e data) (node_bytes (lstat d' path))"
    "start < e \<Longrightarrow> length (node_bytes (lstat d' path)) = pos + e"
    "start = e \<Longrightarrow> d' = d"
proof -
  have l: "length (take start data) = start" using assms(4,5) by simp
  have cut: "take start data @ drop start (take e data) = take e data"
    using assms(4) by (metis append_take_drop_id min.absorb1 take_take)
  have w: "is_regular (lstat d' path) \<and>
      node_bytes (lstat d' path) = overwrite_at (pos + start) (drop start (take e data)) (node_bytes (lstat d path))"
    if "start < e"
    using assms(1,2) that WriteAt_ok by (simp add: sparse_flush_def)
  show "is_regular (lstat d' path)"
    using w assms(1,2,4) by (cases "start < e") (auto simp: sparse_flush_def)
  show "filled c0 pos (take e data) (node_bytes (lstat d' path))"
  proof (cases "start < e")
    case True
    with filled_write [OF assms(3), of "drop start (take e data)"] w show ?thesis unfolding l cut by simp
  next
    case False
    with assms show ?thesis by (simp add: sparse_flush_def)
  qed
  show "length (node_bytes (lstat d' path)) = pos + e" if "start < e"
  proof -
    have len: "length (node_bytes (lstat d path)) \<le> pos + start" using assms(3) l by (simp add: filled_def)
    show ?thesis
      using w [OF that] assms(4,5) by (simp add: overwrite_end [OF len] length_pad_to [OF len])
  qed
  show "d' = d" if "start = e" using assms(1) that by (simp add: sparse_flush_def)
qed

lemma sparse_loop_ok:
  assumes "sparse_loop flt path pos data i start d = (None, start', d')"
    and "is_regular (lstat d path)" "filled c0 pos (take start data) (node_bytes (lstat d path))"
    and "start \<le> i" "i \<le> length data"
  shows "is_regular (lstat d' path) \<and> filled c0 pos (take start' data) (node_bytes (lstat d' path))
    \<and> start' \<le> length data"
  using assms
proof (induction flt path pos data i start d rule: sparse_loop.induct)
  case (1 flt path pos data i start d)
  note unf = sparse_loop.simps [of flt path pos data i start d]
  show ?case
  proof (cases "length data < i + sparseBlock")
    case True
    with 1 show ?thesis by (simp add: unf)
  next
    case more: False
    show ?thesis
    proof (cases "take sparseBlock (drop i data) = replicate sparseBlock 0")
      case zero: True
      from 1(3) obtain d1 where f: "sparse_flush flt path pos data start i d = (None, d1)"
        and l: "sparse_loop flt path pos data (i + sparseBlock) (i + sparseBlock) d1 = (None, start', d')"
        using more zero by (auto simp: unf split: prod.splits option.splits)
      note f_ok = sparse_flush_ok [OF f 1(4-7)]
      have "take (i + sparseBlock) data = take i data @ replicate sparseBlock 0"
        using zero by (simp add: take_add)
      then have "filled c0 pos (take (i + sparseBlock) data) (node_bytes (lstat d1 path))"
        using filled_hole [OF f_ok(2)] by simp
      from 1(1) [OF more zero f [symmetric] refl l f_ok(1) this] more show ?thesis by simp
    next
      case False
      from 1(2) [OF more False] 1(3-7) more False show ?thesis by (simp add: unf)
    qed
  qed
qed

lemma writeSparse_ok:
  assumes "writeSparse flt path pos data d = (Inr hole, d')"
    and "is_regular (lstat d path)" "length (node_bytes (lstat d path)) \<le> pos"
  shows "is_regular (lstat d' path)" "filled (node_bytes (lstat d path)) pos data (node_bytes (lstat d' path))"
    "\<not> hole \<Longrightarrow> length (node_bytes (lstat d' path)) = pos + length data"
proof -
  define lead where "lead = (sparseBlock - pos mod sparseBlock) mod sparseBlock"
  obtain e1 start d1 where 1: "sparse_loop flt path pos data (min lead (length data)) 0 d = (e1, start, d1)"
    by (metis surj_pair)
  obtain e2 d2 where 2: "sparse_flush flt path pos data start (length data) d1 = (e2, d2)" by (metis surj_pair)
  have e: "e1 = None" "e2 = None" "d' = d2" "hole = (start = length data)"
    using assms(1) unfolding writeSparse_def Let_def lead_def [symmetric] 1 2 prod.case
    by (auto split: option.splits)
  let ?c0 = "node_bytes (lstat d path)"
  have "filled ?c0 pos (take 0 data) ?c0" using assms(3) by (simp add: filled_def)
  from sparse_loop_ok [OF 1 [unfolded e] assms(2) this]
  have l: "is_regular (lstat d1 path)" "filled ?c0 pos (take start data) (node_bytes (lstat d1 path))"
    "start \<le> length data" by simp_all
  note f = sparse_flush_ok [OF 2 [unfolded e] l order.refl]
  show "is_regular (lstat d' path)" using f(1) e by simp
  show "filled ?c0 pos data (node_bytes (lstat d' path))" using f(2) e by simp
  show "length (node_bytes (lstat d' path)) = pos + length data" if "\<not> hole"
  proof -
    from that have "start < length data" using e(4) l(3) by simp
    then show ?thesis using f(3) e(3) by simp
  qed
qed

lemma frame_sparse_flush: "same_outside {path} d (snd (sparse_flush flt path pos data start e d))"
  by (simp add: sparse_flush_def frame_WriteAt)

lemma frame_sparse_loop: "same_outside {path} d (snd (snd (sparse_loop flt path pos data i start d)))"
proof (induction flt path pos data i start d rule: sparse_loop.induct)
  case (1 flt path pos data i start d)
  obtain e1 d1 where f: "sparse_flush flt path pos data start i d = (e1, d1)" by (metis surj_pair)
  have s: "same_outside {path} d d1" using frame_sparse_flush [of path d flt pos data start i] by (simp add: f)
  show ?case
    using 1 f s same_outside_trans [OF s]
    by (subst sparse_loop.simps) (auto split: option.splits)
qed

lemma frame_writeSparse: "same_outside {path} d (snd (writeSparse flt path pos data d))"
proof -
  obtain e1 start d1 where 1: "sparse_loop flt path pos data
      (min ((sparseBlock - pos mod sparseBlock) mod sparseBlock) (length data)) 0 d = (e1, start, d1)"
    by (metis surj_pair)
  obtain e2 d2 where 2: "sparse_flush flt path pos data start (length data) d1 = (e2, d2)" by (metis surj_pair)
  have s: "same_outside {path} d d1" using frame_sparse_loop [of path d flt pos data] 1 by (metis snd_conv)
  moreover have "same_outside {path} d1 d2" using frame_sparse_flush [of path d1 flt pos data start] 2 by (metis snd_conv)
  ultimately show ?thesis
    unfolding writeSparse_def Let_def 1 2 prod.case
    by (cases e1; cases e2) (auto intro: same_outside_trans)
qed


section \<open>The file and its hasher agree\<close>

text \<open>
  \<open>X\<close> is what was received of the file so far: the partial shows it, up to a hole at its end,
  and the hashers have seen it.
\<close>

definition rf_ok :: "recv_env \<Rightarrow> bytes \<Rightarrow> recvFile \<Rightarrow> receiver \<Rightarrow> bool" where
  "rf_ok re X rf rv \<longleftrightarrow>
     is_regular (lstat (rv_disk rv) (rf_path rf))
     \<and> unat (rf_written rf) = length X \<and> rf_written rf \<le> le_Size (ep_entry (plan_of rv rf))
     \<and> length (node_bytes (lstat (rv_disk rv) (rf_path rf))) \<le> length X
     \<and> pad_to (length X) (node_bytes (lstat (rv_disk rv) (rf_path rf))) = X
     \<and> (rf_tailHole rf \<or> length (node_bytes (lstat (rv_disk rv) (rf_path rf))) = length X)
     \<and> hasher_rep (ev_bh (re_env re)) (rf_hasher rf) X
     \<and> (\<forall>s. rf_sha rf = Some s \<longrightarrow> s = X)"

lemma unat_add_bounded:
  fixes a b n :: u64
  assumes "\<not> b < a + n" "a \<le> b" "unat b < 2 ^ 63" "unat n < 2 ^ 63"
  shows "unat (a + n) = unat a + unat n"
proof -
  have "unat a \<le> unat b" using assms(2) by (simp add: word_le_nat_alt)
  then have "unat a + unat n < 2 ^ LENGTH(64)" using assms(3,4) by simp
  then show ?thesis using unat_add_lem [of a n] by blast
qed

lemma Sync_disk: "lstat (snd (f_Sync flt d)) q = lstat d q"
  by (simp add: f_Sync_def fs_simps)

lemma rf_write_ok:
  assumes w: "rf_write re data rf rv = (None, rf', rv')"
    and ok: "rf_ok re X rf rv"
    and big: "unat (le_Size (ep_entry (plan_of rv rf))) < 2 ^ 63" "length data < 2 ^ 63"
  shows "rf_ok re (X @ data) rf' rv'" "rv_plans rv' = rv_plans rv" "rf_plan rf' = rf_plan rf"
    "rf_path rf' = rf_path rf" "rf_closed rf' = rf_closed rf"
    "same_outside {rf_path rf} (rv_disk rv) (rv_disk rv')"
    "rv_streams rv' = rv_streams rv" "rv_pending rv' = rv_pending rv"
    "rv_log rv' = rv_log rv @ (if data = [] then [] else
        [Progress (le_Index (ep_entry (plan_of rv rf))) (rf_written rf')])"
proof -
  let ?flt = "ev_flt (re_env re)" and ?p = "plan_of rv rf"
  let ?n = "of_nat (length data) :: u64"
  have all: "rf_ok re (X @ data) rf' rv' \<and> rv_plans rv' = rv_plans rv \<and> rf_plan rf' = rf_plan rf
    \<and> rf_path rf' = rf_path rf \<and> rf_closed rf' = rf_closed rf
    \<and> same_outside {rf_path rf} (rv_disk rv) (rv_disk rv')
    \<and> rv_streams rv' = rv_streams rv \<and> rv_pending rv' = rv_pending rv
    \<and> rv_log rv' = rv_log rv @ (if data = [] then [] else
        [Progress (le_Index (ep_entry ?p)) (rf_written rf')])"
  proof (cases "data = []")
    case True
    with w ok show ?thesis by (simp add: rf_write_def)
  next
    case ne: False
    obtain res d1 where s: "writeSparse ?flt (rf_path rf) (unat (rf_written rf)) data (rv_disk rv) = (res, d1)"
      by (metis surj_pair)
    have fits: "\<not> le_Size (ep_entry ?p) < rf_written rf + ?n"
      using w ne unfolding rf_write_def Let_def by (auto split: if_splits)
    obtain hole where res: "res = Inr hole"
      using w ne fits unfolding rf_write_def Let_def on_disk_def s
      by (cases res) (auto split: prod.splits if_splits)
    define rf1 where "rf1 = rf\<lparr>rf_tailHole := hole, rf_hasher := fh_Write (ev_bh (re_env re)) data (rf_hasher rf),
        rf_sha := map_option (\<lambda>s. s @ data) (rf_sha rf),
        rf_written := rf_written rf + ?n, rf_unsynced := rf_unsynced rf + ?n\<rparr>"
    define due where "due = (periodicSync \<le> rf_unsynced rf1)"
    have rf': "rf' = (if due then rf1\<lparr>rf_unsynced := 0\<rparr> else rf1)"
      and rv': "rv' = log_note (Progress (le_Index (ep_entry ?p)) (rf_written rf'))
          (if due then snd (on_disk (f_Sync ?flt) (rv\<lparr>rv_disk := d1\<rparr>)) else rv\<lparr>rv_disk := d1\<rparr>)"
      using w ne fits unfolding rf_write_def Let_def on_disk_def s res
      by (auto simp: rf1_def due_def)
    have d: "lstat (rv_disk rv') q = lstat d1 q" for q
      by (simp add: rv' log_note_def on_disk_def f_Sync_def fs_simps)
    have n: "unat ?n = length data" using big(2) by (simp add: unat_of_nat)
    have un: "unat (rf_written rf + ?n) = unat (rf_written rf) + length data"
      using unat_add_bounded [OF fits _ big(1)] ok big(2) by (simp add: rf_ok_def n)
    have pre: "is_regular (lstat (rv_disk rv) (rf_path rf))" "length X = unat (rf_written rf)"
      "length (node_bytes (lstat (rv_disk rv) (rf_path rf))) \<le> unat (rf_written rf)"
      "pad_to (length X) (node_bytes (lstat (rv_disk rv) (rf_path rf))) = X"
      using ok unfolding rf_ok_def by auto
    note ws = writeSparse_ok [OF s [unfolded res] pre(1,3)]
    have fields: "rf_plan rf' = rf_plan rf" "rf_path rf' = rf_path rf" "rf_closed rf' = rf_closed rf"
      "rf_written rf' = rf_written rf + ?n" "rf_tailHole rf' = hole"
      "rf_hasher rf' = fh_Write (ev_bh (re_env re)) data (rf_hasher rf)"
      "rf_sha rf' = map_option (\<lambda>s. s @ data) (rf_sha rf)"
      by (simp_all add: rf' rf1_def)
    have rest: "rv_plans rv' = rv_plans rv" "rv_streams rv' = rv_streams rv" "rv_pending rv' = rv_pending rv"
      "rv_log rv' = rv_log rv @ [Progress (le_Index (ep_entry ?p)) (rf_written rf')]"
      by (simp_all add: rv' log_note_def on_disk_def f_Sync_def)
    have "same_outside {rf_path rf} (rv_disk rv) (rv_disk rv')"
      using frame_writeSparse [of "rf_path rf" "rv_disk rv" ?flt "unat (rf_written rf)" data] d
      by (simp add: same_outside_def s)
    moreover have "rf_ok re (X @ data) rf' rv'"
      using ws pre ok fits un hasher_rep_Write [of "ev_bh (re_env re)" "rf_hasher rf" X data]
      by (auto simp: rf_ok_def fields rest plan_of_def d filled_def not_less)
    ultimately show ?thesis using ne by (simp add: fields rest)
  qed
  then show "rf_ok re (X @ data) rf' rv'" "rv_plans rv' = rv_plans rv" "rf_plan rf' = rf_plan rf"
    "rf_path rf' = rf_path rf" "rf_closed rf' = rf_closed rf"
    "same_outside {rf_path rf} (rv_disk rv) (rv_disk rv')"
    "rv_streams rv' = rv_streams rv" "rv_pending rv' = rv_pending rv"
    "rv_log rv' = rv_log rv @ (if data = [] then [] else
        [Progress (le_Index (ep_entry (plan_of rv rf))) (rf_written rf')])"
    by simp_all
qed


lemma rf_ok_new:
  assumes "is_regular (lstat (rv_disk rv) path)" "node_bytes (lstat (rv_disk rv) path) = []"
  shows "rf_ok re [] (new_recvFile re i path) rv"
  using assms by (simp add: rf_ok_def new_recvFile_def pad_to_def hasher_rep_new)

text \<open>A file that is not resumed starts out empty, in the partial of its own path.\<close>

lemma openFile_new:
  assumes op: "openFile re i restart rv = (Inr rf, rv')"
    and i: "i < length (rv_plans rv)" and kind: "restart \<or> ep_disp (rv_plans rv ! i) \<noteq> dispResume"
  shows "rf_ok re [] rf rv'" "rf_plan rf = i" "rf_path rf = ps_data (re_env re) (ep_rel (rv_plans rv ! i))"
    "rf_closed rf = False" "rf_written rf = 0"
    "ep_entry (rv_plans rv' ! i) = ep_entry (rv_plans rv ! i)"
    "same_outside {PartialDir (re_env re), ps_data (re_env re) (ep_rel (rv_plans rv ! i)),
        ps_meta (re_env re) (ep_rel (rv_plans rv ! i))} (rv_disk rv) (rv_disk rv')"
proof -
  let ?p = "rv_plans rv ! i"
  define rv1 where "rv1 = (if restart
       then rv\<lparr>rv_plans := (rv_plans rv)[i := ?p\<lparr>ep_disp := dispNew, ep_prefixBlocks := []\<rparr>]\<rparr> else rv)"
  have d1: "rv_disk rv1 = rv_disk rv" by (simp add: rv1_def)
  obtain res d2 where c: "ps_create (re_env re) (ep_rel ?p) (ep_entry ?p) (rv_disk rv) = (res, d2)"
    by (metis surj_pair)
  have dom: "\<not> (restart \<and> ep_disp ?p \<noteq> dispResume)" "\<not> (ep_disp ?p = dispResume \<and> \<not> restart)"
    using op kind unfolding openFile_def Let_def by (auto split: if_splits)
  obtain path where res: "res = Inr path" and rf: "rf = new_recvFile re i path" and rv': "rv' = rv1\<lparr>rv_disk := d2\<rparr>"
    using op dom unfolding openFile_def Let_def on_disk_def rv1_def [symmetric] d1 c
    by (cases res) (auto simp: apfst_def map_prod_def split: prod.splits)
  note ok = ps_create_ok [OF c [unfolded res]]
  show "rf_ok re [] rf rv'" using rf_ok_new [of rv' path re i] ok by (simp add: rf rv')
  show "rf_plan rf = i" "rf_path rf = ps_data (re_env re) (ep_rel ?p)" "rf_closed rf = False" "rf_written rf = 0"
    using ok(1) by (simp_all add: rf new_recvFile_def)
  show "ep_entry (rv_plans rv' ! i) = ep_entry ?p" using i by (simp add: rv' rv1_def)
  show "same_outside {PartialDir (re_env re), ps_data (re_env re) (ep_rel ?p), ps_meta (re_env re) (ep_rel ?p)}
      (rv_disk rv) (rv_disk rv')"
    using frame_ps_create [of "re_env re" "ep_rel ?p" "rv_disk rv" "ep_entry ?p"] by (simp add: rv' c)
qed

text \<open>The pieces of a file, written one after the other.\<close>

fun rf_writes :: "recv_env \<Rightarrow> bytes list \<Rightarrow> recvFile \<Rightarrow> receiver \<Rightarrow> goerr option \<times> recvFile \<times> receiver" where
  "rf_writes re [] rf rv = (None, rf, rv)"
| "rf_writes re (b # bs) rf rv =
     (case rf_write re b rf rv of
        (Some e, rf1, rv1) \<Rightarrow> (Some e, rf1, rv1)
      | (None, rf1, rv1) \<Rightarrow> rf_writes re bs rf1 rv1)"

lemma rf_writes_ok:
  assumes "rf_writes re bs rf rv = (None, rf', rv')" "rf_ok re X rf rv"
    and "unat (le_Size (ep_entry (plan_of rv rf))) < 2 ^ 63" "\<And>b. b \<in> set bs \<Longrightarrow> length b < 2 ^ 63"
  shows "rf_ok re (X @ concat bs) rf' rv' \<and> rv_plans rv' = rv_plans rv \<and> rf_plan rf' = rf_plan rf \<and> rf_path rf' = rf_path rf
    \<and> same_outside {rf_path rf} (rv_disk rv) (rv_disk rv')"
  using assms
proof (induction bs arbitrary: X rf rv)
  case (Cons b bs)
  obtain e rf1 rv1 where w: "rf_write re b rf rv = (e, rf1, rv1)" by (metis surj_pair)
  have e: "e = None" and r: "rf_writes re bs rf1 rv1 = (None, rf', rv')"
    using Cons.prems(1) w by (auto split: option.splits)
  have "length b < 2 ^ 63" by (rule Cons.prems(4)) simp
  note ok = rf_write_ok [OF w [unfolded e] Cons.prems(2,3) this]
  have "plan_of rv1 rf1 = plan_of rv rf" using ok(2,3) by (simp add: plan_of_def)
  then have "rf_ok re ((X @ b) @ concat bs) rf' rv' \<and> rv_plans rv' = rv_plans rv1 \<and> rf_plan rf' = rf_plan rf1
    \<and> rf_path rf' = rf_path rf1 \<and> same_outside {rf_path rf1} (rv_disk rv1) (rv_disk rv')"
    using Cons.IH [OF r ok(1)] Cons.prems(3,4) by simp
  then show ?case using ok same_outside_trans [OF ok(6)] by simp
qed simp

section \<open>Properties\<close>

text \<open>
  C3. A received file is kept faithfully: after a file was opened afresh and any pieces of data
  were written to it without an error, however they were cut and wherever they held zeros that
  the sparse writer skipped, the partial continued with zeros up to the number of bytes received
  is exactly their concatenation, that number never exceeds the announced size, the hasher's
  root is the root of those bytes, and no path but the partial store's was touched.
\<close>

theorem received_bytes_kept:
  assumes op: "openFile re i restart rv = (Inr rf, rv1)" "i < length (rv_plans rv)"
      "restart \<or> ep_disp (rv_plans rv ! i) \<noteq> dispResume"
    and wr: "rf_writes re bs rf rv1 = (None, rf', rv2)"
    and size: "unat (le_Size (ep_entry (rv_plans rv ! i))) < 2 ^ 63" "\<And>b. b \<in> set bs \<Longrightarrow> length b < 2 ^ 63"
  shows "pad_to (length (concat bs)) (node_bytes (lstat (rv_disk rv2) (rf_path rf'))) = concat bs
    \<and> unat (rf_written rf') = length (concat bs) \<and> rf_written rf' \<le> le_Size (ep_entry (rv_plans rv ! i))
    \<and> fh_Sum (ev_bh (re_env re)) (ev_fk (re_env re)) (rf_hasher rf')
        = tree_root (ev_bh (re_env re)) (ev_fk (re_env re)) (concat bs)
    \<and> same_outside (insert (PartialDir (re_env re)) (store (re_env re))) (rv_disk rv) (rv_disk rv2)"
proof -
  note o' = openFile_new [OF op]
  have p: "ep_entry (plan_of rv1 rf) = ep_entry (rv_plans rv ! i)" using o'(2,6) by (simp add: plan_of_def)
  have w: "rf_ok re ([] @ concat bs) rf' rv2" "rv_plans rv2 = rv_plans rv1" "rf_plan rf' = rf_plan rf"
    "same_outside {rf_path rf} (rv_disk rv1) (rv_disk rv2)"
    using rf_writes_ok [OF wr o'(1)] size p by simp_all
  have p2: "ep_entry (plan_of rv2 rf') = ep_entry (rv_plans rv ! i)" using p w(2,3) by (simp add: plan_of_def)
  let ?P = "insert (PartialDir (re_env re)) (store (re_env re))"
  have a: "same_outside ?P (rv_disk rv) (rv_disk rv1)" using o'(7) by (rule same_outside_mono) auto
  have b: "same_outside ?P (rv_disk rv1) (rv_disk rv2)" using w(4) by (rule same_outside_mono) (simp add: o'(3))
  show ?thesis
    using w(1) fh_Sum_rep [of "ev_bh (re_env re)" "rf_hasher rf'" "concat bs"] same_outside_trans [OF a b]
    by (simp add: rf_ok_def p2)
qed

definition sample_recv_env :: recv_env where
  "sample_recv_env = \<lparr>re_env = sample_env, re_cd = sample_codecs [] [],
     re_opts = \<lparr>ro_Hostname = [], ro_OS = [], ro_ClientVersion = [], ro_Conflict = ConflictKeep, ro_Overwrite = False,
       ro_Checksum = False, ro_Accept = None, ro_ResolveConflicts = None, ro_Password = [], ro_PromptPass = None,
       ro_OnManifest = False\<rparr>,
     re_msg = \<lambda>op rel f. op, re_space_msg = \<lambda>a b. [], re_free = \<lambda>d. None, re_ctx = \<lambda>n. None\<rparr>"

lemma sample_recv_env_simps [simp]:
  "re_env sample_recv_env = sample_env" "re_cd sample_recv_env = sample_codecs [] []"
  "ro_OnManifest (re_opts sample_recv_env) = False" "re_free sample_recv_env = (\<lambda>d. None)"
  "re_ctx sample_recv_env = (\<lambda>n. None)"
  by (simp_all add: sample_recv_env_def)

definition sample_receiver :: receiver where
  "sample_receiver = \<lparr>rv_disk = sample_disk, rv_streams = sample_streams [],
     rv_plans = [new_plan sample_entry ''f'' ''/r/f'' dispNew], rv_pending = [], rv_bytes = 0, rv_orig = [], rv_log = []\<rparr>"

theorem received_bytes_kept_witness:
  "\<exists>c. pad_to (length [1, 2, 0, 3 :: byte]) c = [1, 2, 0, 3] \<and> fh_Sum id id (fh_Write id [0, 3] (fh_Write id [1, 2] newFileHasher)) =
     tree_root id id [1, 2, 0, 3]"
proof -
  let ?re = sample_recv_env
  obtain d1 where c: "ps_create sample_env ''f'' sample_entry sample_disk = (Inr ''/r/.fsend/x.partial'', d1)"
    using sample_create by blast
  have op: "openFile ?re 0 False sample_receiver
      = (Inr (new_recvFile ?re 0 ''/r/.fsend/x.partial''), sample_receiver\<lparr>rv_disk := d1\<rparr>)"
    by (simp add: openFile_def sample_receiver_def new_plan_def on_disk_def sample_recv_env_def c)
  have sp: "\<exists>d'. writeSparse (\<lambda>_. None) path pos [x, y] d = (Inr (0 = length [x, y]), d')" for path pos x y d
    by (subst writeSparse_def, subst sparse_loop.simps)
      (simp add: Let_def sparseBlock_def sparse_flush_def f_WriteAt_def next_fault_def)
  let ?done = "\<lambda>x y rf. rf\<lparr>rf_tailHole := False, rf_hasher := fh_Write id [x, y] (rf_hasher rf),
      rf_written := rf_written rf + 2, rf_unsynced := rf_unsynced rf + 2\<rparr>"
  have wr: "\<exists>rv'. rf_write ?re [x, y] rf rv = (None, ?done x y rf, rv') \<and> rv_plans rv' = rv_plans rv"
    if "\<not> le_Size (ep_entry (plan_of rv rf)) < rf_written rf + 2" "\<not> periodicSync \<le> rf_unsynced rf + 2"
      "rf_sha rf = None" for x y rf rv
  proof -
    obtain d' where "writeSparse (\<lambda>_. None) (rf_path rf) (unat (rf_written rf)) [x, y] (rv_disk rv) = (Inr False, d')"
      using sp [of "rf_path rf" "unat (rf_written rf)" x y "rv_disk rv"] by auto
    then show ?thesis
      using that by (simp add: rf_write_def Let_def sample_recv_env_def on_disk_def log_note_def)
  qed
  let ?rf = "new_recvFile ?re 0 ''/r/.fsend/x.partial''" and ?rv = "sample_receiver\<lparr>rv_disk := d1\<rparr>"
  have f: "rf_written ?rf = 0" "rf_unsynced ?rf = 0" "rf_sha ?rf = None" "rf_plan ?rf = 0" "rf_hasher ?rf = newFileHasher"
    by (simp_all add: new_recvFile_def sample_recv_env_def)
  have p: "rv_plans ?rv = [new_plan sample_entry ''f'' ''/r/f'' dispNew]" by (simp add: sample_receiver_def)
  obtain rv1 where 1: "rf_write ?re [1, 2] ?rf ?rv = (None, ?done 1 2 ?rf, rv1)" "rv_plans rv1 = rv_plans ?rv"
    using wr [of ?rv ?rf 1 2] by (auto simp: plan_of_def f p new_plan_def periodicSync_def)
  obtain rv2 where 2: "rf_write ?re [0, 3] (?done 1 2 ?rf) rv1 = (None, ?done 0 3 (?done 1 2 ?rf), rv2)"
    using wr [of rv1 "?done 1 2 ?rf" 0 3] by (auto simp: plan_of_def f p 1(2) new_plan_def periodicSync_def)
  have "rf_writes ?re [[1, 2], [0, 3]] ?rf ?rv = (None, ?done 0 3 (?done 1 2 ?rf), rv2)"
    by (simp add: 1 2)
  moreover have "length b < 2 ^ 63" if "b \<in> set [[1, 2], [0, 3 :: byte]]" for b
    using that by auto
  ultimately
  have "pad_to (length [1, 2, 0, 3 :: byte]) (node_bytes (lstat (rv_disk rv2) (rf_path ?rf))) = [1, 2, 0, 3]
    \<and> fh_Sum id id (fh_Write id [0, 3] (fh_Write id [1, 2] (rf_hasher ?rf))) = tree_root id id [1, 2, 0, 3]"
    using received_bytes_kept [OF op, of "[[1, 2], [0, 3]]" "?done 0 3 (?done 1 2 ?rf)" rv2]
    by (simp add: sample_receiver_def new_plan_def)
  then show ?thesis unfolding f by blast
qed

end
