(* ===== verification/Receiver.thy ===== *)
theory Receiver
  imports Receive_File Chunk_Packer
begin

text \<open>
  The receiver of \<open>internal/transfer/recv.go\<close>: committing verified files, placing them, the
  structural entries, the data phase with its consent gate, the checksum rounds, and \<open>run\<close>,
  which composes them. Reading ahead on the data stream is not observable, since nothing else
  reads it, so \<open>readChunks\<close> is a read per turn; the fault schedule makes any order of the
  parallel syncs the same as the one taken here.
\<close>

section \<open>Folders that were read-only\<close>

definition unlock_one :: "recv_env \<Rightarrow> string \<Rightarrow> receiver \<Rightarrow> receiver" where
  "unlock_one re cur rv =
     (if cur \<in> fst ` set (rv_orig rv) then rv
      else case lstat (rv_disk rv) cur of
        Some (NDir m) \<Rightarrow>
          if (m AND 511) AND 192 \<noteq> 192
          then (case on_disk (os_Chmod (ev_flt (re_env re)) cur ((m AND 511) OR 448)) rv of
                  (None, rv1) \<Rightarrow> rv1\<lparr>rv_orig := rv_orig rv1 @ [(cur, m AND 511)]\<rparr>
                | (Some f, rv1) \<Rightarrow> rv1)
          else rv
      | _ \<Rightarrow> rv)"

text \<open>From a folder up to the receive folder; the components come innermost first.\<close>

fun unlock_up :: "recv_env \<Rightarrow> string \<Rightarrow> string list \<Rightarrow> receiver \<Rightarrow> receiver" where
  "unlock_up re root [] rv = unlock_one re (path_of True []) rv"
| "unlock_up re root (c # up) rv =
     (let cur = path_of True (rev (c # up)); rv1 = unlock_one re cur rv
      in if cur = root then rv1 else unlock_up re root up rv1)"

definition unlock :: "recv_env \<Rightarrow> string \<Rightarrow> receiver \<Rightarrow> receiver" where
  "unlock re dir rv =
     (let root = path_clean (ev_dir (re_env re)); abs = path_clean dir in
      if \<not> pathIsUnder abs root then rv else unlock_up re root (rev (path_comps abs)) rv)"

definition dirs_restore :: "recv_env \<Rightarrow> receiver \<Rightarrow> receiver" where
  "dirs_restore re rv =
     rv\<lparr>rv_disk := fold (\<lambda>(dir, m). ignoring (os_Chmod (ev_flt (re_env re)) dir m)) (rv_orig rv) (rv_disk rv),
        rv_orig := []\<rparr>"

section \<open>Committing\<close>

definition parallelSync :: "recv_env \<Rightarrow> pendingFile list \<Rightarrow> disk \<Rightarrow> fault option \<times> disk" where
  "parallelSync re batch d =
     foldl (\<lambda>(first, d) pf. case f_Sync (ev_flt (re_env re)) d of
              (e, d1) \<Rightarrow> (if first = None then e else first, d1)) (None, d) batch"

definition syncBarrier :: "recv_env \<Rightarrow> disk \<Rightarrow> fault option \<times> disk" where
  "syncBarrier re d = (if ev_goos (re_env re) = ''darwin'' then f_Sync (ev_flt (re_env re)) d else (None, d))"

fun sync_each :: "recv_env \<Rightarrow> string list \<Rightarrow> bool \<Rightarrow> disk \<Rightarrow> bool \<times> disk" where
  "sync_each re [] some d = (some, d)"
| "sync_each re (dir # dirs) some d =
     (case next_fault (ev_flt (re_env re)) d of
        Some f \<Rightarrow> sync_each re dirs some (tick d)
      | None \<Rightarrow> if lstat d dir = None then sync_each re dirs some (tick d)
                else sync_each re dirs True (ignoring (f_Sync (ev_flt (re_env re))) (tick d)))"

definition syncDirs :: "recv_env \<Rightarrow> string list \<Rightarrow> disk \<Rightarrow> disk" where
  "syncDirs re dirs d =
     (case sync_each re dirs False d of (some, d1) \<Rightarrow> if some then ignoring (syncBarrier re) d1 else d1)"

text \<open>
  Clearing the slot of a target the user agreed to replace. \<open>False\<close>: a folder with files is in
  the way, and the entry is refused.
\<close>

definition clear_slot :: "recv_env \<Rightarrow> nat \<Rightarrow> receiver \<Rightarrow> bool \<times> receiver" where
  "clear_slot re i rv =
     (let p = rv_plans rv ! i; flt = ev_flt (re_env re); n = lstat (rv_disk rv) (ep_target p) in
      if n = None \<or> \<not> needsConsent p then (True, rv)
      else if is_dir n then
        (case on_disk (os_Remove flt (ep_target p)) rv of
           (None, rv1) \<Rightarrow> (True, rv1)
         | (Some f, rv1) \<Rightarrow>
             (False, log_note (EntrySkipped (ep_rel p) FolderInTheWay)
                (rv1\<lparr>rv_disk := ps_remove (re_env re) (ep_rel p) (rv_disk rv1),
                     rv_plans := (rv_plans rv1)[i := p\<lparr>ep_disp := dispRefused, ep_skipReason := Some FolderInTheWay\<rparr>]\<rparr>)))
      else if is_link n then (True, rv\<lparr>rv_disk := ignoring (os_Remove flt (ep_target p)) (rv_disk rv)\<rparr>)
      else (True, rv))"

definition place :: "recv_env \<Rightarrow> pendingFile \<Rightarrow> receiver \<Rightarrow> (fault + bool) \<times> receiver" where
  "place re pf rv =
     (let ev = re_env re; target = ep_target (rv_plans rv ! pf_plan pf); rel = ep_rel (rv_plans rv ! pf_plan pf) in
      case clear_slot re (pf_plan pf) rv of
        (False, rv1) \<Rightarrow> (Inr False, rv1)
      | (True, rv1) \<Rightarrow>
          (case on_disk (os_MkdirAll (ev_flt ev) (path_dir target) 493) (unlock re (path_dir target) rv1) of
             (Some f, rv2) \<Rightarrow> (Inl f, rv2)
           | (None, rv2) \<Rightarrow>
               (case on_disk (moveFile (ev_flt ev) (ev_tmp ev target) (pf_path pf) target) rv2 of
                  (Some f, rv3) \<Rightarrow> (Inl f, rv3)
                | (None, rv3) \<Rightarrow> (Inr True, rv3\<lparr>rv_disk := ps_dropMeta ev rel (rv_disk rv3)\<rparr>))))"

text \<open>Placing a batch: the first error, and the files that were placed.\<close>

fun place_all ::
  "recv_env \<Rightarrow> pendingFile list \<Rightarrow> receiver \<Rightarrow> fault option \<times> pendingFile list \<times> receiver" where
  "place_all re [] rv = (None, [], rv)"
| "place_all re (pf # pfs) rv =
     (case place re pf rv of
        (r, rv1) \<Rightarrow>
          (case place_all re pfs rv1 of
             (err, ok, rv2) \<Rightarrow>
               (case r of
                  Inl f \<Rightarrow> (Some f, ok, rv2)
                | Inr True \<Rightarrow> (err, pf # ok, rv2)
                | Inr False \<Rightarrow> (err, ok, rv2))))"

definition done_note :: "receiver \<Rightarrow> pendingFile \<Rightarrow> recv_note" where
  "done_note rv pf = FileDone (ep_target (rv_plans rv ! pf_plan pf)) (ep_sha256 (rv_plans rv ! pf_plan pf))"

definition commit_flush :: "recv_env \<Rightarrow> receiver \<Rightarrow> goerr option \<times> receiver" where
  "commit_flush re rv0 =
     (let batch = rv_pending rv0; rv = rv0\<lparr>rv_pending := [], rv_bytes := 0\<rparr> in
      if batch = [] then (None, rv)
      else
        case on_disk (parallelSync re batch) rv of
          (Some f, rv1) \<Rightarrow> apfst Some (writeFail re ''sync'' [] f rv1)
        | (None, rv1) \<Rightarrow>
            (case on_disk (syncBarrier re) rv1 of
               (Some f, rv2) \<Rightarrow> apfst Some (writeFail re ''sync'' [] f rv2)
             | (None, rv2) \<Rightarrow>
                 (case place_all re batch rv2 of
                    (err, ok, rv3) \<Rightarrow>
                      let rv4 = rv3\<lparr>rv_disk := syncDirs re
                            (remdups (map (\<lambda>pf. path_dir (ep_target (rv_plans rv3 ! pf_plan pf))) ok)) (rv_disk rv3)\<rparr>;
                          rv5 = rv4\<lparr>rv_log := rv_log rv4 @ map (done_note rv4) ok\<rparr>
                      in (case err of
                            Some f \<Rightarrow> apfst Some (writeFail re ''finalize'' [] f rv5)
                          | None \<Rightarrow> (None, rv5)))))"

definition commitMaxFiles :: nat where "commitMaxFiles = 256"
definition commitMaxBytes :: u64 where "commitMaxBytes = 64 * 1024 * 1024"

definition commit_add :: "recv_env \<Rightarrow> pendingFile \<Rightarrow> receiver \<Rightarrow> goerr option \<times> receiver" where
  "commit_add re pf rv0 =
     (let rv = rv0\<lparr>rv_pending := rv_pending rv0 @ [pf], rv_bytes := rv_bytes rv0 + pf_size pf\<rparr> in
      if commitMaxFiles \<le> length (rv_pending rv) \<or> commitMaxBytes \<le> rv_bytes rv then commit_flush re rv
      else (None, rv))"

section \<open>The end of a file\<close>

definition set_meta :: "recv_env \<Rightarrow> string \<Rightarrow> ListingEntry \<Rightarrow> disk \<Rightarrow> disk" where
  "set_meta re path e d =
     ignoring (os_Chtimes (ev_flt (re_env re)) path (le_ModTimeSec e))
       (ignoring (os_Chmod (ev_flt (re_env re)) path (fileMode (ev_umask (re_env re)) (le_Mode e))) d)"

definition finalize :: "recv_env \<Rightarrow> bytes \<Rightarrow> recvFile \<Rightarrow> receiver \<Rightarrow> goerr option \<times> receiver" where
  "finalize re root rf rv =
     (let p = plan_of rv rf; ev = re_env re; e = ep_entry p in
      if rf_written rf \<noteq> le_Size e
      then (Some [ErrProtocolError],
            decline re ErrCodeProtocolError ''EOF before declared size reached'' (snd (abandon re False rf rv)))
      else if fh_Sum (ev_bh ev) (ev_fk ev) (rf_hasher rf) \<noteq> root
      then (Some [ErrHashMismatch],
            decline re ErrCodeFileHashMismatch ''root hash mismatch'' (snd (abandon re False rf rv)))
      else
        case (if rf_tailHole rf then on_disk (f_Truncate (ev_flt ev) (rf_path rf) (unat (le_Size e))) rv
              else (None, rv)) of
          (Some f, rv1) \<Rightarrow> apfst Some (writeFail re ''extend'' (ep_rel p) f (snd (abandon re True rf rv1)))
        | (None, rv1) \<Rightarrow>
            let rv2 = (case rf_sha rf of None \<Rightarrow> rv1
                       | Some s \<Rightarrow> rv1\<lparr>rv_plans := (rv_plans rv1)[rf_plan rf := p\<lparr>ep_sha256 := ev_sha ev s\<rparr>]\<rparr>);
                rv3 = rv2\<lparr>rv_disk := set_meta re (rf_path rf) e (rv_disk rv2)\<rparr>
            in commit_add re \<lparr>pf_path = rf_path rf, pf_plan = rf_plan rf, pf_size = le_Size e\<rparr> rv3)"

section \<open>Structural entries\<close>

definition materialize :: "recv_env \<Rightarrow> nat \<Rightarrow> receiver \<Rightarrow> goerr option \<times> receiver" where
  "materialize re i rv =
     (let p = rv_plans rv ! i; ev = re_env re; flt = ev_flt ev; target = ep_target p; e = ep_entry p in
      case le_Type e of
        EntryDir \<Rightarrow>
          let rv1 = (if needsConsent p \<and> lstat (rv_disk rv) target \<noteq> None \<and> \<not> is_dir (lstat (rv_disk rv) target)
                     then rv\<lparr>rv_disk := ignoring (os_Remove flt target) (rv_disk rv)\<rparr> else rv);
              rv2 = unlock re (path_dir target) rv1
          in (case on_disk (os_MkdirAll flt target (dirMode (ev_umask ev) (le_Mode e))) rv2 of
                (Some f, rv3) \<Rightarrow> apfst Some (writeFail re ''mkdir'' (ep_rel p) f rv3)
              | (None, rv3) \<Rightarrow> (None, rv3))
      | EntrySymlink \<Rightarrow>
          (Some [ErrPathTraversal], decline re ErrCodeProtocolError ''symlink entries are not accepted'' rv)
      | _ \<Rightarrow>
          (case on_disk (ps_create ev (ep_rel p) e) rv of
             (Inl f, rv1) \<Rightarrow> apfst Some (writeFail re ''create'' (ep_rel p) f rv1)
           | (Inr path, rv1) \<Rightarrow>
               let rv2 = rv1\<lparr>rv_plans := (rv_plans rv1)[i := p\<lparr>ep_sha256 := ev_sha ev []\<rparr>],
                             rv_disk := set_meta re path e (rv_disk rv1)\<rparr>
               in commit_add re \<lparr>pf_path = path, pf_plan = i, pf_size = 0\<rparr> rv2))"

definition restore_mode :: "recv_env \<Rightarrow> entryPlan \<Rightarrow> disk \<Rightarrow> disk" where
  "restore_mode re p d =
     (if le_Type (ep_entry p) \<noteq> EntryDir \<or> ep_blockedAncestor p \<or> ep_disp p = dispRefused then d
      else let want = dirMode (ev_umask (re_env re)) (le_Mode (ep_entry p)) in
        case lstat d (ep_target p) of
          Some (NDir m) \<Rightarrow>
            if m AND 511 \<noteq> want then ignoring (os_Chmod (ev_flt (re_env re)) (ep_target p) want) d else d
        | _ \<Rightarrow> d)"

definition restoreDirModes :: "recv_env \<Rightarrow> entryPlan list \<Rightarrow> disk \<Rightarrow> disk" where
  "restoreDirModes re ps d = fold (restore_mode re) (rev ps) d"

definition repairIdenticalMode :: "recv_env \<Rightarrow> entryPlan \<Rightarrow> disk \<Rightarrow> disk" where
  "repairIdenticalMode re p d =
     (if le_Type (ep_entry p) \<noteq> EntryFile \<or> ep_blockedAncestor p then d
      else let want = fileMode (ev_umask (re_env re)) (le_Mode (ep_entry p)) in
        case lstat d (ep_target p) of
          Some (NFile c m t) \<Rightarrow>
            if m AND 511 \<noteq> want then ignoring (os_Chmod (ev_flt (re_env re)) (ep_target p) want) d else d
        | _ \<Rightarrow> d)"

section \<open>The data phase\<close>

record data_state =
  ds_rv :: receiver
  ds_cur :: "recvFile option"
  ds_done :: "u32 set"
  ds_expected :: int

text \<open>\<open>byIndex\<close> maps an index to the position of the last plan that carries it.\<close>

definition byIndex :: "entryPlan list \<Rightarrow> u32 \<Rightarrow> nat option" where
  "byIndex ps = map_of (rev (zip (map (\<lambda>p. le_Index (ep_entry p)) ps) [0..<length ps]))"

definition awaits_data :: "entryPlan \<Rightarrow> bool" where
  "awaits_data p \<longleftrightarrow> le_Type (ep_entry p) = EntryFile \<and> 0 < le_Size (ep_entry p)"

definition allowed :: "entryPlan list \<Rightarrow> Decision list \<Rightarrow> u32 set" where
  "allowed ps ds = {d_Index d | d. d \<in> set ds \<and> (d_Action d = DecisionSend \<or> d_Action d = DecisionResume)
     \<and> (\<exists>i. byIndex ps (d_Index d) = Some i \<and> awaits_data (ps ! i))}"

lemma allowed_code [code]:
  "allowed ps ds = set (map d_Index (filter (\<lambda>d. (d_Action d = DecisionSend \<or> d_Action d = DecisionResume)
     \<and> (case byIndex ps (d_Index d) of None \<Rightarrow> False | Some i \<Rightarrow> awaits_data (ps ! i))) ds))"
  by (auto simp: allowed_def split: option.splits)

text \<open>One segment of a chunk, with its slice of the payload.\<close>

definition recv_segment ::
  "recv_env \<Rightarrow> (u32 \<Rightarrow> nat option) \<Rightarrow> u32 set \<Rightarrow> Segment \<Rightarrow> bytes \<Rightarrow> data_state \<Rightarrow> goerr option \<times> data_state" where
  "recv_segment re byI ok seg data s =
     (let idx = sg_FileIndex seg; rv = ds_rv s; i = the (byI idx) in
      if idx \<notin> ok \<or> idx \<in> ds_done s \<or>
         (case ds_cur s of None \<Rightarrow> False | Some rf \<Rightarrow> le_Index (ep_entry (plan_of rv rf)) \<noteq> idx)
      then (Some [ErrProtocolError],
            s\<lparr>ds_rv := decline re ErrCodeListingInvalid ''chunk for a file not awaiting data'' rv\<rparr>)
      else if sg_Skip seg then
        let rv1 = (case ds_cur s of None \<Rightarrow> rv | Some rf \<Rightarrow> snd (abandon re False rf rv));
            p = (rv_plans rv1 ! i)\<lparr>ep_skipReason := Some SourceUnreadable\<rparr>
        in (None, s\<lparr>ds_rv := log_note (EntrySkipped (ep_rel p) SourceUnreadable)
                       (rv1\<lparr>rv_plans := (rv_plans rv1)[i := p]\<rparr>),
                   ds_cur := None, ds_done := insert idx (ds_done s), ds_expected := ds_expected s - 1\<rparr>)
      else
        case (case ds_cur s of
                None \<Rightarrow> openFile re i (sg_Restart seg) rv
              | Some rf \<Rightarrow>
                  if sg_Restart seg then (Inl [ErrProtocolError], decline re ErrCodeProtocolError ''restart mid-file'' rv)
                  else (Inr rf, rv)) of
          (Inl e, rv1) \<Rightarrow> (Some e, s\<lparr>ds_rv := rv1\<rparr>)
        | (Inr rf, rv1) \<Rightarrow>
            (case rf_write re data rf rv1 of
               (Some e, rf1, rv2) \<Rightarrow> (Some e, s\<lparr>ds_rv := rv2, ds_cur := Some rf1\<rparr>)
             | (None, rf1, rv2) \<Rightarrow>
                 if sg_EOF seg then
                   (case finalize re (sg_RootHash seg) rf1 rv2 of
                      (Some e, rv3) \<Rightarrow> (Some e, s\<lparr>ds_rv := rv3, ds_cur := None\<rparr>)
                    | (None, rv3) \<Rightarrow>
                        (None, s\<lparr>ds_rv := (if sg_Changed seg
                                          then log_note (SourceChanged (ep_rel (rv_plans rv3 ! i))) rv3 else rv3),
                                 ds_cur := None, ds_done := insert idx (ds_done s),
                                 ds_expected := ds_expected s - 1\<rparr>))
                 else (None, s\<lparr>ds_rv := rv2, ds_cur := Some rf1\<rparr>)))"

fun recv_segments ::
  "recv_env \<Rightarrow> (u32 \<Rightarrow> nat option) \<Rightarrow> u32 set \<Rightarrow> Segment list \<Rightarrow> bytes \<Rightarrow> data_state \<Rightarrow> goerr option \<times> data_state" where
  "recv_segments re byI ok [] plain s = (None, s)"
| "recv_segments re byI ok (seg # segs) plain s =
     (let n = unat (sg_Length seg) in
      case recv_segment re byI ok seg (take n plain) s of
        (Some e, s1) \<Rightarrow> (Some e, s1)
      | (None, s1) \<Rightarrow> recv_segments re byI ok segs (drop n plain) s1)"

text \<open>One turn of \<open>readChunks\<close>.\<close>

definition next_chunk :: "recv_env \<Rightarrow> data_state \<Rightarrow> (goerr + Segment list \<times> bytes) \<times> data_state" where
  "next_chunk re s =
     (case ReadChunk (sm_data_in (rv_streams (ds_rv s))) of
        (r, rd) \<Rightarrow>
          let s1 = s\<lparr>ds_rv := (ds_rv s)\<lparr>rv_streams := (rv_streams (ds_rv s))\<lparr>sm_data_in := rd\<rparr>\<rparr>\<rparr>
          in (case r of
                Inl e \<Rightarrow> (Inl e, s1)
              | Inr c \<Rightarrow>
                  (case decodeChunkPayload (ev_zdec (re_env re)) c of
                     Inl e \<Rightarrow> (Inl e, s1)
                   | Inr plain \<Rightarrow> (Inr (ck_Segments c, plain), s1))))"

definition chunk_failed :: "recv_env \<Rightarrow> goerr \<Rightarrow> data_state \<Rightarrow> goerr \<times> data_state" where
  "chunk_failed re err s =
     (let rv = ds_rv s in
      if err_is err GoEOF then
        (case tryReadPeerError (re_cd re) (rv_streams rv) of
           (Some reason, st) \<Rightarrow>
             let rv1 = rv\<lparr>rv_streams := st\<rparr> in
             (case ds_cur s of
                None \<Rightarrow> (reason, s\<lparr>ds_rv := rv1\<rparr>)
              | Some rf \<Rightarrow>
                  if err_is reason ErrHashMismatch
                  then (reason, s\<lparr>ds_rv := snd (abandon re False rf rv1), ds_cur := None\<rparr>)
                  else (reason, s\<lparr>ds_rv := rv1\<rparr>))
         | (None, st) \<Rightarrow> ([ErrConnectFailed], s\<lparr>ds_rv := rv\<lparr>rv_streams := st\<rparr>\<rparr>))
      else if err_is err ErrProtocolError \<or> err_is err WireMalformedChunk \<or> err_is err WireChunkTooLarge
      then (err, s\<lparr>ds_rv := decline re ErrCodeProtocolError ''malformed chunk'' rv\<rparr>)
      else (err, s))"

lemma read_segment_shrinks: "read_segment r = (Inr g, r') \<Longrightarrow> length (r_data r') \<le> length (r_data r)"
  by (auto simp: read_segment_def Let_def split: prod.splits sum.splits option.splits if_splits
      dest!: read_full_InrD(1))

lemma dec_segments_shrinks:
  "dec_many read_segment n r = (Inr gs, r') \<Longrightarrow> length (r_data r') \<le> length (r_data r)"
proof (induction n arbitrary: r gs r')
  case (Suc n)
  from Suc.prems obtain g r1 gs1 where a: "read_segment r = (Inr g, r1)" "dec_many read_segment n r1 = (Inr gs1, r')"
    by (auto split: prod.splits sum.splits)
  from Suc.IH [OF a(2)] read_segment_shrinks [OF a(1)] show ?case by simp
qed simp

lemma ReadChunk_shorter:
  assumes "ReadChunk r = (Inr c, r')"
  shows "length (r_data r') < length (r_data r)"
proof -
  obtain fixed r1 where f: "read_full chunkFixedHeader r = (Inr fixed, r1)"
    using assms by (auto simp: ReadChunk_def split: prod.splits sum.splits)
  have "length (r_data r1) < length (r_data r)"
    using read_full_InrD(1,2) [OF f] by (simp add: chunkFixedHeader_def)
  moreover have "length (r_data r') \<le> length (r_data r1)"
  proof -
    obtain segs r2 where s: "dec_many read_segment (unat (be_word (drop 6 fixed) :: u16)) r1 = (Inr segs, r2)"
      and r: "r' = r2 \<or> (\<exists>n p. read_full n r2 = (Inr p, r'))"
      using assms f by (auto simp: ReadChunk_def Let_def split: prod.splits sum.splits if_splits)
    from r have "length (r_data r') \<le> length (r_data r2)" by (auto dest!: read_full_InrD(1))
    with dec_segments_shrinks [OF s] show ?thesis by simp
  qed
  ultimately show ?thesis by simp
qed

text \<open>Nothing but \<open>readChunks\<close> reads the data stream, which is why the data phase ends.\<close>

definition data_in :: "receiver \<Rightarrow> reader" where
  "data_in rv = sm_data_in (rv_streams rv)"

named_theorems data_kept \<open>the data stream is as it was\<close>

lemma data_update [data_kept]:
  "data_in (rv\<lparr>rv_disk := d\<rparr>) = data_in rv" "data_in (rv\<lparr>rv_plans := ps\<rparr>) = data_in rv"
  "data_in (rv\<lparr>rv_pending := pf\<rparr>) = data_in rv" "data_in (rv\<lparr>rv_bytes := b\<rparr>) = data_in rv"
  "data_in (rv\<lparr>rv_orig := m\<rparr>) = data_in rv" "data_in (rv\<lparr>rv_log := l\<rparr>) = data_in rv"
  "data_in (log_note n rv) = data_in rv" "data_in (close_data rv) = data_in rv"
  by (simp_all add: data_in_def log_note_def close_data_def)

lemma data_disk [data_kept]: "data_in (snd (on_disk op rv)) = data_in rv"
  by (simp add: on_disk_def data_kept split: prod.splits)

lemma data_decline [data_kept]: "data_in (decline re code msg rv) = data_in rv"
  by (simp add: data_in_def decline_def declineTransfer_def drainControl_def send_frame_def split: prod.splits)

lemma data_writeFail [data_kept]: "data_in (snd (writeFail re op rel f rv)) = data_in rv"
  by (simp add: writeFail_def data_kept)

lemma data_abandon [data_kept]: "data_in (snd (abandon re keep rf rv)) = data_in rv"
  by (simp add: abandon_def data_kept)

lemma data_guard [data_kept]: "data_in (snd (guardRegular re path what rv)) = data_in rv"
  by (simp add: guardRegular_def data_kept split: option.splits)

lemma snd_apfst [simp]: "snd (apfst f x) = snd x"
  by (cases x) simp

lemma data_diskD: "on_disk op rv = (x, rv') \<Longrightarrow> data_in rv' = data_in rv"
  by (metis data_disk snd_conv)

lemma data_open_resume [data_kept]: "data_in (snd (open_resume re i rv)) = data_in rv"
proof -
  obtain e1 rv1 where 1: "guardRegular re (ep_partial (rv_plans rv ! i)) ''partial'' rv = (e1, rv1)" by (metis surj_pair)
  obtain e2 rv2 where 2: "on_disk (os_Open (ev_flt (re_env re)) (ep_partial (rv_plans rv ! i))) rv1 = (e2, rv2)"
    by (metis surj_pair)
  obtain e3 rv3 where 3: "on_disk (f_Truncate (ev_flt (re_env re)) (ep_partial (rv_plans rv ! i))
      (unat (ep_resumeOffset (rv_plans rv ! i)))) rv2 = (e3, rv3)" by (metis surj_pair)
  obtain e4 rv4 where 4: "(if rf_sha (new_recvFile re i (ep_partial (rv_plans rv ! i))) = None then (None, rv3)
      else on_disk (os_Open (ev_flt (re_env re)) (ep_partial (rv_plans rv ! i))) rv3) = (e4, rv4)" by (metis surj_pair)
  have k: "data_in rv1 = data_in rv" "data_in rv2 = data_in rv1" "data_in rv3 = data_in rv2" "data_in rv4 = data_in rv3"
    using data_guard [of re "ep_partial (rv_plans rv ! i)" "''partial''" rv] data_diskD [OF 2] data_diskD [OF 3]
      data_diskD [of _ rv3 e4 rv4] 4
    by (auto simp: 1 split: if_splits)
  show ?thesis
    unfolding open_resume_def Let_def 1 2 3 4 prod.case
    by (cases e1; cases e2; cases e3; cases e4) (simp_all add: data_kept k)
qed

lemma data_openFile [data_kept]: "data_in (snd (openFile re i restart rv)) = data_in rv"
proof -
  obtain r rv2 where "on_disk (ps_create (re_env re) (ep_rel (rv_plans rv ! i)) (ep_entry (rv_plans rv ! i)))
     (if restart then rv\<lparr>rv_plans := (rv_plans rv)[i := (rv_plans rv ! i)\<lparr>ep_disp := dispNew, ep_prefixBlocks := []\<rparr>]\<rparr>
      else rv) = (r, rv2)" by (metis surj_pair)
  note c = this
  have "data_in rv2 = data_in rv" using data_diskD [OF c] by (simp add: data_kept split: if_splits)
  then show ?thesis
    unfolding openFile_def Let_def c prod.case by (cases r) (simp_all add: data_kept)
qed

lemma data_openFileD: "openFile re i restart rv = (r, rv') \<Longrightarrow> data_in rv' = data_in rv"
  by (metis data_openFile snd_conv)

lemma data_rf_write [data_kept]: "data_in (snd (snd (rf_write re data rf rv))) = data_in rv"
proof -
  obtain r rv1 where w: "on_disk (writeSparse (ev_flt (re_env re)) (rf_path rf) (unat (rf_written rf)) data) rv = (r, rv1)"
    by (metis surj_pair)
  have k: "data_in rv1 = data_in rv" by (rule data_diskD [OF w])
  show ?thesis
    unfolding rf_write_def Let_def w prod.case
    by (cases r) (simp_all add: data_kept k split: prod.split if_split, metis data_abandon k snd_conv)
qed

lemma data_unlock_one [data_kept]: "data_in (unlock_one re cur rv) = data_in rv"
  by (auto simp: unlock_one_def data_kept Let_def split: option.splits node.splits prod.splits dest: data_diskD)

lemma data_unlock_up: "data_in (unlock_up re root up rv) = data_in rv"
  by (induction re root up rv rule: unlock_up.induct) (simp_all add: data_kept Let_def)

lemma data_unlock [data_kept]: "data_in (unlock re dir rv) = data_in rv"
  by (simp add: unlock_def Let_def data_unlock_up)

lemma data_clear_slot [data_kept]: "data_in (snd (clear_slot re i rv)) = data_in rv"
  by (auto simp: clear_slot_def data_kept Let_def split: option.splits prod.splits dest: data_diskD)

lemma data_place [data_kept]: "data_in (snd (place re pf rv)) = data_in rv"
proof -
  let ?p = "rv_plans rv ! pf_plan pf"
  obtain b rv1 where 1: "clear_slot re (pf_plan pf) rv = (b, rv1)" by (metis surj_pair)
  obtain e2 rv2 where 2: "on_disk (os_MkdirAll (ev_flt (re_env re)) (path_dir (ep_target ?p)) 493)
      (unlock re (path_dir (ep_target ?p)) rv1) = (e2, rv2)" by (metis surj_pair)
  obtain e3 rv3 where 3: "on_disk (moveFile (ev_flt (re_env re)) (ev_tmp (re_env re) (ep_target ?p)) (pf_path pf)
      (ep_target ?p)) rv2 = (e3, rv3)" by (metis surj_pair)
  have k: "data_in rv1 = data_in rv" "data_in rv2 = data_in rv1" "data_in rv3 = data_in rv2"
    using data_clear_slot [of re "pf_plan pf" rv] data_diskD [OF 2] data_diskD [OF 3] by (simp_all add: 1 data_kept)
  show ?thesis
    unfolding place_def Let_def 1 2 3 prod.case
    by (cases b; cases e2; cases e3) (simp_all add: data_kept k)
qed

lemma data_place_all: "data_in (snd (snd (place_all re pfs rv))) = data_in rv"
proof (induction pfs arbitrary: rv)
  case (Cons pf pfs)
  obtain r rv1 where 1: "place re pf rv = (r, rv1)" by (metis surj_pair)
  obtain e ok rv2 where 2: "place_all re pfs rv1 = (e, ok, rv2)" by (metis surj_pair)
  have "data_in rv2 = data_in rv" using Cons.IH [of rv1] data_place [of re pf rv] by (simp add: 1 2)
  then show ?case by (simp add: 1 2 split: sum.split bool.split)
qed simp

lemma data_commit_flush [data_kept]: "data_in (snd (commit_flush re rv)) = data_in rv"
proof -
  let ?rv = "rv\<lparr>rv_pending := [], rv_bytes := 0\<rparr>"
  obtain e1 rv1 where 1: "on_disk (parallelSync re (rv_pending rv)) ?rv = (e1, rv1)" by (metis surj_pair)
  obtain e2 rv2 where 2: "on_disk (syncBarrier re) rv1 = (e2, rv2)" by (metis surj_pair)
  obtain e3 ok rv3 where 3: "place_all re (rv_pending rv) rv2 = (e3, ok, rv3)" by (metis surj_pair)
  have k: "data_in rv1 = data_in rv" "data_in rv2 = data_in rv1" "data_in rv3 = data_in rv2"
    using data_diskD [OF 1] data_diskD [OF 2] data_place_all [of re "rv_pending rv" rv2] by (simp_all add: data_kept 3)
  show ?thesis
    unfolding commit_flush_def Let_def 1 2 3 prod.case
    by (cases e1; cases e2; cases e3) (simp_all add: data_kept k)
qed

lemma data_commit_add [data_kept]: "data_in (snd (commit_add re pf rv)) = data_in rv"
  by (simp add: commit_add_def Let_def data_kept)

lemma data_finalize [data_kept]: "data_in (snd (finalize re root rf rv)) = data_in rv"
proof -
  let ?e = "ep_entry (plan_of rv rf)"
  obtain e1 rv1 where 1: "(if rf_tailHole rf then on_disk (f_Truncate (ev_flt (re_env re)) (rf_path rf) (unat (le_Size ?e))) rv
      else (None, rv)) = (e1, rv1)" by (metis surj_pair)
  have k: "data_in rv1 = data_in rv" using 1 by (auto split: if_splits dest: data_diskD)
  show ?thesis
    unfolding finalize_def Let_def 1 prod.case
    by (cases e1) (simp_all add: data_kept k split: option.split)
qed

lemma data_materialize [data_kept]: "data_in (snd (materialize re i rv)) = data_in rv"
proof -
  let ?p = "rv_plans rv ! i" and ?ev = "re_env re"
  define rv1 where "rv1 = unlock re (path_dir (ep_target ?p))
      (if needsConsent ?p \<and> lstat (rv_disk rv) (ep_target ?p) \<noteq> None \<and> \<not> is_dir (lstat (rv_disk rv) (ep_target ?p))
       then rv\<lparr>rv_disk := ignoring (os_Remove (ev_flt ?ev) (ep_target ?p)) (rv_disk rv)\<rparr> else rv)"
  obtain e2 rv2 where 2: "on_disk (os_MkdirAll (ev_flt ?ev) (ep_target ?p)
      (dirMode (ev_umask ?ev) (le_Mode (ep_entry ?p)))) rv1 = (e2, rv2)" by (metis surj_pair)
  obtain r rv3 where 3: "on_disk (ps_create ?ev (ep_rel ?p) (ep_entry ?p)) rv = (r, rv3)" by (metis surj_pair)
  have k: "data_in rv2 = data_in rv" "data_in rv3 = data_in rv"
    using data_diskD [OF 2] data_diskD [OF 3] by (simp_all add: rv1_def data_kept)
  show ?thesis
    unfolding materialize_def Let_def rv1_def [symmetric] 2 3 prod.case
    by (cases e2; cases r) (simp_all add: data_kept k split: EntryType.split)
qed

lemma data_recv_segment: "data_in (ds_rv (snd (recv_segment re byI ok seg data s))) = data_in (ds_rv s)"
proof -
  let ?rv = "ds_rv s"
  define opn where "opn = (case ds_cur s of
                None \<Rightarrow> openFile re (the (byI (sg_FileIndex seg))) (sg_Restart seg) ?rv
              | Some rf \<Rightarrow>
                  if sg_Restart seg then (Inl [ErrProtocolError], decline re ErrCodeProtocolError ''restart mid-file'' ?rv)
                  else (Inr rf, ?rv))"
  obtain r rv1 where 1: "opn = (r, rv1)" by (metis surj_pair)
  have k1: "data_in rv1 = data_in ?rv"
    using 1 by (auto simp: opn_def data_kept split: option.splits if_splits dest: data_openFileD)
  show ?thesis
  proof (cases r)
    case (Inl e)
    then show ?thesis
      unfolding recv_segment_def Let_def opn_def [symmetric] 1 prod.case
      by (simp add: data_kept k1 split: option.split)
  next
    case (Inr rf)
    obtain e2 rf1 rv2 where 2: "rf_write re data rf rv1 = (e2, rf1, rv2)" by (metis surj_pair)
    obtain e3 rv3 where 3: "finalize re (sg_RootHash seg) rf1 rv2 = (e3, rv3)" by (metis surj_pair)
    have k: "data_in rv2 = data_in ?rv" "data_in rv3 = data_in ?rv"
      using data_rf_write [of re data rf rv1] data_finalize [of re "sg_RootHash seg" rf1 rv2] k1 by (simp_all add: 2 3)
    show ?thesis
      unfolding recv_segment_def Let_def opn_def [symmetric] 1 Inr prod.case sum.case 2 3
      by (cases e2; cases e3) (simp_all add: data_kept k split: option.split)
  qed
qed

lemma data_recv_segments: "data_in (ds_rv (snd (recv_segments re byI ok segs plain s))) = data_in (ds_rv s)"
proof (induction segs arbitrary: plain s)
  case (Cons seg segs)
  obtain e s1 where 1: "recv_segment re byI ok seg (take (unat (sg_Length seg)) plain) s = (e, s1)" by (metis surj_pair)
  have "data_in (ds_rv s1) = data_in (ds_rv s)" using data_recv_segment [of re byI ok seg _ s] 1 by (metis snd_conv)
  with Cons.IH [of "drop (unat (sg_Length seg)) plain" s1] 1 show ?case by (cases e) (simp_all add: Let_def)
qed simp

text \<open>
  The loop of \<open>receiveData\<close>, one chunk per turn. \<open>re_ctx n\<close> says whether turn \<open>n\<close> finds the
  context done; it ends because every chunk takes bytes off the stream.
\<close>

definition data_left :: "data_state \<Rightarrow> nat" where
  "data_left s = length (r_data (data_in (ds_rv s)))"

lemma next_chunk_shorter: "next_chunk re s = (Inr x, s1) \<Longrightarrow> data_left s1 < data_left s"
  by (auto simp: next_chunk_def data_left_def data_in_def Let_def split: prod.splits sum.splits
      dest: ReadChunk_shorter)

lemma chunk_turn_shorter:
  assumes "next_chunk re s = (Inr x, s1)" "recv_segments re byI ok segs plain s1 = (e, s2)"
  shows "data_left s2 < data_left s"
  using next_chunk_shorter [OF assms(1)] data_recv_segments [of re byI ok segs plain s1] assms(2)
  by (simp add: data_left_def)

function receive_loop ::
  "recv_env \<Rightarrow> (u32 \<Rightarrow> nat option) \<Rightarrow> u32 set \<Rightarrow> nat \<Rightarrow> data_state \<Rightarrow> goerr option \<times> data_state" where
  "receive_loop re byI ok t s =
     (if ds_expected s \<le> 0 then (None, s)
      else case re_ctx re t of
        Some e \<Rightarrow> (Some e, s)
      | None \<Rightarrow>
          (case next_chunk re s of
             (Inl e, s1) \<Rightarrow> apfst Some (chunk_failed re e s1)
           | (Inr (segs, plain), s1) \<Rightarrow>
               (case recv_segments re byI ok segs plain s1 of
                  (Some e, s2) \<Rightarrow> (Some e, s2)
                | (None, s2) \<Rightarrow> receive_loop re byI ok (Suc t) s2)))"
  by pat_completeness auto
termination
  by (relation "measure (\<lambda>(re, byI, ok, t, s). data_left s)") (auto dest: chunk_turn_shorter [OF sym sym])

declare receive_loop.simps [simp del]

text \<open>The deferred function keeps the partial of a file still open.\<close>

definition receiveData ::
  "recv_env \<Rightarrow> (u32 \<Rightarrow> nat option) \<Rightarrow> Decision list \<Rightarrow> int \<Rightarrow> receiver \<Rightarrow> goerr option \<times> receiver" where
  "receiveData re byI ds expected rv =
     (if expected = 0 then (None, rv)
      else
        let s0 = \<lparr>ds_rv = rv, ds_cur = None, ds_done = {}, ds_expected = expected\<rparr>
        in case receive_loop re byI (allowed (rv_plans rv) ds) 0 s0 of
             (e, s) \<Rightarrow>
               (e, case ds_cur s of None \<Rightarrow> ds_rv s | Some rf \<Rightarrow> snd (abandon re True rf (ds_rv s))))"


section \<open>Checksum rounds\<close>

definition on_streams :: "(streams \<Rightarrow> 'a \<times> streams) \<Rightarrow> receiver \<Rightarrow> 'a \<times> receiver" where
  "on_streams op rv = (case op (rv_streams rv) of (x, st) \<Rightarrow> (x, rv\<lparr>rv_streams := st\<rparr>))"

definition verifyRound ::
  "codecs \<Rightarrow> u32 list \<Rightarrow> (u32 \<rightharpoonup> bytes) \<Rightarrow> streams \<Rightarrow> (goerr + (u32 \<rightharpoonup> bytes)) \<times> streams" where
  "verifyRound cd batch into s =
     (case send_frame (gob_indices_enc cd) TypeVerifyRequest (Some batch) s of
        (Some e, s1) \<Rightarrow> (Inl e, s1)
      | (None, s1) \<Rightarrow>
          (case recv_frame s1 of
             (Inl e, s2) \<Rightarrow> (Inl e, s2)
           | (Inr (ft, body), s2) \<Rightarrow>
               if ft = TypeError then (Inl (peerError cd body), s2)
               else if ft \<noteq> TypeVerifyResponse then (Inl [ErrProtocolError], s2)
               else (case Decode (gob_hashes_dec cd) body True of
                       Inl e \<Rightarrow> (Inl e, s2)
                     | Inr resp \<Rightarrow>
                         (Inr (fold (\<lambda>fh m. m(fh_Index fh \<mapsto> fh_Hash fh))
                            (case resp of None \<Rightarrow> [] | Some l \<Rightarrow> l) into), s2))))"

function verify_rounds ::
  "codecs \<Rightarrow> u32 list \<Rightarrow> (u32 \<rightharpoonup> bytes) \<Rightarrow> streams \<Rightarrow> (goerr + (u32 \<rightharpoonup> bytes)) \<times> streams" where
  "verify_rounds cd idx remote s =
     (if idx = [] then (Inr remote, s)
      else case verifyRound cd (take maxVerifyIDsPerFrame idx) remote s of
        (Inl e, s1) \<Rightarrow> (Inl e, s1)
      | (Inr remote1, s1) \<Rightarrow> verify_rounds cd (drop maxVerifyIDsPerFrame idx) remote1 s1)"
  by pat_completeness auto
termination
  by (relation "measure (\<lambda>(cd, idx, remote, s). length idx)") auto

declare verify_rounds.simps [simp del]

text \<open>The workers' hashes of the local copies; a file that cannot be opened has none.\<close>

definition local_root :: "env \<Rightarrow> entryPlan \<Rightarrow> (u32 \<rightharpoonup> bytes) \<times> disk \<Rightarrow> (u32 \<rightharpoonup> bytes) \<times> disk" where
  "local_root ev p md =
     (case os_Open (ev_flt ev) (ep_target p) (snd md) of
        (Some f, d1) \<Rightarrow> (fst md, d1)
      | (None, d1) \<Rightarrow>
          (case hashFileRoot (ev_bh ev) (ev_fk ev) (Some (node_bytes (lstat d1 (ep_target p)))) of
             None \<Rightarrow> (fst md, d1)
           | Some root \<Rightarrow> ((fst md)(le_Index (ep_entry p) \<mapsto> root), d1)))"

definition verified_plan ::
  "env \<Rightarrow> fsSemantics \<Rightarrow> (u32 \<rightharpoonup> bytes) \<Rightarrow> (u32 \<rightharpoonup> bytes) \<Rightarrow> entryPlan \<Rightarrow> disk \<Rightarrow> entryPlan \<times> disk" where
  "verified_plan ev sem lcl remote p d =
     (let i = le_Index (ep_entry p) in
      if ep_disp p \<noteq> dispVerify then (p, d)
      else if lcl i = None \<or> remote i = None \<or> lcl i \<noteq> remote i then (p\<lparr>ep_disp := dispDiffers\<rparr>, d)
      else (p\<lparr>ep_disp := dispIdentical\<rparr>,
            case lstat d (ep_target p) of
              None \<Rightarrow> d
            | Some n \<Rightarrow>
                if sameMtime sem (node_mtime (Some n)) (le_ModTimeSec (ep_entry p)) then d
                else ignoring (os_Chtimes (ev_flt ev) (ep_target p) (le_ModTimeSec (ep_entry p))) d))"

fun verified_plans ::
  "env \<Rightarrow> fsSemantics \<Rightarrow> (u32 \<rightharpoonup> bytes) \<Rightarrow> (u32 \<rightharpoonup> bytes) \<Rightarrow> entryPlan list \<Rightarrow> disk \<Rightarrow> entryPlan list \<times> disk" where
  "verified_plans ev sem lcl remote [] d = ([], d)"
| "verified_plans ev sem lcl remote (p # ps) d =
     (case verified_plan ev sem lcl remote p d of
        (p1, d1) \<Rightarrow> (case verified_plans ev sem lcl remote ps d1 of (ps1, d2) \<Rightarrow> (p1 # ps1, d2)))"

definition resolveVerify :: "recv_env \<Rightarrow> fsSemantics \<Rightarrow> receiver \<Rightarrow> goerr option \<times> receiver" where
  "resolveVerify re sem rv =
     (let ev = re_env re; cand = filter (\<lambda>p. ep_disp p = dispVerify) (rv_plans rv);
          idx = map (\<lambda>p. le_Index (ep_entry p)) cand in
      if idx = [] then (None, rv)
      else
        case fold (local_root ev) cand (Map.empty, rv_disk rv) of
          (lcl, d1) \<Rightarrow>
            (case on_streams (verify_rounds (re_cd re) idx Map.empty) (rv\<lparr>rv_disk := d1\<rparr>) of
               (Inl e, rv1) \<Rightarrow> (Some e, rv1)
             | (Inr remote, rv1) \<Rightarrow>
                 (case verified_plans ev sem lcl remote (rv_plans rv1) (rv_disk rv1) of
                    (ps, d2) \<Rightarrow> (None, rv1\<lparr>rv_plans := ps, rv_disk := d2\<rparr>))))"

section \<open>The whole receive\<close>

text \<open>The sum the caller passes is a \<open>uint64\<close> and may have wrapped around.\<close>

definition checkSpace :: "recv_env \<Rightarrow> u64 \<Rightarrow> receiver \<Rightarrow> goerr option \<times> receiver" where
  "checkSpace re need rv =
     (case re_free re (rv_disk rv) of
        None \<Rightarrow> (None, rv)
      | Some free \<Rightarrow>
          if need \<le> free then (None, rv)
          else (Some [ErrDiskFull], decline re ErrCodeDiskFull (re_space_msg re need free) rv))"

fun materialize_loop ::
  "recv_env \<Rightarrow> Decision list \<Rightarrow> nat \<Rightarrow> nat \<Rightarrow> int \<Rightarrow> receiver \<Rightarrow> goerr option \<times> int \<times> receiver" where
  "materialize_loop re ds i 0 expected rv = (None, expected, rv)"
| "materialize_loop re ds i (Suc n) expected rv =
     (let p = rv_plans rv ! i in
      if d_Action (ds ! i) = DecisionSkip
      then materialize_loop re ds (Suc i) n expected
             (if ep_disp p = dispIdentical
              then rv\<lparr>rv_disk := repairIdenticalMode re p (rv_disk rv)\<rparr> else rv)
      else if awaits_data p then materialize_loop re ds (Suc i) n (expected + 1) rv
      else case materialize re i rv of
        (Some e, rv1) \<Rightarrow> (Some e, expected, rv1)
      | (None, rv1) \<Rightarrow> materialize_loop re ds (Suc i) n expected rv1)"

definition run_body :: "recv_env \<Rightarrow> Decision list \<Rightarrow> receiver \<Rightarrow> goerr option \<times> receiver" where
  "run_body re ds rv =
     (let byI = byIndex (rv_plans rv) in
      case materialize_loop re ds 0 (length (rv_plans rv)) 0 rv of
        (Some e, expected, rv1) \<Rightarrow> (Some e, rv1)
      | (None, expected, rv1) \<Rightarrow>
          (case receiveData re byI ds expected rv1 of
             (Some e, rv2) \<Rightarrow> (Some e, rv2)
           | (None, rv2) \<Rightarrow>
               (case commit_flush re rv2 of
                  (Some e, rv3) \<Rightarrow> (Some e, rv3)
                | (None, rv3) \<Rightarrow>
                    let rv4 = dirs_restore re rv3;
                        rv5 = rv4\<lparr>rv_disk := restoreDirModes re (rv_plans rv4) (rv_disk rv4)\<rparr>
                    in (case on_streams (finishRecv (re_cd re)) rv5 of
                          (Some e, rv6) \<Rightarrow> (Some e, rv6)
                        | (None, rv6) \<Rightarrow>
                            let rv7 = (if ro_OnManifest (re_opts re)
                                       then log_note (Manifest (manifestEntries (rv_plans rv6) ds)) rv6 else rv6)
                            in (None, rv7\<lparr>rv_disk := ps_tidy (re_env re) (rv_disk rv7)\<rparr>)))))"

definition decide_all :: "recv_env \<Rightarrow> ConflictPolicy \<Rightarrow> receiver \<Rightarrow> Decision list \<times> receiver" where
  "decide_all re pol rv =
     (let r = map (\<lambda>p. planToDecision (re_env re) p (pol = ConflictReplace)) (rv_plans rv)
      in (map fst r, rv\<lparr>rv_log := rv_log rv @ map Notified (concat (map snd r))\<rparr>))"

text \<open>Sending the decisions and the transfer itself; the deferred calls run on every way out.\<close>

definition run_decided :: "recv_env \<Rightarrow> ConflictPolicy \<Rightarrow> receiver \<Rightarrow> goerr option \<times> receiver" where
  "run_decided re pol rv =
     (case decide_all re pol rv of
        (ds, rv1) \<Rightarrow>
          (case on_streams (\<lambda>s. apsnd (\<lambda>w. s\<lparr>sm_ctl_out := w\<rparr>) (sendDecisions (re_cd re) ds (sm_ctl_out s))) rv1 of
             (Some e, rv2) \<Rightarrow> (Some e, rv2)
           | (None, rv2) \<Rightarrow>
               (case run_body re ds rv2 of
                  (e, rv3) \<Rightarrow> (e, dirs_restore re (snd (commit_flush re rv3))))))"

definition classify_start :: "disk \<Rightarrow> classify_state" where
  "classify_start d = \<lparr>cs_exact = {}, cs_keys = Map.empty, cs_plans = [], cs_disk = d\<rparr>"

text \<open>The disk a refused listing leaves: entries before the refused one may have dropped partials.\<close>

fun classify_disk :: "env \<Rightarrow> classifier \<Rightarrow> ListingEntry list \<Rightarrow> classify_state \<Rightarrow> disk" where
  "classify_disk ev cl [] s = cs_disk s"
| "classify_disk ev cl (e # es) s =
     (case classify_step ev cl e s of Inl err \<Rightarrow> cs_disk s | Inr s1 \<Rightarrow> classify_disk ev cl es s1)"

text \<open>
  \<open>run\<close>; \<open>None\<close> is not returning, which only the search for a free name could do
  (\<open>freeName_total\<close> of \<open>Classifier\<close> says it does not).
\<close>

definition recv_run ::
  "recv_env \<Rightarrow> fsSemantics \<Rightarrow> SenderHello \<Rightarrow> ListingEntry list \<Rightarrow> receiver \<Rightarrow> (goerr option \<times> receiver) option" where
  "recv_run re sem hello entries rv0 =
     (let ev = re_env re; opts = re_opts re; cl = \<lparr>cl_checksum = ro_Checksum opts, cl_sem = sem\<rparr>;
          rv1 = rv0\<lparr>rv_disk := ps_sweep ev (rv_disk rv0)\<rparr> in
      case classify_run ev cl entries (rv_disk rv1) of
        Inl e \<Rightarrow> Some (Some e, decline re ErrCodeListingInvalid ''invalid listing''
                     (rv1\<lparr>rv_disk := classify_disk ev cl entries (classify_start (rv_disk rv1))\<rparr>))
      | Inr (plans, d) \<Rightarrow>
          (case (if ro_Checksum opts then resolveVerify re sem (rv1\<lparr>rv_plans := plans, rv_disk := d\<rparr>)
                 else (None, rv1\<lparr>rv_plans := plans, rv_disk := d\<rparr>)) of
             (Some e, rv2) \<Rightarrow> Some (Some e, rv2)
           | (None, rv2) \<Rightarrow>
               let summary = summarize (rv_disk rv2) (rv_plans rv2) in
               (case checkSpace re (su_BytesToRecv summary) rv2 of
                  (Some e, rv3) \<Rightarrow> Some (Some e, rv3)
                | (None, rv3) \<Rightarrow>
                    if (case ro_Accept opts of None \<Rightarrow> False | Some acc \<Rightarrow> \<not> acc hello summary)
                    then Some (Some [ErrReceiverDeclined], decline re ErrCodeDeclined ''receiver declined'' rv3)
                    else
                      let pol = (if su_Conflicts summary = [] then policy opts
                                 else case ro_ResolveConflicts opts of
                                   None \<Rightarrow> policy opts | Some f \<Rightarrow> f (su_Conflicts summary))
                      in if su_Conflicts summary = [] \<or> pol = ConflictKeep then Some (run_decided re pol rv3)
                         else (case applyPolicy ev cl pol (rv_plans rv3) (rv_disk rv3) of
                                 None \<Rightarrow> None
                               | Some (plans1, d1) \<Rightarrow>
                                   (case checkSpace re (su_BytesToRecv summary + su_DifferingBytes summary)
                                           (rv3\<lparr>rv_plans := plans1, rv_disk := d1\<rparr>) of
                                      (Some e, rv4) \<Rightarrow> Some (Some e, rv4)
                                    | (None, rv4) \<Rightarrow> Some (run_decided re pol rv4))))))"

end
