(* ===== verification/Receive_Consent.thy ===== *)
theory Receive_Consent
  imports Receiver
begin

text \<open>
  What a peer can change on the receiving disk. \<open>keeps W\<close> says that outside the paths \<open>W\<close> every
  file still has its bytes and every link still is one. \<open>adv\<close> lifts it to receiver states, with
  the facts every operation needs from the one before: plans keep where they go, and pending
  files only go to paths of \<open>W\<close>.
\<close>

section \<open>Disks\<close>

fun kept :: "node option \<Rightarrow> node option \<Rightarrow> bool" where
  "kept (Some (NFile c m t)) n \<longleftrightarrow> is_regular n \<and> node_bytes n = c"
| "kept (Some (NLink b)) n \<longleftrightarrow> n = Some (NLink b)"
| "kept _ n \<longleftrightarrow> True"

definition keeps :: "string set \<Rightarrow> disk \<Rightarrow> disk \<Rightarrow> bool" where
  "keeps W d d' \<longleftrightarrow> (\<forall>q. q \<notin> W \<longrightarrow> kept (lstat d q) (lstat d' q))"

named_theorems keeping \<open>which operations keep files\<close>

lemma kept_refl [simp]: "kept n n"
  by (cases "(n, n)" rule: kept.cases) auto

lemma kept_trans: "kept a b \<Longrightarrow> kept b c \<Longrightarrow> kept a c"
  by (cases "(a, b)" rule: kept.cases; cases "(b, c)" rule: kept.cases) auto

lemma keeps_refl [simp]: "keeps W d d"
  by (simp add: keeps_def)

lemma keeps_trans: "keeps W d d' \<Longrightarrow> keeps W d' d'' \<Longrightarrow> keeps W d d''"
  unfolding keeps_def using kept_trans by blast

lemma keeps_mono: "keeps W d d' \<Longrightarrow> W \<subseteq> V \<Longrightarrow> keeps V d d'"
  by (auto simp: keeps_def)

lemma keeps_same: "same_outside P d d' \<Longrightarrow> P \<subseteq> W \<Longrightarrow> keeps W d d'"
  by (auto simp: keeps_def same_outside_def)

lemma keeps_sameE: "same_outside P d (snd (op d)) \<Longrightarrow> op d = (x, d') \<Longrightarrow> P \<subseteq> W \<Longrightarrow> keeps W d d'"
  by (auto intro: keeps_same)

lemma keeps_Chmod [keeping]: "keeps W d (snd (os_Chmod flt p m d))"
  by (auto simp: keeps_def os_Chmod_def fs_simps split: option.splits node.splits)

lemma keeps_Chtimes [keeping]: "keeps W d (snd (os_Chtimes flt p t d))"
  by (auto simp: keeps_def os_Chtimes_def fs_simps split: option.splits node.splits)

lemma keeps_Mkdir [keeping]: "keeps W d (snd (os_Mkdir flt p m d))"
  by (auto simp: keeps_def os_Mkdir_def fs_simps split: option.splits)

lemma keeps_mkdirs: "keeps W d (snd (mkdirs flt mode pre cs d))"
proof (induction flt mode pre cs d rule: mkdirs.induct)
  case (2 flt mode pre c cs d)
  obtain e d1 where m: "os_Mkdir flt (path_of True (pre @ [c])) mode d = (e, d1)" by (metis surj_pair)
  have "keeps W d d1" using keeps_Mkdir [of W d flt "path_of True (pre @ [c])" mode] by (simp add: m)
  with 2 show ?case by (cases e) (auto simp: m Let_def intro: keeps_trans)
qed simp

lemma keeps_MkdirAll [keeping]: "keeps W d (snd (os_MkdirAll flt p mode d))"
  by (simp add: os_MkdirAll_def keeps_mkdirs)

lemma keeps_tick [simp]: "keeps W d (tick d)"
  by (simp add: keeps_def fs_simps)

lemma keeps_Sync [keeping]: "keeps W d (snd (f_Sync flt d))"
  by (simp add: f_Sync_def)

lemma keeps_Open [keeping]: "keeps W d (snd (os_Open flt p d))"
  by (simp add: os_Open_def split: option.split)

lemma keeps_Remove [keeping]: "p \<in> W \<Longrightarrow> keeps W d (snd (os_Remove flt p d))"
  by (rule keeps_same [OF frame_Remove]) simp

lemma keeps_Truncate [keeping]: "p \<in> W \<Longrightarrow> keeps W d (snd (f_Truncate flt p n d))"
  by (rule keeps_same [OF frame_Truncate]) simp

lemma keeps_writeSparse [keeping]: "p \<in> W \<Longrightarrow> keeps W d (snd (writeSparse flt p pos data d))"
  by (rule keeps_same [OF frame_writeSparse]) simp

lemma keeps_moveFile [keeping]: "{tmp, src, dst} \<subseteq> W \<Longrightarrow> keeps W d (snd (moveFile flt tmp src dst d))"
  by (rule keeps_same [OF frame_moveFile])

lemma keeps_ignoring [keeping]: "keeps W d (snd (op d)) \<Longrightarrow> keeps W d (ignoring op d)"
  by (simp add: ignoring_def)

section \<open>Receivers\<close>

text \<open>The paths a run may always write to: its own store. The empty path names nothing.\<close>

definition own_paths :: "recv_env \<Rightarrow> string set" where
  "own_paths re = insert [] (insert (PartialDir (re_env re)) (store (re_env re)))"

definition static :: "entryPlan \<Rightarrow> ListingEntry \<times> string \<times> string \<times> string" where
  "static p = (ep_entry p, ep_rel p, ep_target p, ep_partial p)"

definition good :: "recv_env \<Rightarrow> string set \<Rightarrow> receiver \<Rightarrow> nat \<Rightarrow> bool" where
  "good re W rv i \<longleftrightarrow> i < length (rv_plans rv) \<and> ep_target (rv_plans rv ! i) \<in> W
     \<and> ev_tmp (re_env re) (ep_target (rv_plans rv ! i)) \<in> W \<and> ep_partial (rv_plans rv ! i) \<in> W"

definition pend_ok :: "recv_env \<Rightarrow> string set \<Rightarrow> receiver \<Rightarrow> bool" where
  "pend_ok re W rv \<longleftrightarrow> (\<forall>pf\<in>set (rv_pending rv). pf_path pf \<in> W \<and> good re W rv (pf_plan pf))"

definition adv :: "recv_env \<Rightarrow> string set \<Rightarrow> receiver \<Rightarrow> receiver \<Rightarrow> bool" where
  "adv re W rv rv' \<longleftrightarrow> keeps W (rv_disk rv) (rv_disk rv')
     \<and> map static (rv_plans rv') = map static (rv_plans rv)
     \<and> (pend_ok re W rv \<longrightarrow> pend_ok re W rv')"

named_theorems advance \<open>which operations advance the receiver\<close>

lemma static_nth:
  "map static ps = map static ps' \<Longrightarrow> i < length ps \<Longrightarrow> static (ps ! i) = static (ps' ! i)"
  by (metis length_map nth_map)

lemma static_length: "map static ps = map static ps' \<Longrightarrow> length ps = length ps'"
  by (metis length_map)

lemma good_static: "map static (rv_plans rv') = map static (rv_plans rv) \<Longrightarrow> good re W rv' i = good re W rv i"
  using static_nth [of "rv_plans rv'" "rv_plans rv" i] static_length [of "rv_plans rv'" "rv_plans rv"]
  by (auto simp: good_def static_def)

lemma static_update: "static p = static (ps ! i) \<Longrightarrow> map static (ps[i := p]) = map static ps"
  by (metis list_update_id map_update)

lemma adv_refl [simp]: "adv re W rv rv"
  by (simp add: adv_def)

lemma adv_trans: "adv re W rv rv' \<Longrightarrow> adv re W rv' rv'' \<Longrightarrow> adv re W rv rv''"
  unfolding adv_def using keeps_trans by metis

lemma adv_good: "adv re W rv rv' \<Longrightarrow> good re W rv' i = good re W rv i"
  by (rule good_static) (simp add: adv_def)

lemma adv_pend: "adv re W rv rv' \<Longrightarrow> pend_ok re W rv \<Longrightarrow> pend_ok re W rv'"
  by (simp add: adv_def)

lemma adv_same:
  assumes "keeps W (rv_disk rv) (rv_disk rv')" "map static (rv_plans rv') = map static (rv_plans rv)"
    "rv_pending rv' = rv_pending rv"
  shows "adv re W rv rv'"
  using assms good_static [OF assms(2)] by (simp add: adv_def pend_ok_def)

lemma adv_on_disk [advance]: "keeps W (rv_disk rv) (snd (op (rv_disk rv))) \<Longrightarrow> adv re W rv (snd (on_disk op rv))"
  by (rule adv_same) (auto simp: on_disk_def split: prod.splits)

lemma adv_on_diskD:
  "on_disk op rv = (x, rv') \<Longrightarrow> keeps W (rv_disk rv) (snd (op (rv_disk rv))) \<Longrightarrow> adv re W rv rv'"
  by (metis adv_on_disk snd_conv)

lemma adv_disk [advance]: "keeps W (rv_disk rv) d \<Longrightarrow> adv re W rv (rv\<lparr>rv_disk := d\<rparr>)"
  by (rule adv_same) simp_all

lemma adv_plan [advance]:
  "static p = static (rv_plans rv ! i) \<Longrightarrow> adv re W rv (rv\<lparr>rv_plans := (rv_plans rv)[i := p]\<rparr>)"
  by (rule adv_same) (simp_all add: static_update)

lemma adv_silent [advance]:
  "adv re W rv (log_note n rv)" "adv re W rv (decline re code msg rv)" "adv re W rv (close_data rv)"
  "adv re W rv (rv\<lparr>rv_streams := st\<rparr>)" "adv re W rv (rv\<lparr>rv_log := l\<rparr>)" "adv re W rv (rv\<lparr>rv_orig := m\<rparr>)"
  "adv re W rv (rv\<lparr>rv_bytes := b\<rparr>)"
  by (rule adv_same; simp add: log_note_def decline_def close_data_def)+

lemma adv_writeFail [advance]: "adv re W rv (snd (writeFail re op rel f rv))"
  by (auto simp: writeFail_def intro: adv_trans adv_silent)

lemma adv_failL: "apfst Inl (writeFail re op rel f rv) = (x, rv') \<Longrightarrow> adv re W rv rv' \<and> (\<exists>e. x = Inl e)"
  using adv_writeFail [of re W rv op rel f] by (auto simp: apfst_def map_prod_def split: prod.splits)

lemma adv_failS: "apfst Some (writeFail re op rel f rv) = (x, rv') \<Longrightarrow> adv re W rv rv' \<and> x \<noteq> None"
  using adv_writeFail [of re W rv op rel f] by (auto simp: apfst_def map_prod_def split: prod.splits)

lemma own_paths_mem [simp]:
  "ps_data (re_env re) r \<in> own_paths re" "ps_meta (re_env re) r \<in> own_paths re"
  "PartialDir (re_env re) \<in> own_paths re" "[] \<in> own_paths re"
  by (simp_all add: own_paths_def)

lemma keeps_ps_remove: "own_paths re \<subseteq> W \<Longrightarrow> keeps W d (ps_remove (re_env re) r d)"
  by (rule keeps_same [OF frame_ps_remove]) (auto dest: subsetD)

lemma keeps_ps_dropMeta: "own_paths re \<subseteq> W \<Longrightarrow> keeps W d (ps_dropMeta (re_env re) r d)"
  by (rule keeps_same [OF frame_ps_dropMeta]) (auto dest: subsetD)

lemma keeps_ps_create: "own_paths re \<subseteq> W \<Longrightarrow> keeps W d (snd (ps_create (re_env re) r e d))"
  by (rule keeps_same [OF frame_ps_create]) (auto dest: subsetD)

lemma adv_abandon: "own_paths re \<subseteq> W \<Longrightarrow> adv re W rv (snd (abandon re keep rf rv))"
  by (simp add: abandon_def adv_disk keeps_ps_remove)

lemma adv_guardRegular: "adv re W rv (snd (guardRegular re path what rv))"
  by (simp add: guardRegular_def adv_silent split: option.split)


section \<open>Files\<close>

definition rf_good :: "recv_env \<Rightarrow> string set \<Rightarrow> receiver \<Rightarrow> recvFile \<Rightarrow> bool" where
  "rf_good re W rv rf \<longleftrightarrow> rf_path rf \<in> W \<and> good re W rv (rf_plan rf)"

lemma rf_good_adv: "adv re W rv rv' \<Longrightarrow> rf_good re W rv' rf = rf_good re W rv rf"
  by (simp add: rf_good_def adv_good)

lemma adv_open_resume:
  assumes own: "own_paths re \<subseteq> W" and g: "good re W rv i" and r: "open_resume re i rv = (res, rv')"
  shows "adv re W rv rv' \<and> (\<forall>rf. res = Inr rf \<longrightarrow> rf_good re W rv' rf \<and> rf_plan rf = i)"
proof -
  let ?p = "rv_plans rv ! i" and ?flt = "ev_flt (re_env re)"
  have W: "ep_partial ?p \<in> W" using g by (simp add: good_def)
  obtain e1 rv1 where 1: "guardRegular re (ep_partial ?p) ''partial'' rv = (e1, rv1)" by (metis surj_pair)
  obtain e2 rv2 where 2: "on_disk (os_Open ?flt (ep_partial ?p)) rv1 = (e2, rv2)" by (metis surj_pair)
  obtain e3 rv3 where 3: "on_disk (f_Truncate ?flt (ep_partial ?p) (unat (ep_resumeOffset ?p))) rv2 = (e3, rv3)"
    by (metis surj_pair)
  obtain e4 rv4 where 4: "(if rf_sha (new_recvFile re i (ep_partial ?p)) = None then (None, rv3)
      else on_disk (os_Open ?flt (ep_partial ?p)) rv3) = (e4, rv4)" by (metis surj_pair)
  have a1: "adv re W rv rv1" using adv_guardRegular [of re W rv "ep_partial ?p" "''partial''"] by (simp add: 1)
  have a2: "adv re W rv rv2" using a1 adv_on_diskD [OF 2 keeps_Open] by (rule adv_trans)
  have a3: "adv re W rv rv3" using a2 adv_on_diskD [OF 3 keeps_Truncate [OF W]] by (rule adv_trans)
  have "adv re W rv3 rv4"
    using 4 by (auto split: if_splits intro: adv_on_diskD keeps_Open)
  with a3 have a4: "adv re W rv rv4" by (rule adv_trans)
  note q = r [unfolded open_resume_def Let_def 1 2 3 4 prod.case]
  consider (guard) e where "e1 = Some e" | (opn) f where "e1 = None" "e2 = Some f"
    | (trunc) f where "e1 = None" "e2 = None" "e3 = Some f"
    | (rd) f where "e1 = None" "e2 = None" "e3 = None" "e4 = Some f"
    | (fine) "e1 = None" "e2 = None" "e3 = None" "e4 = None"
    by (cases e1; cases e2; cases e3; cases e4) auto
  then show ?thesis
  proof cases
    case guard with q a1 show ?thesis by auto
  next
    case opn with q show ?thesis using adv_failL [of re _ _ _ rv2 res rv'] adv_trans [OF a2] by fastforce
  next
    case trunc
    with q show ?thesis
      using adv_failL [of re _ _ _ "snd (abandon re False (new_recvFile re i (ep_partial ?p)) rv3)" res rv']
        adv_trans [OF adv_trans [OF a3 adv_abandon [OF own]]] by fastforce
  next
    case rd
    with q show ?thesis
      using adv_failL [of re _ _ _ "snd (abandon re False (new_recvFile re i (ep_partial ?p)) rv4)" res rv']
        adv_trans [OF adv_trans [OF a4 adv_abandon [OF own]]] by fastforce
  next
    case fine
    with q have rv': "rv' = log_note (Resumed (le_Index (ep_entry ?p)) (ep_resumeOffset ?p) (le_Size (ep_entry ?p))) rv4"
      and rf: "\<And>rf. res = Inr rf \<Longrightarrow> rf_path rf = ep_partial ?p \<and> rf_plan rf = i"
      by (auto simp: new_recvFile_def)
    have "adv re W rv rv'" unfolding rv' by (rule adv_trans [OF a4 adv_silent(1)])
    then show ?thesis using g rf W adv_good [of re W rv rv' i] by (auto simp: rf_good_def)
  qed
qed

lemma adv_openFile:
  assumes own: "own_paths re \<subseteq> W" and g: "good re W rv i" and r: "openFile re i restart rv = (res, rv')"
  shows "adv re W rv rv' \<and> (\<forall>rf. res = Inr rf \<longrightarrow> rf_good re W rv' rf \<and> rf_plan rf = i)"
proof -
  let ?p = "rv_plans rv ! i"
  define rv1 where "rv1 = (if restart
       then rv\<lparr>rv_plans := (rv_plans rv)[i := ?p\<lparr>ep_disp := dispNew, ep_prefixBlocks := []\<rparr>]\<rparr> else rv)"
  obtain x rv2 where c: "on_disk (ps_create (re_env re) (ep_rel ?p) (ep_entry ?p)) rv1 = (x, rv2)" by (metis surj_pair)
  note q = r [unfolded openFile_def Let_def rv1_def [symmetric] c prod.case]
  have a1: "adv re W rv rv1" by (simp add: rv1_def adv_plan static_def)
  have a2: "adv re W rv rv2" using a1 adv_on_diskD [OF c keeps_ps_create [OF own]] by (rule adv_trans)
  consider (bad) "restart \<and> ep_disp ?p \<noteq> dispResume" | (resume) "ep_disp ?p = dispResume \<and> \<not> restart"
    | (new) "\<not> (restart \<and> ep_disp ?p \<noteq> dispResume)" "\<not> (ep_disp ?p = dispResume \<and> \<not> restart)" by blast
  then show ?thesis
  proof cases
    case bad with q show ?thesis by (auto intro: adv_silent)
  next
    case resume with q adv_open_resume [OF own g] show ?thesis by auto
  next
    case new
    show ?thesis
    proof (cases x)
      case (Inl f)
      with new q show ?thesis using adv_failL [of re _ _ _ rv2 res rv'] adv_trans [OF a2] by fastforce
    next
      case (Inr path)
      with new q have e: "rv' = rv2" "\<And>rf. res = Inr rf \<Longrightarrow> rf_path rf = path \<and> rf_plan rf = i"
        by (auto simp: new_recvFile_def)
      have "path \<in> W"
        using c Inr own ps_create_ok(1) [of "re_env re" "ep_rel ?p" "ep_entry ?p" "rv_disk rv1" path]
        by (auto simp: on_disk_def split: prod.splits dest: subsetD)
      then show ?thesis using e a2 g adv_good [OF a2, of i] by (auto simp: rf_good_def)
    qed
  qed
qed

lemma adv_rf_write:
  assumes own: "own_paths re \<subseteq> W" and g: "rf_good re W rv rf" and r: "rf_write re data rf rv = (e, rf', rv')"
  shows "adv re W rv rv' \<and> rf_good re W rv' rf' \<and> rf_plan rf' = rf_plan rf"
proof -
  have W: "rf_path rf \<in> W" using g by (simp add: rf_good_def)
  obtain x rv1 where w: "on_disk (writeSparse (ev_flt (re_env re)) (rf_path rf) (unat (rf_written rf)) data) rv = (x, rv1)"
    by (metis surj_pair)
  note q = r [unfolded rf_write_def Let_def w prod.case]
  have a1: "adv re W rv rv1" by (rule adv_on_diskD [OF w keeps_writeSparse [OF W]])
  have main: "adv re W rv rv' \<and> rf_path rf' = rf_path rf \<and> rf_plan rf' = rf_plan rf"
  proof (cases "data = [] \<or> le_Size (ep_entry (plan_of rv rf)) < rf_written rf + of_nat (length data)")
    case True with q show ?thesis by (auto intro: adv_silent split: if_splits)
  next
    case go: False
    show ?thesis
    proof (cases x)
      case (Inl f)
      obtain rf1 rv2 where ab: "(if flt_kind f = NoSpace then abandon re False rf rv1 else (rf, rv1)) = (rf1, rv2)"
        by (metis surj_pair)
      have a2: "adv re W rv1 rv2" "rf_path rf1 = rf_path rf" "rf_plan rf1 = rf_plan rf"
        using ab adv_abandon [OF own, of rv1 False rf] by (auto simp: abandon_def split: if_splits)
      from q go Inl ab have e: "rf' = rf1" "\<exists>msg. rv' = decline re (write_code f) msg (close_data rv2)" by auto
      have "adv re W rv2 rv'" using e(2) adv_trans [OF adv_silent(3) adv_silent(2)] by blast
      with a1 a2 e show ?thesis using adv_trans by blast
    next
      case (Inr hole)
      let ?rf = "rf\<lparr>rf_tailHole := hole, rf_hasher := fh_Write (ev_bh (re_env re)) data (rf_hasher rf),
          rf_sha := map_option (\<lambda>s. s @ data) (rf_sha rf), rf_written := rf_written rf + of_nat (length data),
          rf_unsynced := rf_unsynced rf + of_nat (length data)\<rparr>"
      let ?rv2 = "if periodicSync \<le> rf_unsynced ?rf then snd (on_disk (f_Sync (ev_flt (re_env re))) rv1) else rv1"
      have a2: "adv re W rv1 ?rv2" by (simp add: adv_on_disk keeps_Sync)
      from q go Inr have e: "rf_path rf' = rf_path rf" "rf_plan rf' = rf_plan rf"
        "\<exists>n. rv' = log_note n ?rv2" by auto
      then have "adv re W ?rv2 rv'" using adv_silent(1) by blast
      then show ?thesis using e(1,2) adv_trans [OF adv_trans [OF a1 a2]] by blast
    qed
  qed
  then show ?thesis using g adv_good [of re W rv rv'] by (simp add: rf_good_def)
qed


section \<open>Committing\<close>

lemma adv_ChmodD: "on_disk (os_Chmod flt p m) rv = (x, rv') \<Longrightarrow> adv re W rv rv'"
  by (erule adv_on_diskD) (rule keeps_Chmod)

lemma adv_unlock_one: "adv re W rv (unlock_one re cur rv)"
  by (auto simp: unlock_one_def Let_def split: option.splits node.splits prod.splits
      intro: adv_ChmodD adv_trans [OF adv_ChmodD adv_silent(6)])

lemma adv_unlock_up: "adv re W rv (unlock_up re root up rv)"
  by (induction re root up rv rule: unlock_up.induct)
    (auto simp: Let_def adv_unlock_one intro: adv_trans [OF adv_unlock_one])

lemma adv_unlock: "adv re W rv (unlock re dir rv)"
  by (simp add: unlock_def Let_def adv_unlock_up)

lemma adv_fold_disk:
  assumes "\<And>x d. keeps W d (f x d)"
  shows "keeps W d (fold f xs d)"
proof (induction xs arbitrary: d)
  case (Cons x xs)
  show ?case using keeps_trans [OF assms [of d x] Cons.IH] by simp
qed simp

lemma adv_dirs_restore: "adv re W rv (dirs_restore re rv)"
proof (rule adv_same)
  show "keeps W (rv_disk rv) (rv_disk (dirs_restore re rv))"
    by (auto simp: dirs_restore_def intro!: adv_fold_disk keeps_ignoring keeps_Chmod)
qed (simp_all add: dirs_restore_def)

lemma adv_clear_slot:
  assumes own: "own_paths re \<subseteq> W" and g: "good re W rv i" and r: "clear_slot re i rv = (b, rv')"
  shows "adv re W rv rv'"
proof -
  let ?p = "rv_plans rv ! i" and ?flt = "ev_flt (re_env re)"
  have W: "ep_target ?p \<in> W" using g by (simp add: good_def)
  obtain e1 rv1 where 1: "on_disk (os_Remove ?flt (ep_target ?p)) rv = (e1, rv1)" by (metis surj_pair)
  have a1: "adv re W rv rv1" by (rule adv_on_diskD [OF 1 keeps_Remove [OF W]])
  have ps: "rv_plans rv1 = rv_plans rv" using 1 by (auto simp: on_disk_def split: prod.splits)
  have refuse: "adv re W rv (log_note n (rv1\<lparr>rv_disk := ps_remove (re_env re) r (rv_disk rv1),
      rv_plans := (rv_plans rv1)[i := ?p\<lparr>ep_disp := dispRefused, ep_skipReason := sr\<rparr>]\<rparr>))" for n r sr
  proof -
    let ?rv2 = "rv1\<lparr>rv_disk := ps_remove (re_env re) r (rv_disk rv1)\<rparr>"
    let ?p' = "?p\<lparr>ep_disp := dispRefused, ep_skipReason := sr\<rparr>"
    have a2: "adv re W rv1 ?rv2" by (rule adv_disk [OF keeps_ps_remove [OF own]])
    have "adv re W ?rv2 (?rv2\<lparr>rv_plans := (rv_plans ?rv2)[i := ?p']\<rparr>)"
      by (rule adv_plan) (simp add: static_def ps)
    from adv_trans [OF adv_trans [OF adv_trans [OF a1 a2] this] adv_silent(1) [of re W _ n]] show ?thesis
      by (simp add: log_note_def)
  qed
  show ?thesis
    using r a1 refuse unfolding clear_slot_def Let_def 1 prod.case
    by (cases e1) (auto split: if_splits intro: adv_disk keeps_ignoring keeps_Remove [OF W])
qed

lemma adv_place:
  assumes own: "own_paths re \<subseteq> W" and pf: "pf_path pf \<in> W" and g: "good re W rv (pf_plan pf)"
    and r: "place re pf rv = (res, rv')"
  shows "adv re W rv rv'"
proof -
  let ?t = "ep_target (rv_plans rv ! pf_plan pf)" and ?ev = "re_env re"
  obtain b rv1 where 1: "clear_slot re (pf_plan pf) rv = (b, rv1)" by (metis surj_pair)
  obtain e2 rv2 where 2: "on_disk (os_MkdirAll (ev_flt ?ev) (path_dir ?t) 493) (unlock re (path_dir ?t) rv1) = (e2, rv2)"
    by (metis surj_pair)
  obtain e3 rv3 where 3: "on_disk (moveFile (ev_flt ?ev) (ev_tmp ?ev ?t) (pf_path pf) ?t) rv2 = (e3, rv3)"
    by (metis surj_pair)
  have a1: "adv re W rv rv1" by (rule adv_clear_slot [OF own g 1])
  have a2: "adv re W rv rv2"
    by (rule adv_trans [OF a1 adv_trans [OF adv_unlock adv_on_diskD [OF 2 keeps_MkdirAll]]])
  have "{ev_tmp ?ev ?t, pf_path pf, ?t} \<subseteq> W" using pf g by (simp add: good_def)
  from adv_trans [OF a2 adv_on_diskD [OF 3 keeps_moveFile [OF this]]] have a3: "adv re W rv rv3" .
  have "adv re W rv3 (rv3\<lparr>rv_disk := ps_dropMeta ?ev r (rv_disk rv3)\<rparr>)" for r
    by (rule adv_disk [OF keeps_ps_dropMeta [OF own]])
  note a4 = adv_trans [OF a3 this]
  show ?thesis
    using r a1 a2 a3 a4 unfolding place_def Let_def 1 2 3 prod.case
    by (cases b; cases e2; cases e3) auto
qed

lemma adv_place_all:
  assumes "own_paths re \<subseteq> W" "\<And>pf. pf \<in> set pfs \<Longrightarrow> pf_path pf \<in> W \<and> good re W rv (pf_plan pf)"
    "place_all re pfs rv = (e, ok, rv')"
  shows "adv re W rv rv' \<and> set ok \<subseteq> set pfs"
  using assms(2,3)
proof (induction pfs arbitrary: rv e ok rv')
  case (Cons pf pfs)
  obtain r rv1 where 1: "place re pf rv = (r, rv1)" by (metis surj_pair)
  obtain e2 ok2 rv2 where 2: "place_all re pfs rv1 = (e2, ok2, rv2)" by (metis surj_pair)
  have a1: "adv re W rv rv1" using adv_place [OF assms(1) _ _ 1] Cons.prems(1) by auto
  have "adv re W rv1 rv2 \<and> set ok2 \<subseteq> set pfs"
    using Cons.IH [OF _ 2] Cons.prems(1) adv_good [OF a1] by auto
  with a1 Cons.prems(2) show ?case
    by (auto simp: 1 2 split: sum.splits bool.splits intro: adv_trans)
qed simp

lemma keeps_parallelSync: "keeps W d (snd (parallelSync re batch d))"
proof -
  have "keeps W d0 (snd (foldl (\<lambda>(first, d) pf. case f_Sync (ev_flt (re_env re)) d of
              (e, d1) \<Rightarrow> (if first = None then e else first, d1)) (f, d0) batch))" for f d0
  proof (induction batch arbitrary: f d0)
    case (Cons pf batch)
    from keeps_trans [OF keeps_tick Cons.IH] show ?case by (simp add: f_Sync_def)
  qed simp
  then show ?thesis by (simp add: parallelSync_def)
qed

lemma keeps_syncBarrier: "keeps W d (snd (syncBarrier re d))"
  by (simp add: syncBarrier_def f_Sync_def)

lemma keeps_sync_each: "keeps W d (snd (sync_each re dirs some d))"
proof (induction re dirs some d rule: sync_each.induct)
  case (2 re dir dirs some d)
  then show ?case
    by (auto simp: ignoring_def f_Sync_def split: option.splits intro: keeps_trans [OF keeps_tick]
        keeps_trans [OF keeps_trans [OF keeps_tick keeps_tick]])
qed simp

lemma keeps_syncDirs: "keeps W d (syncDirs re dirs d)"
proof -
  obtain some d1 where 1: "sync_each re dirs False d = (some, d1)" by (metis surj_pair)
  have "keeps W d d1" using keeps_sync_each [of W d re dirs False] by (simp add: 1)
  then show ?thesis
    by (auto simp: syncDirs_def 1 intro: keeps_trans keeps_ignoring keeps_syncBarrier)
qed

lemma pend_clear: "adv re W rv (rv\<lparr>rv_pending := [], rv_bytes := 0\<rparr>)"
  by (simp add: adv_def pend_ok_def)

lemma adv_commit_flush:
  assumes own: "own_paths re \<subseteq> W" and pend: "pend_ok re W rv"
  shows "adv re W rv (snd (commit_flush re rv))"
proof -
  let ?rv = "rv\<lparr>rv_pending := [], rv_bytes := 0\<rparr>" and ?b = "rv_pending rv"
  obtain e1 rv1 where 1: "on_disk (parallelSync re ?b) ?rv = (e1, rv1)" by (metis surj_pair)
  obtain e2 rv2 where 2: "on_disk (syncBarrier re) rv1 = (e2, rv2)" by (metis surj_pair)
  obtain e3 ok rv3 where 3: "place_all re ?b rv2 = (e3, ok, rv3)" by (metis surj_pair)
  have a1: "adv re W rv rv1" by (rule adv_trans [OF pend_clear adv_on_diskD [OF 1 keeps_parallelSync]])
  have a2: "adv re W rv rv2" by (rule adv_trans [OF a1 adv_on_diskD [OF 2 keeps_syncBarrier]])
  have "adv re W rv2 rv3"
    using adv_place_all [OF own _ 3] pend adv_good [OF a2] by (simp add: pend_ok_def)
  with a2 have a3: "adv re W rv rv3" by (rule adv_trans)
  define rv5 where "rv5 = (\<lambda>l. (rv3\<lparr>rv_disk := syncDirs re
      (remdups (map (\<lambda>pf. path_dir (ep_target (rv_plans rv3 ! pf_plan pf))) ok)) (rv_disk rv3)\<rparr>)\<lparr>rv_log := l\<rparr>)"
  have a5: "adv re W rv (rv5 l)" for l
    unfolding rv5_def by (rule adv_trans [OF adv_trans [OF a3 adv_disk [OF keeps_syncDirs]] adv_silent(5)])
  show ?thesis
    unfolding commit_flush_def Let_def 1 2 3 prod.case
    using pend_clear [of re W rv] a5 [unfolded rv5_def]
    by (cases "?b = []"; cases e1; cases e2; cases e3)
      (simp_all add: adv_trans [OF a1 adv_writeFail] adv_trans [OF a2 adv_writeFail] adv_trans [OF _ adv_writeFail])
qed

lemma adv_commit_add:
  assumes own: "own_paths re \<subseteq> W" and pend: "pend_ok re W rv"
    and pf: "pf_path pf \<in> W" "good re W rv (pf_plan pf)"
  shows "adv re W rv (snd (commit_add re pf rv))"
proof -
  let ?rv = "rv\<lparr>rv_pending := rv_pending rv @ [pf], rv_bytes := rv_bytes rv + pf_size pf\<rparr>"
  have g: "good re W ?rv i = good re W rv i" for i by (rule good_static) simp
  then have p: "pend_ok re W ?rv" using pend pf by (auto simp: pend_ok_def)
  then have a: "adv re W rv ?rv" by (simp add: adv_def)
  show ?thesis
    using a adv_trans [OF a adv_commit_flush [OF own p]] by (simp add: commit_add_def Let_def)
qed

lemma keeps_set_meta: "keeps W d (set_meta re path e d)"
  unfolding set_meta_def ignoring_def by (rule keeps_trans [OF keeps_Chmod keeps_Chtimes])

lemma adv_finalize:
  assumes own: "own_paths re \<subseteq> W" and pend: "pend_ok re W rv" and g: "rf_good re W rv rf"
  shows "adv re W rv (snd (finalize re root rf rv))"
proof -
  let ?p = "plan_of rv rf"
  let ?e = "ep_entry ?p"
  have W: "rf_path rf \<in> W" "good re W rv (rf_plan rf)" using g by (simp_all add: rf_good_def)
  obtain e1 rv1 where 1: "(if rf_tailHole rf then on_disk (f_Truncate (ev_flt (re_env re)) (rf_path rf) (unat (le_Size ?e))) rv
      else (None, rv)) = (e1, rv1)" by (metis surj_pair)
  have a1: "adv re W rv rv1"
    using 1 by (auto split: if_splits intro: adv_on_diskD keeps_Truncate [OF W(1)])
  have ps: "rv_plans rv1 = rv_plans rv" using 1 by (auto simp: on_disk_def split: if_splits prod.splits)
  define rv2 where "rv2 = (case rf_sha rf of None \<Rightarrow> rv1
      | Some s \<Rightarrow> rv1\<lparr>rv_plans := (rv_plans rv1)[rf_plan rf := ?p\<lparr>ep_sha256 := ev_sha (re_env re) s\<rparr>]\<rparr>)"
  have "adv re W rv1 rv2"
    by (cases "rf_sha rf") (simp_all add: rv2_def, rule adv_plan, simp add: ps plan_of_def static_def)
  with a1 have a2: "adv re W rv rv2" by (rule adv_trans)
  define rv3 where "rv3 = rv2\<lparr>rv_disk := set_meta re (rf_path rf) ?e (rv_disk rv2)\<rparr>"
  have a3: "adv re W rv rv3" unfolding rv3_def by (rule adv_trans [OF a2 adv_disk [OF keeps_set_meta]])
  have "adv re W rv3 (snd (commit_add re \<lparr>pf_path = rf_path rf, pf_plan = rf_plan rf, pf_size = le_Size ?e\<rparr> rv3))"
    by (rule adv_commit_add [OF own adv_pend [OF a3 pend]]) (simp_all add: W adv_good [OF a3])
  with a3 have a4: "adv re W rv (snd (commit_add re \<lparr>pf_path = rf_path rf, pf_plan = rf_plan rf, pf_size = le_Size ?e\<rparr> rv3))"
    by (rule adv_trans)
  show ?thesis
    unfolding finalize_def Let_def 1 prod.case rv2_def [symmetric] rv3_def [symmetric]
    using a4 adv_trans [OF adv_trans [OF a1 adv_abandon [OF own]] adv_writeFail]
    by (cases e1) (simp_all add: adv_trans [OF adv_abandon [OF own] adv_silent(2)])
qed

lemma adv_materialize:
  assumes own: "own_paths re \<subseteq> W" and pend: "pend_ok re W rv" and g: "good re W rv i"
  shows "adv re W rv (snd (materialize re i rv))"
proof -
  let ?p = "rv_plans rv ! i" and ?ev = "re_env re"
  have W: "ep_target ?p \<in> W" using g by (simp add: good_def)
  define rv0 where "rv0 =
      (if needsConsent ?p \<and> lstat (rv_disk rv) (ep_target ?p) \<noteq> None \<and> \<not> is_dir (lstat (rv_disk rv) (ep_target ?p))
       then rv\<lparr>rv_disk := ignoring (os_Remove (ev_flt ?ev) (ep_target ?p)) (rv_disk rv)\<rparr> else rv)"
  have a0: "adv re W rv rv0" by (simp add: rv0_def adv_disk keeps_ignoring keeps_Remove [OF W])
  obtain e2 rv2 where 2: "on_disk (os_MkdirAll (ev_flt ?ev) (ep_target ?p)
      (dirMode (ev_umask ?ev) (le_Mode (ep_entry ?p)))) (unlock re (path_dir (ep_target ?p)) rv0) = (e2, rv2)"
    by (metis surj_pair)
  have a2: "adv re W rv rv2"
    by (rule adv_trans [OF a0 adv_trans [OF adv_unlock adv_on_diskD [OF 2 keeps_MkdirAll]]])
  obtain r rv3 where 3: "on_disk (ps_create ?ev (ep_rel ?p) (ep_entry ?p)) rv = (r, rv3)" by (metis surj_pair)
  have a3: "adv re W rv rv3" by (rule adv_on_diskD [OF 3 keeps_ps_create [OF own]])
  have ps: "rv_plans rv3 = rv_plans rv" using 3 by (auto simp: on_disk_def split: prod.splits)
  define rv4 where "rv4 = (\<lambda>path. rv3\<lparr>rv_plans := (rv_plans rv3)[i := ?p\<lparr>ep_sha256 := ev_sha ?ev []\<rparr>],
      rv_disk := set_meta re path (ep_entry ?p) (rv_disk rv3)\<rparr>)"
  have a4: "adv re W rv (rv4 path)" for path
  proof -
    have "adv re W rv3 (rv3\<lparr>rv_plans := (rv_plans rv3)[i := ?p\<lparr>ep_sha256 := ev_sha ?ev []\<rparr>]\<rparr>)"
      by (rule adv_plan) (simp add: static_def ps)
    from adv_trans [OF adv_trans [OF a3 this] adv_disk [OF keeps_set_meta]] show ?thesis by (simp add: rv4_def)
  qed
  have a5: "adv re W rv (snd (commit_add re \<lparr>pf_path = path, pf_plan = i, pf_size = 0\<rparr> (rv4 path)))"
    if "r = Inr path" for path
  proof -
    have "path \<in> W"
      using 3 that own ps_create_ok(1) [of ?ev "ep_rel ?p" "ep_entry ?p" "rv_disk rv" path]
      by (auto simp: on_disk_def split: prod.splits dest: subsetD)
    then show ?thesis
      using adv_trans [OF a4 adv_commit_add [OF own adv_pend [OF a4 pend]]] g adv_good [OF a4] by simp
  qed
  show ?thesis
    unfolding materialize_def Let_def rv0_def [symmetric] 2 3 prod.case
    using a5 [unfolded rv4_def]
    by (cases e2; cases r)
      (simp_all add: a2 adv_silent adv_trans [OF a2 adv_writeFail] adv_trans [OF a3 adv_writeFail] split: EntryType.split)
qed


section \<open>The data phase\<close>

text \<open>Every index the peer may send data for leads to a plan whose paths are in \<open>W\<close>.\<close>

definition gate :: "recv_env \<Rightarrow> string set \<Rightarrow> receiver \<Rightarrow> (u32 \<Rightarrow> nat option) \<Rightarrow> u32 set \<Rightarrow> bool" where
  "gate re W rv byI ok \<longleftrightarrow> (\<forall>idx\<in>ok. good re W rv (the (byI idx)))"

definition ds_ok :: "recv_env \<Rightarrow> string set \<Rightarrow> data_state \<Rightarrow> bool" where
  "ds_ok re W s \<longleftrightarrow> pend_ok re W (ds_rv s) \<and> (\<forall>rf. ds_cur s = Some rf \<longrightarrow> rf_good re W (ds_rv s) rf)"

lemma gate_adv: "adv re W rv rv' \<Longrightarrow> gate re W rv' byI ok = gate re W rv byI ok"
  by (simp add: gate_def adv_good)

lemma rf_good_case:
  "ds_ok re W s \<Longrightarrow> adv re W (ds_rv s) rv' \<Longrightarrow> ds_cur s = Some rf \<Longrightarrow> rf_good re W rv' rf"
  by (simp add: ds_ok_def rf_good_adv)

lemma adv_recv_segment:
  assumes own: "own_paths re \<subseteq> W" and s: "ds_ok re W s" and gt: "gate re W (ds_rv s) byI ok"
    and r: "recv_segment re byI ok seg data s = (e, s')"
  shows "adv re W (ds_rv s) (ds_rv s') \<and> ds_ok re W s'"
proof -
  let ?rv = "ds_rv s" and ?i = "the (byI (sg_FileIndex seg))"
  define bad where "bad \<longleftrightarrow> sg_FileIndex seg \<notin> ok \<or> sg_FileIndex seg \<in> ds_done s \<or>
         (case ds_cur s of None \<Rightarrow> False | Some rf \<Rightarrow> le_Index (ep_entry (plan_of ?rv rf)) \<noteq> sg_FileIndex seg)"
  define rv0 where "rv0 = (case ds_cur s of None \<Rightarrow> ?rv | Some rf \<Rightarrow> snd (abandon re False rf ?rv))"
  define opn where "opn = (case ds_cur s of
                None \<Rightarrow> openFile re ?i (sg_Restart seg) ?rv
              | Some rf \<Rightarrow>
                  if sg_Restart seg then (Inl [ErrProtocolError], decline re ErrCodeProtocolError ''restart mid-file'' ?rv)
                  else (Inr rf, ?rv))"
  obtain x rv1 where 1: "opn = (x, rv1)" by (metis surj_pair)
  note q = r [unfolded recv_segment_def Let_def bad_def [symmetric] rv0_def [symmetric] opn_def [symmetric] 1 prod.case]
  show ?thesis
  proof (cases bad)
    case True
    then have s': "s' = s\<lparr>ds_rv := decline re ErrCodeListingInvalid ''chunk for a file not awaiting data'' ?rv\<rparr>"
      using q by simp
    have "adv re W ?rv (decline re ErrCodeListingInvalid ''chunk for a file not awaiting data'' ?rv)" by (rule adv_silent)
    then show ?thesis using s rf_good_case [OF s] adv_pend by (auto simp: s' ds_ok_def)
  next
    case fine: False
    have gi: "good re W ?rv ?i" using fine gt by (simp add: bad_def gate_def)
    show ?thesis
    proof (cases "sg_Skip seg")
      case True
      let ?p = "(rv_plans rv0 ! ?i)\<lparr>ep_skipReason := Some SourceUnreadable\<rparr>"
      have s': "s' = s\<lparr>ds_rv := log_note (EntrySkipped (ep_rel ?p) SourceUnreadable) (rv0\<lparr>rv_plans := (rv_plans rv0)[?i := ?p]\<rparr>),
          ds_cur := None, ds_done := insert (sg_FileIndex seg) (ds_done s), ds_expected := ds_expected s - 1\<rparr>"
        using q fine True by simp
      have a0: "adv re W ?rv rv0" by (auto simp: rv0_def adv_abandon [OF own] split: option.split)
      have "adv re W rv0 (rv0\<lparr>rv_plans := (rv_plans rv0)[?i := ?p]\<rparr>)" by (rule adv_plan) (simp add: static_def)
      from adv_trans [OF adv_trans [OF a0 this] adv_silent(1)]
      have a: "adv re W ?rv (ds_rv s')" by (simp add: s')
      then show ?thesis using s adv_pend [OF a] by (simp add: ds_ok_def s')
    next
      case data: False
      have o': "adv re W ?rv rv1 \<and> (\<forall>rf. x = Inr rf \<longrightarrow> rf_good re W rv1 rf)"
        using 1 adv_openFile [OF own gi] s
        by (auto simp: opn_def ds_ok_def adv_silent split: option.splits if_splits)
      show ?thesis
      proof (cases x)
        case (Inl err)
        then have s': "s' = s\<lparr>ds_rv := rv1\<rparr>" using q fine data by simp
        then show ?thesis using o' adv_pend rf_good_case [OF s] s by (auto simp: ds_ok_def)
      next
        case (Inr rf)
        obtain e2 rf1 rv2 where 2: "rf_write re data rf rv1 = (e2, rf1, rv2)" by (metis surj_pair)
        have w: "adv re W rv1 rv2" "rf_good re W rv2 rf1" using adv_rf_write [OF own _ 2] o' Inr by auto
        then have a2: "adv re W ?rv rv2" using o' adv_trans by blast
        have p2: "pend_ok re W rv2" using adv_pend [OF a2] s by (simp add: ds_ok_def)
        obtain e3 rv3 where 3: "finalize re (sg_RootHash seg) rf1 rv2 = (e3, rv3)" by (metis surj_pair)
        have a3: "adv re W ?rv rv3"
          using adv_trans [OF a2 adv_finalize [OF own p2 w(2), of "sg_RootHash seg"]] by (simp add: 3)
        note a4 = adv_trans [OF a3 adv_silent(1)]
        note p3 = adv_pend [OF a3] adv_pend [OF a4]
        show ?thesis
          using q fine data Inr a2 a3 a4 w(2) p2 p3 s
          by (cases e2; cases e3; cases "sg_EOF seg") (auto simp: 2 3 ds_ok_def)
      qed
    qed
  qed
qed

lemma adv_recv_segments:
  assumes own: "own_paths re \<subseteq> W" and s: "ds_ok re W s" and gt: "gate re W (ds_rv s) byI ok"
    and r: "recv_segments re byI ok segs plain s = (e, s')"
  shows "adv re W (ds_rv s) (ds_rv s') \<and> ds_ok re W s'"
  using s gt r
proof (induction segs arbitrary: plain s)
  case (Cons seg segs)
  obtain e1 s1 where 1: "recv_segment re byI ok seg (take (unat (sg_Length seg)) plain) s = (e1, s1)" by (metis surj_pair)
  note a = adv_recv_segment [OF own Cons.prems(1,2) 1]
  show ?case
  proof (cases e1)
    case None
    have "adv re W (ds_rv s1) (ds_rv s') \<and> ds_ok re W s'"
      by (rule Cons.IH [of s1 "drop (unat (sg_Length seg)) plain"])
        (use a gate_adv Cons.prems 1 None in \<open>auto simp: Let_def\<close>)
    then show ?thesis using a adv_trans by blast
  next
    case (Some err)
    with Cons.prems 1 a show ?thesis by (auto simp: Let_def)
  qed
qed simp

lemma adv_next_chunk:
  assumes "ds_ok re W s" "next_chunk re s = (x, s')"
  shows "adv re W (ds_rv s) (ds_rv s') \<and> ds_ok re W s'"
proof -
  obtain y rd where rd: "ReadChunk (sm_data_in (rv_streams (ds_rv s))) = (y, rd)" by (metis surj_pair)
  let ?rv = "(ds_rv s)\<lparr>rv_streams := (rv_streams (ds_rv s))\<lparr>sm_data_in := rd\<rparr>\<rparr>"
  have s': "s' = s\<lparr>ds_rv := ?rv\<rparr>"
    using assms(2) by (auto simp: next_chunk_def rd Let_def split: sum.splits prod.splits)
  have a: "adv re W (ds_rv s) ?rv" by (rule adv_silent)
  show ?thesis using a adv_pend [OF a] rf_good_case [OF assms(1) a] assms(1) by (simp add: s' ds_ok_def)
qed

lemma adv_chunk_failed:
  assumes own: "own_paths re \<subseteq> W" and "ds_ok re W s" "chunk_failed re err s = (e, s')"
  shows "adv re W (ds_rv s) (ds_rv s') \<and> ds_ok re W s'"
proof -
  let ?rv = "ds_rv s"
  obtain y st where t: "tryReadPeerError (re_cd re) (rv_streams ?rv) = (y, st)" by (metis surj_pair)
  let ?rv1 = "?rv\<lparr>rv_streams := st\<rparr>"
  have a1: "adv re W ?rv ?rv1" by (rule adv_silent)
  consider "s' = s" | "s' = s\<lparr>ds_rv := ?rv1\<rparr>"
    | rf where "s' = s\<lparr>ds_rv := snd (abandon re False rf ?rv1), ds_cur := None\<rparr>"
    | "s' = s\<lparr>ds_rv := decline re ErrCodeProtocolError ''malformed chunk'' ?rv\<rparr>"
    using assms(3) by (auto simp: chunk_failed_def t Let_def split: if_splits option.splits)
  then show ?thesis
  proof cases
    case 1 then show ?thesis using assms(2) by simp
  next
    case 2 then show ?thesis using a1 adv_pend [OF a1] rf_good_case [OF assms(2) a1] assms(2) by (simp add: ds_ok_def)
  next
    case (3 rf)
    have a: "adv re W ?rv (snd (abandon re False rf ?rv1))" by (rule adv_trans [OF a1 adv_abandon [OF own]])
    with 3 show ?thesis using adv_pend [OF a] assms(2) by (simp add: ds_ok_def)
  next
    case 4
    have a: "adv re W ?rv (decline re ErrCodeProtocolError ''malformed chunk'' ?rv)" by (rule adv_silent)
    with 4 show ?thesis using adv_pend [OF a] rf_good_case [OF assms(2) a] assms(2) by (simp add: ds_ok_def)
  qed
qed

lemma adv_receive_loop:
  assumes "own_paths re \<subseteq> W" "ds_ok re W s" "gate re W (ds_rv s) byI ok" "receive_loop re byI ok t s = (e, s')"
  shows "adv re W (ds_rv s) (ds_rv s') \<and> ds_ok re W s'"
  using assms
proof (induction re byI ok t s rule: receive_loop.induct)
  case (1 re byI ok t s)
  note unf = 1(5) [unfolded receive_loop.simps [of re byI ok t s]]
  show ?case
  proof (cases "ds_expected s \<le> 0 \<or> re_ctx re t \<noteq> None")
    case True with unf 1(3) show ?thesis by (auto split: if_splits option.splits)
  next
    case go: False
    obtain x s1 where n: "next_chunk re s = (x, s1)" by (metis surj_pair)
    note a1 = adv_next_chunk [OF 1(3) n]
    show ?thesis
    proof (cases x)
      case (Inl err)
      with unf go n have "chunk_failed re err s1 = (the e, s')" by (auto simp: apfst_def map_prod_def split: prod.splits)
      from adv_chunk_failed [OF 1(2) _ this] a1 show ?thesis using adv_trans by blast
    next
      case (Inr sp)
      obtain segs plain where sp: "sp = (segs, plain)" by (metis surj_pair)
      obtain e2 s2 where 2: "recv_segments re byI ok segs plain s1 = (e2, s2)" by (metis surj_pair)
      have g1: "gate re W (ds_rv s1) byI ok" using a1 gate_adv 1(4) by blast
      have a2: "adv re W (ds_rv s1) (ds_rv s2) \<and> ds_ok re W s2"
        using adv_recv_segments [OF 1(2) _ g1 2] a1 by simp
      have a: "adv re W (ds_rv s) (ds_rv s2)" using a1 a2 adv_trans by blast
      show ?thesis
      proof (cases e2)
        case None
        have "adv re W (ds_rv s2) (ds_rv s') \<and> ds_ok re W s'"
        proof (rule 1(1))
          show "\<not> ds_expected s \<le> 0" "re_ctx re t = None" using go by auto
          show "(Inr (segs, plain), s1) = next_chunk re s" by (simp add: n Inr sp)
          show "(None, s2) = recv_segments re byI ok segs plain s1" by (simp add: 2 None)
          show "receive_loop re byI ok (Suc t) s2 = (e, s')" using unf go n Inr sp 2 None by simp
        qed (use 1(2) a2 gate_adv [OF a] 1(4) in auto)
        then show ?thesis using a adv_trans by blast
      next
        case (Some err)
        with unf go n Inr sp 2 a a2 show ?thesis by auto
      qed
    qed
  qed
qed

lemma adv_receiveData:
  assumes own: "own_paths re \<subseteq> W" and pend: "pend_ok re W rv" and gt: "gate re W rv byI (allowed (rv_plans rv) ds)"
    and r: "receiveData re byI ds expected rv = (e, rv')"
  shows "adv re W rv rv'"
proof (cases "expected = 0")
  case True with r show ?thesis by (simp add: receiveData_def)
next
  case False
  let ?s0 = "\<lparr>ds_rv = rv, ds_cur = None, ds_done = {}, ds_expected = expected\<rparr>"
  obtain e1 s where l: "receive_loop re byI (allowed (rv_plans rv) ds) 0 ?s0 = (e1, s)" by (metis surj_pair)
  have a: "adv re W rv (ds_rv s)"
    using adv_receive_loop [OF own _ _ l] pend gt by (simp add: ds_ok_def)
  show ?thesis
    using r False a adv_trans [OF a adv_abandon [OF own]]
    by (auto simp: receiveData_def l split: option.splits)
qed


section \<open>The run\<close>

text \<open>
  The paths the receiver's own decisions open: those of the entries it did not decide to skip,
  and its store.
\<close>

definition asked :: "recv_env \<Rightarrow> entryPlan list \<Rightarrow> Decision list \<Rightarrow> string set" where
  "asked re ps ds = own_paths re \<union>
     (\<Union>i\<in>{i. i < length ps \<and> d_Action (ds ! i) \<noteq> DecisionSkip}.
        {ep_target (ps ! i), ev_tmp (re_env re) (ep_target (ps ! i)), ep_partial (ps ! i)})"

lemma asked_good: "i < length (rv_plans rv) \<Longrightarrow> d_Action (ds ! i) \<noteq> DecisionSkip \<Longrightarrow>
  good re (asked re (rv_plans rv) ds) rv i"
  by (auto simp: good_def asked_def)

lemma keeps_repair: "keeps W d (repairIdenticalMode re p d)"
  by (auto simp: repairIdenticalMode_def Let_def split: option.split node.split intro: keeps_ignoring keeps_Chmod)

lemma keeps_restore_mode: "keeps W d (restore_mode re p d)"
  by (auto simp: restore_mode_def Let_def split: option.split node.split intro: keeps_ignoring keeps_Chmod)

lemma keeps_restoreDirModes: "keeps W d (restoreDirModes re ps d)"
  by (simp add: restoreDirModes_def adv_fold_disk keeps_restore_mode)

lemma adv_materialize_loop:
  assumes "own_paths re \<subseteq> W" "pend_ok re W rv" "materialize_loop re ds i n ex rv = (e, ex', rv')"
    "\<And>j. i \<le> j \<Longrightarrow> j < i + n \<Longrightarrow> d_Action (ds ! j) \<noteq> DecisionSkip \<Longrightarrow> good re W rv j"
  shows "adv re W rv rv'"
  using assms
proof (induction re ds i n ex rv rule: materialize_loop.induct)
  case (2 re ds i n ex rv)
  let ?rv1 = "if ep_disp (rv_plans rv ! i) = dispIdentical
     then rv\<lparr>rv_disk := repairIdenticalMode re (rv_plans rv ! i) (rv_disk rv)\<rparr> else rv"
  obtain e1 rv1 where m: "materialize re i rv = (e1, rv1)" by (metis surj_pair)
  consider (skip) "d_Action (ds ! i) = DecisionSkip"
    | (data) "d_Action (ds ! i) \<noteq> DecisionSkip" "awaits_data (rv_plans rv ! i)"
    | (make) "d_Action (ds ! i) \<noteq> DecisionSkip" "\<not> awaits_data (rv_plans rv ! i)" by blast
  then show ?case
  proof cases
    case skip
    have a: "adv re W rv ?rv1" by (simp add: adv_disk keeps_repair)
    have "adv re W ?rv1 rv'"
      by (rule 2(1) [OF refl skip]) (use 2(4-7) skip adv_pend [OF a] adv_good [OF a] in \<open>auto simp: Let_def\<close>)
    with a show ?thesis by (rule adv_trans)
  next
    case data
    show ?thesis by (rule 2(2) [OF refl data]) (use 2(4-7) data in \<open>auto simp: Let_def\<close>)
  next
    case make
    have a: "adv re W rv rv1" using adv_materialize [OF 2(4,5) 2(7)] make m by (metis le_refl less_add_same_cancel1 snd_conv zero_less_Suc)
    show ?thesis
    proof (cases e1)
      case None
      have "adv re W rv1 rv'"
        by (rule 2(3) [OF refl make m [symmetric]])
          (use 2(4-7) make m None adv_pend [OF a] adv_good [OF a] in \<open>auto simp: Let_def\<close>)
      with a show ?thesis by (rule adv_trans)
    next
      case (Some err) with 2(6) make m a show ?thesis by (auto simp: Let_def)
    qed
  qed
qed simp

lemma byIndex_distinct:
  assumes "distinct (map (\<lambda>p. le_Index (ep_entry p)) ps)" "j < length ps"
  shows "byIndex ps (le_Index (ep_entry (ps ! j))) = Some j"
  unfolding byIndex_def
proof (rule map_of_is_SomeI)
  show "distinct (map fst (rev (zip (map (\<lambda>p. le_Index (ep_entry p)) ps) [0..<length ps])))"
    using assms(1) by (simp add: rev_map [symmetric] map_fst_zip)
  show "(le_Index (ep_entry (ps ! j)), j) \<in> set (rev (zip (map (\<lambda>p. le_Index (ep_entry p)) ps) [0..<length ps]))"
    using assms(2) by (auto simp: in_set_zip intro!: exI [of _ j])
qed

lemma byIndex_static: "map static ps = map static ps' \<Longrightarrow> byIndex ps = byIndex ps'"
proof -
  assume a: "map static ps = map static ps'"
  have e: "map (\<lambda>p. le_Index (ep_entry p)) qs = map (le_Index \<circ> fst) (map static qs)" for qs
    by (simp add: static_def)
  show ?thesis using static_length [OF a] unfolding byIndex_def e a by simp
qed

lemma gate_asked:
  assumes st: "map static (rv_plans rv1) = map static (rv_plans (rv :: receiver))"
    and ds: "length ds = length (rv_plans rv)"
      "\<And>j. j < length ds \<Longrightarrow> d_Index (ds ! j) = le_Index (ep_entry (rv_plans rv ! j))"
    and dist: "distinct (map (\<lambda>p. le_Index (ep_entry p)) (rv_plans rv))"
  shows "gate re (asked re (rv_plans rv) ds) (rv1 :: receiver) (byIndex (rv_plans rv)) (allowed (rv_plans rv1) ds)"
  unfolding gate_def
proof
  fix idx assume "idx \<in> allowed (rv_plans rv1) ds"
  then obtain j where j: "j < length ds" "d_Index (ds ! j) = idx" "d_Action (ds ! j) \<noteq> DecisionSkip"
    by (auto simp: allowed_def in_set_conv_nth)
  have "byIndex (rv_plans rv) idx = Some j"
    using byIndex_distinct [OF dist] j(1,2) ds by auto
  then show "good re (asked re (rv_plans rv) ds) rv1 (the (byIndex (rv_plans rv) idx))"
    using asked_good [of j rv ds re] j(1,3) ds(1) good_static [OF st] by simp
qed

lemma adv_run_body:
  assumes r: "run_body re ds rv = (e, rv')" and pend: "rv_pending rv = []"
    and ds: "length ds = length (rv_plans rv)"
      "\<And>j. j < length ds \<Longrightarrow> d_Index (ds ! j) = le_Index (ep_entry (rv_plans rv ! j))"
    and dist: "distinct (map (\<lambda>p. le_Index (ep_entry p)) (rv_plans rv))"
  shows "adv re (asked re (rv_plans rv) ds) rv rv'"
proof -
  let ?W = "asked re (rv_plans rv) ds"
  have own: "own_paths re \<subseteq> ?W" by (auto simp: asked_def)
  have pend: "pend_ok re ?W rv" by (simp add: pend_ok_def pend)
  obtain e1 ex rv1 where 1: "materialize_loop re ds 0 (length (rv_plans rv)) 0 rv = (e1, ex, rv1)" by (metis surj_pair)
  obtain e2 rv2 where 2: "receiveData re (byIndex (rv_plans rv)) ds ex rv1 = (e2, rv2)" by (metis surj_pair)
  obtain e3 rv3 where 3: "commit_flush re rv2 = (e3, rv3)" by (metis surj_pair)
  define rv5 where "rv5 = (dirs_restore re rv3)\<lparr>rv_disk := restoreDirModes re (rv_plans (dirs_restore re rv3))
      (rv_disk (dirs_restore re rv3))\<rparr>"
  obtain e6 rv6 where 6: "on_streams (finishRecv (re_cd re)) rv5 = (e6, rv6)" by (metis surj_pair)
  have a1: "adv re ?W rv rv1"
    by (rule adv_materialize_loop [OF own pend 1]) (simp add: asked_good)
  have "map static (rv_plans rv1) = map static (rv_plans rv)" using a1 by (simp add: adv_def)
  from adv_receiveData [OF own adv_pend [OF a1 pend] gate_asked [OF this ds dist] 2]
  have a2: "adv re ?W rv rv2" using a1 adv_trans by blast
  have a3: "adv re ?W rv rv3"
    using adv_trans [OF a2 adv_commit_flush [OF own adv_pend [OF a2 pend]]] by (simp add: 3)
  have a5: "adv re ?W rv rv5"
    unfolding rv5_def by (rule adv_trans [OF adv_trans [OF a3 adv_dirs_restore] adv_disk [OF keeps_restoreDirModes]])
  have a6: "adv re ?W rv rv6"
    using 6 adv_trans [OF a5 adv_silent(4)] by (auto simp: on_streams_def split: prod.splits)
  have tidy: "adv re ?W rv0 (rv0\<lparr>rv_disk := ps_tidy (re_env re) (rv_disk rv0)\<rparr>)" for rv0 :: receiver
    by (rule adv_disk) (simp add: ps_tidy_def ignoring_def keeps_Remove asked_def)
  show ?thesis
    using r a1 a2 a3 a6 adv_trans [OF a6 tidy] adv_trans [OF adv_trans [OF a6 adv_silent(1)] tidy]
    unfolding run_body_def Let_def 1 2 3 prod.case rv5_def [symmetric] 6
    by (cases e1; cases e2; cases e3; cases e6) (auto simp: 1 2 3 6 rv5_def [symmetric])
qed

lemma decide_index:
  "fst (decide_all re pol rv) = map (\<lambda>p. fst (planToDecision (re_env re) p (pol = ConflictReplace))) (rv_plans rv)"
  by (simp add: decide_all_def Let_def comp_def)

lemma planToDecision_index: "d_Index (fst (planToDecision ev p b)) = le_Index (ep_entry p)"
  by (simp add: planToDecision_def Let_def split: disposition.split)

section \<open>Properties\<close>


definition kept_receiver :: receiver where
  "kept_receiver = sample_receiver\<lparr>rv_disk := dk_put ''/r/f'' (NFile [9] 420 1) sample_disk,
     rv_plans := [new_plan sample_entry ''f'' ''/r/f'' dispDiffers]\<rparr>"


end
