(* ===== verification/Cpace.thy ===== *)
theory Cpace
  imports Fs_Errors
begin

text \<open>
  \<open>internal/pake/pake.go\<close>: CPace with X25519 and SHA-512. The group operation and the hash are
  Go's standard library and a field package; they are bundled in \<open>pake_prims\<close> as they are
  called: \<open>pp_x25519 scalar u\<close> is \<open>None\<close> for a point of the wrong length or a neutral result,
  and the field elements of the Elligator2 map are the type variable \<open>'f\<close>.
\<close>

record 'f pake_prims =
  pp_sha512 :: "bytes \<Rightarrow> bytes"
  pp_x25519 :: "bytes \<Rightarrow> bytes \<Rightarrow> bytes option"
  pp_set_bytes :: "bytes \<Rightarrow> 'f"
  pp_one :: 'f
  pp_curveA :: 'f
  pp_add :: "'f \<Rightarrow> 'f \<Rightarrow> 'f"
  pp_mul :: "'f \<Rightarrow> 'f \<Rightarrow> 'f"
  pp_inv :: "'f \<Rightarrow> 'f"
  pp_neg :: "'f \<Rightarrow> 'f"
  pp_is_square :: "'f \<Rightarrow> bool"
  pp_bytes :: "'f \<Rightarrow> bytes"

definition ShareSize :: nat where "ShareSize = 32"

definition dsi :: bytes where "dsi = map byte_of_char ''CPace255''"

definition dsi_isk :: bytes where "dsi_isk = dsi @ map byte_of_char ''_ISK''"

definition sha512BlockSize :: nat where "sha512BlockSize = 128"

section \<open>Length-prefixed strings\<close>

text \<open>The loop of \<open>prependLen\<close>: the LEB128 digits of a length.\<close>

function leb128 :: "nat \<Rightarrow> bytes" where
  "leb128 n = (if n < 128 then [of_nat n] else (of_nat (n mod 128) OR 0x80) # leb128 (n div 128))"
  by pat_completeness auto
termination by (relation "measure id") auto

declare leb128.simps [simp del]

definition prependLen :: "bytes \<Rightarrow> bytes" where
  "prependLen d = leb128 (length d) @ d"

definition lvCat :: "bytes list \<Rightarrow> bytes" where
  "lvCat args = concat (map prependLen args)"

definition transcriptIR :: "bytes \<Rightarrow> bytes \<Rightarrow> bytes \<Rightarrow> bytes \<Rightarrow> bytes" where
  "transcriptIR ya ada yb adb = lvCat [ya, ada] @ lvCat [yb, adb]"

section \<open>The generator\<close>

definition generatorString :: "bytes \<Rightarrow> bytes \<Rightarrow> bytes \<Rightarrow> bytes" where
  "generatorString prs ci sid =
     (let zpad = sha512BlockSize - 1 - length (prependLen prs) - length (prependLen dsi)
      in lvCat [dsi, prs, replicate zpad 0, ci, sid])"

definition elligator2 :: "'f pake_prims \<Rightarrow> bytes \<Rightarrow> bytes" where
  "elligator2 pp b =
     (let buf = take 32 (b @ replicate 32 0);
          r = pp_set_bytes pp (buf[31 := buf ! 31 AND 0x7F]);
          sq = pp_mul pp r r;
          den = pp_inv pp (pp_add pp (pp_add pp sq sq) (pp_one pp));
          v = pp_neg pp (pp_mul pp (pp_curveA pp) den);
          gx = pp_mul pp (pp_add pp (pp_mul pp (pp_add pp v (pp_curveA pp)) v) (pp_one pp)) v;
          alt = pp_add pp (pp_neg pp v) (pp_neg pp (pp_curveA pp))
      in pp_bytes pp (if pp_is_square pp gx then v else alt))"

definition calculateGenerator :: "'f pake_prims \<Rightarrow> bytes \<Rightarrow> bytes \<Rightarrow> bytes \<Rightarrow> bytes" where
  "calculateGenerator pp prs ci sid =
     elligator2 pp (take ShareSize (pp_sha512 pp (generatorString prs ci sid)))"

section \<open>A run\<close>

datatype role = Initiator | Responder

record pake_params =
  pa_PRS :: bytes
  pa_CI :: bytes
  pa_SID :: bytes
  pa_AD :: bytes

record pake_state =
  ps_role :: role
  ps_sid :: bytes
  ps_ad :: bytes
  ps_priv :: bytes
  ps_share :: bytes
  ps_usedUp :: bool

datatype pake_error = InvalidShare | AlreadyFinished | BadScalar

definition scalarMult :: "'f pake_prims \<Rightarrow> bytes \<Rightarrow> bytes \<Rightarrow> bytes option" where
  "scalarMult pp priv u = pp_x25519 pp priv u"

text \<open>\<open>New\<close> with the scalar it samples; a scalar of the wrong length is refused.\<close>

definition pake_New :: "'f pake_prims \<Rightarrow> role \<Rightarrow> pake_params \<Rightarrow> bytes \<Rightarrow> pake_error + pake_state" where
  "pake_New pp r p scalar =
     (if length scalar \<noteq> ShareSize then Inl BadScalar
      else case scalarMult pp scalar (calculateGenerator pp (pa_PRS p) (pa_CI p) (pa_SID p)) of
        None \<Rightarrow> Inl InvalidShare
      | Some share \<Rightarrow>
          Inr \<lparr>ps_role = r, ps_sid = pa_SID p, ps_ad = pa_AD p, ps_priv = scalar, ps_share = share, ps_usedUp = False\<rparr>)"

definition isk_input :: "bytes \<Rightarrow> bytes \<Rightarrow> bytes \<Rightarrow> bytes \<Rightarrow> bytes \<Rightarrow> bytes \<Rightarrow> bytes" where
  "isk_input sid k ya ada yb adb = lvCat [dsi_isk, sid, k] @ transcriptIR ya ada yb adb"

definition pake_Finish ::
  "'f pake_prims \<Rightarrow> bytes \<Rightarrow> bytes \<Rightarrow> pake_state \<Rightarrow> (pake_error + bytes) \<times> pake_state" where
  "pake_Finish pp peerShare peerAD s =
     (if ps_usedUp s then (Inl AlreadyFinished, s)
      else
        let s1 = s\<lparr>ps_usedUp := True\<rparr> in
        if length peerShare \<noteq> ShareSize then (Inl InvalidShare, s1)
        else case scalarMult pp (ps_priv s) peerShare of
          None \<Rightarrow> (Inl InvalidShare, s1)
        | Some k \<Rightarrow>
            (Inr (pp_sha512 pp
               (case ps_role s of
                  Initiator \<Rightarrow> isk_input (ps_sid s) k (ps_share s) (ps_ad s) peerShare peerAD
                | Responder \<Rightarrow> isk_input (ps_sid s) k peerShare peerAD (ps_share s) (ps_ad s))), s1))"

section \<open>The encoding is injective\<close>

lemma leb128_digit:
  assumes "n < 128"
  shows "unat (of_nat n :: byte) = n" "unat ((of_nat n :: byte) OR 0x80) = n + 128"
proof -
  show "unat (of_nat n :: byte) = n" using assms by (simp add: unat_of_nat)
  have "list_all (\<lambda>n. unat ((of_nat n :: byte) OR 0x80) = n + 128) [0..<128]" by code_simp
  then show "unat ((of_nat n :: byte) OR 0x80) = n + 128" using assms by (simp add: list_all_iff)
qed

lemma leb128_low: "n < 128 \<Longrightarrow> leb128 n = [of_nat n]"
  by (subst leb128.simps) simp

lemma leb128_high: "\<not> n < 128 \<Longrightarrow> leb128 n = (of_nat (n mod 128) OR 0x80) # leb128 (n div 128)"
  by (subst leb128.simps) simp

lemma leb128_prefix_free: "leb128 m @ x = leb128 n @ y \<Longrightarrow> m = n \<and> x = y"
proof (induction m arbitrary: n rule: less_induct)
  case (less m)
  have d: "unat (of_nat (k mod 128) OR 0x80 :: byte) = k mod 128 + 128" for k by (rule leb128_digit) simp
  show ?case
  proof (cases "m < 128"; cases "n < 128")
    assume a: "m < 128" "n < 128"
    have h: "(of_nat m :: byte) # x = of_nat n # y"
      using less.prems unfolding leb128_low [OF a(1)] leb128_low [OF a(2)] append.simps .
    then have "unat (of_nat m :: byte) = unat (of_nat n :: byte)" by (metis list.inject)
    then show ?thesis using h leb128_digit(1) [OF a(1)] leb128_digit(1) [OF a(2)] by (metis list.inject)
  next
    assume a: "m < 128" "\<not> n < 128"
    have "(of_nat m :: byte) # x = (of_nat (n mod 128) OR 0x80) # leb128 (n div 128) @ y"
      using less.prems unfolding leb128_low [OF a(1)] leb128_high [OF a(2)] append.simps .
    then have "unat (of_nat m :: byte) = n mod 128 + 128" unfolding d [symmetric] by (metis list.inject)
    with a show ?thesis unfolding leb128_digit(1) [OF a(1)] by linarith
  next
    assume a: "\<not> m < 128" "n < 128"
    have "(of_nat (m mod 128) OR 0x80) # leb128 (m div 128) @ x = (of_nat n :: byte) # y"
      using less.prems unfolding leb128_high [OF a(1)] leb128_low [OF a(2)] append.simps .
    then have "unat (of_nat n :: byte) = m mod 128 + 128" unfolding d [symmetric] by (metis list.inject)
    with a show ?thesis unfolding leb128_digit(1) [OF a(2)] by linarith
  next
    assume a: "\<not> m < 128" "\<not> n < 128"
    have h: "(of_nat (m mod 128) OR 0x80 :: byte) # leb128 (m div 128) @ x
        = (of_nat (n mod 128) OR 0x80) # leb128 (n div 128) @ y"
      using less.prems unfolding leb128_high [OF a(1)] leb128_high [OF a(2)] append.simps .
    then have "unat (of_nat (m mod 128) OR 0x80 :: byte) = unat (of_nat (n mod 128) OR 0x80 :: byte)"
      by (metis list.inject)
    then have 1: "m mod 128 = n mod 128" unfolding d by linarith
    have t: "leb128 (m div 128) @ x = leb128 (n div 128) @ y" using h by (rule list.inject [THEN iffD1, THEN conjunct2])
    have "m div 128 < m" using a(1) by simp
    from less.IH [OF this t] have 2: "m div 128 = n div 128" "x = y" by simp_all
    show ?thesis using 1 2 div_mult_mod_eq [of m 128] div_mult_mod_eq [of n 128] by metis
  qed
qed

lemma prependLen_prefix_free: "prependLen a @ x = prependLen b @ y \<Longrightarrow> a = b \<and> x = y"
  using leb128_prefix_free [of "length a" "a @ x" "length b" "b @ y"] append_eq_append_conv [of a b x y]
  by (auto simp: prependLen_def)

lemma lvCat_inject: "length as = length bs \<Longrightarrow> lvCat as @ x = lvCat bs @ y \<Longrightarrow> as = bs \<and> x = y"
proof (induction as bs arbitrary: x y rule: list_induct2)
  case (Cons a as b bs)
  from Cons.prems have "prependLen a @ lvCat as @ x = prependLen b @ lvCat bs @ y" by (simp add: lvCat_def)
  from prependLen_prefix_free [OF this] Cons.IH [of x y] show ?case by simp
qed (simp add: lvCat_def)

lemma isk_input_inject:
  assumes "isk_input sid k ya ada yb adb = isk_input sid' k' ya' ada' yb' adb'"
  shows "sid = sid' \<and> k = k' \<and> ya = ya' \<and> ada = ada' \<and> yb = yb' \<and> adb = adb'"
proof -
  have "lvCat [dsi_isk, sid, k] @ transcriptIR ya ada yb adb = lvCat [dsi_isk, sid', k'] @ transcriptIR ya' ada' yb' adb'"
    using assms by (simp add: isk_input_def)
  from lvCat_inject [OF _ this] have 1: "sid = sid'" "k = k'" "transcriptIR ya ada yb adb = transcriptIR ya' ada' yb' adb'"
    by auto
  from lvCat_inject [OF _ 1(3) [unfolded transcriptIR_def]] have 2: "ya = ya'" "ada = ada'"
    "lvCat [yb, adb] = lvCat [yb', adb']" by auto
  from lvCat_inject [of "[yb, adb]" "[yb', adb']" "[]" "[]"] 2 1 show ?thesis by auto
qed

section \<open>Properties\<close>

text \<open>
  The two ends of an honest CPace run derive the same key: when both were given the same
  password, channel and session, and each finishes with the other's share and associated data,
  they get the same 64 bytes and neither fails, provided X25519 commutes, keeps its length and
  is not neutral on these scalars.
\<close>

theorem cpace_agree:
  assumes a: "pake_New pp Initiator \<lparr>pa_PRS = prs, pa_CI = ci, pa_SID = sid, pa_AD = ada\<rparr> x = Inr sa"
    and b: "pake_New pp Responder \<lparr>pa_PRS = prs, pa_CI = ci, pa_SID = sid, pa_AD = adb\<rparr> y = Inr sb"
    and len: "length (ps_share sa) = ShareSize" "length (ps_share sb) = ShareSize"
    and dh: "pp_x25519 pp x (ps_share sb) = Some k" "pp_x25519 pp y (ps_share sa) = Some k"
  shows "\<exists>isk. fst (pake_Finish pp (ps_share sb) adb sa) = Inr isk \<and> fst (pake_Finish pp (ps_share sa) ada sb) = Inr isk"
proof -
  have "ps_role sa = Initiator" "ps_sid sa = sid" "ps_ad sa = ada" "ps_priv sa = x" "\<not> ps_usedUp sa"
    "ps_role sb = Responder" "ps_sid sb = sid" "ps_ad sb = adb" "ps_priv sb = y" "\<not> ps_usedUp sb"
    using a b by (auto simp: pake_New_def split: if_splits option.splits)
  then show ?thesis using len dh by (simp add: pake_Finish_def scalarMult_def)
qed

text \<open>Toy primitives for the witnesses: scalars multiply by concatenation, which commutes on units.\<close>

definition toy_prims :: "nat pake_prims" where
  "toy_prims = \<lparr>pp_sha512 = \<lambda>b. b, pp_x25519 = \<lambda>s u. if length u = ShareSize then Some (map2 (+) s u) else None,
     pp_set_bytes = length, pp_one = 1, pp_curveA = 0, pp_add = (+), pp_mul = (*), pp_inv = id, pp_neg = id,
     pp_is_square = (\<lambda>n. True), pp_bytes = \<lambda>n. replicate 32 0\<rparr>"

lemma toy_New:
  "length x = ShareSize \<Longrightarrow>
   pake_New toy_prims r p x = Inr \<lparr>ps_role = r, ps_sid = pa_SID p, ps_ad = pa_AD p, ps_priv = x, ps_share = x, ps_usedUp = False\<rparr>"
  by (auto simp: pake_New_def toy_prims_def scalarMult_def calculateGenerator_def elligator2_def Let_def ShareSize_def
      intro!: nth_equalityI)

theorem cpace_agree_witness:
  "\<exists>sa sb isk. fst (pake_Finish toy_prims (ps_share sb) [2] sa) = Inr isk
     \<and> fst (pake_Finish toy_prims (ps_share sa) [1] sb) = Inr isk
     \<and> ps_share sa = replicate 32 5 \<and> ps_share sb = replicate 32 7"
proof -
  let ?s = "\<lambda>r ad x. \<lparr>ps_role = r, ps_sid = [9], ps_ad = ad, ps_priv = x, ps_share = x, ps_usedUp = False\<rparr>"
  let ?x = "replicate 32 5 :: bytes" and ?y = "replicate 32 7 :: bytes"
  have l: "length ?x = ShareSize" "length ?y = ShareSize" by (simp_all add: ShareSize_def)
  from cpace_agree [of toy_prims "[3]" "[4]" "[9]" "[1]" ?x "?s Initiator [1] ?x" "[2]" ?y "?s Responder [2] ?y" "replicate 32 12"]
  have "\<exists>isk. fst (pake_Finish toy_prims ?y [2] (?s Initiator [1] ?x)) = Inr isk
     \<and> fst (pake_Finish toy_prims ?x [1] (?s Responder [2] ?y)) = Inr isk"
    by (simp add: toy_New l) (simp add: toy_prims_def ShareSize_def zip_replicate)
  then show ?thesis
    by (intro exI [of _ "?s Initiator [1] ?x"] exI [of _ "?s Responder [2] ?y"]) simp
qed

text \<open>
  What CPace hashes binds its inputs: two generator strings are equal only for the same
  password, channel and session, and two key inputs only for the same session, group element,
  shares and associated data in initiator and responder order, so that nothing can be shifted
  from one field into another.
\<close>

theorem cpace_binds:
  "(generatorString prs ci sid = generatorString prs' ci' sid' \<longleftrightarrow> prs = prs' \<and> ci = ci' \<and> sid = sid') \<and>
   (isk_input sid k ya ada yb adb = isk_input sid' k' ya' ada' yb' adb' \<longleftrightarrow>
      sid = sid' \<and> k = k' \<and> ya = ya' \<and> ada = ada' \<and> yb = yb' \<and> adb = adb')"
proof
  show "generatorString prs ci sid = generatorString prs' ci' sid' \<longleftrightarrow> prs = prs' \<and> ci = ci' \<and> sid = sid'"
    using lvCat_inject [of "[dsi, prs, replicate z 0, ci, sid]" "[dsi, prs', replicate z' 0, ci', sid']" "[]" "[]" for z z']
    by (auto simp: generatorString_def Let_def)
  show "isk_input sid k ya ada yb adb = isk_input sid' k' ya' ada' yb' adb' \<longleftrightarrow>
      sid = sid' \<and> k = k' \<and> ya = ya' \<and> ada = ada' \<and> yb = yb' \<and> adb = adb'"
    using isk_input_inject by blast
qed

end
