(* ===== verification/Password_Gate.thy ===== *)
theory Password_Gate
  imports Transfer_Control Cpace
begin

text \<open>
  \<open>internal/transfer/password.go\<close>: the password gate, a CPace run inside the session with the
  password as its secret. HMAC, the random nonces and scalars, the session binding and the gob
  encodings of the three messages are the argument \<open>pw_env\<close>. The sender's loop has no bound of its own,
  so it is a partial function whose \<open>None\<close> is not returning.
\<close>

record 'f pw_env =
  pw_pp :: "'f pake_prims"
  pw_cd :: codecs
  pw_hmac :: "bytes \<Rightarrow> bytes \<Rightarrow> bytes"
  pw_binding :: bytes
  pw_nonce :: "nat \<Rightarrow> bytes option"
  pw_scalar :: "nat \<Rightarrow> bytes"
  pw_ch_enc :: "PasswordChallenge \<Rightarrow> bytes option"
  pw_ch_dec :: "bytes \<Rightarrow> PasswordChallenge option"
  pw_resp_enc :: "PasswordResponse \<Rightarrow> bytes option"
  pw_resp_dec :: "bytes \<Rightarrow> PasswordResponse option"
  pw_ver_enc :: "PasswordVerified \<Rightarrow> bytes option"
  pw_ver_dec :: "bytes \<Rightarrow> PasswordVerified option"

definition PasswordAttempts :: nat where "PasswordAttempts = 3"

definition adPwSender :: bytes where "adPwSender = map byte_of_char ''fsend password sender''"
definition adPwReceiver :: bytes where "adPwReceiver = map byte_of_char ''fsend password receiver''"

definition passwordTag :: "'f pw_env \<Rightarrow> bytes \<Rightarrow> bytes \<Rightarrow> bytes \<Rightarrow> bytes \<Rightarrow> bytes \<Rightarrow> bytes" where
  "passwordTag pe isk who nonce senderShare receiverShare =
     pw_hmac pe isk (who @ nonce @ senderShare @ receiverShare)"

definition pw_params :: "'f pw_env \<Rightarrow> string \<Rightarrow> bytes \<Rightarrow> bytes \<Rightarrow> pake_params" where
  "pw_params pe password nonce ad =
     \<lparr>pa_PRS = map byte_of_char password, pa_CI = pw_binding pe, pa_SID = nonce, pa_AD = ad\<rparr>"

definition zero32 :: bytes where "zero32 = replicate 32 0"

section \<open>The sender\<close>

datatype pw_outcome = PwDone "goerr option" | PwAgain

text \<open>What the sender makes of a response: whether the receiver knew the password, and its own proof.\<close>

definition check_response ::
  "'f pw_env \<Rightarrow> pake_state \<Rightarrow> bytes \<Rightarrow> PasswordResponse \<Rightarrow> pake_error + bytes option" where
  "check_response pe st nonce resp =
     (case fst (pake_Finish (pw_pp pe) (pr_Share resp) adPwReceiver st) of
        Inl e \<Rightarrow> Inl e
      | Inr isk \<Rightarrow>
          Inr (if passwordTag pe isk adPwReceiver nonce (ps_share st) (pr_Share resp) = pr_Tag resp
               then Some (passwordTag pe isk adPwSender nonce (ps_share st) (pr_Share resp)) else None))"

definition sender_verdict ::
  "'f pw_env \<Rightarrow> nat \<Rightarrow> pake_state \<Rightarrow> bytes \<Rightarrow> PasswordResponse \<Rightarrow> streams \<Rightarrow> pw_outcome \<times> streams" where
  "sender_verdict pe attempt st nonce resp s =
     (case check_response pe st nonce resp of
        Inl e \<Rightarrow> (PwDone (Some [ErrProtocolError]), s)
      | Inr (Some tag) \<Rightarrow> apfst PwDone (send_frame (pw_ver_enc pe) TypePasswordVerified (Some \<lparr>pv_Tag = tag\<rparr>) s)
      | Inr None \<Rightarrow>
          let s1 = snd (send_frame (gob_error_enc (pw_cd pe)) TypeError
                     (Some \<lparr>ef_Code = ErrCodeWrongPassword, ef_Message = ''wrong password''\<rparr>) s)
          in if attempt = PasswordAttempts then (PwDone (Some [ErrWrongPassword]), drainControl s1) else (PwAgain, s1))"

definition sender_attempt :: "'f pw_env \<Rightarrow> string \<Rightarrow> nat \<Rightarrow> streams \<Rightarrow> pw_outcome \<times> streams" where
  "sender_attempt pe password attempt s =
     (case pw_nonce pe attempt of
        None \<Rightarrow> (PwDone (Some []), s)
      | Some nonce \<Rightarrow>
          (case pake_New (pw_pp pe) Initiator (pw_params pe password nonce adPwSender) (pw_scalar pe attempt) of
             Inl e \<Rightarrow> (PwDone (Some []), s)
           | Inr st \<Rightarrow>
               (case send_frame (pw_ch_enc pe) TypePasswordChallenge (Some \<lparr>pc_Nonce = nonce, pc_Share = ps_share st\<rparr>) s of
                  (Some e, s1) \<Rightarrow> (PwDone (Some (if 1 < attempt then [ErrWrongPassword] else e)), s1)
                | (None, s1) \<Rightarrow>
                    (case recv_frame s1 of
                       (Inl e, s2) \<Rightarrow> (PwDone (Some (if 1 < attempt then [ErrWrongPassword] else e)), s2)
                     | (Inr (ft, body), s2) \<Rightarrow>
                         if ft = TypeError then (PwDone (Some (peerError (pw_cd pe) body)), s2)
                         else if ft \<noteq> TypePasswordResponse then (PwDone (Some [ErrProtocolError]), s2)
                         else (case Decode (pw_resp_dec pe) body True of
                                 Inl e \<Rightarrow> (PwDone (Some e), s2)
                               | Inr resp \<Rightarrow>
                                   sender_verdict pe attempt st nonce
                                     (case resp of None \<Rightarrow> \<lparr>pr_Share = zero32, pr_Tag = zero32\<rparr> | Some r \<Rightarrow> r) s2)))))"

partial_function (option) sender_loop ::
  "'f pw_env \<Rightarrow> string \<Rightarrow> nat \<Rightarrow> streams \<Rightarrow> (goerr option \<times> streams) option" where
  [code]: "sender_loop pe password attempt s =
     (case sender_attempt pe password attempt s of
        (PwDone r, s1) \<Rightarrow> Some (r, s1)
      | (PwAgain, s1) \<Rightarrow> sender_loop pe password (Suc attempt) s1)"

definition senderPasswordHandshake ::
  "'f pw_env \<Rightarrow> string \<Rightarrow> streams \<Rightarrow> (goerr option \<times> streams) option" where
  "senderPasswordHandshake pe password s = sender_loop pe password 1 s"

section \<open>The receiver\<close>

definition make_response ::
  "'f pw_env \<Rightarrow> pake_state \<Rightarrow> bytes \<Rightarrow> PasswordChallenge \<Rightarrow> PasswordResponse" where
  "make_response pe st isk ch =
     \<lparr>pr_Share = ps_share st, pr_Tag = passwordTag pe isk adPwReceiver (pc_Nonce ch) (pc_Share ch) (ps_share st)\<rparr>"

definition receiver_verdict ::
  "'f pw_env \<Rightarrow> bool \<Rightarrow> bytes \<Rightarrow> PasswordChallenge \<Rightarrow> bytes \<Rightarrow> streams \<Rightarrow> pw_outcome \<times> streams" where
  "receiver_verdict pe prompts isk ch share s =
     (case recv_frame s of
        (Inl e, s1) \<Rightarrow> (PwDone (Some e), s1)
      | (Inr (ft, body), s1) \<Rightarrow>
          if ft = TypePasswordVerified then
            (case Decode (pw_ver_dec pe) body True of
               Inl e \<Rightarrow> (PwDone (Some e), s1)
             | Inr v \<Rightarrow>
                 if passwordTag pe isk adPwSender (pc_Nonce ch) (pc_Share ch) share
                      = (case v of None \<Rightarrow> zero32 | Some v \<Rightarrow> pv_Tag v)
                 then (PwDone None, s1) else (PwDone (Some [ErrPeerAuthFailed]), s1))
          else if ft = TypeError then
            (let ef = decode_error (pw_cd pe) body in
             if ef_Code ef \<noteq> ErrCodeWrongPassword then (PwDone (Some (mapPeerError ef)), s1)
             else if prompts then (PwAgain, s1) else (PwDone (Some [ErrWrongPassword]), s1))
          else (PwDone (Some [ErrProtocolError]), s1))"

definition receiver_answer ::
  "'f pw_env \<Rightarrow> bool \<Rightarrow> string \<Rightarrow> nat \<Rightarrow> PasswordChallenge \<Rightarrow> streams \<Rightarrow> pw_outcome \<times> streams" where
  "receiver_answer pe prompts password attempt ch s =
     (case pake_New (pw_pp pe) Responder (pw_params pe password (pc_Nonce ch) adPwReceiver) (pw_scalar pe attempt) of
        Inl e \<Rightarrow> (PwDone (Some []), s)
      | Inr st \<Rightarrow>
          (case fst (pake_Finish (pw_pp pe) (pc_Share ch) adPwSender st) of
             Inl e \<Rightarrow> (PwDone (Some [ErrProtocolError]), s)
           | Inr isk \<Rightarrow>
               (case send_frame (pw_resp_enc pe) TypePasswordResponse (Some (make_response pe st isk ch)) s of
                  (Some e, s1) \<Rightarrow> (PwDone (Some e), s1)
                | (None, s1) \<Rightarrow> receiver_verdict pe prompts isk ch (ps_share st) s1)))"

definition receiver_attempt ::
  "'f pw_env \<Rightarrow> string \<Rightarrow> (nat \<Rightarrow> goerr + string) option \<Rightarrow> nat \<Rightarrow> streams \<Rightarrow> pw_outcome \<times> streams" where
  "receiver_attempt pe fixed prompt attempt s =
     (case ReadControl (pw_ch_dec pe) True (sm_ctl_in s) of
        (ft, Inl e, rd) \<Rightarrow> (PwDone (Some (if 1 < attempt then [ErrWrongPassword] else e)), s\<lparr>sm_ctl_in := rd\<rparr>)
      | (ft, Inr c, rd) \<Rightarrow>
          let s1 = s\<lparr>sm_ctl_in := rd\<rparr>;
              ch = (case c of None \<Rightarrow> \<lparr>pc_Nonce = zero32, pc_Share = zero32\<rparr> | Some c \<Rightarrow> c) in
          if ft \<noteq> TypePasswordChallenge then (PwDone (Some [ErrProtocolError]), s1)
          else if fixed \<noteq> [] then receiver_answer pe False fixed attempt ch s1
          else (case prompt of
                  None \<Rightarrow> (PwDone (Some [ErrPasswordRequired]),
                           declineTransfer (pw_cd pe) ErrCodePasswordRequired ''receiver has no password to offer'' s1)
                | Some ask \<Rightarrow>
                    (case ask attempt of
                       Inl e \<Rightarrow> (PwDone (Some e), s1)
                     | Inr password \<Rightarrow> receiver_answer pe True password attempt ch s1)))"

fun receiver_loop ::
  "'f pw_env \<Rightarrow> string \<Rightarrow> (nat \<Rightarrow> goerr + string) option \<Rightarrow> nat list \<Rightarrow> streams \<Rightarrow> goerr option \<times> streams" where
  "receiver_loop pe fixed prompt [] s = (Some [ErrWrongPassword], s)"
| "receiver_loop pe fixed prompt (attempt # later) s =
     (case receiver_attempt pe fixed prompt attempt s of
        (PwDone r, s1) \<Rightarrow> (r, s1)
      | (PwAgain, s1) \<Rightarrow> receiver_loop pe fixed prompt later s1)"

definition receiverPasswordHandshake ::
  "'f pw_env \<Rightarrow> string \<Rightarrow> (nat \<Rightarrow> goerr + string) option \<Rightarrow> streams \<Rightarrow> goerr option \<times> streams" where
  "receiverPasswordHandshake pe fixed prompt s = receiver_loop pe fixed prompt [1..<Suc PasswordAttempts] s"

section \<open>Both ends compute the same tags\<close>

text \<open>An honest run of the exchange for one attempt, and the messages it sends.\<close>

lemma honest_tags:
  assumes a: "pake_New (pw_pp pe) Initiator (pw_params pe password nonce adPwSender) x = Inr sa"
    and b: "pake_New (pw_pp pe) Responder (pw_params pe password nonce adPwReceiver) y = Inr sb"
    and len: "length (ps_share sa) = ShareSize" "length (ps_share sb) = ShareSize"
    and dh: "pp_x25519 (pw_pp pe) x (ps_share sb) = Some k" "pp_x25519 (pw_pp pe) y (ps_share sa) = Some k"
  obtains isk where "fst (pake_Finish (pw_pp pe) (ps_share sa) adPwSender sb) = Inr isk"
    "check_response pe sa nonce (make_response pe sb isk \<lparr>pc_Nonce = nonce, pc_Share = ps_share sa\<rparr>)
       = Inr (Some (passwordTag pe isk adPwSender nonce (ps_share sa) (ps_share sb)))"
proof -
  have "ps_role sa = Initiator" "ps_sid sa = nonce" "ps_ad sa = adPwSender" "ps_priv sa = x" "\<not> ps_usedUp sa"
    "ps_role sb = Responder" "ps_sid sb = nonce" "ps_ad sb = adPwReceiver" "ps_priv sb = y" "\<not> ps_usedUp sb"
    using a b by (auto simp: pake_New_def pw_params_def split: if_splits option.splits)
  then have "fst (pake_Finish (pw_pp pe) (ps_share sa) adPwSender sb)
      = fst (pake_Finish (pw_pp pe) (ps_share sb) adPwReceiver sa) \<and>
      (\<exists>isk. fst (pake_Finish (pw_pp pe) (ps_share sa) adPwSender sb) = Inr isk)"
    using len dh by (simp add: pake_Finish_def scalarMult_def)
  then obtain isk where i: "fst (pake_Finish (pw_pp pe) (ps_share sa) adPwSender sb) = Inr isk"
    "fst (pake_Finish (pw_pp pe) (ps_share sb) adPwReceiver sa) = Inr isk" by metis
  then show ?thesis by (intro that [of isk]) (simp_all add: check_response_def make_response_def)
qed

text \<open>A frame sent with room for it.\<close>

lemma send_frame_open:
  assumes "enc p = Some b" "length b \<le> MaxControlFrameSize" "w_room (sm_ctl_out s) = None"
  shows "send_frame enc ft (Some p) s = (None, s\<lparr>sm_ctl_out :=
     (sm_ctl_out s)\<lparr>w_out := w_out (sm_ctl_out s) @ control_frame (ft, b)\<rparr>\<rparr>)"
  using assms by (simp add: send_frame_def WriteControl_def write_all_def control_frame_def)

lemma sender_again: "sender_attempt pe password attempt s = (PwAgain, s') \<Longrightarrow> attempt \<noteq> PasswordAttempts"
  by (auto simp: sender_attempt_def sender_verdict_def Let_def apfst_def map_prod_def
      split: option.splits sum.splits prod.splits if_splits)

section \<open>Properties\<close>

text \<open>
  The gate always answers: whatever the other side sends, the sender's handshake returns
  after at most three attempts, and when it returns without an error one of those attempts
  received a response whose tag is the one keyed by the sender's own password, share and nonce.
\<close>

theorem password_gate_returns:
  "\<exists>r s'. senderPasswordHandshake pe password s = Some (r, s') \<and>
     (r = None \<longrightarrow> (\<exists>attempt\<in>{1..PasswordAttempts}. \<exists>nonce st resp tag. pw_nonce pe attempt = Some nonce \<and>
        pake_New (pw_pp pe) Initiator (pw_params pe password nonce adPwSender) (pw_scalar pe attempt) = Inr st \<and>
        check_response pe st nonce resp = Inr (Some tag)))"
proof -
  let ?good = "\<lambda>attempt. \<exists>nonce st resp tag. pw_nonce pe attempt = Some nonce \<and>
        pake_New (pw_pp pe) Initiator (pw_params pe password nonce adPwSender) (pw_scalar pe attempt) = Inr st \<and>
        check_response pe st nonce resp = Inr (Some tag)"
  have step: "?good attempt" if "sender_attempt pe password attempt s = (PwDone None, s')" for attempt s s'
    using that unfolding sender_attempt_def
    by (auto simp: sender_verdict_def Let_def split: option.splits sum.splits prod.splits if_splits)
  have run: "\<exists>r s'. sender_loop pe password attempt s = Some (r, s') \<and>
      (r = None \<longrightarrow> (\<exists>a\<in>{attempt..PasswordAttempts}. ?good a))" if "attempt + n = PasswordAttempts" for attempt n s
    using that
  proof (induction n arbitrary: attempt s)
    case (Suc n)
    obtain out s1 where o': "sender_attempt pe password attempt s = (out, s1)" by (metis surj_pair)
    show ?case
    proof (cases out)
      case (PwDone r)
      with o' step [of attempt s s1] Suc.prems show ?thesis
        by (subst sender_loop.simps) (auto intro: bexI [of _ attempt])
    next
      case PwAgain
      have "Suc attempt + n = PasswordAttempts" using Suc.prems by simp
      from Suc.IH [OF this, of s1] obtain r s' where l: "sender_loop pe password (Suc attempt) s1 = Some (r, s')"
        and g: "r = None \<longrightarrow> (\<exists>a\<in>{Suc attempt..PasswordAttempts}. ?good a)" by blast
      have "{Suc attempt..PasswordAttempts} \<subseteq> {attempt..PasswordAttempts}" by auto
      with g have "r = None \<longrightarrow> (\<exists>a\<in>{attempt..PasswordAttempts}. ?good a)" by blast
      moreover have "sender_loop pe password attempt s = Some (r, s')"
        using o' PwAgain l by (subst sender_loop.simps) simp
      ultimately show ?thesis by blast
    qed
  next
    case 0
    obtain out s1 where o': "sender_attempt pe password attempt s = (out, s1)" by (metis surj_pair)
    with sender_again [of pe password attempt s s1] 0 obtain r where "out = PwDone r" by (cases out) auto
    with o' step [of attempt s s1] 0 show ?case
      by (subst sender_loop.simps) (auto intro: bexI [of _ attempt])
  qed
  have "1 + 2 = PasswordAttempts" by (simp add: PasswordAttempts_def)
  from run [OF this, of s] show ?thesis unfolding senderPasswordHandshake_def .
qed


text \<open>Primitives and encodings of one run, for the witnesses.\<close>

definition toy_pw_env :: "PasswordChallenge \<Rightarrow> PasswordResponse \<Rightarrow> PasswordVerified \<Rightarrow> bytes \<Rightarrow> nat pw_env" where
  "toy_pw_env ch resp ver x = \<lparr>pw_pp = toy_prims, pw_cd = sample_codecs [] [], pw_hmac = \<lambda>k m. k @ m, pw_binding = [7],
     pw_nonce = \<lambda>n. Some [8], pw_scalar = \<lambda>n. x,
     pw_ch_enc = one_enc 1 ch, pw_ch_dec = one_dec 1 ch, pw_resp_enc = one_enc 2 resp, pw_resp_dec = one_dec 2 resp,
     pw_ver_enc = one_enc 3 ver, pw_ver_dec = one_dec 3 ver\<rparr>"

lemma toy_pw_env_simps [simp]:
  "pw_pp (toy_pw_env ch resp ver x) = toy_prims" "pw_nonce (toy_pw_env ch resp ver x) n = Some [8]"
  "pw_scalar (toy_pw_env ch resp ver x) n = x" "pw_hmac (toy_pw_env ch resp ver x) = (\<lambda>k m. k @ m)"
  "pw_binding (toy_pw_env ch resp ver x) = [7]"
  "pw_ch_enc (toy_pw_env ch resp ver x) = one_enc 1 ch" "pw_ch_dec (toy_pw_env ch resp ver x) = one_dec 1 ch"
  "pw_resp_enc (toy_pw_env ch resp ver x) = one_enc 2 resp" "pw_resp_dec (toy_pw_env ch resp ver x) = one_dec 2 resp"
  "pw_ver_enc (toy_pw_env ch resp ver x) = one_enc 3 ver" "pw_ver_dec (toy_pw_env ch resp ver x) = one_dec 3 ver"
  by (simp_all add: toy_pw_env_def)

theorem password_gate_returns_witness:
  "\<exists>r s'. senderPasswordHandshake (toy_pw_env \<lparr>pc_Nonce = [], pc_Share = []\<rparr> \<lparr>pr_Share = [], pr_Tag = []\<rparr> \<lparr>pv_Tag = []\<rparr> [])
     ''pw'' (sample_streams []) = Some (r, s')"
  using password_gate_returns [of "toy_pw_env \<lparr>pc_Nonce = [], pc_Share = []\<rparr> \<lparr>pr_Share = [], pr_Tag = []\<rparr> \<lparr>pv_Tag = []\<rparr> []"
      "''pw''" "sample_streams []"] by blast

text \<open>
  C18. The gate opens for the right password: when both ends hold the same password and each
  reads exactly the frames the other writes, the first attempt succeeds on both sides; the
  challenge, the response and the verdict below are what they wrote.
\<close>

theorem password_gate_opens:
  assumes new: "pw_nonce pe 1 = Some nonce"
      "pake_New (pw_pp pe) Initiator (pw_params pe password nonce adPwSender) (pw_scalar pe 1) = Inr sa"
      "pake_New (pw_pp pr) Responder (pw_params pr password nonce adPwReceiver) (pw_scalar pr 1) = Inr sb"
    and same: "pw_pp pr = pw_pp pe" "pw_hmac pr = pw_hmac pe" "pw_binding pr = pw_binding pe"
    and dh: "length (ps_share sa) = ShareSize" "length (ps_share sb) = ShareSize"
      "pp_x25519 (pw_pp pe) (pw_scalar pe 1) (ps_share sb) = Some k" "pp_x25519 (pw_pp pe) (pw_scalar pr 1) (ps_share sa) = Some k"
    and isk: "fst (pake_Finish (pw_pp pe) (ps_share sa) adPwSender sb) = Inr isk"
    and enc: "pw_ch_enc pe \<lparr>pc_Nonce = nonce, pc_Share = ps_share sa\<rparr> = Some b1"
      "pw_resp_enc pr (make_response pe sb isk \<lparr>pc_Nonce = nonce, pc_Share = ps_share sa\<rparr>) = Some b2"
      "pw_ver_enc pe \<lparr>pv_Tag = passwordTag pe isk adPwSender nonce (ps_share sa) (ps_share sb)\<rparr> = Some b3"
      "length b1 \<le> MaxControlFrameSize" "length b2 \<le> MaxControlFrameSize" "length b3 \<le> MaxControlFrameSize"
    and gob: "gob_ok (pw_ch_enc pe) (pw_ch_dec pr)" "gob_ok (pw_resp_enc pr) (pw_resp_dec pe)"
      "gob_ok (pw_ver_enc pe) (pw_ver_dec pr)"
    and s: "sm_ctl_in s = \<lparr>r_data = control_frame (TypePasswordResponse, b2) @ rest, r_end = e\<rparr>" "w_room (sm_ctl_out s) = None"
    and t: "sm_ctl_in t = \<lparr>r_data = control_frame (TypePasswordChallenge, b1) @ control_frame (TypePasswordVerified, b3) @ rest', r_end = e'\<rparr>"
      "w_room (sm_ctl_out t) = None"
    and pw: "password \<noteq> []"
  shows "(\<exists>s'. senderPasswordHandshake pe password s = Some (None, s') \<and> w_out (sm_ctl_out s') = w_out (sm_ctl_out s)
        @ control_frame (TypePasswordChallenge, b1) @ control_frame (TypePasswordVerified, b3))
    \<and> (\<exists>t'. receiverPasswordHandshake pr password prompt t = (None, t') \<and>
        w_out (sm_ctl_out t') = w_out (sm_ctl_out t) @ control_frame (TypePasswordResponse, b2))"
proof
  let ?ch = "\<lparr>pc_Nonce = nonce, pc_Share = ps_share sa\<rparr>"
  let ?resp = "make_response pe sb isk ?ch" and ?ver = "\<lparr>pv_Tag = passwordTag pe isk adPwSender nonce (ps_share sa) (ps_share sb)\<rparr>"
  have tag: "passwordTag pr = passwordTag pe" "pw_params pr = pw_params pe"
    by (intro ext, simp add: passwordTag_def pw_params_def same)+
  have sb: "pake_New (pw_pp pe) Responder (pw_params pe password nonce adPwReceiver) (pw_scalar pr 1) = Inr sb"
    using new(3) by (simp add: same tag)
  obtain isk' where "fst (pake_Finish (pw_pp pe) (ps_share sa) adPwSender sb) = Inr isk'"
    "check_response pe sa nonce (make_response pe sb isk' ?ch)
       = Inr (Some (passwordTag pe isk' adPwSender nonce (ps_share sa) (ps_share sb)))"
    using honest_tags [OF new(2) sb dh] .
  with isk have check: "check_response pe sa nonce ?resp = Inr (Some (pv_Tag ?ver))" by simp
  note d = gob_okD [OF gob(1) enc(1)] gob_okD [OF gob(2) enc(2)] gob_okD [OF gob(3) enc(3)]
  show "\<exists>s'. senderPasswordHandshake pe password s = Some (None, s') \<and> w_out (sm_ctl_out s') = w_out (sm_ctl_out s)
        @ control_frame (TypePasswordChallenge, b1) @ control_frame (TypePasswordVerified, b3)"
  proof -
    let ?s1 = "s\<lparr>sm_ctl_out := (sm_ctl_out s)\<lparr>w_out := w_out (sm_ctl_out s) @ control_frame (TypePasswordChallenge, b1)\<rparr>\<rparr>"
    let ?s2 = "?s1\<lparr>sm_ctl_in := \<lparr>r_data = rest, r_end = e\<rparr>\<rparr>"
    have 1: "send_frame (pw_ch_enc pe) TypePasswordChallenge (Some ?ch) s = (None, ?s1)"
      by (rule send_frame_open [where enc = "pw_ch_enc pe", OF enc(1,4) s(2)])
    have 2: "recv_frame ?s1 = (Inr (TypePasswordResponse, b2), ?s2)"
      using recv_frame_frame [OF enc(5), of ?s1] s(1) by simp
    have 3: "Decode (pw_resp_dec pe) b2 True = Inr (Some ?resp)" using d(2) by (simp add: Decode_def)
    have 4: "\<exists>s'. sender_verdict pe 1 sa nonce ?resp ?s2 = (PwDone None, s') \<and> w_out (sm_ctl_out s') = w_out (sm_ctl_out s)
        @ control_frame (TypePasswordChallenge, b1) @ control_frame (TypePasswordVerified, b3)"
      using send_frame_open [where enc = "pw_ver_enc pe" and s = ?s2, OF enc(3,6)] s(2)
      by (simp add: sender_verdict_def check)
    have ft: "TypePasswordResponse \<noteq> TypeError" by (simp add: frame_types)
    have "sender_attempt pe password 1 s = sender_verdict pe 1 sa nonce ?resp ?s2"
      by (simp add: sender_attempt_def new(1,2) 1 2 3 ft del: One_nat_def)
    with 4 show ?thesis
      unfolding senderPasswordHandshake_def
      by (subst sender_loop.simps) (auto simp del: One_nat_def)
  qed
  show "\<exists>t'. receiverPasswordHandshake pr password prompt t = (None, t') \<and>
        w_out (sm_ctl_out t') = w_out (sm_ctl_out t) @ control_frame (TypePasswordResponse, b2)"
  proof -
    let ?t1 = "t\<lparr>sm_ctl_in := \<lparr>r_data = control_frame (TypePasswordVerified, b3) @ rest', r_end = e'\<rparr>\<rparr>"
    let ?t2 = "?t1\<lparr>sm_ctl_out := (sm_ctl_out t)\<lparr>w_out := w_out (sm_ctl_out t) @ control_frame (TypePasswordResponse, b2)\<rparr>\<rparr>"
    have 1: "ReadControl (pw_ch_dec pr) True (sm_ctl_in t) = (TypePasswordChallenge, Inr (Some ?ch),
        \<lparr>r_data = control_frame (TypePasswordVerified, b3) @ rest', r_end = e'\<rparr>)"
      using ReadControlRaw_frame [OF enc(4), of TypePasswordChallenge] d(1) by (simp add: ReadControl_def t(1))
    have r: "make_response pr sb isk ?ch = ?resp" by (simp add: make_response_def tag)
    have 2: "send_frame (pw_resp_enc pr) TypePasswordResponse (Some ?resp) ?t1 = (None, ?t2)"
      using send_frame_open [where enc = "pw_resp_enc pr" and s = ?t1, OF enc(2,5)] t(2) by simp
    have 3: "recv_frame ?t2 = (Inr (TypePasswordVerified, b3), ?t2\<lparr>sm_ctl_in := \<lparr>r_data = rest', r_end = e'\<rparr>\<rparr>)"
      by (rule recv_frame_frame [OF enc(6)]) simp
    have 4: "Decode (pw_ver_dec pr) b3 True = Inr (Some ?ver)" using d(3) by (simp add: Decode_def)
    have "receiver_attempt pr password prompt 1 t = (PwDone None, ?t2\<lparr>sm_ctl_in := \<lparr>r_data = rest', r_end = e'\<rparr>\<rparr>)"
      by (simp add: receiver_attempt_def 1 pw receiver_answer_def sb same isk r 2 Let_def receiver_verdict_def 3 4 tag
          del: One_nat_def)
    moreover have "[1..<Suc PasswordAttempts] = 1 # [2..<Suc PasswordAttempts]"
      by (simp add: PasswordAttempts_def upt_conv_Cons numeral_2_eq_2)
    ultimately show ?thesis by (simp add: receiverPasswordHandshake_def)
  qed
qed


theorem password_gate_opens_witness:
  "\<exists>ch resp ver s' t'.
     senderPasswordHandshake (toy_pw_env ch resp ver (replicate 32 5)) ''pw''
       (sample_streams (control_frame (TypePasswordResponse, [2]) @ [])) = Some (None, s')
     \<and> receiverPasswordHandshake (toy_pw_env ch resp ver (replicate 32 6)) ''pw'' None
         (sample_streams (control_frame (TypePasswordChallenge, [1]) @ control_frame (TypePasswordVerified, [3]) @ [])) = (None, t')"
proof -
  let ?x = "replicate 32 5 :: bytes" and ?y = "replicate 32 6 :: bytes"
  let ?st = "\<lambda>r ad x. \<lparr>ps_role = r, ps_sid = [8], ps_ad = ad, ps_priv = x, ps_share = x, ps_usedUp = False\<rparr>"
  let ?sa = "?st Initiator adPwSender ?x" and ?sb = "?st Responder adPwReceiver ?y"
  have l: "length ?x = ShareSize" "length ?y = ShareSize" by (simp_all add: ShareSize_def)
  have dh: "pp_x25519 toy_prims ?x ?y = Some (replicate 32 11)" "pp_x25519 toy_prims ?y ?x = Some (replicate 32 11)"
    by (simp_all add: toy_prims_def ShareSize_def zip_replicate)
  obtain isk where isk: "fst (pake_Finish toy_prims ?x adPwSender ?sb) = Inr isk"
    using dh by (simp add: pake_Finish_def scalarMult_def ShareSize_def)
  define ch where "ch = \<lparr>pc_Nonce = [8], pc_Share = ?x\<rparr>"
  define resp where "resp = \<lparr>pr_Share = ?y, pr_Tag = isk @ adPwReceiver @ [8] @ ?x @ ?y\<rparr>"
  define ver where "ver = \<lparr>pv_Tag = isk @ adPwSender @ [8] @ ?x @ ?y\<rparr>"
  let ?pe = "toy_pw_env ch resp ver ?x" and ?pr = "toy_pw_env ch resp ver ?y"
  have n: "pake_New toy_prims Initiator (pw_params ?pe ''pw'' [8] adPwSender) ?x = Inr ?sa"
    "pake_New toy_prims Responder (pw_params ?pr ''pw'' [8] adPwReceiver) ?y = Inr ?sb"
    by (simp_all only: toy_New [OF l(1)] toy_New [OF l(2)]) (simp_all add: pw_params_def)
  have m: "make_response ?pe ?sb isk \<lparr>pc_Nonce = [8], pc_Share = ?x\<rparr> = resp"
    "\<lparr>pv_Tag = passwordTag ?pe isk adPwSender [8] ?x ?y\<rparr> = ver" "\<lparr>pc_Nonce = [8], pc_Share = ?x\<rparr> = ch"
    by (simp add: make_response_def passwordTag_def resp_def, simp add: passwordTag_def ver_def, simp add: ch_def)
  let ?s = "sample_streams (control_frame (TypePasswordResponse, [2]) @ [])"
  let ?t = "sample_streams (control_frame (TypePasswordChallenge, [1]) @ control_frame (TypePasswordVerified, [3]) @ [])"
  have io: "sm_ctl_in (sample_streams bs) = \<lparr>r_data = bs, r_end = IoEOF\<rparr>" "w_room (sm_ctl_out (sample_streams bs)) = None" for bs
    by (simp_all add: sample_streams_def)
  have fits: "length [c] \<le> MaxControlFrameSize" for c :: byte by (simp add: MaxControlFrameSize_def)
  have enc: "pw_ch_enc ?pe \<lparr>pc_Nonce = [8], pc_Share = ps_share ?sa\<rparr> = Some [1]"
    "pw_resp_enc ?pr (make_response ?pe ?sb isk \<lparr>pc_Nonce = [8], pc_Share = ps_share ?sa\<rparr>) = Some [2]"
    "pw_ver_enc ?pe \<lparr>pv_Tag = passwordTag ?pe isk adPwSender [8] (ps_share ?sa) (ps_share ?sb)\<rparr> = Some [3]"
    unfolding pake_state.simps m(1,2) by (simp_all add: one_enc_def m(3))
  have "(\<exists>s'. senderPasswordHandshake ?pe ''pw'' ?s = Some (None, s') \<and> w_out (sm_ctl_out s') = w_out (sm_ctl_out ?s)
        @ control_frame (TypePasswordChallenge, [1]) @ control_frame (TypePasswordVerified, [3]))
    \<and> (\<exists>t'. receiverPasswordHandshake ?pr ''pw'' None ?t = (None, t') \<and>
        w_out (sm_ctl_out t') = w_out (sm_ctl_out ?t) @ control_frame (TypePasswordResponse, [2]))"
    by (rule password_gate_opens [where sa = ?sa and sb = ?sb and k = "replicate 32 11",
          OF _ _ _ _ _ _ _ _ _ _ _ enc fits fits fits _ _ _ io(1,2) io(1,2)])
      (use n isk in \<open>simp_all add: dh one_gob_ok ShareSize_def\<close>)
  then show ?thesis by blast
qed

end
