(* ===== verification/Sender.thy ===== *)
theory Sender
  imports Password_Gate Chunk_Packer File_Hash "HOL-Library.AList"
begin

text \<open>
  \<open>internal/transfer/send.go\<close>: the sender. The packer's two goroutines are those of
  \<open>Chunk_Packer\<close>; what the source files hold is an argument, separately for the three times they
  are read (checksum rounds, resume prefixes, sending), since they may change in between. The
  context is polled by number; the wait of \<open>notifyPeer\<close> always ends with the frame posted here.
\<close>

record Source =
  so_Entry :: ListingEntry
  so_AbsPath :: string

text \<open>
  A source file while it is sent: the bytes that can be read, whether seeking works, and the
  size and mtime \<open>Stat\<close> reports at the end.
\<close>

record src_file =
  sf_data :: bytes
  sf_seek :: bool
  sf_stat :: "(nat \<times> int) option"

record 'f send_env =
  se_pw :: "'f pw_env"
  se_cd :: codecs
  se_bh :: "bytes \<Rightarrow> bytes"
  se_fk :: "bytes \<Rightarrow> bytes"
  se_zenc :: "bytes \<Rightarrow> bytes"
  se_obs :: observer
  se_open :: "string \<Rightarrow> src_file option"
  se_prefix :: "string \<Rightarrow> goerr + bytes"
  se_verify :: "string \<Rightarrow> bytes option"
  se_ctx :: "nat \<Rightarrow> goerr option"

record SendOptions =
  sp_Hostname :: string
  sp_OS :: string
  sp_ClientVersion :: string
  sp_Mode :: TransferMode
  sp_Sources :: "Source list"
  sp_Stream :: "bytes list"
  sp_StreamEnd :: io_error
  sp_IsText :: bool
  sp_DisplayName :: string
  sp_Password :: string

datatype send_note =
    PeerSeen string bool
  | SourceSkipped u32
  | ChangedSource u32
  | ResumeAt u32 u64 u64
  | SkipDecision u32 bool
  | SentTo u32 nat
  | StreamingEOF nat

record sender =
  sn_packer :: chunkPacker
  sn_streams :: streams
  sn_data :: writer
  sn_tick :: nat
  sn_log :: "send_note list"

definition sn_note :: "send_note \<Rightarrow> sender \<Rightarrow> sender" where
  "sn_note n sn = sn\<lparr>sn_log := sn_log sn @ [n]\<rparr>"

definition poll_ctx :: "'f send_env \<Rightarrow> sender \<Rightarrow> goerr option \<times> sender" where
  "poll_ctx se sn = (se_ctx se (sn_tick sn), sn\<lparr>sn_tick := Suc (sn_tick sn)\<rparr>)"

definition on_packer :: "(chunkPacker \<Rightarrow> goerr option \<times> chunkPacker) \<Rightarrow> sender \<Rightarrow> goerr option \<times> sender" where
  "on_packer op sn = (case op (sn_packer sn) of (e, p) \<Rightarrow> (e, sn\<lparr>sn_packer := p\<rparr>))"

definition sendChunkErr :: "'f send_env \<Rightarrow> goerr \<Rightarrow> sender \<Rightarrow> goerr \<times> sender" where
  "sendChunkErr se err sn =
     (case tryReadPeerError (se_cd se) (sn_streams sn) of
        (Some reason, st) \<Rightarrow> (reason, sn\<lparr>sn_streams := st\<rparr>)
      | (None, st) \<Rightarrow> (err, sn\<lparr>sn_streams := st\<rparr>))"

text \<open>A packer call whose error goes through \<open>sendChunkErr\<close>.\<close>

definition packing :: "'f send_env \<Rightarrow> (chunkPacker \<Rightarrow> goerr option \<times> chunkPacker) \<Rightarrow> sender \<Rightarrow> goerr option \<times> sender" where
  "packing se op sn =
     (case on_packer op sn of
        (None, sn1) \<Rightarrow> (None, sn1)
      | (Some e, sn1) \<Rightarrow> apfst Some (sendChunkErr se e sn1))"

section \<open>Negotiation\<close>

definition maxVerifyRounds :: nat where "maxVerifyRounds = maxListingEntries div maxVerifyIDsPerFrame + 1"

definition zero_root :: bytes where "zero_root = replicate 32 0"

text \<open>
  \<open>verifyHashes\<close>: indices not hashed yet are reserved with a zero root, then hashed; a file that
  cannot be read keeps it and is left out. A file's hash does not depend on the others, so the
  order of the workers does not matter.
\<close>

fun verify_todo :: "u32 list \<Rightarrow> (u32 \<Rightarrow> string) \<Rightarrow> (u32 \<rightharpoonup> bytes) \<Rightarrow> u32 list \<times> (u32 \<rightharpoonup> bytes)" where
  "verify_todo [] path hashed = ([], hashed)"
| "verify_todo (i # is) path hashed =
     (if hashed i = None \<and> path i \<noteq> []
      then (case verify_todo is path (hashed(i \<mapsto> zero_root)) of (todo, h) \<Rightarrow> (i # todo, h))
      else verify_todo is path hashed)"

definition hash_one :: "'f send_env \<Rightarrow> (u32 \<Rightarrow> string) \<Rightarrow> u32 \<Rightarrow> (u32 \<rightharpoonup> bytes) \<Rightarrow> (u32 \<rightharpoonup> bytes)" where
  "hash_one se path i hashed =
     (case hashFileRoot (se_bh se) (se_fk se) (se_verify se (path i)) of
        None \<Rightarrow> hashed | Some root \<Rightarrow> hashed(i \<mapsto> root))"

definition verifyHashes ::
  "'f send_env \<Rightarrow> u32 list \<Rightarrow> (u32 \<Rightarrow> string) \<Rightarrow> (u32 \<rightharpoonup> bytes) \<Rightarrow> FileHash list \<times> (u32 \<rightharpoonup> bytes)" where
  "verifyHashes se idx path hashed =
     (case verify_todo idx path hashed of
        (todo, h0) \<Rightarrow>
          let h1 = fold (hash_one se path) todo h0
          in (concat (map (\<lambda>i. case h1 i of
                 None \<Rightarrow> []
               | Some r \<Rightarrow> if r = zero_root then [] else [\<lparr>fh_Index = i, fh_Hash = r\<rparr>]) idx), h1))"

definition abs_path :: "Source list \<Rightarrow> u32 \<Rightarrow> string" where
  "abs_path srcs i =
     (case map_of (rev (map (\<lambda>s. (le_Index (so_Entry s), so_AbsPath s)) srcs)) i of None \<Rightarrow> [] | Some p \<Rightarrow> p)"

lemma send_frame_in: "send_frame enc ft p s = (e, s') \<Longrightarrow> sm_ctl_in s' = sm_ctl_in s"
  by (auto simp: send_frame_def split: prod.splits)

lemma recv_frame_shorter:
  "recv_frame s = (Inr f, s') \<Longrightarrow> length (r_data (sm_ctl_in s')) < length (r_data (sm_ctl_in s))"
  by (auto simp: recv_frame_def split: prod.splits dest: ReadControlRaw_shorter)

lemma answer_shorter:
  "recv_frame s = (Inr f, s1) \<Longrightarrow> send_frame enc ft p s1 = (e, s2) \<Longrightarrow>
   length (r_data (sm_ctl_in s2)) < length (r_data (sm_ctl_in s))"
  using recv_frame_shorter send_frame_in by metis

text \<open>The decisions are an association list without repeated indices.\<close>

function negotiate_loop ::
  "'f send_env \<Rightarrow> Source list \<Rightarrow> (u32 \<times> Decision) list \<Rightarrow> (u32 \<rightharpoonup> bytes) \<Rightarrow> nat \<Rightarrow> streams
     \<Rightarrow> (goerr + (u32 \<rightharpoonup> Decision)) \<times> streams" where
  "negotiate_loop se srcs out hashed rounds s =
     (case recv_frame s of
        (Inl e, s1) \<Rightarrow> (Inl e, s1)
      | (Inr (ft, body), s1) \<Rightarrow>
          if ft = TypeVerifyRequest then
            (if maxVerifyRounds < Suc rounds then (Inl [ErrProtocolError], s1)
             else case Decode (gob_indices_dec (se_cd se)) body True of
               Inl e \<Rightarrow> (Inl e, s1)
             | Inr idx \<Rightarrow>
                 (case verifyHashes se (case idx of None \<Rightarrow> [] | Some l \<Rightarrow> l) (abs_path srcs) hashed of
                    (resp, hashed1) \<Rightarrow>
                      (case send_frame (gob_hashes_enc (se_cd se)) TypeVerifyResponse (Some resp) s1 of
                         (Some e, s2) \<Rightarrow> (Inl e, s2)
                       | (None, s2) \<Rightarrow> negotiate_loop se srcs out hashed1 (Suc rounds) s2)))
          else if ft = TypeClassifyBatch then
            (case Decode (gob_decisions_dec (se_cd se)) body True of
               Inl e \<Rightarrow> (Inl e, s1)
             | Inr batch \<Rightarrow>
                 let out1 = fold (\<lambda>d. AList.update (d_Index d) d) (case batch of None \<Rightarrow> [] | Some l \<Rightarrow> l) out
                 in if length srcs < length out1 then (Inl [ErrProtocolError], s1)
                    else negotiate_loop se srcs out1 hashed rounds s1)
          else if ft = TypeClassifyEnd then (Inr (map_of out), s1)
          else if ft = TypeError then (Inl (peerError (se_cd se) body), s1)
          else (Inl [ErrProtocolError], s1))"
  by pat_completeness auto
termination
  by (relation "measure (\<lambda>(se, srcs, out, hashed, rounds, s). length (r_data (sm_ctl_in s)))")
    (auto dest: recv_frame_shorter [OF sym] answer_shorter [OF sym sym])

declare negotiate_loop.simps [simp del]


definition senderNegotiate ::
  "'f send_env \<Rightarrow> Source list \<Rightarrow> streams \<Rightarrow> (goerr + (u32 \<rightharpoonup> Decision)) \<times> streams" where
  "senderNegotiate se srcs s = negotiate_loop se srcs [] Map.empty 0 s"

section \<open>One file\<close>

text \<open>Which files get their resume prefix hashed, and the result the worker sends.\<close>

definition wants_prefix :: "Source \<Rightarrow> Decision \<Rightarrow> bool" where
  "wants_prefix src d \<longleftrightarrow> d_Action d = DecisionResume \<and> 0 < d_ResumeOffset d
     \<and> d_ResumeOffset d < le_Size (so_Entry src) \<and> d_ResumeOffset d mod of_nat hashBlockSize = 0
     \<and> le_Type (so_Entry src) = EntryFile"

definition prefix_result :: "'f send_env \<Rightarrow> Source \<Rightarrow> Decision \<Rightarrow> goerr + bytes list" where
  "prefix_result se src d =
     (case se_prefix se (so_AbsPath src) of
        Inl e \<Rightarrow> Inl e
      | Inr f \<Rightarrow>
          (case hashBlocks (se_bh se) f (unat (d_ResumeOffset d)) of
             None \<Rightarrow> Inl []
           | Some blocks \<Rightarrow> Inr blocks))"

definition skip_source :: "'f send_env \<Rightarrow> u32 \<Rightarrow> sender \<Rightarrow> goerr option \<times> sender" where
  "skip_source se idx sn = packing se (skipFile (se_obs se) idx) (sn_note (SourceSkipped idx) sn)"

text \<open>
  The reading loop of \<open>sendOneFile\<close>. A block that cannot be read in full, because the file shrank
  or reading failed, drops the file. The last component says whether the loop ran to its end.
\<close>

function send_blocks ::
  "'f send_env \<Rightarrow> u32 \<Rightarrow> nat \<Rightarrow> bytes \<Rightarrow> nat \<Rightarrow> fileHasher \<Rightarrow> sender \<Rightarrow> (goerr option + fileHasher) \<times> sender" where
  "send_blocks se idx upto_size data sent h sn =
     (if upto_size \<le> sent then (Inr h, sn)
      else case poll_ctx se sn of
        (Some e, sn1) \<Rightarrow> (Inl (Some e), sn1)
      | (None, sn1) \<Rightarrow>
          let n = min hashBlockSize (upto_size - sent); b = take n (drop sent data) in
          if length b < n then apfst Inl (skip_source se idx sn1)
          else (case packing se (appendBytes (se_obs se) idx b) sn1 of
                  (Some e, sn2) \<Rightarrow> (Inl (Some e), sn2)
                | (None, sn2) \<Rightarrow>
                    send_blocks se idx upto_size data (sent + n) (fh_addBlock (se_bh se) b h)
                      (sn_note (SentTo idx (sent + n)) sn2)))"
  by pat_completeness auto
termination
  by (relation "measure (\<lambda>(se, idx, upto_size, data, sent, h, sn). upto_size - sent)") (auto simp: hashBlockSize_def MaxChunkSize_def)

declare send_blocks.simps [simp del]

definition finish_file :: "'f send_env \<Rightarrow> Source \<Rightarrow> src_file \<Rightarrow> fileHasher \<Rightarrow> sender \<Rightarrow> goerr option \<times> sender" where
  "finish_file se src f h sn =
     (let e = so_Entry src;
          changed = (case sf_stat f of
                       None \<Rightarrow> False | Some (sz, mtime) \<Rightarrow> sz \<noteq> unat (le_Size e) \<or> mtime \<noteq> le_ModTimeSec e);
          sn1 = (if changed then sn_note (ChangedSource (le_Index e)) sn else sn)
      in packing se (endFile (se_obs se) (le_Index e) (fh_Sum (se_bh se) (se_fk se) h) changed) sn1)"

definition send_from :: "'f send_env \<Rightarrow> Source \<Rightarrow> src_file \<Rightarrow> nat \<Rightarrow> fileHasher \<Rightarrow> sender \<Rightarrow> goerr option \<times> sender" where
  "send_from se src f offset h sn =
     (case send_blocks se (le_Index (so_Entry src)) (unat (le_Size (so_Entry src))) (sf_data f) offset h sn of
        (Inl r, sn1) \<Rightarrow> (r, sn1)
      | (Inr h1, sn1) \<Rightarrow> finish_file se src f h1 sn1)"

definition sendOneFile :: "'f send_env \<Rightarrow> Source \<Rightarrow> Decision \<Rightarrow> sender \<Rightarrow> goerr option \<times> sender" where
  "sendOneFile se src d sn =
     (let e = so_Entry src; idx = le_Index e in
      case se_open se (so_AbsPath src) of
        None \<Rightarrow> skip_source se idx sn
      | Some f \<Rightarrow>
          if \<not> wants_prefix src d then send_from se src f 0 newFileHasher sn
          else (case prefix_result se src d of
                  Inl err \<Rightarrow> if err_is err CtxCanceled then (Some err, sn) else skip_source se idx sn
                | Inr blocks \<Rightarrow>
                    if d_PrefixRoot d = foldRoot (se_fk se) blocks (d_ResumeOffset d)
                    then (if \<not> sf_seek f then skip_source se idx sn
                          else send_from se src f (unat (d_ResumeOffset d)) (fh_seed blocks newFileHasher)
                                 (sn_note (ResumeAt idx (d_ResumeOffset d) (le_Size e)) sn))
                    else send_from se src f 0 newFileHasher
                           (sn\<lparr>sn_packer := markRestart idx (sn_packer sn)\<rparr>)))"

section \<open>A transfer\<close>

fun send_sources :: "'f send_env \<Rightarrow> (u32 \<rightharpoonup> Decision) \<Rightarrow> Source list \<Rightarrow> sender \<Rightarrow> goerr option \<times> sender" where
  "send_sources se dec [] sn = (None, sn)"
| "send_sources se dec (src # srcs) sn =
     (case poll_ctx se sn of
        (Some e, sn1) \<Rightarrow> (Some e, sn1)
      | (None, sn1) \<Rightarrow>
          let e = so_Entry src in
          (case dec (le_Index e) of
             None \<Rightarrow> send_sources se dec srcs sn1
           | Some d \<Rightarrow>
               if d_Action d = DecisionSkip
               then send_sources se dec srcs
                      (if le_Type e \<noteq> EntryDir then sn_note (SkipDecision (le_Index e) (d_Kept d)) sn1 else sn1)
               else if le_Type e \<noteq> EntryFile \<or> le_Size e = 0 then send_sources se dec srcs sn1
               else (case sendOneFile se src d sn1 of
                       (Some err, sn2) \<Rightarrow> (Some err, sn2)
                     | (None, sn2) \<Rightarrow> send_sources se dec srcs sn2)))"

text \<open>Draining the packer through its writer, then the closing handshake.\<close>

definition close_packer :: "'f send_env \<Rightarrow> sender \<Rightarrow> goerr option \<times> sender" where
  "close_packer se sn =
     (case packer_Close (se_zenc se) (sn_data sn) (sn_packer sn) of
        (e, w) \<Rightarrow> (e, sn\<lparr>sn_data := w, sn_packer := (sn_packer sn)\<lparr>pp_out := []\<rparr>\<rparr>))"

definition flush_and_close :: "'f send_env \<Rightarrow> sender \<Rightarrow> goerr option \<times> sender" where
  "flush_and_close se sn =
     (case packing se (flush (se_obs se)) sn of
        (Some e, sn1) \<Rightarrow> (Some e, sn1)
      | (None, sn1) \<Rightarrow>
          (case close_packer se sn1 of
             (Some e, sn2) \<Rightarrow> apfst Some (sendChunkErr se e sn2)
           | (None, sn2) \<Rightarrow> (None, sn2)))"

definition sn_streams_op :: "(streams \<Rightarrow> 'a \<times> streams) \<Rightarrow> sender \<Rightarrow> 'a \<times> sender" where
  "sn_streams_op op sn = (case op (sn_streams sn) of (x, st) \<Rightarrow> (x, sn\<lparr>sn_streams := st\<rparr>))"

definition sendFiles :: "'f send_env \<Rightarrow> SendOptions \<Rightarrow> sender \<Rightarrow> goerr option \<times> sender" where
  "sendFiles se opts sn =
     (if maxListingEntries < length (sp_Sources opts) then (Some [ErrTooManyEntries], sn)
      else case sn_streams_op (\<lambda>s. apsnd (\<lambda>w. s\<lparr>sm_ctl_out := w\<rparr>)
                  (sendListing (se_cd se) (map so_Entry (sp_Sources opts)) (sm_ctl_out s))) sn of
        (Some e, sn1) \<Rightarrow> (Some e, sn1)
      | (None, sn1) \<Rightarrow>
          (case sn_streams_op (senderNegotiate se (sp_Sources opts)) sn1 of
             (Inl e, sn2) \<Rightarrow> (Some e, sn2)
           | (Inr dec, sn2) \<Rightarrow>
               (case send_sources se dec (sp_Sources opts) (sn2\<lparr>sn_packer := newChunkPacker\<rparr>) of
                  (Some e, sn3) \<Rightarrow> (Some e, snd (close_packer se sn3))
                | (None, sn3) \<Rightarrow>
                    (case flush_and_close se sn3 of
                       (Some e, sn4) \<Rightarrow> (Some e, snd (close_packer se sn4))
                     | (None, sn4) \<Rightarrow> sn_streams_op (finishSend (se_cd se)) sn4))))"

section \<open>A stream\<close>

fun stream_loop :: "'f send_env \<Rightarrow> bytes list \<Rightarrow> io_error \<Rightarrow> nat \<Rightarrow> fileHasher \<Rightarrow> sender \<Rightarrow> (goerr + nat \<times> fileHasher) \<times> sender" where
  "stream_loop se [] end' sent h sn =
     (case poll_ctx se sn of
        (Some e, sn1) \<Rightarrow> (Inl e, sn1)
      | (None, sn1) \<Rightarrow> (if end' = IoEOF then Inr (sent, h) else Inl [ErrReadFailed], sn1))"
| "stream_loop se (b # bs) end' sent h sn =
     (case poll_ctx se sn of
        (Some e, sn1) \<Rightarrow> (Inl e, sn1)
      | (None, sn1) \<Rightarrow>
          if b = [] then stream_loop se bs end' sent h sn1
          else (case packing se (appendBytes (se_obs se) 0 b) sn1 of
                  (Some e, sn2) \<Rightarrow> (Inl e, sn2)
                | (None, sn2) \<Rightarrow>
                    stream_loop se bs end' (sent + length b) (fh_Write (se_bh se) b h)
                      (sn_note (SentTo 0 (sent + length b)) sn2)))"

definition sendStream :: "'f send_env \<Rightarrow> SendOptions \<Rightarrow> sender \<Rightarrow> goerr option \<times> sender" where
  "sendStream se opts sn =
     (case stream_loop se (sp_Stream opts) (sp_StreamEnd opts) 0 newFileHasher (sn\<lparr>sn_packer := newChunkPacker\<rparr>) of
        (Inl e, sn1) \<Rightarrow> (Some e, snd (close_packer se sn1))
      | (Inr (sent, h), sn1) \<Rightarrow>
          (case packing se (endFile (se_obs se) 0 (fh_Sum (se_bh se) (se_fk se) h) False) sn1 of
             (Some e, sn2) \<Rightarrow> (Some e, snd (close_packer se sn2))
           | (None, sn2) \<Rightarrow>
               (case flush_and_close se sn2 of
                  (Some e, sn3) \<Rightarrow> (Some e, snd (close_packer se sn3))
                | (None, sn3) \<Rightarrow> sn_streams_op (finishSend (se_cd se)) (sn_note (StreamingEOF sent) sn3))))"

section \<open>The whole send\<close>

text \<open>\<open>bindCtx\<close> wraps the two streams and leaves the session binding behind.\<close>

definition bindCtx :: "'f pw_env \<Rightarrow> 'f pw_env" where
  "bindCtx pe = pe\<lparr>pw_binding := []\<rparr>"

definition send_hello :: "SendOptions \<Rightarrow> SenderHello" where
  "send_hello opts =
     \<lparr>sh_MinVersion = MinProtocolVersion, sh_MaxVersion = ProtocolVersion, sh_Caps = 0, sh_Hostname = sp_Hostname opts,
      sh_OS = sp_OS opts, sh_ClientVersion = sp_ClientVersion opts, sh_HasPassword = (sp_Password opts \<noteq> []),
      sh_Mode = sp_Mode opts, sh_IsText = sp_IsText opts, sh_DisplayName = sp_DisplayName opts\<rparr>"

definition zero_rhello :: ReceiverHello where
  "zero_rhello = \<lparr>rh_MinVersion = 0, rh_MaxVersion = 0, rh_Caps = 0, rh_Hostname = [], rh_OS = [],
     rh_ClientVersion = [], rh_Accepts = False\<rparr>"

definition send_body :: "'f send_env \<Rightarrow> SendOptions \<Rightarrow> sender \<Rightarrow> goerr option \<times> sender" where
  "send_body se opts sn = (if sp_Mode opts = ModeStream then sendStream se opts sn else sendFiles se opts sn)"

definition send_inner :: "'f send_env \<Rightarrow> SendOptions \<Rightarrow> sender \<Rightarrow> (goerr option \<times> sender) option" where
  "send_inner se opts sn =
     (case sn_streams_op (send_frame (gob_shello_enc (se_cd se)) TypeHello (Some (send_hello opts))) sn of
        (Some e, sn1) \<Rightarrow> Some (Some e, sn1)
      | (None, sn1) \<Rightarrow>
          (case ReadControl (gob_rhello_dec (se_cd se)) True (sm_ctl_in (sn_streams sn1)) of
             (ft, r, rd) \<Rightarrow>
               let sn2 = sn1\<lparr>sn_streams := (sn_streams sn1)\<lparr>sm_ctl_in := rd\<rparr>\<rparr> in
               (case r of
                  Inl e \<Rightarrow> Some (Some (if err_is e WireUnsupportedVersion then [ErrIncompatibleVersion] else e), sn2)
                | Inr a \<Rightarrow>
                    let ack = (case a of None \<Rightarrow> zero_rhello | Some x \<Rightarrow> x) in
                    if ft \<noteq> TypeHelloAck then Some (Some [ErrProtocolError], sn2)
                    else if Negotiate (rh_MinVersion ack) (rh_MaxVersion ack) = None
                    then Some (Some [ErrIncompatibleVersion], sn2)
                    else
                      let sn3 = sn_note (PeerSeen (rh_Hostname ack) (rh_Accepts ack)) sn2 in
                      if \<not> rh_Accepts ack then Some (Some [ErrReceiverDeclined], sn3)
                      else if sp_Password opts = [] then Some (send_body se opts sn3)
                      else (case senderPasswordHandshake (bindCtx (se_pw se)) (sp_Password opts) (sn_streams sn3) of
                              None \<Rightarrow> None
                            | Some (Some e, st) \<Rightarrow> Some (Some e, sn3\<lparr>sn_streams := st\<rparr>)
                            | Some (None, st) \<Rightarrow> Some (send_body se opts (sn3\<lparr>sn_streams := st\<rparr>))))))"

definition notifyPeer :: "codecs \<Rightarrow> u16 \<Rightarrow> string \<Rightarrow> streams \<Rightarrow> streams" where
  "notifyPeer cd code msg s = declineTransfer cd code msg (s\<lparr>sm_data_closed := True\<rparr>)"

definition Send :: "'f send_env \<Rightarrow> SendOptions \<Rightarrow> sender \<Rightarrow> (goerr option \<times> sender) option" where
  "Send se opts sn =
     (case send_inner se opts sn of
        None \<Rightarrow> None
      | Some (None, sn1) \<Rightarrow> Some (None, sn1)
      | Some (Some e, sn1) \<Rightarrow>
          Some (Some e,
            if err_is e CtxCanceled
            then sn1\<lparr>sn_streams := notifyPeer (se_cd se) ErrCodeCancelled ''sender cancelled'' (sn_streams sn1)\<rparr>
            else if err_is e ErrReadFailed
            then sn1\<lparr>sn_streams := notifyPeer (se_cd se) ErrCodeReadFailed ''the sender could not read its source'' (sn_streams sn1)\<rparr>
            else sn1))"


lemma binding_dropped: "bindCtx (pe\<lparr>pw_binding := b\<rparr>) = bindCtx pe"
  by (simp add: bindCtx_def)

section \<open>What a file puts into the packer\<close>

lemma pack_run_append:
  "pack_run obs xs p = (None, p1) \<Longrightarrow> pack_run obs (xs @ ys) p = pack_run obs ys p1"
  by (induction xs arbitrary: p) (auto split: prod.splits option.splits)

lemma packing_None:
  "packing se op sn = (None, sn') \<Longrightarrow> op (sn_packer sn) = (None, sn_packer sn') \<and> sn_log sn' = sn_log sn"
  by (auto simp: packing_def on_packer_def sendChunkErr_def apfst_def map_prod_def split: prod.splits option.splits)

lemma sn_note_packer [simp]: "sn_packer (sn_note n sn) = sn_packer sn" "sn_log (sn_note n sn) = sn_log sn @ [n]"
  by (simp_all add: sn_note_def)

lemma poll_ctx_packer: "poll_ctx se sn = (e, sn') \<Longrightarrow> sn_packer sn' = sn_packer sn \<and> sn_log sn' = sn_log sn"
  by (auto simp: poll_ctx_def)

lemma addBlock_n: "h_n (fh_addBlock bh b h) = h_n h + of_nat (length b)"
  by (simp add: fh_addBlock_def fh_dispatch_def)

lemma send_blocks_ops:
  assumes "send_blocks se idx lim data sent h sn = (Inr h', sn')" "h_cur h = None" "sent \<le> lim"
  shows "pack_run (se_obs se) (map (PkAppend idx) (blocks_of (drop sent (take lim data)))) (sn_packer sn) = (None, sn_packer sn')
    \<and> fh_blocks (se_bh se) h' = fh_blocks (se_bh se) h @ map (se_bh se) (blocks_of (drop sent (take lim data)))
    \<and> h_n h' = h_n h + of_nat (lim - sent) \<and> (sent < lim \<longrightarrow> lim \<le> length data)"
  using assms
proof (induction se idx lim data sent h sn rule: send_blocks.induct)
  case (1 se idx lim data sent h sn)
  show ?case
  proof (cases "lim \<le> sent")
    case True
    with 1(2,4) show ?thesis by (simp add: send_blocks.simps [of se idx lim data sent h sn])
  next
    case False
    let ?n = "min hashBlockSize (lim - sent)"
    let ?b = "take ?n (drop sent data)"
    obtain c sn1 where c: "poll_ctx se sn = (c, sn1)" by (metis surj_pair)
    obtain e sn2 where p: "packing se (appendBytes (se_obs se) idx ?b) sn1 = (e, sn2)" by (metis surj_pair)
    let ?sn3 = "sn_note (SentTo idx (sent + ?n)) sn2" and ?h1 = "fh_addBlock (se_bh se) ?b h"
    from 1(2) False have q: "c = None" "\<not> length ?b < ?n" "e = None"
      "send_blocks se idx lim data (sent + ?n) ?h1 ?sn3 = (Inr h', sn')"
      unfolding send_blocks.simps [of se idx lim data sent h sn] c prod.case Let_def p
      by (auto simp: apfst_def map_prod_def split: option.splits if_splits prod.splits)
    have n: "sent + ?n \<le> lim" "length ?b = ?n" "0 < ?n" using False q(2) by auto
    have "?n \<le> length data - sent" using n(2) by (metis length_drop length_take min.cobounded1)
    then have fits: "sent + ?n \<le> length data" "sent < length data" using n(3) by linarith+
    have bs: "blocks_of (drop sent (take lim data)) = ?b # blocks_of (drop (sent + ?n) (take lim data))"
    proof -
      have "sent < length (take lim data)" using fits False by simp
      from blocks_of_step [OF this]
      have "blocks_of (drop sent (take lim data)) =
        take hashBlockSize (drop sent (take lim data)) # blocks_of (drop (sent + hashBlockSize) (take lim data))" .
      moreover have "take hashBlockSize (drop sent (take lim data)) = ?b" by (simp add: drop_take)
      moreover have "drop (sent + hashBlockSize) (take lim data) = drop (sent + ?n) (take lim data)"
      proof (cases "hashBlockSize \<le> lim - sent")
        case False
        then have "length (take lim data) \<le> sent + ?n" "length (take lim data) \<le> sent + hashBlockSize" by auto
        then show ?thesis by (simp only: drop_all)
      qed (simp add: min_def)
      ultimately show ?thesis by simp
    qed
    have IH: "pack_run (se_obs se) (map (PkAppend idx) (blocks_of (drop (sent + ?n) (take lim data)))) (sn_packer ?sn3)
        = (None, sn_packer sn')
      \<and> fh_blocks (se_bh se) h' = fh_blocks (se_bh se) ?h1 @ map (se_bh se) (blocks_of (drop (sent + ?n) (take lim data)))
      \<and> h_n h' = h_n ?h1 + of_nat (lim - (sent + ?n)) \<and> (sent + ?n < lim \<longrightarrow> lim \<le> length data)"
    proof (rule 1(1))
      show "\<not> lim \<le> sent" by (rule False)
      show "(None, sn1) = poll_ctx se sn" using c q(1) by simp
      show "\<not> length ?b < ?n" by (rule q(2))
      show "(None, sn2) = packing se (appendBytes (se_obs se) idx ?b) sn1" using p q(3) by simp
      show "send_blocks se idx lim data (sent + ?n) ?h1 ?sn3 = (Inr h', sn')" by (rule q(4))
      show "h_cur ?h1 = None" using fh_blocks_addBlock [OF 1(3)] 1(3) by simp
      show "sent + ?n \<le> lim" by (rule n(1))
    qed (rule refl)+
    have pk: "appendBytes (se_obs se) idx ?b (sn_packer sn) = (None, sn_packer sn2)"
      using packing_None [OF p [unfolded q(3)]] poll_ctx_packer [OF c] by simp
    have "lim - sent = ?n + (lim - (sent + ?n))" using n(1) by linarith
    then have "(of_nat (lim - sent) :: u64) = of_nat ?n + of_nat (lim - (sent + ?n))" by (metis of_nat_add)
    then have hn: "h_n h' = h_n h + of_nat (lim - sent)"
      using IH n(2) by (simp only: addBlock_n add.assoc)
    have len: "lim \<le> length data"
    proof (cases "sent + ?n < lim")
      case True with IH show ?thesis by simp
    next
      case False
      then have "sent + ?n = lim" using n(1) by simp
      then show ?thesis using fits by simp
    qed
    show ?thesis
      unfolding bs using IH pk hn len by (simp add: fh_blocks_addBlock [OF 1(3)])
  qed
qed

lemma packing_log: "packing se op sn = (e, sn') \<Longrightarrow> sn_log sn' = sn_log sn"
  by (auto simp: packing_def on_packer_def sendChunkErr_def apfst_def map_prod_def split: prod.splits option.splits)

lemma skip_source_log: "skip_source se idx sn = (e, sn') \<Longrightarrow> SourceSkipped idx \<in> set (sn_log sn')"
  by (auto simp: skip_source_def dest!: packing_log)

lemma send_blocks_skip:
  "send_blocks se idx lim data sent h sn = (Inl None, sn') \<Longrightarrow> SourceSkipped idx \<in> set (sn_log sn')"
proof (induction se idx lim data sent h sn rule: send_blocks.induct)
  case (1 se idx lim data sent h sn)
  obtain c sn1 where c: "poll_ctx se sn = (c, sn1)" by (metis surj_pair)
  let ?n = "min hashBlockSize (lim - sent)"
  let ?b = "take ?n (drop sent data)"
  obtain e sn2 where p: "packing se (appendBytes (se_obs se) idx ?b) sn1 = (e, sn2)" by (metis surj_pair)
  have nl: "\<not> lim \<le> sent" and cn: "c = None"
    using 1(2) c by (auto simp: send_blocks.simps [of se idx lim data sent h sn] split: if_splits option.splits)
  show ?case
  proof (cases "length ?b < ?n")
    case True
    then have "apfst Inl (skip_source se idx sn1) = (Inl None :: goerr option + fileHasher, sn')"
      using 1(2) nl unfolding send_blocks.simps [of se idx lim data sent h sn] c cn prod.case Let_def by simp
    then show ?thesis by (cases "skip_source se idx sn1") (auto dest: skip_source_log)
  next
    case False
    then have "e = None" "send_blocks se idx lim data (sent + ?n) (fh_addBlock (se_bh se) ?b h)
        (sn_note (SentTo idx (sent + ?n)) sn2) = (Inl None, sn')"
      using 1(2) nl unfolding send_blocks.simps [of se idx lim data sent h sn] c cn prod.case Let_def p
      by (auto split: option.splits)
    show ?thesis
    proof (rule 1(1))
      show "\<not> lim \<le> sent" by (rule nl)
      show "(None, sn1) = poll_ctx se sn" using c cn by simp
      show "\<not> length ?b < ?n" by (rule False)
      show "(None, sn2) = packing se (appendBytes (se_obs se) idx ?b) sn1" using p \<open>e = None\<close> by simp
      show "send_blocks se idx lim data (sent + ?n) (fh_addBlock (se_bh se) ?b h)
          (sn_note (SentTo idx (sent + ?n)) sn2) = (Inl None, sn')" by fact
    qed (rule refl)+
  qed
qed

lemma finish_file_packing:
  "\<exists>ch sn2. sn_packer sn2 = sn_packer sn
     \<and> packing se (endFile (se_obs se) (le_Index (so_Entry src)) (fh_Sum (se_bh se) (se_fk se) h) ch) sn2
       = finish_file se src f h sn"
  unfolding finish_file_def Let_def by (rule exI, rule exI, rule conjI [rotated], rule refl) simp

lemma block_size_word: "unat (of_nat hashBlockSize :: u64) = hashBlockSize"
  by (simp add: hashBlockSize_def MaxChunkSize_def)

lemma offset_aligned: "(x :: u64) mod of_nat hashBlockSize = 0 \<Longrightarrow> unat x mod hashBlockSize = 0"
  by (metis unat_mod unat_0 block_size_word)

text \<open>One file sent from an offset, given the hashes of the bytes before it.\<close>

lemma send_from_ops:
  assumes run: "send_from se src f off h sn = (None, sn')"
    and kept: "SourceSkipped (le_Index (so_Entry src)) \<notin> set (sn_log sn')"
    and pre: "length pre = off" "off mod hashBlockSize = 0" "off \<le> unat (le_Size (so_Entry src))"
    and h: "h_cur h = None" "fh_blocks (se_bh se) h = map (se_bh se) (blocks_of pre)" "h_n h = of_nat off"
  shows "\<exists>ch X. length X = unat (le_Size (so_Entry src)) \<and> take off X = pre
    \<and> drop off X = drop off (take (unat (le_Size (so_Entry src))) (sf_data f))
    \<and> pack_run (se_obs se) (map (PkAppend (le_Index (so_Entry src))) (blocks_of (drop off X))
          @ [PkEnd (le_Index (so_Entry src)) (tree_root (se_bh se) (se_fk se) X) ch]) (sn_packer sn)
        = (None, sn_packer sn')"
proof -
  let ?e = "so_Entry src"
  let ?i = "le_Index ?e" and ?sz = "unat (le_Size ?e)"
  let ?rest = "drop off (take ?sz (sf_data f))"
  obtain r sn1 where b: "send_blocks se ?i ?sz (sf_data f) off h sn = (r, sn1)" by (metis surj_pair)
  have "r \<noteq> Inl None"
  proof
    assume n: "r = Inl None"
    with run b have "sn1 = sn'" by (simp add: send_from_def)
    with kept send_blocks_skip [OF b [unfolded n]] show False by simp
  qed
  with run b obtain h1 where r: "r = Inr h1" "finish_file se src f h1 sn1 = (None, sn')"
    unfolding send_from_def b by (auto split: sum.splits)
  have ops: "pack_run (se_obs se) (map (PkAppend ?i) (blocks_of ?rest)) (sn_packer sn) = (None, sn_packer sn1)"
    "fh_blocks (se_bh se) h1 = fh_blocks (se_bh se) h @ map (se_bh se) (blocks_of ?rest)"
    "h_n h1 = h_n h + of_nat (?sz - off)" "off < ?sz \<longrightarrow> ?sz \<le> length (sf_data f)"
    using send_blocks_ops [OF b [unfolded r(1)] h(1) pre(3)] by blast+
  define X where "X = pre @ ?rest"
  have len: "length X = ?sz" using pre ops(4) by (auto simp: X_def)
  have tk: "take off X = pre" "drop off X = ?rest" using pre(1) by (simp_all add: X_def)
  have "fh_blocks (se_bh se) h1 = map (se_bh se) (blocks_of X)"
    using pre by (simp add: X_def ops(2) h(2) blocks_of_append mod_eq_0_iff_dvd)
  moreover have "h_n h1 = of_nat (length X)"
    using pre(3) by (simp add: len ops(3) h(3) of_nat_diff)
  ultimately have root: "fh_Sum (se_bh se) (se_fk se) h1 = tree_root (se_bh se) (se_fk se) X"
    by (simp add: fh_Sum_def tree_root_def)
  obtain ch sn2 where q: "sn_packer sn2 = sn_packer sn1"
    "packing se (endFile (se_obs se) ?i (fh_Sum (se_bh se) (se_fk se) h1) ch) sn2 = (None, sn')"
    using finish_file_packing [where se = se and src = src and f = f and h = h1 and sn = sn1]
    unfolding r(2) by blast
  have "endFile (se_obs se) ?i (tree_root (se_bh se) (se_fk se) X) ch (sn_packer sn1) = (None, sn_packer sn')"
    using packing_None [OF q(2)] q(1) root by simp
  with ops(1) have "pack_run (se_obs se) (map (PkAppend ?i) (blocks_of ?rest)
      @ [PkEnd ?i (tree_root (se_bh se) (se_fk se) X) ch]) (sn_packer sn) = (None, sn_packer sn')"
    by (simp add: pack_run_append)
  with len tk show ?thesis by metis
qed

section \<open>Properties\<close>

text \<open>
  C13. What the sender puts on the wire for one file is a clean snapshot with a matching root:
  when \<open>sendOneFile\<close> succeeds without dropping the file, the packer got exactly the blocks of
  \<open>X\<close> from the resume offset on (0 unless the receiver's prefix was confirmed), then an end
  marker that carries the block-tree root of the whole of \<open>X\<close>. \<open>X\<close> has exactly the size of
  the listing, ends with the file's own bytes, and its part before the offset is what the
  receiver's prefix root names. A prefix that is not confirmed is announced with a restart.
\<close>

theorem sent_file_root:
  assumes "se_open se (so_AbsPath src) = Some f"
    and "sendOneFile se src d sn = (None, sn')"
    and "SourceSkipped (le_Index (so_Entry src)) \<notin> set (sn_log sn')"
  shows "\<exists>X off restart ch.
    length X = unat (le_Size (so_Entry src))
    \<and> drop off X = drop off (take (unat (le_Size (so_Entry src))) (sf_data f))
    \<and> (off = 0 \<or> off = unat (d_ResumeOffset d) \<and> restart = []
          \<and> tree_root (se_bh se) (se_fk se) (take off X) = d_PrefixRoot d)
    \<and> restart \<in> {[], [PkRestart (le_Index (so_Entry src))]}
    \<and> (off = 0 \<longrightarrow> restart = [] \<longrightarrow> \<not> wants_prefix src d)
    \<and> pack_run (se_obs se)
          (restart @ map (PkAppend (le_Index (so_Entry src))) (blocks_of (drop off X))
             @ [PkEnd (le_Index (so_Entry src)) (tree_root (se_bh se) (se_fk se) X) ch])
          (sn_packer sn) = (None, sn_packer sn')"
proof -
  let ?e = "so_Entry src"
  let ?i = "le_Index ?e" and ?off = "unat (d_ResumeOffset d)"
  have fresh: "\<exists>ch X. length X = unat (le_Size ?e) \<and> X = take (unat (le_Size ?e)) (sf_data f)
      \<and> pack_run (se_obs se) (map (PkAppend ?i) (blocks_of X) @ [PkEnd ?i (tree_root (se_bh se) (se_fk se) X) ch])
          (sn_packer sn1) = (None, sn_packer sn')"
    if "send_from se src f 0 newFileHasher sn1 = (None, sn')" for sn1
    using send_from_ops [OF that assms(3), of "[]"] by (auto simp: newFileHasher_def fh_blocks_def)
  consider (plain) "\<not> wants_prefix src d" "send_from se src f 0 newFileHasher sn = (None, sn')"
    | (restart) "send_from se src f 0 newFileHasher (sn\<lparr>sn_packer := markRestart ?i (sn_packer sn)\<rparr>) = (None, sn')"
    | (resume) bs where "wants_prefix src d" "prefix_result se src d = Inr bs"
        "d_PrefixRoot d = foldRoot (se_fk se) bs (d_ResumeOffset d)"
        "send_from se src f ?off (fh_seed bs newFileHasher)
           (sn_note (ResumeAt ?i (d_ResumeOffset d) (le_Size ?e)) sn) = (None, sn')"
    using assms unfolding sendOneFile_def Let_def
    by (auto dest: skip_source_log split: if_splits sum.splits)
  then show ?thesis
  proof cases
    case plain
    from fresh [OF plain(2)] obtain ch X where "length X = unat (le_Size ?e)"
        "X = take (unat (le_Size ?e)) (sf_data f)"
        "pack_run (se_obs se) (map (PkAppend ?i) (blocks_of X) @ [PkEnd ?i (tree_root (se_bh se) (se_fk se) X) ch])
          (sn_packer sn) = (None, sn_packer sn')" by auto
    with plain(1) show ?thesis
      by (intro exI [of _ X] exI [of _ 0] exI [of _ "[]"] exI [of _ ch]) simp
  next
    case restart
    from fresh [OF restart] obtain ch X where "length X = unat (le_Size ?e)"
        "X = take (unat (le_Size ?e)) (sf_data f)"
        "pack_run (se_obs se) (map (PkAppend ?i) (blocks_of X) @ [PkEnd ?i (tree_root (se_bh se) (se_fk se) X) ch])
          (markRestart ?i (sn_packer sn)) = (None, sn_packer sn')" by auto
    then show ?thesis
      by (intro exI [of _ X] exI [of _ 0] exI [of _ "[PkRestart ?i]"] exI [of _ ch]) simp
  next
    case resume
    obtain g where g: "se_prefix se (so_AbsPath src) = Inr g" "hashBlocks (se_bh se) g ?off = Some bs"
      using resume(2) by (auto simp: prefix_result_def split: sum.splits option.splits)
    let ?pre = "take ?off g"
    have al: "?off mod hashBlockSize = 0"
      using resume(1) unfolding wants_prefix_def by (elim conjE) (rule offset_aligned)
    have lt: "?off < unat (le_Size ?e)" "0 < ?off"
      using resume(1) unfolding wants_prefix_def by (simp_all add: word_less_nat_alt unat_gt_0)
    have le: "?off \<le> length g" using g(2) hashBlocks_short [of g ?off "se_bh se"] by fastforce
    then have bs: "bs = map (se_bh se) (blocks_of ?pre)" using g(2) hashBlocks_blocks [OF le] by simp
    have "hasher_rep (se_bh se) (fh_seed bs newFileHasher) ?pre"
      using al le bs by (intro hasher_rep_seed) (simp add: aligned_hashes_def hashBlocks_blocks)
    then have h: "fh_blocks (se_bh se) (fh_seed bs newFileHasher) = map (se_bh se) (blocks_of ?pre)"
      "h_n (fh_seed bs newFileHasher) = of_nat ?off"
      using le by (simp_all add: fh_blocks_rep hasher_rep_def)
    have "h_cur (fh_seed bs newFileHasher) = None" by (simp add: fh_seed_def newFileHasher_def)
    from send_from_ops [OF resume(4) assms(3) _ al _ this h] le lt(1) obtain ch X where
      X: "length X = unat (le_Size ?e)" "take ?off X = ?pre"
        "drop ?off X = drop ?off (take (unat (le_Size ?e)) (sf_data f))"
        "pack_run (se_obs se) (map (PkAppend ?i) (blocks_of (drop ?off X))
          @ [PkEnd ?i (tree_root (se_bh se) (se_fk se) X) ch]) (sn_packer sn) = (None, sn_packer sn')"
      by auto
    have "tree_root (se_bh se) (se_fk se) (take ?off X) = d_PrefixRoot d"
      using X(2) le resume(3) bs by (simp add: tree_root_def)
    with X lt(2) show ?thesis
      by (intro exI [of _ X] exI [of _ ?off] exI [of _ "[]"] exI [of _ ch]) simp
  qed
qed

definition sample_send_env :: "nat send_env" where
  "sample_send_env =
     \<lparr>se_pw = \<lparr>pw_pp = toy_prims, pw_cd = sample_codecs [] [], pw_hmac = \<lambda>_ _. [], pw_binding = [], pw_nonce = \<lambda>_. None,
        pw_scalar = \<lambda>_. [], pw_ch_enc = \<lambda>_. None, pw_ch_dec = \<lambda>_. None, pw_resp_enc = \<lambda>_. None,
        pw_resp_dec = \<lambda>_. None, pw_ver_enc = \<lambda>_. None, pw_ver_dec = \<lambda>_. None\<rparr>,
      se_cd = sample_codecs [] [], se_bh = id, se_fk = id, se_zenc = id, se_obs = \<lambda>_. None,
      se_open = \<lambda>_. Some \<lparr>sf_data = [1, 2, 3], sf_seek = True, sf_stat = Some (3, 7)\<rparr>,
      se_prefix = \<lambda>_. Inl [], se_verify = \<lambda>_. None, se_ctx = \<lambda>_. None\<rparr>"

definition sample_source :: Source where
  "sample_source = \<lparr>so_Entry = \<lparr>le_Index = 0, le_RelativePath = ''f'', le_Size = 2, le_ModTimeSec = 7, le_Mode = 420,
     le_Type = EntryFile, le_SymlinkTarget = []\<rparr>, so_AbsPath = ''/src/f''\<rparr>"

definition sample_send :: Decision where
  "sample_send = \<lparr>d_Index = 0, d_Action = DecisionSend, d_ResumeOffset = 0, d_PrefixRoot = [], d_Kept = False\<rparr>"

definition sample_sender :: sender where
  "sample_sender = \<lparr>sn_packer = newChunkPacker, sn_streams = sample_streams [], sn_data = \<lparr>w_out = [], w_room = None\<rparr>,
     sn_tick = 0, sn_log = []\<rparr>"

lemma sample_sent:
  "fst (sendOneFile sample_send_env sample_source sample_send sample_sender) = None"
  "SourceSkipped 0 \<notin> set (sn_log (snd (sendOneFile sample_send_env sample_source sample_send sample_sender)))"
  by (simp_all add: sendOneFile_def sample_send_env_def sample_source_def sample_send_def sample_sender_def wants_prefix_def
      send_from_def finish_file_def send_blocks.simps poll_ctx_def packing_def on_packer_def appendBytes_def failed_def
      newChunkPacker_def append_loop.simps append_turn_def needNewSegment_def open_segment_def put_bytes_def
      hashBlockSize_def MaxChunkSize_def sn_note_def endFile_def addMarker_def maxSegmentsPerChunk_def new_segment_def Let_def)

theorem sent_file_root_witness:
  "\<exists>X off restart ch. length X = 2 \<and> drop off X = drop off [1, 2] \<and> (off = 0 \<or> off = 0 \<and> restart = [])
    \<and> pack_run (\<lambda>_. None) (restart @ map (PkAppend 0) (blocks_of (drop off X)) @ [PkEnd 0 (tree_root id id X) ch])
          newChunkPacker
        = (None, sn_packer (snd (sendOneFile sample_send_env sample_source sample_send sample_sender)))"
proof -
  let ?r = "sendOneFile sample_send_env sample_source sample_send sample_sender"
  have "?r = (None, snd ?r)" using sample_sent(1) by (metis prod.collapse)
  from sent_file_root [OF _ this] sample_sent(2) show ?thesis
    by (simp add: sample_send_env_def sample_source_def sample_send_def sample_sender_def) blast
qed

end
