(* ===== verification/Stream_Receive.thy ===== *)
theory Stream_Receive
  imports Receiver Sender
begin

text \<open>
  A single-file receive of \<open>internal/transfer/recv.go\<close>: \<open>streamPayload\<close>, \<open>StreamFileName\<close> and
  \<open>recvStream\<close>, which take one payload of unknown length to a sink or to one file. The bytes go
  to a \<open>dest\<close>: the sink, or the partial together with what the manifest's SHA-256 has seen; the
  errors a sink reports are of the kind the argument says.
\<close>

datatype dest = DestSink writer | DestFile string bytes

record stream_state =
  st_rv :: receiver
  st_dest :: dest
  st_hasher :: fileHasher
  st_written :: u64

text \<open>\<open>Write\<close> on the sink, or on \<open>io.MultiWriter(f, sha)\<close>.\<close>

fun dest_write :: "recv_env \<Rightarrow> fault \<Rightarrow> bytes \<Rightarrow> dest \<Rightarrow> receiver \<Rightarrow> fault option \<times> dest \<times> receiver" where
  "dest_write re sf data (DestSink w) rv =
     (case write_all data w of
        (True, w1) \<Rightarrow> (None, DestSink w1, rv)
      | (False, w1) \<Rightarrow> (Some sf, DestSink w1, rv))"
| "dest_write re sf data (DestFile path seen) rv =
     (case on_disk (f_WriteAt (ev_flt (re_env re)) path data (length seen)) rv of
        (Some f, rv1) \<Rightarrow> (Some f, DestFile path seen, rv1)
      | (None, rv1) \<Rightarrow> (None, DestFile path (seen @ data), rv1))"

datatype seg_result = SegNext | SegDone "goerr option"

text \<open>The bytes of one segment.\<close>

definition stream_data :: "recv_env \<Rightarrow> fault \<Rightarrow> bytes \<Rightarrow> stream_state \<Rightarrow> goerr option \<times> stream_state" where
  "stream_data re sf data s =
     (if data = [] then (None, s)
      else case dest_write re sf data (st_dest s) (st_rv s) of
        (Some f, dst, rv) \<Rightarrow>
          (case writeFail re ''write'' [] f rv of (e, rv1) \<Rightarrow> (Some e, s\<lparr>st_rv := rv1, st_dest := dst\<rparr>))
      | (None, dst, rv) \<Rightarrow>
          let n = st_written s + of_nat (length data) in
          (None, s\<lparr>st_rv := log_note (Progress 0 n) rv, st_dest := dst,
                   st_hasher := fh_Write (ev_bh (re_env re)) data (st_hasher s), st_written := n\<rparr>))"

definition stream_segment :: "recv_env \<Rightarrow> fault \<Rightarrow> Segment \<Rightarrow> bytes \<Rightarrow> stream_state \<Rightarrow> seg_result \<times> stream_state" where
  "stream_segment re sf seg data s =
     (if sg_FileIndex seg \<noteq> 0 \<or> sg_Restart seg
      then (SegDone (Some [ErrProtocolError]),
            s\<lparr>st_rv := decline re ErrCodeProtocolError ''unexpected segment in a single-file stream'' (st_rv s)\<rparr>)
      else if sg_Skip seg then (SegDone (Some [ErrReadFailed]), s)
      else case stream_data re sf data s of
        (Some e, s1) \<Rightarrow> (SegDone (Some e), s1)
      | (None, s1) \<Rightarrow>
          if \<not> sg_EOF seg then (SegNext, s1)
          else if fh_Sum (ev_bh (re_env re)) (ev_fk (re_env re)) (st_hasher s1) \<noteq> sg_RootHash seg
          then (SegDone (Some [ErrHashMismatch]),
                s1\<lparr>st_rv := decline re ErrCodeFileHashMismatch ''root hash mismatch'' (st_rv s1)\<rparr>)
          else (SegDone None, s1))"

fun stream_segments ::
  "recv_env \<Rightarrow> fault \<Rightarrow> Segment list \<Rightarrow> bytes \<Rightarrow> stream_state \<Rightarrow> seg_result \<times> stream_state" where
  "stream_segments re sf [] plain s = (SegNext, s)"
| "stream_segments re sf (seg # segs) plain s =
     (let n = unat (sg_Length seg) in
      case stream_segment re sf seg (take n plain) s of
        (SegDone r, s1) \<Rightarrow> (SegDone r, s1)
      | (SegNext, s1) \<Rightarrow> stream_segments re sf segs (drop n plain) s1)"

text \<open>Nothing in a turn but reading the chunk touches what is left of the data stream.\<close>

lemma data_dest_write: "dest_write re sf data dst rv = (e, dst', rv') \<Longrightarrow> data_in rv' = data_in rv"
  by (cases dst) (auto split: prod.splits option.splits bool.splits dest: data_diskD)

lemma data_stream_data: "stream_data re sf data s = (e, s') \<Longrightarrow> data_in (st_rv s') = data_in (st_rv s)"
  unfolding stream_data_def Let_def log_note_def
  by (auto simp: data_kept split: if_splits option.splits prod.splits dest!: data_dest_write)
    (metis data_writeFail snd_conv)+

lemma data_stream_segment: "stream_segment re sf seg data s = (r, s') \<Longrightarrow> data_in (st_rv s') = data_in (st_rv s)"
  unfolding stream_segment_def
  by (auto simp: data_kept split: if_splits option.splits prod.splits dest!: data_stream_data)

lemma data_stream_segments:
  "stream_segments re sf segs plain s = (r, s') \<Longrightarrow> data_in (st_rv s') = data_in (st_rv s)"
  by (induction segs arbitrary: plain s)
    (auto simp: Let_def split: prod.splits seg_result.splits dest!: data_stream_segment)

text \<open>One chunk off the data stream, as \<open>streamPayload\<close> and \<open>streamTar\<close> read it.\<close>

definition chunk_in :: "recv_env \<Rightarrow> receiver \<Rightarrow> (goerr + Segment list \<times> bytes) \<times> receiver" where
  "chunk_in re rv =
     (case ReadChunk (sm_data_in (rv_streams rv)) of
        (r, rd) \<Rightarrow>
          let rv1 = rv\<lparr>rv_streams := (rv_streams rv)\<lparr>sm_data_in := rd\<rparr>\<rparr>
          in (case r of
                Inl e \<Rightarrow>
                  if err_is e GoEOF then
                    (case tryReadPeerError (re_cd re) (rv_streams rv1) of
                       (Some reason, st) \<Rightarrow> (Inl reason, rv1\<lparr>rv_streams := st\<rparr>)
                     | (None, st) \<Rightarrow> (Inl [ErrConnectFailed], rv1\<lparr>rv_streams := st\<rparr>))
                  else (Inl e, rv1)
              | Inr c \<Rightarrow>
                  (case decodeChunkPayload (ev_zdec (re_env re)) c of
                     Inl e \<Rightarrow> (Inl e, rv1)
                   | Inr plain \<Rightarrow> (Inr (ck_Segments c, plain), rv1))))"

lemma chunk_in_shorter:
  "chunk_in re rv = (Inr x, rv1) \<Longrightarrow> length (r_data (data_in rv1)) < length (r_data (data_in rv))"
  by (auto simp: chunk_in_def data_in_def Let_def
      split: prod.splits sum.splits option.splits if_splits dest: ReadChunk_shorter)

definition stream_chunk :: "recv_env \<Rightarrow> stream_state \<Rightarrow> (goerr + Segment list \<times> bytes) \<times> stream_state" where
  "stream_chunk re s = (case chunk_in re (st_rv s) of (r, rv) \<Rightarrow> (r, s\<lparr>st_rv := rv\<rparr>))"

definition stream_left :: "stream_state \<Rightarrow> nat" where
  "stream_left s = length (r_data (data_in (st_rv s)))"

lemma stream_chunk_shorter: "stream_chunk re s = (Inr x, s1) \<Longrightarrow> stream_left s1 < stream_left s"
  by (auto simp: stream_chunk_def stream_left_def split: prod.splits dest: chunk_in_shorter)

lemma stream_turn_shorter:
  "stream_chunk re s = (Inr x, s1) \<Longrightarrow> stream_segments re sf segs plain s1 = (r, s2) \<Longrightarrow> stream_left s2 < stream_left s"
  using stream_chunk_shorter data_stream_segments by (metis stream_left_def)

text \<open>\<open>streamPayload\<close>, one chunk per turn; turn \<open>t\<close> polls the context first.\<close>

function stream_loop_in :: "recv_env \<Rightarrow> fault \<Rightarrow> nat \<Rightarrow> stream_state \<Rightarrow> goerr option \<times> stream_state" where
  "stream_loop_in re sf t s =
     (case re_ctx re t of
        Some e \<Rightarrow> (Some e, s)
      | None \<Rightarrow>
          (case stream_chunk re s of
             (Inl e, s1) \<Rightarrow> (Some e, s1)
           | (Inr (segs, plain), s1) \<Rightarrow>
               (case stream_segments re sf segs plain s1 of
                  (SegDone r, s2) \<Rightarrow> (r, s2)
                | (SegNext, s2) \<Rightarrow> stream_loop_in re sf (Suc t) s2)))"
  by pat_completeness auto
termination
  by (relation "measure (\<lambda>(re, sf, t, s). stream_left s)") (auto dest: stream_turn_shorter [OF sym sym])

declare stream_loop_in.simps [simp del]

definition new_stream_state :: "dest \<Rightarrow> receiver \<Rightarrow> stream_state" where
  "new_stream_state dst rv = \<lparr>st_rv = rv, st_dest = dst, st_hasher = newFileHasher, st_written = 0\<rparr>"

definition streamPayload :: "recv_env \<Rightarrow> fault \<Rightarrow> dest \<Rightarrow> receiver \<Rightarrow> goerr option \<times> stream_state" where
  "streamPayload re sf dst rv = stream_loop_in re sf 0 (new_stream_state dst rv)"

section \<open>One stream to a sink or a file\<close>

text \<open>What a whole receive is configured with besides \<open>recv_env\<close>.\<close>

record 'f entry_env =
  ee_re :: recv_env
  ee_pw :: "'f pw_env"
  ee_sem :: fsSemantics
  ee_sink_fault :: fault

definition StreamFileName :: "env \<Rightarrow> string \<Rightarrow> string" where
  "StreamFileName ev displayName =
     (case sanitizeRelativePath (ev_upper ev) displayName (ev_goos ev) of
        None \<Rightarrow> ''fsend-received''
      | Some name \<Rightarrow>
          let base = path_base name
          in if base = ''.'' \<or> base = ''/'' then ''fsend-received'' else base)"

definition empty_summary :: classifySummary where
  "empty_summary = \<lparr>su_Total = 0, su_NewItems = 0, su_Identical = 0, su_Differing = 0, su_Refused = 0, su_BytesToRecv = 0,
     su_OfferedBytes = 0, su_DifferingBytes = 0, su_Files = [], su_Conflicts = []\<rparr>"

definition zero_entry :: ListingEntry where
  "zero_entry = \<lparr>le_Index = 0, le_RelativePath = [], le_Size = 0, le_ModTimeSec = 0, le_Mode = 0,
     le_Type = EntryFile, le_SymlinkTarget = []\<rparr>"

definition stream_accepts :: "recv_env \<Rightarrow> SenderHello \<Rightarrow> bool" where
  "stream_accepts re hello =
     (case ro_Accept (re_opts re) of None \<Rightarrow> True | Some acc \<Rightarrow> acc hello empty_summary)"

definition greet :: "recv_env \<Rightarrow> bool \<Rightarrow> receiver \<Rightarrow> receiver" where
  "greet re accepts rv =
     rv\<lparr>rv_streams := ackProceed (re_cd re) (ro_Hostname (re_opts re)) (ro_OS (re_opts re))
                        (ro_ClientVersion (re_opts re)) accepts (rv_streams rv)\<rparr>"

definition password_gate :: "'f entry_env \<Rightarrow> SenderHello \<Rightarrow> receiver \<Rightarrow> goerr option \<times> receiver" where
  "password_gate ee hello rv =
     (if sh_HasPassword hello
      then on_streams (receiverPasswordHandshake (bindCtx (ee_pw ee)) (ro_Password (re_opts (ee_re ee)))
                         (ro_PromptPass (re_opts (ee_re ee)))) rv
      else (None, rv))"

text \<open>
  Choosing the file a stream goes to: its name below the receive folder, or the error of a
  target that is in the way. The outer \<open>None\<close> is the search for a free name not returning.
\<close>

definition stream_target :: "'f entry_env \<Rightarrow> string \<Rightarrow> receiver \<Rightarrow> ((goerr + string) \<times> receiver) option" where
  "stream_target ee rel rv =
     (let re = ee_re ee; ev = re_env re; target = path_join (ev_dir ev) rel in
      if lstat (rv_disk rv) target = None then Some (Inr rel, rv)
      else case policy (re_opts re) of
        ConflictReplace \<Rightarrow>
          (case guardRegular re target ''target'' rv of
             (Some e, rv1) \<Rightarrow> Some (Inl e, rv1)
           | (None, rv1) \<Rightarrow> Some (Inr rel, rv1))
      | ConflictRename \<Rightarrow>
          (case freeName ev \<lparr>cl_checksum = False, cl_sem = ee_sem ee\<rparr> {} (rv_disk rv) rel of
             None \<Rightarrow> None
           | Some (rel1, taken) \<Rightarrow> Some (Inr rel1, rv))
      | ConflictKeep \<Rightarrow> Some (Inl [ErrTargetExists], decline re ErrCodeTargetExists rel rv))"

definition fsyncDir :: "faults \<Rightarrow> string \<Rightarrow> disk \<Rightarrow> disk" where
  "fsyncDir flt dir d =
     (if next_fault flt d \<noteq> None \<or> lstat d dir = None then tick d else ignoring (f_Sync flt) (tick d))"

text \<open>Putting a received stream in its place, and telling the user.\<close>

definition stream_commit :: "recv_env \<Rightarrow> string \<Rightarrow> string \<Rightarrow> bytes \<Rightarrow> receiver \<Rightarrow> goerr option \<times> receiver" where
  "stream_commit re rel part seen rv =
     (let ev = re_env re; target = path_join (ev_dir ev) rel in
      case on_disk (moveFile (ev_flt ev) (ev_tmp ev target) part target) rv of
        (Some f, rv1) \<Rightarrow>
          (Some [ErrWriteFailed],
           decline re ErrCodeWriteFailed (re_msg re ''finalize'' rel f)
             (rv1\<lparr>rv_disk := ps_remove ev rel (rv_disk rv1)\<rparr>))
      | (None, rv1) \<Rightarrow>
          on_streams (finishRecv (re_cd re))
            (log_note (FileDone target (ev_sha ev seen))
              (rv1\<lparr>rv_disk := fsyncDir (ev_flt ev) (path_dir target) (ps_tidy ev (ps_dropMeta ev rel (rv_disk rv1)))\<rparr>)))"

definition stream_to_file :: "'f entry_env \<Rightarrow> string \<Rightarrow> receiver \<Rightarrow> goerr option \<times> receiver" where
  "stream_to_file ee rel rv =
     (let re = ee_re ee; ev = re_env re in
      case on_disk (ps_create ev rel zero_entry) rv of
        (Inl f, rv1) \<Rightarrow> (Some [ErrWriteFailed], decline re ErrCodeWriteFailed (re_msg re ''create'' rel f) rv1)
      | (Inr part, rv1) \<Rightarrow>
          (case streamPayload re (ee_sink_fault ee) (DestFile part []) rv1 of
             (e, s) \<Rightarrow>
               (case (if e \<noteq> None then (e, st_rv s)
                      else case on_disk (f_Sync (ev_flt ev)) (st_rv s) of
                        (Some f, rv2) \<Rightarrow> (Some [ErrWriteFailed], rv2)
                      | (None, rv2) \<Rightarrow> (None, rv2)) of
                  (Some e1, rv3) \<Rightarrow> (Some e1, rv3\<lparr>rv_disk := ps_remove ev rel (rv_disk rv3)\<rparr>)
                | (None, rv3) \<Rightarrow>
                    stream_commit re rel part (case st_dest s of DestFile p seen \<Rightarrow> seen | DestSink w \<Rightarrow> []) rv3)))"

definition stream_to_sink :: "'f entry_env \<Rightarrow> writer \<Rightarrow> receiver \<Rightarrow> goerr option \<times> writer \<times> receiver" where
  "stream_to_sink ee w rv =
     (let re = ee_re ee in
      case streamPayload re (ee_sink_fault ee) (DestSink w) rv of
        (e, s) \<Rightarrow>
          (let w1 = (case st_dest s of DestSink w1 \<Rightarrow> w1 | DestFile p seen \<Rightarrow> w) in
           case e of
             Some err \<Rightarrow> (Some err, w1, st_rv s)
           | None \<Rightarrow> (case on_streams (finishRecv (re_cd re)) (st_rv s) of (e1, rv1) \<Rightarrow> (e1, w1, rv1))))"

definition recvStream ::
  "'f entry_env \<Rightarrow> SenderHello \<Rightarrow> writer option \<Rightarrow> receiver \<Rightarrow> (goerr option \<times> writer option \<times> receiver) option" where
  "recvStream ee hello sink rv =
     (let re = ee_re ee; accept = stream_accepts re hello; rv1 = greet re accept rv in
      if \<not> accept then Some (Some [ErrReceiverDeclined], sink, rv1\<lparr>rv_streams := drainControl (rv_streams rv1)\<rparr>)
      else case password_gate ee hello rv1 of
        (Some e, rv2) \<Rightarrow> Some (Some e, sink, rv2)
      | (None, rv2) \<Rightarrow>
          (case sink of
             Some w \<Rightarrow> (case stream_to_sink ee w rv2 of (e, w1, rv3) \<Rightarrow> Some (e, Some w1, rv3))
           | None \<Rightarrow>
               (case stream_target ee (StreamFileName (re_env re) (sh_DisplayName hello)) rv2 of
                  None \<Rightarrow> None
                | Some (Inl e, rv3) \<Rightarrow> Some (Some e, None, rv3)
                | Some (Inr rel, rv3) \<Rightarrow>
                    (case stream_to_file ee rel rv3 of (e, rv4) \<Rightarrow> Some (e, None, rv4)))))"

section \<open>What arrives is what was announced\<close>

fun dest_bytes :: "dest \<Rightarrow> bytes" where
  "dest_bytes (DestSink w) = w_out w"
| "dest_bytes (DestFile path seen) = seen"

text \<open>The state after \<open>bs\<close> of the stream was written behind the bytes \<open>pre\<close>.\<close>

definition st_rep :: "recv_env \<Rightarrow> bytes \<Rightarrow> stream_state \<Rightarrow> bytes \<Rightarrow> bool" where
  "st_rep re pre s bs \<longleftrightarrow> hasher_rep (ev_bh (re_env re)) (st_hasher s) bs \<and> dest_bytes (st_dest s) = pre @ bs"

abbreviation re_root :: "recv_env \<Rightarrow> bytes \<Rightarrow> bytes" where
  "re_root re \<equiv> tree_root (ev_bh (re_env re)) (ev_fk (re_env re))"

lemma dest_write_bytes:
  "dest_write re sf data dst rv = (None, dst', rv') \<Longrightarrow> dest_bytes dst' = dest_bytes dst @ data"
  by (cases dst) (auto split: prod.splits bool.splits option.splits dest: write_all_TrueD)

lemma stream_data_rep:
  assumes "stream_data re sf data s = (None, s')" "st_rep re pre s bs"
  shows "st_rep re pre s' (bs @ data)"
proof (cases "data = []")
  case False
  obtain e dst rv where w: "dest_write re sf data (st_dest s) (st_rv s) = (e, dst, rv)" by (metis surj_pair)
  with assms False have "e = None" "st_dest s' = dst" "st_hasher s' = fh_Write (ev_bh (re_env re)) data (st_hasher s)"
    by (auto simp: stream_data_def Let_def split: option.splits prod.splits)
  with assms(2) w show ?thesis
    by (auto simp: st_rep_def dest_write_bytes intro: hasher_rep_Write)
qed (use assms in \<open>simp add: stream_data_def\<close>)

lemma stream_segment_sound:
  assumes "stream_segment re sf seg data s = (r, s')" "st_rep re pre s bs" "r \<in> {SegNext, SegDone None}"
  shows "st_rep re pre s' (bs @ data)
    \<and> seg_events seg data = map (EvByte 0) data
        @ (if r = SegNext then [] else [EvEnd 0 (re_root re (bs @ data)) (sg_Changed seg)])"
proof -
  obtain e s1 where d: "stream_data re sf data s = (e, s1)" by (metis surj_pair)
  from assms(1,3) d have g: "sg_FileIndex seg = 0" "\<not> sg_Restart seg" "\<not> sg_Skip seg" "e = None" "s' = s1"
    "(r = SegNext) = (\<not> sg_EOF seg)"
    "r = SegDone None \<Longrightarrow> sg_RootHash seg = fh_Sum (ev_bh (re_env re)) (ev_fk (re_env re)) (st_hasher s1)"
    by (auto simp: stream_segment_def split: if_splits option.splits)
  have rep: "st_rep re pre s1 (bs @ data)" using stream_data_rep d g(4) assms(2) by blast
  then have "fh_Sum (ev_bh (re_env re)) (ev_fk (re_env re)) (st_hasher s1) = re_root re (bs @ data)"
    by (simp add: st_rep_def fh_Sum_rep)
  with g rep assms(3) show ?thesis by (auto simp: seg_events_def)
qed

lemma stream_segments_sound:
  assumes "stream_segments re sf segs plain s = (r, s')" "st_rep re pre s bs" "r \<in> {SegNext, SegDone None}"
  shows "\<exists>ds ch rest. st_rep re pre s' (bs @ ds)
    \<and> packed_events segs plain = map (EvByte 0) ds
        @ (if r = SegNext then [] else EvEnd 0 (re_root re (bs @ ds)) ch # rest)"
  using assms
proof (induction segs arbitrary: plain s bs)
  case (Cons seg segs)
  let ?n = "unat (sg_Length seg)"
  obtain r1 s1 where 1: "stream_segment re sf seg (take ?n plain) s = (r1, s1)" by (metis surj_pair)
  show ?case
  proof (cases r1)
    case SegNext
    with Cons.prems(1) 1 have 2: "stream_segments re sf segs (drop ?n plain) s1 = (r, s')" by (simp add: Let_def)
    from stream_segment_sound [OF 1 Cons.prems(2)] SegNext
    have a: "st_rep re pre s1 (bs @ take ?n plain)" "seg_events seg (take ?n plain) = map (EvByte 0) (take ?n plain)" by simp_all
    from Cons.IH [OF 2 a(1) Cons.prems(3)] obtain ds ch rest where
      "st_rep re pre s' ((bs @ take ?n plain) @ ds)" "packed_events segs (drop ?n plain) = map (EvByte 0) ds
        @ (if r = SegNext then [] else EvEnd 0 (re_root re ((bs @ take ?n plain) @ ds)) ch # rest)" by blast
    then show ?thesis
      using a(2) by (intro exI [of _ "take ?n plain @ ds"] exI [of _ ch] exI [of _ rest]) simp
  next
    case (SegDone x)
    with Cons.prems 1 have "r = SegDone None" "r1 = SegDone None" "s' = s1" by (auto simp: Let_def)
    with stream_segment_sound [OF 1 Cons.prems(2)] show ?thesis
      by (intro exI [of _ "take ?n plain"] exI [of _ "sg_Changed seg"] exI [of _ "packed_events segs (drop ?n plain)"]) simp
  qed
qed (auto intro: exI [of _ "[]"])

lemma stream_chunk_sound:
  assumes "stream_chunk re s = (Inr (segs, plain), s1)"
  shows "\<exists>c. ReadChunk (data_in (st_rv s)) = (Inr c, data_in (st_rv s1))
    \<and> chunk_events (ev_zdec (re_env re)) c = Some (packed_events segs plain)
    \<and> st_hasher s1 = st_hasher s \<and> st_dest s1 = st_dest s"
proof -
  obtain r rd where r: "ReadChunk (data_in (st_rv s)) = (r, rd)" by (metis surj_pair)
  with assms obtain c where c: "r = Inr c"
    by (cases r) (auto simp: stream_chunk_def chunk_in_def data_in_def Let_def split: prod.splits option.splits if_splits)
  with assms r show ?thesis
    by (intro exI [of _ c]) (auto simp: stream_chunk_def chunk_in_def data_in_def chunk_events_def Let_def split: sum.splits)
qed

lemma stream_loop_sound:
  assumes "stream_loop_in re sf t s = (None, s')" "st_rep re pre s bs"
  shows "\<exists>cks ds ch rest. dec_many ReadChunk (length cks) (data_in (st_rv s)) = (Inr cks, data_in (st_rv s'))
    \<and> stream_events (ev_zdec (re_env re)) cks = Some (map (EvByte 0) ds @ EvEnd 0 (re_root re (bs @ ds)) ch # rest)
    \<and> st_rep re pre s' (bs @ ds)"
  using assms
proof (induction re sf t s arbitrary: bs rule: stream_loop_in.induct)
  case (1 re sf t s)
  obtain q s1 where c: "stream_chunk re s = (q, s1)" by (metis surj_pair)
  obtain segs plain where q: "re_ctx re t = None" "q = Inr (segs, plain)"
    using 1(2) c by (auto simp: stream_loop_in.simps [of re sf t s] split: option.splits sum.splits)
  obtain r s2 where g: "stream_segments re sf segs plain s1 = (r, s2)" by (metis surj_pair)
  from stream_chunk_sound [OF c [unfolded q(2)]] obtain ck where ck: "ReadChunk (data_in (st_rv s)) = (Inr ck, data_in (st_rv s1))"
    "chunk_events (ev_zdec (re_env re)) ck = Some (packed_events segs plain)" "st_hasher s1 = st_hasher s" "st_dest s1 = st_dest s"
    by blast
  have rep: "st_rep re pre s1 bs" using 1(3) ck by (simp add: st_rep_def)
  have r: "r \<in> {SegNext, SegDone None}" and res: "r = SegNext \<Longrightarrow> stream_loop_in re sf (Suc t) s2 = (None, s')"
    "r \<noteq> SegNext \<Longrightarrow> s' = s2"
    using 1(2) c q g by (auto simp: stream_loop_in.simps [of re sf t s] split: seg_result.splits)
  have d: "data_in (st_rv s2) = data_in (st_rv s1)" by (rule data_stream_segments [OF g])
  from stream_segments_sound [OF g rep r] obtain ds ch rest where
    s: "st_rep re pre s2 (bs @ ds)" "packed_events segs plain = map (EvByte 0) ds
        @ (if r = SegNext then [] else EvEnd 0 (re_root re (bs @ ds)) ch # rest)" by blast
  show ?case
  proof (cases "r = SegNext")
    case False
    with s ck d res(2) show ?thesis
      by (intro exI [of _ "[ck]"] exI [of _ ds] exI [of _ ch] exI [of _ rest]) simp
  next
    case True
    from 1(1) [OF q(1) c [symmetric] q(2) refl g [symmetric] True res(1) [OF True] s(1)] obtain cks es ch' rest' where
      n: "dec_many ReadChunk (length cks) (data_in (st_rv s2)) = (Inr cks, data_in (st_rv s'))"
      "stream_events (ev_zdec (re_env re)) cks = Some (map (EvByte 0) es @ EvEnd 0 (re_root re ((bs @ ds) @ es)) ch' # rest')"
      "st_rep re pre s' ((bs @ ds) @ es)" by blast
    with s ck d True show ?thesis
      by (intro exI [of _ "ck # cks"] exI [of _ "ds @ es"] exI [of _ ch'] exI [of _ rest']) simp
  qed
qed

section \<open>What was sent arrives\<close>

definition ready_sink :: "bytes \<Rightarrow> dest" where
  "ready_sink xs = DestSink \<lparr>w_out = xs, w_room = None\<rparr>"

text \<open>The state after \<open>bs\<close> of the stream went to a sink that takes everything.\<close>

definition sink_rep :: "recv_env \<Rightarrow> bytes \<Rightarrow> stream_state \<Rightarrow> bytes \<Rightarrow> bool" where
  "sink_rep re pre s bs \<longleftrightarrow> hasher_rep (ev_bh (re_env re)) (st_hasher s) bs \<and> st_dest s = ready_sink (pre @ bs)"

lemma stream_data_sink:
  assumes "sink_rep re pre s bs"
  shows "\<exists>s'. stream_data re sf data s = (None, s') \<and> sink_rep re pre s' (bs @ data)"
  using assms hasher_rep_Write [of "ev_bh (re_env re)" "st_hasher s" bs data]
  by (auto simp: stream_data_def sink_rep_def ready_sink_def stream_simps Let_def)

lemma one_stream_split:
  "map (EvByte 0) d @ E = map (EvByte 0) ds @ [EvEnd 0 root ch] \<Longrightarrow>
   \<exists>ds2. ds = d @ ds2 \<and> E = map (EvByte 0) ds2 @ [EvEnd 0 root ch]"
proof (induction d arbitrary: ds)
  case (Cons b d)
  from Cons.prems obtain ds' where "ds = b # ds'" "map (EvByte 0) d @ E = map (EvByte 0) ds' @ [EvEnd 0 root ch]"
    by (cases ds) auto
  with Cons.IH [of ds'] show ?case by simp
qed simp

lemma stream_segment_sink:
  assumes rep: "sink_rep re pre s bs" and ok: "seg_ok seg" "unat (sg_Length seg) = length data"
    and ev: "seg_events seg data @ E = map (EvByte 0) ds @ [EvEnd 0 (re_root re (bs @ ds)) ch]"
  shows "(\<exists>s' ds2. stream_segment re sf seg data s = (SegNext, s') \<and> sink_rep re pre s' (bs @ data)
      \<and> ds = data @ ds2 \<and> E = map (EvByte 0) ds2 @ [EvEnd 0 (re_root re (bs @ ds)) ch])
    \<or> (\<exists>s'. stream_segment re sf seg data s = (SegDone None, s') \<and> sink_rep re pre s' (bs @ ds))"
proof -
  let ?root = "re_root re (bs @ ds)"
  have mem: "e \<in> range (EvByte 0) \<union> {EvEnd 0 ?root ch}" if "e \<in> set (seg_events seg data)" for e
  proof -
    from that have "e \<in> set (map (EvByte 0) ds @ [EvEnd 0 ?root ch])" unfolding ev [symmetric] by simp
    then show ?thesis by auto
  qed
  have flags: "\<not> sg_Restart seg" "\<not> sg_Skip seg"
    using mem by (auto simp: seg_events_def split: if_splits)
  have data_ne: "data \<noteq> []" if "\<not> sg_EOF seg"
    using ok flags that by (auto simp: seg_ok_def seg_validate_def unat_eq_zero split: if_splits)
  have idx: "sg_FileIndex seg = 0"
  proof (cases "sg_EOF seg")
    case True
    then show ?thesis using mem by (auto simp: seg_events_def)
  next
    case False
    with data_ne obtain b d where "data = b # d" by (cases data) auto
    then show ?thesis using mem [of "EvByte (sg_FileIndex seg) b"] by (auto simp: seg_events_def)
  qed
  obtain s1 where s1: "stream_data re sf data s = (None, s1)" "sink_rep re pre s1 (bs @ data)"
    using stream_data_sink [OF rep] by blast
  show ?thesis
  proof (cases "sg_EOF seg")
    case False
    with ev flags idx have "map (EvByte 0) data @ E = map (EvByte 0) ds @ [EvEnd 0 ?root ch]" by (simp add: seg_events_def)
    from one_stream_split [OF this] s1 flags idx False show ?thesis by (auto simp: stream_segment_def)
  next
    case True
    with ev flags idx have "map (EvByte 0) data @ (EvEnd 0 (sg_RootHash seg) (sg_Changed seg) # E) = map (EvByte 0) ds @ [EvEnd 0 ?root ch]"
      by (simp add: seg_events_def)
    from one_stream_split [OF this] obtain ds2 where
      d: "ds = data @ ds2" "EvEnd 0 (sg_RootHash seg) (sg_Changed seg) # E = map (EvByte 0) ds2 @ [EvEnd 0 ?root ch]" by blast
    then have "ds2 = []" "sg_RootHash seg = ?root" by (cases ds2; simp)+
    with d(1) have "sg_RootHash seg = re_root re (bs @ data)" "ds = data" by simp_all
    moreover have "fh_Sum (ev_bh (re_env re)) (ev_fk (re_env re)) (st_hasher s1) = re_root re (bs @ data)"
      using s1(2) by (simp add: sink_rep_def fh_Sum_rep)
    ultimately show ?thesis using s1 flags idx True by (auto simp: stream_segment_def)
  qed
qed

lemma stream_segments_sink:
  assumes "sink_rep re pre s bs" "list_all seg_ok segs" "seg_total segs = length plain"
    and "packed_events segs plain @ E = map (EvByte 0) ds @ [EvEnd 0 (re_root re (bs @ ds)) ch]"
  shows "(\<exists>s' d ds2. stream_segments re sf segs plain s = (SegNext, s') \<and> sink_rep re pre s' (bs @ d)
      \<and> ds = d @ ds2 \<and> E = map (EvByte 0) ds2 @ [EvEnd 0 (re_root re (bs @ ds)) ch])
    \<or> (\<exists>s'. stream_segments re sf segs plain s = (SegDone None, s') \<and> sink_rep re pre s' (bs @ ds))"
  using assms
proof (induction segs arbitrary: plain s bs ds)
  case Nil
  then show ?case by (intro disjI1 exI [of _ s] exI [of _ "[]"] exI [of _ ds]) simp
next
  case (Cons seg segs)
  let ?n = "unat (sg_Length seg)"
  have ok: "seg_ok seg" "unat (sg_Length seg) = length (take ?n plain)" "list_all seg_ok segs" "seg_total segs = length (drop ?n plain)"
    using Cons.prems(2,3) by auto
  have ev: "seg_events seg (take ?n plain) @ (packed_events segs (drop ?n plain) @ E)
      = map (EvByte 0) ds @ [EvEnd 0 (re_root re (bs @ ds)) ch]"
    using Cons.prems(4) by simp
  from stream_segment_sink [OF Cons.prems(1) ok(1,2) ev, of sf] consider
      (next') s1 ds2 where "stream_segment re sf seg (take ?n plain) s = (SegNext, s1)" "sink_rep re pre s1 (bs @ take ?n plain)"
        "ds = take ?n plain @ ds2"
        "packed_events segs (drop ?n plain) @ E = map (EvByte 0) ds2 @ [EvEnd 0 (re_root re (bs @ ds)) ch]"
    | (done') s1 where "stream_segment re sf seg (take ?n plain) s = (SegDone None, s1)" "sink_rep re pre s1 (bs @ ds)"
    by blast
  then show ?case
  proof cases
    case next'
    have e2: "packed_events segs (drop ?n plain) @ E
        = map (EvByte 0) ds2 @ [EvEnd 0 (re_root re ((bs @ take ?n plain) @ ds2)) ch]"
      using next'(3,4) by simp
    from Cons.IH [OF next'(2) ok(3,4) e2] show ?thesis
    proof (elim disjE exE conjE)
      fix s' d ds3
      assume "stream_segments re sf segs (drop ?n plain) s1 = (SegNext, s')" "sink_rep re pre s' ((bs @ take ?n plain) @ d)"
        "ds2 = d @ ds3" "E = map (EvByte 0) ds3 @ [EvEnd 0 (re_root re ((bs @ take ?n plain) @ ds2)) ch]"
      with next' show ?thesis
        by (intro disjI1 exI [of _ s'] exI [of _ "take ?n plain @ d"] exI [of _ ds3]) simp
    next
      fix s'
      assume "stream_segments re sf segs (drop ?n plain) s1 = (SegDone None, s')" "sink_rep re pre s' ((bs @ take ?n plain) @ ds2)"
      with next' show ?thesis by (intro disjI2 exI [of _ s']) simp
    qed
  next
    case done'
    then show ?thesis by (intro disjI2 exI [of _ s1]) simp
  qed
qed

lemma decode_total:
  assumes "decodeChunkPayload zdec ck = Inr plain" "chunk_ok ck"
  shows "seg_total (ck_Segments ck) = length plain"
proof -
  have l: "length (ck_Segments ck) \<le> 0xFFFF" "length plain \<le> MaxChunkSize" "SegmentsSum ck = of_nat (length plain)"
    using assms by (auto simp: decodeChunkPayload_def chunk_ok_def split: option.splits if_splits)
  then have "unat (SegmentsSum ck) = length plain" by (simp add: unat_of_nat MaxChunkSize_def)
  with l(1) show ?thesis by (simp add: SegmentsSum_def unat_segments_sum)
qed

lemma stream_loop_sink:
  assumes "stream_events (ev_zdec (re_env re)) cks = Some (map (EvByte 0) ds @ [EvEnd 0 (re_root re (bs @ ds)) ch])"
    and "list_all chunk_ok cks" "\<And>t. re_ctx re t = None" "sink_rep re pre s bs"
    and "sm_data_in (rv_streams (st_rv s)) = \<lparr>r_data = concat (map chunk_bytes cks), r_end = IoEOF\<rparr>"
  shows "\<exists>s'. stream_loop_in re sf t s = (None, s') \<and> sink_rep re pre s' (bs @ ds)"
  using assms
proof (induction cks arbitrary: t s bs ds)
  case (Cons ck cks)
  let ?rest = "\<lparr>r_data = concat (map chunk_bytes cks), r_end = IoEOF\<rparr>"
  define s1 where "s1 = s\<lparr>st_rv := (st_rv s)\<lparr>rv_streams := (rv_streams (st_rv s))\<lparr>sm_data_in := ?rest\<rparr>\<rparr>\<rparr>"
  obtain plain E where p: "decodeChunkPayload (ev_zdec (re_env re)) ck = Inr plain"
    "stream_events (ev_zdec (re_env re)) cks = Some E"
    "packed_events (ck_Segments ck) plain @ E = map (EvByte 0) ds @ [EvEnd 0 (re_root re (bs @ ds)) ch]"
    using Cons.prems(1) by (auto simp: chunk_events_def split: sum.splits option.splits)
  have ok: "list_all seg_ok (ck_Segments ck)" "list_all chunk_ok cks" using Cons.prems(2) by (simp_all add: chunk_ok_def [of ck])
  have tot: "seg_total (ck_Segments ck) = length plain"
    by (rule decode_total) (use p(1) Cons.prems(2) in simp_all)
  have chunk: "stream_chunk re s = (Inr (ck_Segments ck, plain), s1)"
    using Cons.prems(2,5) p(1) by (simp add: stream_chunk_def chunk_in_def ReadChunk_chunk_bytes s1_def)
  have rep: "sink_rep re pre s1 bs" using Cons.prems(4) by (simp add: sink_rep_def s1_def)
  from stream_segments_sink [OF rep ok(1) tot p(3), of sf] consider
      (next') s2 d ds2 where "stream_segments re sf (ck_Segments ck) plain s1 = (SegNext, s2)" "sink_rep re pre s2 (bs @ d)"
        "ds = d @ ds2" "E = map (EvByte 0) ds2 @ [EvEnd 0 (re_root re (bs @ ds)) ch]"
    | (done') s2 where "stream_segments re sf (ck_Segments ck) plain s1 = (SegDone None, s2)" "sink_rep re pre s2 (bs @ ds)"
    by blast
  then show ?case
  proof cases
    case next'
    have "sm_data_in (rv_streams (st_rv s2)) = ?rest"
      using data_stream_segments [OF next'(1)] by (simp add: data_in_def s1_def)
    with Cons.IH [of ds2 "bs @ d" s2 "Suc t"] p(2) next' ok(2) Cons.prems(3) obtain s' where
      "stream_loop_in re sf (Suc t) s2 = (None, s')" "sink_rep re pre s' (bs @ ds)" by auto
    with chunk next'(1) Cons.prems(3) show ?thesis by (simp add: stream_loop_in.simps [of re sf t s])
  next
    case done'
    with chunk Cons.prems(3) show ?thesis by (simp add: stream_loop_in.simps [of re sf t s])
  qed
qed simp

section \<open>What the sender puts into a stream\<close>

definition pieces :: "bytes list \<Rightarrow> bytes list" where "pieces bs = filter (\<lambda>b. b \<noteq> []) bs"

lemma pieces_simps [simp]:
  "pieces [] = []" "pieces (b # bs) = (if b = [] then pieces bs else b # pieces bs)" "concat (pieces bs) = concat bs"
  by (simp_all add: pieces_def) (induction bs; simp)

lemma packing_data: "packing se op sn = (None, sn') \<Longrightarrow> sn_data sn' = sn_data sn"
  by (auto simp: packing_def on_packer_def apfst_def map_prod_def split: prod.splits option.splits)

lemma stream_loop_ops:
  assumes "stream_loop se bs end' sent h sn = (Inr (sent', h'), sn')"
  shows "pack_run (se_obs se) (map (PkAppend 0) (pieces bs)) (sn_packer sn) = (None, sn_packer sn')
    \<and> h' = fold (fh_Write (se_bh se)) (pieces bs) h \<and> sn_data sn' = sn_data sn"
  using assms
proof (induction bs arbitrary: sent h sn)
  case Nil
  then show ?case by (auto simp: poll_ctx_def split: option.splits if_splits)
next
  case (Cons b bs)
  obtain c sn1 where c: "poll_ctx se sn = (c, sn1)" by (metis surj_pair)
  obtain e sn2 where p: "packing se (appendBytes (se_obs se) 0 b) sn1 = (e, sn2)" by (metis surj_pair)
  have cn: "c = None" and pk: "sn_packer sn1 = sn_packer sn" "sn_data sn1 = sn_data sn"
    using Cons.prems c by (auto simp: poll_ctx_def split: option.splits)
  show ?case
  proof (cases "b = []")
    case True
    with Cons.prems c cn have "stream_loop se bs end' sent h sn1 = (Inr (sent', h'), sn')" by simp
    from Cons.IH [OF this] True pk show ?thesis by simp
  next
    case False
    with Cons.prems c cn p have e: "e = None"
      "stream_loop se bs end' (sent + length b) (fh_Write (se_bh se) b h) (sn_note (SentTo 0 (sent + length b)) sn2)
        = (Inr (sent', h'), sn')" by (auto split: option.splits)
    have "appendBytes (se_obs se) 0 b (sn_packer sn1) = (None, sn_packer sn2)"
      using packing_None [OF p [unfolded e(1)]] by simp
    moreover have "sn_data sn2 = sn_data sn1" by (rule packing_data [OF p [unfolded e(1)]])
    ultimately show ?thesis using Cons.IH [OF e(2)] False pk by (simp add: sn_note_def)
  qed
qed

lemma not_skipped_bytes: "\<not> skipped_last i (map (EvByte j) bs)"
  by (cases bs rule: rev_cases) (simp_all add: skipped_last_def)

lemma stream_abs:
  assumes "length root = 32"
  shows "abs_run_fine (map (PkAppend 0) ps @ [PkEnd 0 root ch]) (map (EvByte 0) pre, {})"
    "fst (fold abs_step (map (PkAppend 0) ps @ [PkEnd 0 root ch]) (map (EvByte 0) pre, {}))
       = map (EvByte 0) (pre @ concat ps) @ [EvEnd 0 root ch]"
proof (induction ps arbitrary: pre)
  case Nil
  case 1 show ?case using assms by (simp add: not_skipped_bytes)
  case 2 show ?case by simp
next
  case (Cons d ps)
  case 1 show ?case using Cons(1) [of "pre @ d"] by (cases "d = []") (simp_all add: not_skipped_bytes)
  case 2 show ?case using Cons(2) [of "pre @ d"] by (cases "d = []") simp_all
qed

text \<open>A stream that was sent to the end: the packer's operations, and the bytes its writer put out.\<close>

lemma sendStream_ops:
  assumes "sendStream se opts sn = (None, sn')"
  shows "\<exists>p. pack_run (se_obs se) ((map (PkAppend 0) (pieces (sp_Stream opts))
        @ [PkEnd 0 (tree_root (se_bh se) (se_fk se) (concat (sp_Stream opts))) False]) @ [PkFlush]) newChunkPacker = (None, p)
    \<and> packer_Close (se_zenc se) (sn_data sn) p = (None, sn_data sn')"
proof -
  let ?sn0 = "sn\<lparr>sn_packer := newChunkPacker\<rparr>"
  obtain r sn1 where 1: "stream_loop se (sp_Stream opts) (sp_StreamEnd opts) 0 newFileHasher ?sn0 = (r, sn1)" by (metis surj_pair)
  from assms 1 obtain sent h where r: "r = Inr (sent, h)" unfolding sendStream_def 1 by (cases r) auto
  let ?root = "fh_Sum (se_bh se) (se_fk se) h"
  obtain e2 sn2 where 2: "packing se (endFile (se_obs se) 0 ?root False) sn1 = (e2, sn2)" by (metis surj_pair)
  obtain e3 sn3 where 3: "packing se (flush (se_obs se)) sn2 = (e3, sn3)" by (metis surj_pair)
  obtain e4 sn4 where 4: "close_packer se sn3 = (e4, sn4)" by (metis surj_pair)
  have e: "e2 = None" "e3 = None" "e4 = None"
    "sn_streams_op (finishSend (se_cd se)) (sn_note (StreamingEOF sent) sn4) = (None, sn')"
    using assms unfolding sendStream_def 1 r prod.case sum.case 2 flush_and_close_def 3 4
    by (auto simp: apfst_def map_prod_def split: option.splits prod.splits)
  note ops = stream_loop_ops [OF 1 [unfolded r]]
  have root: "?root = tree_root (se_bh se) (se_fk se) (concat (sp_Stream opts))"
    using ops hash_write_split [of "se_bh se" "se_fk se" "pieces (sp_Stream opts)"] by simp
  have "pack_run (se_obs se) ([PkEnd 0 ?root False] @ [PkFlush]) (sn_packer sn1) = (None, sn_packer sn3)"
    using packing_None [OF 2 [unfolded e(1)]] packing_None [OF 3 [unfolded e(2)]] by simp
  then have "pack_run (se_obs se) (map (PkAppend 0) (pieces (sp_Stream opts)) @ ([PkEnd 0 ?root False] @ [PkFlush])) newChunkPacker
      = (None, sn_packer sn3)"
    using ops by (subst pack_run_append) simp_all
  moreover have "packer_Close (se_zenc se) (sn_data sn3) (sn_packer sn3) = (None, sn_data sn4)"
    using 4 e(3) by (auto simp: close_packer_def split: prod.splits)
  moreover have "sn_data sn3 = sn_data sn"
    using packing_data [OF 2 [unfolded e(1)]] packing_data [OF 3 [unfolded e(2)]] ops by simp
  moreover have "sn_data sn' = sn_data sn4"
    using e(4) by (auto simp: sn_streams_op_def sn_note_def split: prod.splits)
  ultimately show ?thesis using root by auto
qed

section \<open>The file behind a stream\<close>

definition st_disk :: "stream_state \<Rightarrow> disk" where "st_disk s = rv_disk (st_rv s)"

fun dest_on :: "dest \<Rightarrow> disk \<Rightarrow> bool" where
  "dest_on (DestSink w) d = True"
| "dest_on (DestFile path seen) d = (is_regular (lstat d path) \<and> node_bytes (lstat d path) = seen)"

definition dest_full :: "stream_state \<Rightarrow> bool" where
  "dest_full s = dest_on (st_dest s) (st_disk s)"

lemma dest_write_on:
  "dest_write re sf data dst rv = (None, dst', rv') \<Longrightarrow> dest_on dst (rv_disk rv) \<Longrightarrow> dest_on dst' (rv_disk rv')"
  by (cases dst)
    (auto simp: on_disk_def overwrite_end pad_to_self split: prod.splits bool.splits option.splits dest!: WriteAt_ok)

text \<open>From \<open>s\<close> to \<open>s'\<close> the stream went on into the same file and touched nothing else.\<close>

definition file_step :: "string \<Rightarrow> stream_state \<Rightarrow> stream_state \<Rightarrow> bool" where
  "file_step path s s' \<longleftrightarrow> (\<exists>seen. st_dest s = DestFile path seen) \<longrightarrow>
     (\<exists>seen. st_dest s' = DestFile path seen) \<and> same_outside {path} (st_disk s) (st_disk s')"

lemma file_step_refl [simp]: "st_dest s' = st_dest s \<Longrightarrow> st_disk s' = st_disk s \<Longrightarrow> file_step path s s'"
  by (simp add: file_step_def)

lemma file_step_trans: "file_step path s s1 \<Longrightarrow> file_step path s1 s2 \<Longrightarrow> file_step path s s2"
  by (auto simp: file_step_def intro: same_outside_trans)

lemma disk_decline [simp]: "rv_disk (decline re code msg rv) = rv_disk rv"
  by (simp add: decline_def)

lemma disk_writeFail: "writeFail re op rel f rv = (e, rv') \<Longrightarrow> rv_disk rv' = rv_disk rv"
  by (auto simp: writeFail_def close_data_def)

lemma stream_data_file:
  assumes "stream_data re sf data s = (e, s')"
  shows "file_step path s s'" "e = None \<Longrightarrow> dest_full s \<Longrightarrow> dest_full s'"
proof -
  obtain e1 dst rv where w: "dest_write re sf data (st_dest s) (st_rv s) = (e1, dst, rv)" by (metis surj_pair)
  have s': "data \<noteq> [] \<Longrightarrow> st_dest s' = dst \<and> st_disk s' = rv_disk rv" "data = [] \<Longrightarrow> s' = s"
    and e1: "data \<noteq> [] \<Longrightarrow> e = None \<Longrightarrow> e1 = None"
    using assms w by (auto simp: stream_data_def st_disk_def log_note_def Let_def split: if_splits option.splits prod.splits
        dest: disk_writeFail)
  show "file_step path s s'"
  proof (cases "data = []")
    case False
    then show ?thesis
      using w s'(1) frame_WriteAt [of path "rv_disk (st_rv s)" "ev_flt (re_env re)" data]
      by (auto simp: file_step_def on_disk_def st_disk_def split: prod.splits option.splits) (metis snd_conv)+
  qed (simp add: s'(2))
  assume n: "e = None" "dest_full s"
  show "dest_full s'"
  proof (cases "data = []")
    case False
    with w e1 n s'(1) dest_write_on [of re sf data "st_dest s" "st_rv s" dst rv] show ?thesis
      by (simp add: dest_full_def st_disk_def)
  qed (use n s' in simp)
qed

lemma stream_segment_file:
  assumes "stream_segment re sf seg data s = (r, s')"
  shows "file_step path s s'" "r \<in> {SegNext, SegDone None} \<Longrightarrow> dest_full s \<Longrightarrow> dest_full s'"
proof -
  obtain e s1 where d: "stream_data re sf data s = (e, s1)" by (metis surj_pair)
  have same: "file_step path x (x\<lparr>st_rv := decline re c m (st_rv x)\<rparr>)" for x c m by (simp add: st_disk_def)
  show "file_step path s s'" "r \<in> {SegNext, SegDone None} \<Longrightarrow> dest_full s \<Longrightarrow> dest_full s'"
    using assms d stream_data_file(1) [OF d, of path] stream_data_file(2) [OF d] file_step_trans [OF stream_data_file(1) [OF d, of path] same] same
    by (auto simp: stream_segment_def split: if_splits option.splits)
qed

lemma stream_segments_file:
  assumes "stream_segments re sf segs plain s = (r, s')"
  shows "file_step path s s' \<and> (r \<in> {SegNext, SegDone None} \<longrightarrow> dest_full s \<longrightarrow> dest_full s')"
  using assms
proof (induction segs arbitrary: plain s)
  case (Cons seg segs)
  obtain r1 s1 where 1: "stream_segment re sf seg (take (unat (sg_Length seg)) plain) s = (r1, s1)" by (metis surj_pair)
  note f = stream_segment_file(1) [OF 1, of path] stream_segment_file(2) [OF 1]
  show ?case
  proof (cases r1)
    case SegNext
    with Cons.prems 1 have "stream_segments re sf segs (drop (unat (sg_Length seg)) plain) s1 = (r, s')" by (simp add: Let_def)
    from Cons.IH [OF this] f SegNext show ?thesis by (auto intro: file_step_trans)
  next
    case (SegDone x)
    with Cons.prems 1 f show ?thesis by (auto simp: Let_def)
  qed
qed simp

lemma stream_loop_file:
  assumes "stream_loop_in re sf t s = (e, s')"
  shows "file_step path s s' \<and> (e = None \<longrightarrow> dest_full s \<longrightarrow> dest_full s')"
  using assms
proof (induction re sf t s rule: stream_loop_in.induct)
  case (1 re sf t s)
  obtain q s1 where c: "stream_chunk re s = (q, s1)" by (metis surj_pair)
  have same: "st_dest s1 = st_dest s" "st_disk s1 = st_disk s"
    using c by (auto simp: stream_chunk_def chunk_in_def st_disk_def Let_def split: prod.splits sum.splits option.splits if_splits)
  then have f1: "file_step path s s1" "dest_full s1 = dest_full s" by (simp_all add: dest_full_def)
  show ?case
  proof (cases "re_ctx re t = None \<and> (\<exists>x. q = Inr x)")
    case False
    with 1(2) c f1 show ?thesis
      by (auto simp: stream_loop_in.simps [of re sf t s] split: option.splits sum.splits)
  next
    case True
    then obtain segs plain where q: "re_ctx re t = None" "q = Inr (segs, plain)" by auto
    obtain r s2 where g: "stream_segments re sf segs plain s1 = (r, s2)" by (metis surj_pair)
    note f2 = stream_segments_file [OF g, of path]
    show ?thesis
    proof (cases r)
      case SegNext
      with 1(2) c q g have "stream_loop_in re sf (Suc t) s2 = (e, s')" by (simp add: stream_loop_in.simps [of re sf t s])
      from 1(1) [OF q(1) c [symmetric] q(2) refl g [symmetric] SegNext this] f1 f2 SegNext show ?thesis
        by (auto intro: file_step_trans)
    next
      case (SegDone x)
      with 1(2) c q g have "s' = s2" "x = e" by (simp_all add: stream_loop_in.simps [of re sf t s])
      with f1 f2 SegDone show ?thesis by (auto intro: file_step_trans)
    qed
  qed
qed

text \<open>The paths a stream to \<open>rel\<close> may touch.\<close>

definition stream_paths :: "env \<Rightarrow> string \<Rightarrow> string set" where
  "stream_paths ev rel = (let target = path_join (ev_dir ev) rel in
     insert (PartialDir ev) (store ev) \<union> {target, ev_tmp ev target})"

lemma frame_store_op:
  "same_outside (stream_paths ev rel) d (ps_remove ev r d)" "same_outside (stream_paths ev rel) d (ps_dropMeta ev r d)"
  "same_outside (stream_paths ev rel) d (snd (ps_create ev r e d))"
  by (rule same_outside_mono, rule fs_frame, auto simp: stream_paths_def Let_def)+

lemma frame_Sync' [simp]: "lstat (ignoring (f_Sync flt) d) q = lstat d q" "lstat (snd (f_Sync flt d)) q = lstat d q"
  by (simp_all add: ignoring_def f_Sync_def fs_simps)

lemma frame_fsyncDir [simp]: "lstat (fsyncDir flt dir d) q = lstat d q"
  by (simp add: fsyncDir_def fs_simps)

lemma frame_ps_tidy: "same_outside {PartialDir ev} d (ps_tidy ev d)"
  unfolding ps_tidy_def by (rule frame_ignoring, rule frame_Remove)

lemma disk_finishRecv: "on_streams op rv = (e, rv') \<Longrightarrow> rv_disk rv' = rv_disk rv \<and> rv_log rv' = rv_log rv"
  by (auto simp: on_streams_def split: prod.splits)

lemma stream_commit_ok:
  assumes run: "stream_commit re rel part seen rv = (e, rv')" and part: "part \<in> store (re_env re)"
  shows "same_outside (stream_paths (re_env re) rel) (rv_disk rv) (rv_disk rv')"
    and "e = None \<Longrightarrow> path_join (ev_dir (re_env re)) rel \<notin> insert (PartialDir (re_env re)) (store (re_env re)) \<Longrightarrow>
      ev_tmp (re_env re) (path_join (ev_dir (re_env re)) rel) \<notin> insert (path_join (ev_dir (re_env re)) rel) (store (re_env re)) \<Longrightarrow>
      dest_on (DestFile part seen) (rv_disk rv) \<Longrightarrow>
      dest_on (DestFile (path_join (ev_dir (re_env re)) rel) seen) (rv_disk rv')
        \<and> FileDone (path_join (ev_dir (re_env re)) rel) (ev_sha (re_env re) seen) \<in> set (rv_log rv')"
proof -
  let ?ev = "re_env re"
  let ?t = "path_join (ev_dir ?ev) rel"
  let ?P = "stream_paths ?ev rel"
  obtain f rv1 where 1: "on_disk (moveFile (ev_flt ?ev) (ev_tmp ?ev ?t) part ?t) rv = (f, rv1)" by (metis surj_pair)
  obtain d1 where mv: "moveFile (ev_flt ?ev) (ev_tmp ?ev ?t) part ?t (rv_disk rv) = (f, d1)" "rv1 = rv\<lparr>rv_disk := d1\<rparr>"
    using 1 by (auto simp: on_disk_def split: prod.splits)
  have "same_outside {ev_tmp ?ev ?t, part, ?t} (rv_disk rv) d1"
    using frame_moveFile [of "ev_tmp ?ev ?t" part ?t "rv_disk rv" "ev_flt ?ev"] by (simp add: mv(1))
  then have s1: "same_outside ?P (rv_disk rv) d1"
    using part by (auto simp: stream_paths_def Let_def elim!: same_outside_mono)
  define d2 where "d2 = ps_tidy ?ev (ps_dropMeta ?ev rel d1)"
  have "same_outside ?P d1 d2"
    unfolding d2_def by (rule same_outside_trans [OF frame_store_op(2) same_outside_mono [OF frame_ps_tidy]])
      (simp add: stream_paths_def Let_def)
  moreover have "lstat d2 ?t = lstat d1 ?t" if "?t \<notin> insert (PartialDir ?ev) (store ?ev)"
  proof -
    have "?t \<noteq> ps_meta ?ev rel" "?t \<noteq> PartialDir ?ev" using that by auto
    then show ?thesis
      using same_outsideD [OF frame_ps_tidy, of ?t ?ev "ps_dropMeta ?ev rel d1"] same_outsideD [OF frame_ps_dropMeta, of ?t ?ev rel d1]
      by (simp add: d2_def)
  qed
  ultimately have tidy: "same_outside ?P d1 d2" "?t \<notin> insert (PartialDir ?ev) (store ?ev) \<Longrightarrow> lstat d2 ?t = lstat d1 ?t" by blast+
  have done': "e = None \<Longrightarrow> f = None"
    using run 1 by (auto simp: stream_commit_def Let_def split: option.splits)
  have res: "f = None \<Longrightarrow> rv_disk rv' = fsyncDir (ev_flt ?ev) (path_dir ?t) d2
      \<and> FileDone ?t (ev_sha ?ev seen) \<in> set (rv_log rv')"
    using run 1 mv(2) unfolding stream_commit_def Let_def
    by (auto simp: d2_def log_note_def dest!: disk_finishRecv split: option.splits)
  have fail: "f = Some x \<Longrightarrow> rv_disk rv' = ps_remove ?ev rel d1" for x
    using run 1 mv(2) by (auto simp: stream_commit_def Let_def)
  show "same_outside ?P (rv_disk rv) (rv_disk rv')"
  proof (cases f)
    case None
    with res same_outside_trans [OF s1 tidy(1)] show ?thesis by (simp add: same_outside_def)
  next
    case (Some x)
    with fail same_outside_trans [OF s1 frame_store_op(1)] show ?thesis by simp
  qed
  assume n: "e = None" "?t \<notin> insert (PartialDir ?ev) (store ?ev)" "ev_tmp ?ev ?t \<notin> insert ?t (store ?ev)"
    and full: "dest_on (DestFile part seen) (rv_disk rv)"
  have ne: "ev_tmp ?ev ?t \<noteq> part" "ev_tmp ?ev ?t \<noteq> ?t" "part \<noteq> ?t" using n(2,3) part by auto
  from moveFile_ok [OF mv(1) [unfolded done' [OF n(1)]] ne] full
  have "is_regular (lstat d1 ?t) \<and> node_bytes (lstat d1 ?t) = seen" by simp
  with res done' n(1) tidy(2) [OF n(2)] show "dest_on (DestFile ?t seen) (rv_disk rv')
        \<and> FileDone ?t (ev_sha ?ev seen) \<in> set (rv_log rv')" by simp
qed

section \<open>Properties\<close>

text \<open>
  C4. A stream sent is the stream received, across all the layers between the two programs.
  Whatever pieces the sender reads its input in, however its packer fills chunks, compresses
  them and backs off: when \<open>sendStream\<close> succeeds, a receiver that reads the bytes it put on the
  data stream succeeds, and its sink gets exactly the sender's input, no byte more or less. The
  peers share the hash, and the receiver's decompressor inverts the sender's compressor.
\<close>

theorem stream_delivered:
  assumes sent: "sendStream se opts sn = (None, sn')" "sn_data sn = \<lparr>w_out = [], w_room = room\<rparr>"
    and peer: "zstd_inverse (se_zenc se) (ev_zdec (re_env re))" "ev_bh (re_env re) = se_bh se" "ev_fk (re_env re) = se_fk se"
      "\<And>x. length (se_fk se x) = 32"
    and rcv: "\<And>t. re_ctx re t = None" "sm_data_in (rv_streams rv) = \<lparr>r_data = w_out (sn_data sn'), r_end = IoEOF\<rparr>"
  shows "\<exists>s. streamPayload re sf (DestSink \<lparr>w_out = pre, w_room = None\<rparr>) rv = (None, s)
    \<and> st_dest s = DestSink \<lparr>w_out = pre @ concat (sp_Stream opts), w_room = None\<rparr>"
proof -
  let ?root = "tree_root (se_bh se) (se_fk se) (concat (sp_Stream opts))"
  let ?ops = "map (PkAppend 0) (pieces (sp_Stream opts)) @ [PkEnd 0 ?root False]"
  have len: "length ?root = 32" by (simp add: tree_root_def foldRoot_def peer(4))
  from sendStream_ops [OF sent(1)] obtain p where p: "pack_run (se_obs se) (?ops @ [PkFlush]) newChunkPacker = (None, p)"
    "packer_Close (se_zenc se) \<lparr>w_out = [], w_room = room\<rparr> p = (None, sn_data sn')"
    unfolding sent(2) by blast
  note abs = stream_abs [OF len, of "pieces (sp_Stream opts)" False "[]", simplified]
  from packed_on_wire [OF p(1) _ p(2) peer(1)] abs obtain cks where
    c: "w_out (sn_data sn') = concat (map chunk_bytes cks)" "list_all chunk_ok cks"
      "stream_events (ev_zdec (re_env re)) cks = Some (map (EvByte 0) (concat (sp_Stream opts)) @ [EvEnd 0 ?root False])"
    by auto
  let ?s0 = "new_stream_state (DestSink \<lparr>w_out = pre, w_room = None\<rparr>) rv"
  have "sink_rep re pre ?s0 []"
    by (simp add: sink_rep_def new_stream_state_def ready_sink_def hasher_rep_new)
  from stream_loop_sink [of re cks "concat (sp_Stream opts)" "[]" False pre ?s0 sf 0] c rcv peer(2,3) this show ?thesis
    by (auto simp: streamPayload_def new_stream_state_def sink_rep_def ready_sink_def)
qed

text \<open>
  C14. A stream reported as saved is what the peer announced, whoever the peer is. Whatever it
  sends and wherever the disk fails, receiving a stream to a file touches nothing but that
  file, the scratch name beside it and the receiver's own store. And when it succeeds, the
  chunks that arrived are the bytes of one stream followed by its end marker, that marker
  carries the block-tree root of exactly these bytes, the target holds them, and the user was
  told of this file with their digest.
\<close>

theorem stream_saved:
  assumes run: "stream_to_file ee rel rv = (e, rv')"
    and target: "path_join (ev_dir (re_env (ee_re ee))) rel \<notin> insert (PartialDir (re_env (ee_re ee))) (store (re_env (ee_re ee)))"
      "ev_tmp (re_env (ee_re ee)) (path_join (ev_dir (re_env (ee_re ee))) rel)
        \<notin> insert (path_join (ev_dir (re_env (ee_re ee))) rel) (store (re_env (ee_re ee)))"
  shows "same_outside (stream_paths (re_env (ee_re ee)) rel) (rv_disk rv) (rv_disk rv')
    \<and> (e = None \<longrightarrow> (\<exists>bs cks ch rest rd. dec_many ReadChunk (length cks) (sm_data_in (rv_streams rv)) = (Inr cks, rd)
        \<and> stream_events (ev_zdec (re_env (ee_re ee))) cks
            = Some (map (EvByte 0) bs @ EvEnd 0 (tree_root (ev_bh (re_env (ee_re ee))) (ev_fk (re_env (ee_re ee))) bs) ch # rest)
        \<and> is_regular (lstat (rv_disk rv') (path_join (ev_dir (re_env (ee_re ee))) rel))
        \<and> node_bytes (lstat (rv_disk rv') (path_join (ev_dir (re_env (ee_re ee))) rel)) = bs
        \<and> FileDone (path_join (ev_dir (re_env (ee_re ee))) rel) (ev_sha (re_env (ee_re ee)) bs) \<in> set (rv_log rv')))"
proof -
  let ?re = "ee_re ee"
  let ?ev = "re_env ?re"
  let ?P = "stream_paths ?ev rel"
  obtain r rv1 where 1: "on_disk (ps_create ?ev rel zero_entry) rv = (r, rv1)" by (metis surj_pair)
  have d1: "same_outside ?P (rv_disk rv) (rv_disk rv1)" "rv_streams rv1 = rv_streams rv"
    using 1 frame_store_op(3) [of ?ev rel "rv_disk rv" rel zero_entry] by (auto simp: on_disk_def split: prod.splits)
  show ?thesis
  proof (cases r)
    case (Inl f)
    with run 1 d1 show ?thesis by (auto simp: stream_to_file_def Let_def)
  next
    case (Inr part)
    have part: "part = ps_data ?ev rel" "dest_on (DestFile part []) (rv_disk rv1)"
      using 1 ps_create_ok [of ?ev rel zero_entry "rv_disk rv" part] Inr by (auto simp: on_disk_def split: prod.splits)
    obtain e2 s where 2: "streamPayload ?re (ee_sink_fault ee) (DestFile part []) rv1 = (e2, s)" by (metis surj_pair)
    let ?s0 = "new_stream_state (DestFile part []) rv1"
    have l: "stream_loop_in ?re (ee_sink_fault ee) 0 ?s0 = (e2, s)" using 2 by (simp add: streamPayload_def)
    obtain seen where s: "st_dest s = DestFile part seen" "same_outside {part} (rv_disk rv1) (st_disk s)"
      "e2 = None \<Longrightarrow> dest_on (DestFile part seen) (st_disk s)"
      using stream_loop_file [OF l, of part] part(2)
      by (auto simp: file_step_def new_stream_state_def dest_full_def st_disk_def)
    have s1: "same_outside ?P (rv_disk rv) (st_disk s)"
      by (rule same_outside_trans [OF d1(1) same_outside_mono [OF s(2)]]) (simp add: part(1) stream_paths_def Let_def)
    obtain f3 rv3 where 3: "on_disk (f_Sync (ev_flt ?ev)) (st_rv s) = (f3, rv3)" by (metis surj_pair)
    then have d3: "lstat (rv_disk rv3) q = lstat (st_disk s) q" for q
      by (auto simp: on_disk_def f_Sync_def fs_simps st_disk_def)
    have rem: "same_outside ?P (rv_disk rv) (ps_remove ?ev rel d)" if "same_outside ?P (rv_disk rv) d" for d
      by (rule same_outside_trans [OF that frame_store_op(1)])
    show ?thesis
    proof (cases "e2 = None \<and> f3 = None")
      case False
      have s3: "same_outside ?P (rv_disk rv) (rv_disk rv3)" using s1 d3 by (simp add: same_outside_def)
      obtain rv4 x where "e = Some x" "rv' = rv4\<lparr>rv_disk := ps_remove ?ev rel (rv_disk rv4)\<rparr>" "rv4 = st_rv s \<or> rv4 = rv3"
        using run False unfolding stream_to_file_def Let_def 1 Inr 2 3 prod.case sum.case
        by (cases e2; cases f3) auto
      with rem s1 s3 show ?thesis by (auto simp: st_disk_def)
    next
      case True
      with run 1 2 3 Inr s(1) have c: "stream_commit ?re rel part seen rv3 = (e, rv')"
        by (simp add: stream_to_file_def Let_def)
      note ok = stream_commit_ok [OF c, unfolded part(1), OF store_mem(1)]
      have "same_outside ?P (rv_disk rv) (rv_disk rv3)" using s1 d3 by (simp add: same_outside_def)
      from same_outside_trans [OF this ok(1)] have fr: "same_outside ?P (rv_disk rv) (rv_disk rv')" .
      have "st_rep ?re [] ?s0 []" by (simp add: st_rep_def new_stream_state_def hasher_rep_new)
      from stream_loop_sound [OF l [unfolded conjunct1 [OF True]] this] s(1) obtain cks ch rest where
        w: "dec_many ReadChunk (length cks) (data_in rv1) = (Inr cks, data_in (st_rv s))"
          "stream_events (ev_zdec ?ev) cks = Some (map (EvByte 0) seen @ EvEnd 0 (re_root ?re seen) ch # rest)"
        by (auto simp: st_rep_def new_stream_state_def)
      have "dest_on (DestFile part seen) (rv_disk rv3)" using s(3) True d3 by simp
      with ok(2) target part(1) fr w d1(2) show ?thesis by (auto simp: data_in_def)
    qed
  qed
qed

definition sample_entry_env :: "nat entry_env" where
  "sample_entry_env = \<lparr>ee_re = sample_recv_env\<lparr>re_env := sample_env\<lparr>ev_tmp := \<lambda>t. t @ ''~''\<rparr>\<rparr>, ee_pw = se_pw sample_send_env,
     ee_sem = \<lparr>sem_foldCase = False, sem_foldNorm = False, sem_coarseMtime = False\<rparr>, ee_sink_fault = Fault OtherFault 0\<rparr>"

lemma sample_entry_paths:
  "re_env (ee_re sample_entry_env) = sample_env\<lparr>ev_tmp := \<lambda>t. t @ ''~''\<rparr>"
  "PartialDir (sample_env\<lparr>ev_tmp := t\<rparr>) = ''/r/.fsend''"
  "store (sample_env\<lparr>ev_tmp := t\<rparr>) = {''/r/.fsend/x.partial'', ''/r/.fsend/x.meta''}"
  "path_join ''/r'' ''f'' = ''/r/f''"
  by (auto simp: sample_entry_env_def store_def PartialDir_def ps_data_def ps_meta_def sample_env_def stateDirName_def path_eval)

theorem stream_saved_witness:
  "same_outside {''/r/.fsend'', ''/r/.fsend/x.partial'', ''/r/.fsend/x.meta'', ''/r/f'', ''/r/f~''} sample_disk
     (rv_disk (snd (stream_to_file sample_entry_env ''f'' sample_receiver)))"
proof -
  obtain e rv' where run: "stream_to_file sample_entry_env ''f'' sample_receiver = (e, rv')" by (metis surj_pair)
  have "same_outside (stream_paths (re_env (ee_re sample_entry_env)) ''f'') (rv_disk sample_receiver) (rv_disk rv')"
    by (rule conjunct1 [OF stream_saved [OF run]]) (simp_all add: sample_entry_paths)
  then have "same_outside (stream_paths (re_env (ee_re sample_entry_env)) ''f'') sample_disk (rv_disk rv')"
    by (simp add: sample_receiver_def)
  then show ?thesis
    unfolding run snd_conv by (rule same_outside_mono) (auto simp: stream_paths_def sample_entry_paths)
qed

definition sample_stream_env :: "nat send_env" where
  "sample_stream_env = sample_send_env\<lparr>se_fk := \<lambda>_. replicate 32 0\<rparr>"

definition sample_stream_opts :: SendOptions where
  "sample_stream_opts = \<lparr>sp_Hostname = [], sp_OS = [], sp_ClientVersion = [], sp_Mode = ModeStream, sp_Sources = [],
     sp_Stream = [[7]], sp_StreamEnd = IoEOF, sp_IsText = True, sp_DisplayName = [], sp_Password = []\<rparr>"

definition sample_stream_sender :: sender where
  "sample_stream_sender = sample_sender\<lparr>sn_streams := sample_streams (control_frame (TypeTransferAck, []))\<rparr>"

lemma sample_stream_sent: "fst (sendStream sample_stream_env sample_stream_opts sample_stream_sender) = None"
proof -
  have ack: "ReadControlRaw \<lparr>r_data = control_frame (TypeTransferAck, []), r_end = IoEOF\<rparr>
      = (TypeTransferAck, Inr [], \<lparr>r_data = [], r_end = IoEOF\<rparr>)"
    using ReadControlRaw_frame [of "[]" TypeTransferAck "[]" IoEOF] by simp
  have ne: "TypeTransferAck \<noteq> TypeError" by (simp add: TypeTransferAck_def TypeError_def)
  show ?thesis
    by (simp add: sendStream_def sample_stream_env_def sample_send_env_def sample_stream_opts_def sample_stream_sender_def
      sample_sender_def poll_ctx_def packing_def on_packer_def appendBytes_def failed_def newChunkPacker_def
      append_loop.simps append_turn_def needNewSegment_def open_segment_def put_bytes_def MaxChunkSize_def sn_note_def
      endFile_def maxSegmentsPerChunk_def new_segment_def Let_def flush_and_close_def flush_def close_packer_def
      packer_Close_def writeLoop_def newPackWriter_def write_turn_def compress_choice_def WriteChunk_def stream_simps
      sn_streams_op_def finishSend_def send_frame_def WriteControl_def sample_streams_def recv_frame_def read_frame_def
      ack ne MaxControlFrameSize_def)
qed

theorem stream_delivered_witness:
  "\<exists>rv s. streamPayload (sample_recv_env\<lparr>re_env := sample_env\<lparr>ev_fk := \<lambda>_. replicate 32 0\<rparr>\<rparr>) (Fault OtherFault 0)
      (DestSink \<lparr>w_out = [], w_room = None\<rparr>) rv = (None, s)
    \<and> st_dest s = DestSink \<lparr>w_out = [] @ concat [[7]], w_room = None\<rparr>"
proof -
  let ?r = "sendStream sample_stream_env sample_stream_opts sample_stream_sender"
  let ?re = "sample_recv_env\<lparr>re_env := sample_env\<lparr>ev_fk := \<lambda>_. replicate 32 0\<rparr>\<rparr>"
  let ?rv = "sample_receiver\<lparr>rv_streams := (sample_streams [])\<lparr>sm_data_in := \<lparr>r_data = w_out (sn_data (snd ?r)), r_end = IoEOF\<rparr>\<rparr>\<rparr>"
  have r: "?r = (None, snd ?r)" using sample_stream_sent by (metis prod.collapse)
  have "\<exists>s. streamPayload ?re (Fault OtherFault 0) (DestSink \<lparr>w_out = [], w_room = None\<rparr>) ?rv = (None, s)
    \<and> st_dest s = DestSink \<lparr>w_out = [] @ concat (sp_Stream sample_stream_opts), w_room = None\<rparr>"
    by (rule stream_delivered [OF r, where room = None])
      (simp_all add: sample_stream_sender_def sample_sender_def sample_stream_env_def sample_send_env_def zstd_inverse_def
        sample_env_def)
  then show ?thesis by (auto simp: sample_stream_opts_def)
qed

end
