(* ===== verification/Recv_Entry.thy ===== *)
theory Recv_Entry
  imports Stream_Receive
begin

text \<open>
  \<open>internal/transfer/sink.go\<close> and the entry points of \<open>recv.go\<close>: a receive to standard output as
  raw bytes or as a tar archive, \<open>recvFiles\<close> and \<open>Recv\<close>. The archive is written by Go's
  \<open>archive/tar\<close>, modelled here by what the code relies on: a header can only follow a complete
  entry, a body cannot outgrow its header, and \<open>Close\<close> ends the archive. How a header is laid
  out in bytes is the argument \<open>hdr\<close>.
\<close>

section \<open>archive/tar\<close>

record tar_header =
  th_Name :: string
  th_Mode :: u32
  th_ModTime :: int
  th_Dir :: bool
  th_Size :: u64

text \<open>
  The writer: its sink, the bytes the current entry still lacks, the padding owed behind it,
  whether a write failed, and the entries so far, each with the bytes of its body.
\<close>

record tar_writer =
  tw_sink :: writer
  tw_left :: nat
  tw_pad :: nat
  tw_err :: bool
  tw_entries :: "(tar_header \<times> bytes) list"

definition tar_NewWriter :: "writer \<Rightarrow> tar_writer" where
  "tar_NewWriter w = \<lparr>tw_sink = w, tw_left = 0, tw_pad = 0, tw_err = False, tw_entries = []\<rparr>"

definition tar_put :: "bytes \<Rightarrow> tar_writer \<Rightarrow> bool \<times> tar_writer" where
  "tar_put bs tw = (case write_all bs (tw_sink tw) of (ok, w) \<Rightarrow> (ok, tw\<lparr>tw_sink := w, tw_err := \<not> ok\<rparr>))"

definition tar_Flush :: "tar_writer \<Rightarrow> bool \<times> tar_writer" where
  "tar_Flush tw =
     (if tw_err tw \<or> 0 < tw_left tw then (False, tw)
      else apsnd (\<lambda>t. t\<lparr>tw_pad := 0\<rparr>) (tar_put (replicate (tw_pad tw) 0) tw))"

definition tar_WriteHeader :: "(tar_header \<Rightarrow> bytes option) \<Rightarrow> tar_header \<Rightarrow> tar_writer \<Rightarrow> bool \<times> tar_writer" where
  "tar_WriteHeader hdr h tw =
     (case tar_Flush tw of
        (False, tw1) \<Rightarrow> (False, tw1)
      | (True, tw1) \<Rightarrow>
          (case hdr h of
             None \<Rightarrow> (False, tw1\<lparr>tw_err := True\<rparr>)
           | Some bs \<Rightarrow>
               (case tar_put bs tw1 of
                  (False, tw2) \<Rightarrow> (False, tw2)
                | (True, tw2) \<Rightarrow>
                    (True, tw2\<lparr>tw_left := unat (th_Size h), tw_pad := (512 - unat (th_Size h) mod 512) mod 512,
                               tw_entries := tw_entries tw2 @ [(h, [])]\<rparr>))))"

definition tar_body :: "bytes \<Rightarrow> tar_writer \<Rightarrow> tar_writer" where
  "tar_body bs tw =
     tw\<lparr>tw_left := tw_left tw - length bs,
        tw_entries := butlast (tw_entries tw) @ [apsnd (\<lambda>d. d @ bs) (last (tw_entries tw))]\<rparr>"

text \<open>Writing past the size of the header puts out what fits and is an error that does not stick.\<close>

definition tar_Write :: "bytes \<Rightarrow> tar_writer \<Rightarrow> bool \<times> tar_writer" where
  "tar_Write bs tw =
     (if tw_err tw then (False, tw)
      else case tar_put (take (tw_left tw) bs) tw of
        (False, tw1) \<Rightarrow> (False, tw1)
      | (True, tw1) \<Rightarrow>
          (length bs \<le> tw_left tw,
           if take (tw_left tw) bs = [] then tw1 else tar_body (take (tw_left tw) bs) tw1))"

definition tar_Close :: "tar_writer \<Rightarrow> bool \<times> tar_writer" where
  "tar_Close tw =
     (case tar_Flush tw of
        (False, tw1) \<Rightarrow> (False, tw1)
      | (True, tw1) \<Rightarrow> tar_put (replicate 1024 0) tw1)"

section \<open>A transfer as one archive\<close>

record tar_state =
  ts_rv :: receiver
  ts_tw :: tar_writer
  ts_next :: nat
  ts_pending :: "(u32 \<times> nat) list"
  ts_cur :: "nat option"
  ts_hasher :: fileHasher
  ts_written :: u64

definition sinkErr :: "recv_env \<Rightarrow> fault \<Rightarrow> tar_state \<Rightarrow> goerr option \<times> tar_state" where
  "sinkErr re sf s = (case writeFail re ''write'' [] sf (ts_rv s) of (e, rv) \<Rightarrow> (Some e, s\<lparr>ts_rv := rv\<rparr>))"

definition on_tar :: "recv_env \<Rightarrow> fault \<Rightarrow> (tar_writer \<Rightarrow> bool \<times> tar_writer) \<Rightarrow> tar_state \<Rightarrow> goerr option \<times> tar_state" where
  "on_tar re sf op s =
     (case op (ts_tw s) of
        (True, tw) \<Rightarrow> (None, s\<lparr>ts_tw := tw\<rparr>)
      | (False, tw) \<Rightarrow> sinkErr re sf (s\<lparr>ts_tw := tw\<rparr>))"

text \<open>4095 is the octal 07777.\<close>

definition entry_header :: "ListingEntry \<Rightarrow> string \<Rightarrow> tar_header" where
  "entry_header e name =
     (if le_Type e = EntryDir
      then \<lparr>th_Name = name @ ''/'', th_Mode = le_Mode e AND 4095, th_ModTime = le_ModTimeSec e, th_Dir = True, th_Size = 0\<rparr>
      else \<lparr>th_Name = name, th_Mode = le_Mode e AND 4095, th_ModTime = le_ModTimeSec e, th_Dir = False, th_Size = le_Size e\<rparr>)"

definition structural :: "ListingEntry \<Rightarrow> bool" where
  "structural e \<longleftrightarrow> le_Type e = EntryDir \<or> le_Size e = 0"

text \<open>The argument of the sink operations: the entries with their names, and the header layout.\<close>

record tar_job =
  tj_entries :: "(ListingEntry \<times> string) list"
  tj_hdr :: "tar_header \<Rightarrow> bytes option"
  tj_fault :: fault

definition tar_header_at :: "recv_env \<Rightarrow> tar_job \<Rightarrow> nat \<Rightarrow> tar_state \<Rightarrow> goerr option \<times> tar_state" where
  "tar_header_at re tj i s =
     (case tj_entries tj ! i of
        (e, name) \<Rightarrow> on_tar re (tj_fault tj) (tar_WriteHeader (tj_hdr tj) (entry_header e name)) s)"

function structuralUpTo :: "recv_env \<Rightarrow> tar_job \<Rightarrow> nat \<Rightarrow> tar_state \<Rightarrow> goerr option \<times> tar_state" where
  "structuralUpTo re tj i s =
     (if i \<le> ts_next s then (None, s)
      else case (if structural (fst (tj_entries tj ! ts_next s)) then tar_header_at re tj (ts_next s) s else (None, s)) of
        (Some e, s1) \<Rightarrow> (Some e, s1)
      | (None, s1) \<Rightarrow> structuralUpTo re tj i (s1\<lparr>ts_next := Suc (ts_next s)\<rparr>))"
  by pat_completeness auto
termination
  by (relation "measure (\<lambda>(re, tj, i, s). i - ts_next s)") auto

declare structuralUpTo.simps [simp del]

text \<open>Starting a data file: what comes before it, then its own header.\<close>

definition tar_begin :: "recv_env \<Rightarrow> tar_job \<Rightarrow> nat \<Rightarrow> tar_state \<Rightarrow> goerr option \<times> tar_state" where
  "tar_begin re tj pos s =
     (case structuralUpTo re tj pos s of
        (Some e, s1) \<Rightarrow> (Some e, s1)
      | (None, s1) \<Rightarrow>
          (case tar_header_at re tj pos s1 of
             (Some e, s2) \<Rightarrow> (Some e, s2)
           | (None, s2) \<Rightarrow>
               (None, s2\<lparr>ts_next := Suc pos, ts_cur := Some pos, ts_hasher := newFileHasher, ts_written := 0\<rparr>)))"

definition tar_decline :: "recv_env \<Rightarrow> u16 \<Rightarrow> string \<Rightarrow> tar_state \<Rightarrow> tar_state" where
  "tar_decline re code msg s = s\<lparr>ts_rv := decline re code msg (ts_rv s)\<rparr>"

text \<open>The bytes of a segment, and its end.\<close>

definition tar_data :: "recv_env \<Rightarrow> tar_job \<Rightarrow> Segment \<Rightarrow> nat \<Rightarrow> bytes \<Rightarrow> tar_state \<Rightarrow> goerr option \<times> tar_state" where
  "tar_data re tj seg pos data s =
     (let e = fst (tj_entries tj ! pos); n = ts_written s + of_nat (length data) in
      if le_Size e < n then (Some [ErrProtocolError], tar_decline re ErrCodeProtocolError ''received bytes exceed declared size'' s)
      else case on_tar re (tj_fault tj) (tar_Write data) s of
        (Some err, s1) \<Rightarrow> (Some err, s1)
      | (None, s1) \<Rightarrow>
          let s2 = s1\<lparr>ts_hasher := fh_Write (ev_bh (re_env re)) data (ts_hasher s1), ts_written := n,
                      ts_rv := log_note (Progress (sg_FileIndex seg) n) (ts_rv s1)\<rparr> in
          if \<not> sg_EOF seg then (None, s2)
          else if n \<noteq> le_Size e \<or> fh_Sum (ev_bh (re_env re)) (ev_fk (re_env re)) (ts_hasher s2) \<noteq> sg_RootHash seg
          then (Some [ErrHashMismatch], tar_decline re ErrCodeFileHashMismatch ''root hash mismatch'' s2)
          else (None, s2\<lparr>ts_pending := AList.delete (sg_FileIndex seg) (ts_pending s2), ts_cur := None\<rparr>))"

definition tar_segment :: "recv_env \<Rightarrow> tar_job \<Rightarrow> Segment \<Rightarrow> bytes \<Rightarrow> tar_state \<Rightarrow> goerr option \<times> tar_state" where
  "tar_segment re tj seg data s =
     (case map_of (ts_pending s) (sg_FileIndex seg) of
        None \<Rightarrow> (Some [ErrProtocolError], tar_decline re ErrCodeListingInvalid ''chunk for a file not awaiting data'' s)
      | Some pos \<Rightarrow>
          if sg_Restart seg \<or> (case ts_cur s of Some c \<Rightarrow> pos \<noteq> c | None \<Rightarrow> pos < ts_next s)
          then (Some [ErrProtocolError], tar_decline re ErrCodeListingInvalid ''chunk for a file not awaiting data'' s)
          else if sg_Skip seg then
            (if ts_cur s \<noteq> None then (Some [ErrReadFailed], s)
             else (None, s\<lparr>ts_pending := AList.delete (sg_FileIndex seg) (ts_pending s),
                           ts_rv := log_note (EntrySkipped (snd (tj_entries tj ! pos)) SourceUnreadable) (ts_rv s)\<rparr>))
          else case (if ts_cur s = None then tar_begin re tj pos s else (None, s)) of
            (Some e, s1) \<Rightarrow> (Some e, s1)
          | (None, s1) \<Rightarrow> tar_data re tj seg pos data s1)"

fun tar_segments ::
  "recv_env \<Rightarrow> tar_job \<Rightarrow> Segment list \<Rightarrow> bytes \<Rightarrow> tar_state \<Rightarrow> goerr option \<times> tar_state" where
  "tar_segments re tj [] plain s = (None, s)"
| "tar_segments re tj (seg # segs) plain s =
     (let n = unat (sg_Length seg) in
      case tar_segment re tj seg (take n plain) s of
        (Some e, s1) \<Rightarrow> (Some e, s1)
      | (None, s1) \<Rightarrow> tar_segments re tj segs (drop n plain) s1)"

text \<open>Nothing but reading a chunk touches what is left of the data stream.\<close>

lemma data_on_tar: "on_tar re sf op s = (e, s') \<Longrightarrow> data_in (ts_rv s') = data_in (ts_rv s)"
  using data_writeFail [of re "''write''" "[]" sf "ts_rv s"]
  by (auto simp: on_tar_def sinkErr_def split: prod.splits bool.splits)

lemma data_header_at: "tar_header_at re tj i s = (e, s') \<Longrightarrow> data_in (ts_rv s') = data_in (ts_rv s)"
  by (auto simp: tar_header_at_def split: prod.splits dest: data_on_tar)

lemma data_structuralUpTo: "structuralUpTo re tj i s = (e, s') \<Longrightarrow> data_in (ts_rv s') = data_in (ts_rv s)"
proof (induction re tj i s rule: structuralUpTo.induct)
  case (1 re tj i s)
  obtain e1 s1 where h: "(if structural (fst (tj_entries tj ! ts_next s)) then tar_header_at re tj (ts_next s) s else (None, s))
      = (e1, s1)" by (metis surj_pair)
  have d: "data_in (ts_rv s1) = data_in (ts_rv s)" using h by (auto dest: data_header_at split: if_splits)
  show ?case
  proof (cases "i \<le> ts_next s \<or> e1 \<noteq> None")
    case True
    with 1(2) [unfolded structuralUpTo.simps [of re tj i s] h prod.case] d show ?thesis
      by (auto split: option.splits if_splits)
  next
    case False
    with 1(2) [unfolded structuralUpTo.simps [of re tj i s] h prod.case]
    have "structuralUpTo re tj i (s1\<lparr>ts_next := Suc (ts_next s)\<rparr>) = (e, s')" by simp
    with 1(1) [OF _ h [symmetric]] False d show ?thesis by simp
  qed
qed

lemma data_tar_begin: "tar_begin re tj pos s = (e, s') \<Longrightarrow> data_in (ts_rv s') = data_in (ts_rv s)"
  by (auto simp: tar_begin_def split: prod.splits option.splits dest!: data_structuralUpTo data_header_at)

lemma data_tar_data: "tar_data re tj seg pos data s = (e, s') \<Longrightarrow> data_in (ts_rv s') = data_in (ts_rv s)"
  by (auto simp: tar_data_def tar_decline_def log_note_def data_kept Let_def split: prod.splits option.splits if_splits
      dest!: data_on_tar)

lemma data_tar_segment: "tar_segment re tj seg data s = (e, s') \<Longrightarrow> data_in (ts_rv s') = data_in (ts_rv s)"
  by (auto simp: tar_segment_def tar_decline_def log_note_def data_kept split: prod.splits option.splits if_splits
      dest!: data_tar_begin data_tar_data)

lemma data_tar_segments: "tar_segments re tj segs plain s = (e, s') \<Longrightarrow> data_in (ts_rv s') = data_in (ts_rv s)"
  by (induction segs arbitrary: plain s) (auto simp: Let_def split: prod.splits option.splits dest!: data_tar_segment)

lemma tar_turn_shorter:
  "chunk_in re (ts_rv s) = (Inr x, rv) \<Longrightarrow> tar_segments re tj segs plain (s\<lparr>ts_rv := rv\<rparr>) = (e, s2) \<Longrightarrow>
   length (r_data (data_in (ts_rv s2))) < length (r_data (data_in (ts_rv s)))"
  by (drule chunk_in_shorter, drule data_tar_segments) simp

function tar_loop :: "recv_env \<Rightarrow> tar_job \<Rightarrow> nat \<Rightarrow> tar_state \<Rightarrow> goerr option \<times> tar_state" where
  "tar_loop re tj t s =
     (if ts_pending s = [] then (None, s)
      else case re_ctx re t of
        Some e \<Rightarrow> (Some e, s)
      | None \<Rightarrow>
          (case chunk_in re (ts_rv s) of
             (Inl e, rv) \<Rightarrow> (Some e, s\<lparr>ts_rv := rv\<rparr>)
           | (Inr (segs, plain), rv) \<Rightarrow>
               (case tar_segments re tj segs plain (s\<lparr>ts_rv := rv\<rparr>) of
                  (Some e, s2) \<Rightarrow> (Some e, s2)
                | (None, s2) \<Rightarrow> tar_loop re tj (Suc t) s2)))"
  by pat_completeness auto
termination
  by (relation "measure (\<lambda>(re, tj, t, s). length (r_data (data_in (ts_rv s))))")
    (auto dest: tar_turn_shorter [OF sym sym])

declare tar_loop.simps [simp del]

text \<open>The data files still expected, and \<open>streamTar\<close>.\<close>

definition tar_pending :: "(ListingEntry \<times> string) list \<Rightarrow> (u32 \<times> nat) list" where
  "tar_pending es =
     fold (\<lambda>(i, (e, name)) m. if le_Type e = EntryFile \<and> 0 < le_Size e then AList.update (le_Index e) i m else m)
       (zip [0..<length es] es) []"

definition streamTar :: "recv_env \<Rightarrow> tar_job \<Rightarrow> writer \<Rightarrow> receiver \<Rightarrow> goerr option \<times> tar_state" where
  "streamTar re tj w rv =
     (let s0 = \<lparr>ts_rv = rv, ts_tw = tar_NewWriter w, ts_next = 0, ts_pending = tar_pending (tj_entries tj), ts_cur = None,
                ts_hasher = newFileHasher, ts_written = 0\<rparr> in
      case tar_loop re tj 0 s0 of
        (Some e, s1) \<Rightarrow> (Some e, s1)
      | (None, s1) \<Rightarrow>
          (case structuralUpTo re tj (length (tj_entries tj)) s1 of
             (Some e, s2) \<Rightarrow> (Some e, s2)
           | (None, s2) \<Rightarrow> on_tar re (tj_fault tj) tar_Close s2))"

section \<open>A listing to the sink\<close>

text \<open>
  Checking the listing: the entries with their cleaned names, or the error and the code and
  text it is declined with.
\<close>

fun sink_names ::
  "env \<Rightarrow> string set \<Rightarrow> ListingEntry list \<Rightarrow> (goerr \<times> u16 \<times> string) + (ListingEntry \<times> string) list" where
  "sink_names ev seen [] = Inr []"
| "sink_names ev seen (e # es) =
     (if le_Type e = EntrySymlink
      then Inl ([ErrPathTraversal], ErrCodeListingInvalid, ''symlink entries are not accepted'')
      else case sanitizeRelativePath (ev_upper ev) (le_RelativePath e) (ev_goos ev) of
        None \<Rightarrow> Inl ([ErrPathTraversal], ErrCodeListingInvalid, ''invalid path'')
      | Some name \<Rightarrow>
          if name \<in> seen then Inl ([ErrProtocolError], ErrCodeListingInvalid, ''duplicate path'')
          else map_sum id (\<lambda>rest. (e, name) # rest) (sink_names ev (insert name seen) es))"

definition sink_summary :: "ListingEntry list \<Rightarrow> classifySummary" where
  "sink_summary es = empty_summary\<lparr>su_Total := length es, su_NewItems := length es,
     su_BytesToRecv := sum_list (map le_Size es), su_OfferedBytes := sum_list (map le_Size es),
     su_Files := map (\<lambda>e. \<lparr>se_Index = le_Index e, se_RelativePath = le_RelativePath e, se_Size = le_Size e,
                           se_Status = ''new'', se_Type = le_Type e, se_SymlinkTarget = []\<rparr>)
                     (filter (\<lambda>e. le_Type e \<noteq> EntryDir) es)\<rparr>"

definition sink_decisions :: "ListingEntry list \<Rightarrow> Decision list" where
  "sink_decisions es = map (\<lambda>e. \<lparr>d_Index = le_Index e, d_Action = DecisionSend, d_ResumeOffset = 0, d_PrefixRoot = [],
     d_Kept = False\<rparr>) es"

definition send_decisions :: "recv_env \<Rightarrow> Decision list \<Rightarrow> receiver \<Rightarrow> goerr option \<times> receiver" where
  "send_decisions re ds =
     on_streams (\<lambda>s. apsnd (\<lambda>w. s\<lparr>sm_ctl_out := w\<rparr>) (sendDecisions (re_cd re) ds (sm_ctl_out s)))"

definition sink_body ::
  "'f entry_env \<Rightarrow> (tar_header \<Rightarrow> bytes option) \<Rightarrow> (ListingEntry \<times> string) list \<Rightarrow> writer \<Rightarrow> receiver
     \<Rightarrow> goerr option \<times> writer \<times> receiver" where
  "sink_body ee hdr names w rv =
     (let re = ee_re ee; finish = (\<lambda>w1 rv1. case on_streams (finishRecv (re_cd re)) rv1 of (e, rv2) \<Rightarrow> (e, w1, rv2)) in
      case names of
        [(e, name)] \<Rightarrow>
          if le_Type e = EntryFile then (if 0 < le_Size e then stream_to_sink ee w rv else finish w rv)
          else (case streamTar re \<lparr>tj_entries = names, tj_hdr = hdr, tj_fault = ee_sink_fault ee\<rparr> w rv of
                  (Some err, s) \<Rightarrow> (Some err, tw_sink (ts_tw s), ts_rv s)
                | (None, s) \<Rightarrow> finish (tw_sink (ts_tw s)) (ts_rv s))
      | _ \<Rightarrow>
          (case streamTar re \<lparr>tj_entries = names, tj_hdr = hdr, tj_fault = ee_sink_fault ee\<rparr> w rv of
             (Some err, s) \<Rightarrow> (Some err, tw_sink (ts_tw s), ts_rv s)
           | (None, s) \<Rightarrow> finish (tw_sink (ts_tw s)) (ts_rv s)))"

definition recvFilesToSink ::
  "'f entry_env \<Rightarrow> (tar_header \<Rightarrow> bytes option) \<Rightarrow> SenderHello \<Rightarrow> ListingEntry list \<Rightarrow> writer \<Rightarrow> receiver
     \<Rightarrow> goerr option \<times> writer \<times> receiver" where
  "recvFilesToSink ee hdr hello es w rv =
     (let re = ee_re ee in
      case sink_names (re_env re) {} es of
        Inl (err, code, msg) \<Rightarrow> (Some err, w, decline re code msg rv)
      | Inr names \<Rightarrow>
          if (case ro_Accept (re_opts re) of None \<Rightarrow> False | Some acc \<Rightarrow> \<not> acc hello (sink_summary es))
          then (Some [ErrReceiverDeclined], w, decline re ErrCodeDeclined ''receiver declined'' rv)
          else (case send_decisions re (sink_decisions es) rv of
                  (Some e, rv1) \<Rightarrow> (Some e, w, rv1)
                | (None, rv1) \<Rightarrow> sink_body ee hdr names w rv1))"

section \<open>The entry points\<close>

text \<open>\<open>msg\<close> is the text of the error, which goes to a sender whose listing is too long.\<close>

definition recvFiles ::
  "'f entry_env \<Rightarrow> (tar_header \<Rightarrow> bytes option) \<Rightarrow> string \<Rightarrow> SenderHello \<Rightarrow> writer option \<Rightarrow> receiver
     \<Rightarrow> (goerr option \<times> writer option \<times> receiver) option" where
  "recvFiles ee hdr msg hello sink rv =
     (let re = ee_re ee in
      case password_gate ee hello (greet re True rv) of
        (Some e, rv1) \<Rightarrow> Some (Some e, sink, rv1)
      | (None, rv1) \<Rightarrow>
          (case on_streams (recvListing (re_cd re)) rv1 of
             (Inl e, rv2) \<Rightarrow>
               Some (Some e, sink,
                 if err_is e ErrTooManyEntries then decline re ErrCodeTooManyEntries msg rv2
                 else if err_is e ErrProtocolError then decline re ErrCodeListingInvalid ''invalid listing'' rv2
                 else rv2)
           | (Inr entries, rv2) \<Rightarrow>
               (case sink of
                  Some w \<Rightarrow> (case recvFilesToSink ee hdr hello entries w rv2 of (e, w1, rv3) \<Rightarrow> Some (e, Some w1, rv3))
                | None \<Rightarrow> map_option (\<lambda>(e, rv3). (e, None, rv3)) (recv_run re (ee_sem ee) hello entries rv2))))"

definition zero_shello :: SenderHello where
  "zero_shello = \<lparr>sh_MinVersion = 0, sh_MaxVersion = 0, sh_Caps = 0, sh_Hostname = [], sh_OS = [],
     sh_ClientVersion = [], sh_HasPassword = False, sh_Mode = ModeFiles, sh_IsText = False, sh_DisplayName = []\<rparr>"

text \<open>Answering a peer of another version: its own read then fails on the version byte or the refusal.\<close>

definition refuse_version :: "recv_env \<Rightarrow> receiver \<Rightarrow> receiver" where
  "refuse_version re rv =
     (let rv1 = greet re False rv in rv1\<lparr>rv_streams := drainControl (rv_streams rv1)\<rparr>)"

definition newReceiver :: "disk \<Rightarrow> streams \<Rightarrow> receiver" where
  "newReceiver d st = \<lparr>rv_disk = d, rv_streams = st, rv_plans = [], rv_pending = [], rv_bytes = 0, rv_orig = [], rv_log = []\<rparr>"

text \<open>The HELLO: its frame type, and the greeting or the error it could not be read with.\<close>

definition read_hello :: "codecs \<Rightarrow> streams \<Rightarrow> (byte \<times> (goerr + SenderHello)) \<times> streams" where
  "read_hello cd st =
     (case ReadControl (gob_shello_dec cd) True (sm_ctl_in st) of
        (ft, Inl e, rd) \<Rightarrow> ((ft, Inl e), st\<lparr>sm_ctl_in := rd\<rparr>)
      | (ft, Inr h, rd) \<Rightarrow> ((ft, Inr (case h of None \<Rightarrow> zero_shello | Some x \<Rightarrow> x)), st\<lparr>sm_ctl_in := rd\<rparr>))"

definition Recv ::
  "'f entry_env \<Rightarrow> (tar_header \<Rightarrow> bytes option) \<Rightarrow> string \<Rightarrow> writer option \<Rightarrow> disk \<Rightarrow> streams
     \<Rightarrow> (goerr option \<times> writer option \<times> receiver) option" where
  "Recv ee hdr msg sink d st0 =
     (case read_hello (re_cd (ee_re ee)) st0 of
        ((ft, Inl e), st) \<Rightarrow>
          if err_is e WireUnsupportedVersion
          then Some (Some [ErrIncompatibleVersion], sink, refuse_version (ee_re ee) (newReceiver d st))
          else Some (Some e, sink, newReceiver d st)
      | ((ft, Inr hello), st) \<Rightarrow>
          if ft \<noteq> TypeHello then Some (Some [ErrProtocolError], sink, newReceiver d st)
          else if Negotiate (sh_MinVersion hello) (sh_MaxVersion hello) = None
          then Some (Some [ErrIncompatibleVersion], sink, refuse_version (ee_re ee) (newReceiver d st))
          else if sh_Mode hello = ModeStream then recvStream ee hello sink (newReceiver d st)
          else recvFiles ee hdr msg hello sink (newReceiver d st))"

section \<open>Properties\<close>

lemma disk_greet [simp]: "rv_disk (greet re b rv) = rv_disk rv"
  by (simp add: greet_def)

lemma disk_on_streams: "on_streams op rv = (x, rv') \<Longrightarrow> rv_disk rv' = rv_disk rv"
  by (auto simp: on_streams_def split: prod.splits)

lemma disk_password_gate: "password_gate ee hello rv = (e, rv') \<Longrightarrow> rv_disk rv' = rv_disk rv"
  by (auto simp: password_gate_def split: if_splits dest: disk_on_streams)

text \<open>Past the gate, the password was the right one where the sender asked for one.\<close>

definition gate_passed :: "'f entry_env \<Rightarrow> SenderHello \<Rightarrow> bool" where
  "gate_passed ee hello \<longleftrightarrow> (sh_HasPassword hello \<longrightarrow>
     (\<exists>st st'. receiverPasswordHandshake (bindCtx (ee_pw ee)) (ro_Password (re_opts (ee_re ee)))
        (ro_PromptPass (re_opts (ee_re ee))) st = (None, st')))"

lemma password_gate_passed: "password_gate ee hello rv = (None, rv') \<Longrightarrow> gate_passed ee hello"
  by (auto simp: password_gate_def gate_passed_def on_streams_def split: if_splits prod.splits)

lemma recvStream_gate:
  assumes "recvStream ee hello sink rv = Some (e, sink', rv')" "rv_disk rv' \<noteq> rv_disk rv"
  shows "gate_passed ee hello \<and> stream_accepts (ee_re ee) hello"
proof -
  obtain e1 rv1 where g: "password_gate ee hello (greet (ee_re ee) True rv) = (e1, rv1)" by (metis surj_pair)
  show ?thesis
    using assms disk_password_gate [OF g] password_gate_passed [of ee hello "greet (ee_re ee) True rv" rv1] g
    by (cases e1) (auto simp: recvStream_def Let_def split: if_splits)
qed

lemma recvFiles_gate:
  assumes "recvFiles ee hdr msg hello sink rv = Some (e, sink', rv')" "rv_disk rv' \<noteq> rv_disk rv"
  shows "gate_passed ee hello"
proof -
  obtain e1 rv1 where g: "password_gate ee hello (greet (ee_re ee) True rv) = (e1, rv1)" by (metis surj_pair)
  show ?thesis
    using assms disk_password_gate [OF g] password_gate_passed [of ee hello "greet (ee_re ee) True rv" rv1] g
    by (cases e1) (auto simp: recvFiles_def Let_def split: if_splits)
qed


lemma disk_newReceiver [simp]: "rv_disk (newReceiver d st) = d"
  by (simp add: newReceiver_def)

definition sample_hello :: SenderHello where
  "sample_hello = zero_shello\<lparr>sh_MinVersion := ProtocolVersion, sh_MaxVersion := ProtocolVersion, sh_Mode := ModeStream,
     sh_DisplayName := ''f''\<rparr>"

definition sample_gate_env :: "nat entry_env" where
  "sample_gate_env = sample_entry_env\<lparr>ee_re := sample_recv_env\<lparr>re_cd := (sample_codecs [] [])\<lparr>gob_shello_dec := \<lambda>_. Some sample_hello\<rparr>\<rparr>\<rparr>"

lemma sample_gate_read:
  "read_hello (re_cd (ee_re sample_gate_env)) (sample_streams (control_frame (TypeHello, [1])))
     = ((TypeHello, Inr sample_hello), sample_streams [])"
  using ReadControlRaw_frame [of "[1]" TypeHello "[]" IoEOF]
  by (simp add: read_hello_def sample_gate_env_def ReadControl_def sample_streams_def MaxControlFrameSize_def)

lemma sample_gate_disk:
  "\<exists>r. Recv sample_gate_env (\<lambda>_. None) [] None sample_disk (sample_streams (control_frame (TypeHello, [1]))) = Some r
     \<and> rv_disk (snd (snd r)) \<noteq> sample_disk"
proof -
  let ?rv = "greet (ee_re sample_gate_env) True (newReceiver sample_disk (sample_streams []))"
  obtain e rv' where f: "stream_to_file sample_gate_env ''f'' ?rv = (e, rv')" by (metis surj_pair)
  have d: "rv_disk ?rv = sample_disk" by (simp add: newReceiver_def)
  have ev: "re_env (ee_re sample_gate_env) = sample_env" by (simp add: sample_gate_env_def)
  obtain d1 where c: "ps_create sample_env ''f'' zero_entry sample_disk = (Inr ''/r/.fsend/x.partial'', d1)"
    "lstat d1 ''/r/.fsend'' = Some (NDir 448)"
    by (simp add: ps_create_def sample_mkdir sample_paths lstat_def next_fault_def sample_dirs
      os_WriteFile_def os_Create_def dk_put_def tick_def set_bytes_def)
  define rv1 where "rv1 = ?rv\<lparr>rv_disk := d1\<rparr>"
  have c': "on_disk (ps_create sample_env ''f'' zero_entry) ?rv = (Inr ''/r/.fsend/x.partial'', rv1)"
    using c(1) by (simp add: on_disk_def rv1_def)
  have d1: "rv_disk rv1 = d1" by (simp add: rv1_def)
  have data: "sm_data_in (rv_streams rv1) = \<lparr>r_data = [], r_end = IoEOF\<rparr>"
    by (simp add: rv1_def greet_def ackProceed_def send_frame_def newReceiver_def sample_streams_def split: prod.splits)
  have rd: "ReadChunk \<lparr>r_data = [], r_end = IoEOF\<rparr> = (Inl [GoEOF], \<lparr>r_data = [], r_end = IoEOF\<rparr>)"
    by (simp add: ReadChunk_def read_full_def chunkFixedHeader_def)
  obtain reason st where "tryReadPeerError (re_cd (ee_re sample_gate_env))
      (rv_streams rv1\<lparr>sm_data_in := \<lparr>r_data = [], r_end = IoEOF\<rparr>\<rparr>) = (reason, st)" by (metis surj_pair)
  with d1 obtain x rv2 where ch: "chunk_in (ee_re sample_gate_env) rv1 = (Inl x, rv2)" "rv_disk rv2 = d1"
    by (cases reason) (auto simp: chunk_in_def data rd Let_def)
  have "re_ctx (ee_re sample_gate_env) t = None" for t by (simp add: sample_gate_env_def)
  with ch obtain s where p: "streamPayload (ee_re sample_gate_env) (ee_sink_fault sample_gate_env)
      (DestFile ''/r/.fsend/x.partial'' []) rv1 = (Some x, s)" "rv_disk (st_rv s) = d1"
    by (simp add: streamPayload_def stream_loop_in.simps new_stream_state_def stream_chunk_def)
  have "rv_disk rv' = ps_remove sample_env ''f'' d1"
    using f p unfolding stream_to_file_def Let_def ev c' by auto
  then have "lstat (rv_disk rv') ''/r/.fsend'' = Some (NDir 448)"
    using same_outsideD [OF frame_ps_remove, of "''/r/.fsend''" sample_env "''f''" d1] c(2) by (simp add: sample_paths)
  moreover have "lstat sample_disk ''/r/.fsend'' = None" by (simp add: sample_disk_def lstat_def)
  ultimately have ne: "rv_disk rv' \<noteq> sample_disk" by auto
  have name: "StreamFileName sample_env ''f'' = ''f''"
    by (simp add: StreamFileName_def sample_sanitize path_base_def path_split_def path_eval Let_def)
  have t: "path_join ''/r'' ''f'' = ''/r/f''" by (simp add: path_eval)
  have "recvStream sample_gate_env sample_hello None (newReceiver sample_disk (sample_streams [])) = Some (e, None, rv')"
    using f by (simp add: recvStream_def Let_def stream_accepts_def password_gate_def stream_target_def ev d name t
        lstat_def sample_disk_def sample_hello_def zero_shello_def sample_gate_env_def sample_recv_env_def)
  then show ?thesis
    using ne by (simp add: Recv_def sample_gate_read sample_hello_def Negotiate_def ProtocolVersion_def MinProtocolVersion_def)
qed


end
