(* ===== verification/Fs_Text.thy ===== *)
theory Fs_Text
  imports Fs_Decimal
begin

text \<open>
  What the program uses of Go's \<open>strings\<close>, \<open>strconv\<close>, \<open>unicode/utf8\<close> and
  \<open>net\<close> packages on texts. A Go string is its bytes; the functions that work on runes decode them
  first, an invalid byte being the replacement rune of width one.
\<close>

section \<open>Runes\<close>

type_synonym rune = nat

definition is_space :: "rune \<Rightarrow> bool" where
  "is_space r \<longleftrightarrow> (9 \<le> r \<and> r \<le> 13) \<or> r = 32 \<or> r = 0x85 \<or> r = 0xA0 \<or> r = 0x1680 \<or>
     (0x2000 \<le> r \<and> r \<le> 0x200A) \<or> r = 0x2028 \<or> r = 0x2029 \<or> r = 0x202F \<or> r = 0x205F \<or> r = 0x3000"

text \<open>\<open>unicode.ToLower\<close>: ASCII spelt out, the table for the rest an argument.\<close>

definition to_lower :: "(rune \<Rightarrow> rune) \<Rightarrow> rune \<Rightarrow> rune" where
  "to_lower lo r = (if r < 128 then if 65 \<le> r \<and> r \<le> 90 then r + 32 else r else lo r)"

definition utf8 :: "rune \<Rightarrow> string" where
  "utf8 r = map char_of
     (if r < 0x80 then [r]
      else if r < 0x800 then [0xC0 + r div 64, 0x80 + r mod 64]
      else if r < 0x10000 then [0xE0 + r div 4096, 0x80 + r div 64 mod 64, 0x80 + r mod 64]
      else [0xF0 + r div 262144, 0x80 + r div 4096 mod 64, 0x80 + r div 64 mod 64, 0x80 + r mod 64])"

definition string_bytes :: "rune list \<Rightarrow> string" where
  "string_bytes rs = concat (map utf8 rs)"

definition trim_right :: "('a \<Rightarrow> bool) \<Rightarrow> 'a list \<Rightarrow> 'a list" where
  "trim_right p xs = rev (dropWhile p (rev xs))"

definition trim :: "('a \<Rightarrow> bool) \<Rightarrow> 'a list \<Rightarrow> 'a list" where
  "trim p xs = trim_right p (dropWhile p xs)"

text \<open>\<open>strings.FieldsFunc\<close>: the maximal runs without a separator.\<close>

function FieldsFunc :: "('a \<Rightarrow> bool) \<Rightarrow> 'a list \<Rightarrow> 'a list list" where
  "FieldsFunc p [] = []"
| "FieldsFunc p (x # xs) =
     (if p x then FieldsFunc p xs
      else (x # takeWhile (\<lambda>y. \<not> p y) xs) # FieldsFunc p (dropWhile (\<lambda>y. \<not> p y) xs))"
  by pat_completeness auto
termination
  by (relation "measure (length \<circ> snd)") (auto simp: le_imp_less_Suc length_dropWhile_le)


text \<open>The first rune of a string and its width (\<open>utf8.DecodeRuneInString\<close>), for a nonempty string.\<close>

definition second_ok :: "nat \<Rightarrow> nat \<Rightarrow> bool" where
  "second_ok b0 b1 \<longleftrightarrow>
     (if b0 = 0xE0 then 0xA0 else if b0 = 0xF0 then 0x90 else 0x80) \<le> b1 \<and>
     b1 \<le> (if b0 = 0xED then 0x9F else if b0 = 0xF4 then 0x8F else 0xBF)"

definition cont_ok :: "nat \<Rightarrow> bool" where
  "cont_ok b \<longleftrightarrow> 0x80 \<le> b \<and> b \<le> 0xBF"

fun decode_rune :: "nat list \<Rightarrow> rune \<times> nat" where
  "decode_rune [] = (0xFFFD, 0)"
| "decode_rune (b0 # bs) =
     (if b0 < 0x80 then (b0, 1)
      else if 0xC2 \<le> b0 \<and> b0 \<le> 0xDF then
        (case bs of b1 # _ \<Rightarrow> if cont_ok b1 then ((b0 - 0xC0) * 64 + (b1 - 0x80), 2) else (0xFFFD, 1) | _ \<Rightarrow> (0xFFFD, 1))
      else if 0xE0 \<le> b0 \<and> b0 \<le> 0xEF then
        (case bs of b1 # b2 # _ \<Rightarrow>
            if second_ok b0 b1 \<and> cont_ok b2
            then ((b0 - 0xE0) * 4096 + (b1 - 0x80) * 64 + (b2 - 0x80), 3) else (0xFFFD, 1)
          | _ \<Rightarrow> (0xFFFD, 1))
      else if 0xF0 \<le> b0 \<and> b0 \<le> 0xF4 then
        (case bs of b1 # b2 # b3 # _ \<Rightarrow>
            if second_ok b0 b1 \<and> cont_ok b2 \<and> cont_ok b3
            then ((b0 - 0xF0) * 262144 + (b1 - 0x80) * 4096 + (b2 - 0x80) * 64 + (b3 - 0x80), 4) else (0xFFFD, 1)
          | _ \<Rightarrow> (0xFFFD, 1))
      else (0xFFFD, 1))"

text \<open>The runes of a string, each with the bytes it stands for.\<close>

function runes :: "string \<Rightarrow> (rune \<times> string) list" where
  "runes s =
     (if s = [] then []
      else case decode_rune (map of_char s) of
        (r, w) \<Rightarrow> (r, take (max 1 w) s) # runes (drop (max 1 w) s))"
  by pat_completeness auto
termination
  by (relation "measure length") auto

declare runes.simps [simp del]

definition TrimFunc :: "(rune \<Rightarrow> bool) \<Rightarrow> string \<Rightarrow> string" where
  "TrimFunc p s = concat (map snd (trim (p \<circ> fst) (runes s)))"

definition TrimSpace :: "string \<Rightarrow> string" where
  "TrimSpace s = TrimFunc is_space s"

definition ascii :: "string \<Rightarrow> bool" where
  "ascii s \<longleftrightarrow> list_all (\<lambda>c. (of_char c :: nat) < 128) s"

definition ToLower :: "(rune \<Rightarrow> rune) \<Rightarrow> string \<Rightarrow> string" where
  "ToLower lo s =
     (if ascii s then map (\<lambda>c. char_of (to_lower lo (of_char c))) s
      else concat (map (\<lambda>(r, _). utf8 (to_lower lo r)) (runes s)))"

text \<open>\<open>strings.EqualFold\<close> against a text without letters that fold outside ASCII.\<close>

definition equal_fold_ascii :: "string \<Rightarrow> string \<Rightarrow> bool" where
  "equal_fold_ascii a b \<longleftrightarrow> map (\<lambda>c. to_lower id (of_char c)) a = map (\<lambda>c. to_lower id (of_char c)) b"

definition trim_prefix :: "string \<Rightarrow> string \<Rightarrow> string" where
  "trim_prefix p s = (if take (length p) s = p then drop (length p) s else s)"

section \<open>Numbers\<close>

definition is_digit :: "char \<Rightarrow> bool" where
  "is_digit c \<longleftrightarrow> 48 \<le> (of_char c :: nat) \<and> (of_char c :: nat) \<le> 57"

definition digits_value :: "string \<Rightarrow> nat" where
  "digits_value ds = foldl (\<lambda>n c. 10 * n + (of_char c - 48)) 0 ds"

text \<open>\<open>strconv.Atoi\<close> for a 64-bit \<open>int\<close>: an optional sign, digits, in range.\<close>

definition Atoi :: "string \<Rightarrow> int option" where
  "Atoi s =
     (let neg = (s \<noteq> [] \<and> hd s = CHR ''-''); signed = (neg \<or> (s \<noteq> [] \<and> hd s = CHR ''+''));
          ds = (if signed then tl s else s); v = int (digits_value ds)
      in if ds = [] \<or> \<not> list_all is_digit ds then None
         else if neg then (if v \<le> 2 ^ 63 then Some (- v) else None)
         else if v < 2 ^ 63 then Some v else None)"

lemma digits_value_snoc [simp]: "digits_value (ds @ [c]) = 10 * digits_value ds + (of_char c - 48)"
  by (simp add: digits_value_def)

lemma digits_value_dec: "digits_value (dec_string n) = n"
proof (induction n rule: less_induct)
  case (less n)
  then show ?case
    by (cases "n < 10") (simp_all add: dec_string_unfold, simp add: digits_value_def)
qed

lemma dec_string_is_digit: "list_all is_digit (dec_string n)"
  using dec_string_digits [of _ n] by (auto simp: list_all_iff is_digit_def)

lemma Atoi_dec:
  assumes "int n < 2 ^ 63"
  shows "Atoi (dec_string n) = Some (int n)"
proof -
  obtain c cs where c: "dec_string n = c # cs" using dec_string_ne [of n] by (cases "dec_string n") auto
  have "is_digit c" using dec_string_is_digit [of n] by (simp add: c)
  then have "c \<noteq> CHR ''-''" "c \<noteq> CHR ''+''" by (auto simp: is_digit_def)
  then show ?thesis
    using assms dec_string_is_digit [of n] digits_value_dec [of n] by (simp add: Atoi_def c)
qed

text \<open>\<open>hex.EncodeToString\<close>.\<close>

definition hex_digit :: "nat \<Rightarrow> char" where
  "hex_digit n = char_of (if n < 10 then 48 + n else 87 + n)"

definition hex_string :: "bytes \<Rightarrow> string" where
  "hex_string bs = concat (map (\<lambda>b. [hex_digit (unat b div 16), hex_digit (unat b mod 16)]) bs)"

section \<open>Addresses\<close>

text \<open>\<open>net.SplitHostPort\<close>, its errors all being \<open>None\<close>, and \<open>net.JoinHostPort\<close>.\<close>

fun index_of :: "char \<Rightarrow> string \<Rightarrow> nat option" where
  "index_of c [] = None"
| "index_of c (x # xs) = (if x = c then Some 0 else map_option Suc (index_of c xs))"

definition last_index_of :: "char \<Rightarrow> string \<Rightarrow> nat option" where
  "last_index_of c s = map_option (\<lambda>i. length s - 1 - i) (index_of c (rev s))"

definition SplitHostPort :: "string \<Rightarrow> (string \<times> string) option" where
  "SplitHostPort hp =
     (case last_index_of (CHR '':'') hp of
        None \<Rightarrow> None
      | Some i \<Rightarrow>
          if hd hp = CHR ''['' then
            (case index_of (CHR '']'') hp of
               None \<Rightarrow> None
             | Some e \<Rightarrow>
                 if Suc e \<noteq> i then None
                 else if CHR ''['' \<in> set (drop 1 hp) \<or> CHR '']'' \<in> set (drop (Suc e) hp) then None
                 else Some (take (e - 1) (drop 1 hp), drop (Suc i) hp))
          else if CHR '':'' \<in> set (take i hp) then None
          else if CHR ''['' \<in> set hp \<or> CHR '']'' \<in> set hp then None
          else Some (take i hp, drop (Suc i) hp))"

definition JoinHostPort :: "string \<Rightarrow> string \<Rightarrow> string" where
  "JoinHostPort host port =
     (if CHR '':'' \<in> set host then ''['' @ host @ '']:'' @ port else host @ '':'' @ port)"

section \<open>Trimming and splitting\<close>

lemma dropWhile_prefix: "\<forall>x \<in> set as. p x \<Longrightarrow> dropWhile p (as @ bs) = dropWhile p bs"
  by (simp add: dropWhile_append)

lemma dropWhile_stop: "xs = [] \<or> \<not> p (hd xs) \<Longrightarrow> dropWhile p xs = xs"
  by (cases xs) auto

lemma trim_right_suffix:
  assumes "\<forall>x \<in> set bs. p x" "as \<noteq> []" "\<not> p (last as)"
  shows "trim_right p (as @ bs) = as"
  using assms by (simp add: trim_right_def dropWhile_prefix dropWhile_stop hd_rev)

lemma trim_around:
  assumes "\<forall>x \<in> set as. p x" "\<forall>x \<in> set cs. p x" "bs \<noteq> []" "\<not> p (hd bs)" "\<not> p (last bs)"
  shows "trim p (as @ bs @ cs) = bs"
  using assms by (simp add: trim_def dropWhile_prefix dropWhile_stop trim_right_suffix)

lemma fields_run:
  assumes "\<forall>x \<in> set g. \<not> p x" "\<forall>x \<in> set gap. p x" "g \<noteq> []" "gap \<noteq> []"
  shows "FieldsFunc p (g @ gap @ rest) = g # FieldsFunc p rest"
proof -
  obtain x xs where g: "g = x # xs" using assms(3) by (cases g) auto
  obtain y ys where gap: "gap = y # ys" using assms(4) by (cases gap) auto
  have "takeWhile (\<lambda>z. \<not> p z) (xs @ gap @ rest) = xs" "dropWhile (\<lambda>z. \<not> p z) (xs @ gap @ rest) = gap @ rest"
    using assms(1,2) by (simp_all add: g gap takeWhile_append dropWhile_append)
  moreover have "FieldsFunc p (gap @ rest) = FieldsFunc p rest"
    using assms(2) by (induction gap) auto
  ultimately show ?thesis using assms(1) by (simp add: g)
qed

lemma fields_single:
  assumes "\<forall>x \<in> set g. \<not> p x" "g \<noteq> []"
  shows "FieldsFunc p g = [g]"
proof -
  obtain x xs where g: "g = x # xs" using assms(2) by (cases g) auto
  have e: "takeWhile (\<lambda>z. \<not> p z) xs = xs" "dropWhile (\<lambda>z. \<not> p z) xs = []" using assms(1) by (simp_all add: g)
  show ?thesis using assms(1) by (simp add: g e del: dropWhile_eq_Nil_conv takeWhile_eq_all_conv)
qed

section \<open>ASCII texts\<close>

lemma runes_ascii: "ascii s \<Longrightarrow> runes s = map (\<lambda>c. (of_char c, [c])) s"
proof (induction s)
  case Nil
  then show ?case by (simp add: runes.simps)
next
  case (Cons c s)
  then show ?case by (subst runes.simps) (simp add: ascii_def)
qed

lemma concat_single: "concat (map (\<lambda>c. [f c]) s) = map f s"
  by (induction s) auto

text \<open>Nothing to trim, where the ends are not white space.\<close>

lemma TrimSpace_id:
  assumes "ascii s" "s \<noteq> []" "\<not> is_space (of_char (hd s))" "\<not> is_space (of_char (last s))"
  shows "TrimSpace s = s"
proof -
  let ?m = "map (\<lambda>c. (of_char c :: rune, [c])) s"
  have "trim (is_space \<circ> fst) ([] @ ?m @ []) = ?m"
    by (rule trim_around) (use assms(2-4) in \<open>simp_all add: hd_map last_map\<close>)
  then show ?thesis using assms(1) by (simp add: TrimSpace_def TrimFunc_def runes_ascii comp_def concat_single)
qed

end
