(* ===== verification/Share_Code.thy ===== *)
theory Share_Code
  imports Fs_Text Safe_Paths
begin

text \<open>
  \<open>internal/code\<close>: the short codes users read to each other (\<open>code.go\<close>), the slot under which
  the pairing server knows a code on a day (\<open>slot.go\<close>), and the memoised key stretch below it
  (\<open>stretch.go\<close>). What a user types is a Go string seen as its runes, an invalid byte being
  the replacement rune; a canonical code is ASCII and a \<open>string\<close>. argon2id (a third-party package)
  and the HKDF below it are arguments.
\<close>

section \<open>The shape of a code\<close>

definition Alphabet :: string where
  "Alphabet = ''abcdefghjkmnpqrstuvwxyz''"

definition Length :: nat where
  "Length = 10"

definition Layout :: "nat list" where
  "Layout = [3, 4, 3]"

text \<open>The class \<open>[a-hjkmnp-z]\<close> of the pattern, and the pattern over a list of group lengths.\<close>

definition code_class :: "char \<Rightarrow> bool" where
  "code_class c = (let n = of_char c :: nat in
     (97 \<le> n \<and> n \<le> 104) \<or> n = 106 \<or> n = 107 \<or> n = 109 \<or> n = 110 \<or> (112 \<le> n \<and> n \<le> 122))"

fun code_shape :: "nat list \<Rightarrow> string \<Rightarrow> bool" where
  "code_shape [] s = (s = [])"
| "code_shape [n] s = (length s = n \<and> list_all code_class s)"
| "code_shape (n # ns) s =
     (n < length s \<and> list_all code_class (take n s) \<and> s ! n = CHR ''-'' \<and> code_shape ns (drop (Suc n) s))"

definition IsCode :: "string \<Rightarrow> bool" where
  "IsCode s = code_shape Layout s"

datatype code_error = ErrInvalid

definition Validate :: "string \<Rightarrow> code_error option" where
  "Validate s = (if IsCode s then None else Some ErrInvalid)"

text \<open>\<open>format\<close> inserts the hyphens; every caller hands it \<open>Length\<close> letters.\<close>

fun format_groups :: "nat \<Rightarrow> nat list \<Rightarrow> string \<Rightarrow> string" where
  "format_groups i [] letters = []"
| "format_groups i (g # gs) letters =
     (if 0 < i then ''-'' else []) @ take g letters @ format_groups (Suc i) gs (drop g letters)"

definition format_code :: "string \<Rightarrow> string" where
  "format_code letters = format_groups 0 Layout letters"

text \<open>\<open>Generate\<close> draws \<open>Length\<close> numbers below the alphabet's size; a draw can fail.\<close>

fun draw_letters :: "nat option list \<Rightarrow> string option" where
  "draw_letters [] = Some []"
| "draw_letters (None # ds) = None"
| "draw_letters (Some n # ds) = map_option ((#) (Alphabet ! n)) (draw_letters ds)"

definition Generate :: "(nat \<Rightarrow> nat option) \<Rightarrow> string option" where
  "Generate rnd = map_option format_code (draw_letters (map rnd [0..<Length]))"

section \<open>What users type\<close>

definition is_quote :: "rune \<Rightarrow> bool" where
  "is_quote r \<longleftrightarrow> r = 34 \<or> r = 39 \<or> r = 96"

definition is_punct :: "rune \<Rightarrow> bool" where
  "is_punct r \<longleftrightarrow> r \<in> {46, 44, 59, 58, 33, 63}"

definition is_separator :: "rune \<Rightarrow> bool" where
  "is_separator r \<longleftrightarrow> r = 45 \<or> r = 95 \<or> r = 46 \<or> r = 32 \<or> r = 9"

definition code_letters :: "rune list list \<Rightarrow> string option" where
  "code_letters groups =
     (if length groups = 1 \<and> length (string_bytes (hd groups)) = Length then Some (string_bytes (hd groups))
      else if length groups = length Layout then
        if map (length \<circ> string_bytes) groups = Layout then Some (string_bytes (concat groups)) else None
      else None)"

definition Normalize :: "(rune \<Rightarrow> rune) \<Rightarrow> rune list \<Rightarrow> string option" where
  "Normalize lo s =
     (let s1 = trim is_space s; s2 = trim is_quote s1; s3 = trim_right is_punct s2;
          s4 = map (to_lower lo) (trim is_space s3)
      in case code_letters (FieldsFunc is_separator s4) of
           None \<Rightarrow> None
         | Some letters \<Rightarrow> let c = format_code letters in if IsCode c then Some c else None)"

text \<open>
  \<open>LooksLikeCode\<close>: the looser pattern \<open>^[a-zA-Z0-9]+(-[a-zA-Z0-9]+)+$\<close> is two or more nonempty
  alphanumeric groups between hyphens.
\<close>

definition alnum :: "char \<Rightarrow> bool" where
  "alnum c = (let n = of_char c :: nat in (97 \<le> n \<and> n \<le> 122) \<or> (65 \<le> n \<and> n \<le> 90) \<or> (48 \<le> n \<and> n \<le> 57))"

definition LooksLikeCode :: "string \<Rightarrow> bool" where
  "LooksLikeCode s =
     (let gs = split_on (CHR ''-'') s in
      if \<not> (2 \<le> length gs \<and> list_all (\<lambda>g. g \<noteq> [] \<and> list_all alnum g) gs) then False
      else let n = length s - count_list s (CHR ''-'') in Length - 4 \<le> n \<and> n \<le> Length + 2)"

section \<open>Slots\<close>

text \<open>Go's division truncates toward zero; times are Unix seconds.\<close>

definition quot_int :: "int \<Rightarrow> int \<Rightarrow> int" where
  "quot_int a b = (if a < 0 then - ((- a) div b) else a div b)"

definition rem_int :: "int \<Rightarrow> int \<Rightarrow> int" where
  "rem_int a b = (if a < 0 then - ((- a) mod b) else a mod b)"

definition EpochGrace :: int where
  "EpochGrace = 3600"

definition Epoch :: "int \<Rightarrow> int" where
  "Epoch t = quot_int t 86400"

definition EpochsFor :: "int \<Rightarrow> int list" where
  "EpochsFor t =
     (let e = Epoch t; secs = rem_int t 86400 in
      if secs < EpochGrace then [e, e - 1]
      else if 86400 - EpochGrace \<le> secs then [e, e + 1]
      else [e])"

definition EpochSalt :: "string \<Rightarrow> int \<Rightarrow> string" where
  "EpochSalt label epoch = label @ ''/'' @ int_string epoch"

definition SlotLen :: nat where
  "SlotLen = 32"

definition hex_class :: "char \<Rightarrow> bool" where
  "hex_class c = (let n = of_char c :: nat in (48 \<le> n \<and> n \<le> 57) \<or> (97 \<le> n \<and> n \<le> 102))"

datatype slot_error = ErrInvalidSlot

definition ValidateSlot :: "string \<Rightarrow> slot_error option" where
  "ValidateSlot s = (if length s = 32 \<and> list_all hex_class s then None else Some ErrInvalidSlot)"

text \<open>
  The stretch is memoised under a lock, so calls happen one after another; the cache is the list
  of its entries. A call that finds the cache full forgets all of it.
\<close>

record stretch_env =
  argon :: "string \<Rightarrow> string \<Rightarrow> bytes"
  hkdf :: "bytes \<Rightarrow> string \<Rightarrow> nat \<Rightarrow> bytes option"

type_synonym stretch_cache = "((string \<times> int) \<times> bytes) list"

definition stretchCacheMax :: nat where
  "stretchCacheMax = 8"

definition stretchKey :: "stretch_env \<Rightarrow> string \<Rightarrow> int \<Rightarrow> stretch_cache \<Rightarrow> bytes \<times> stretch_cache" where
  "stretchKey se code epoch cache =
     (case map_of cache (code, epoch) of
        Some k \<Rightarrow> (k, cache)
      | None \<Rightarrow>
          let k = argon se code (EpochSalt ''fsend-stretch-v3'' epoch);
              kept = (if stretchCacheMax \<le> length cache then [] else cache)
          in (k, ((code, epoch), k) # kept))"

text \<open>A failing HKDF panics; it is the outcome \<open>None\<close>.\<close>

definition Stretch ::
  "stretch_env \<Rightarrow> string \<Rightarrow> int \<Rightarrow> string \<Rightarrow> nat \<Rightarrow> stretch_cache \<Rightarrow> bytes option \<times> stretch_cache" where
  "Stretch se code epoch label n cache =
     (case stretchKey se code epoch cache of (k, cache1) \<Rightarrow> (hkdf se k label n, cache1))"

definition SlotAt :: "stretch_env \<Rightarrow> string \<Rightarrow> int \<Rightarrow> stretch_cache \<Rightarrow> string option \<times> stretch_cache" where
  "SlotAt se code epoch cache =
     (case Stretch se code epoch ''fsend-slot-v3'' 16 cache of (b, cache1) \<Rightarrow> (map_option hex_string b, cache1))"

section \<open>Codes and their letters\<close>

lemma code_shape_Cons:
  "gs \<noteq> [] \<Longrightarrow> code_shape (g # gs) s \<longleftrightarrow>
     g < length s \<and> list_all code_class (take g s) \<and> s ! g = CHR ''-'' \<and> code_shape gs (drop (Suc g) s)"
  by (cases gs) auto

lemma format_code_unfold: "format_code ls = take 3 ls @ ''-'' @ take 4 (drop 3 ls) @ ''-'' @ take 3 (drop 7 ls)"
  by (simp add: format_code_def Layout_def)

lemma IsCode_format:
  assumes "length ls = Length" "list_all code_class ls"
  shows "IsCode (format_code ls)"
proof -
  have "list_all code_class (take n (drop m ls))" for n m
    using assms(2) by (auto simp: list_all_iff dest: in_set_takeD in_set_dropD)
  from this [of 3 0] this [of 4 3] this [of 3 7] show ?thesis
    using assms(1)
    by (simp add: IsCode_def format_code_unfold Layout_def code_shape_Cons Length_def nth_append)
qed

lemma format_inject:
  assumes "length xs = Length" "length ys = Length" "format_code xs = format_code ys"
  shows "xs = ys"
proof -
  have e: "take 3 zs @ take 4 (drop 3 zs) @ take 3 (drop 7 zs) = zs" if "length zs = 10" for zs :: string
  proof -
    have "take 3 (drop 7 zs) = drop 7 zs" using that by simp
    then have "take 4 (drop 3 zs) @ take 3 (drop 7 zs) = drop 3 zs"
      using append_take_drop_id [of 4 "drop 3 zs"] by simp
    then show ?thesis by simp
  qed
  have "take 3 xs = take 3 ys \<and> take 4 (drop 3 xs) = take 4 (drop 3 ys) \<and> take 3 (drop 7 xs) = take 3 (drop 7 ys)"
    using assms by (simp add: format_code_unfold Length_def append_eq_append_conv)
  with e [of xs] e [of ys] assms(1,2) show ?thesis by (simp add: Length_def)
qed

lemma IsCodeE:
  assumes "IsCode c"
  obtains ls where "length ls = Length" "list_all code_class ls" "c = format_code ls"
proof -
  have 1: "3 < length c" "list_all code_class (take 3 c)" "c ! 3 = CHR ''-''"
    and 2: "8 < length c" "list_all code_class (take 4 (drop 4 c))" "c ! 8 = CHR ''-''"
    and 3: "length c = 12" "list_all code_class (drop 9 c)"
    using assms by (auto simp: IsCode_def Layout_def code_shape_Cons)
  have c: "c = take 3 c @ [CHR ''-''] @ take 4 (drop 4 c) @ [CHR ''-''] @ drop 9 c"
  proof -
    have "drop 4 c = take 4 (drop 4 c) @ drop 8 c" using append_take_drop_id [of 4 "drop 4 c"] by simp
    also have "drop 8 c = c ! 8 # drop 9 c" using 2(1) Cons_nth_drop_Suc [of 8 c] by simp
    finally have "drop 4 c = take 4 (drop 4 c) @ [CHR ''-''] @ drop 9 c" using 2(3) by simp
    moreover have "drop 3 c = c ! 3 # drop 4 c" using 1(1) Cons_nth_drop_Suc [of 3 c] by simp
    ultimately show ?thesis using 1(3) append_take_drop_id [of 3 c] by simp
  qed
  let ?ls = "take 3 c @ take 4 (drop 4 c) @ drop 9 c"
  have "format_code ?ls = c" using 3(1) by (subst c) (simp add: format_code_unfold)
  moreover have "length ?ls = Length" using 3(1) by (simp add: Length_def)
  ultimately show ?thesis using that [of ?ls] 1(2) 2(2) 3(2) by simp
qed

lemma code_class_Alphabet: "code_class c \<longleftrightarrow> c \<in> set Alphabet"
proof
  assume c: "code_class c"
  have "(of_char c :: nat) \<in> set ([97..<105] @ [106, 107, 109, 110] @ [112..<123])"
    using c by (simp only: code_class_def Let_def set_append set_upt list.set atLeastLessThan_iff Un_iff insert_iff) linarith
  also have "\<dots> = set (map of_char Alphabet)" by code_simp
  finally have "(of_char c :: nat) \<in> set (map of_char Alphabet)" .
  then show "c \<in> set Alphabet" by auto
qed (auto simp: Alphabet_def code_class_def)

lemma Alphabet_props: "distinct Alphabet" "length Alphabet = 23"
  by (simp_all add: Alphabet_def)

lemma draw_letters_Some: "draw_letters (map Some ns) = Some (map ((!) Alphabet) ns)"
  by (induction ns) auto

lemma draw_letters_None: "draw_letters ds = None \<longleftrightarrow> None \<in> set ds"
  by (induction ds rule: draw_letters.induct) auto

lemma Generate_total:
  "length ns = Length \<Longrightarrow> Generate (\<lambda>i. Some (ns ! i)) = Some (format_code (map ((!) Alphabet) ns))"
proof -
  assume "length ns = Length"
  then have "map (\<lambda>i. Some (ns ! i)) [0..<Length] = map Some ns"
    by (metis (no_types, lifting) map_map map_nth comp_def map_eq_conv)
  then show ?thesis by (simp add: Generate_def draw_letters_Some)
qed

definition draws :: "nat list set" where
  "draws = {ns. set ns \<subseteq> {..<length Alphabet} \<and> length ns = Length}"

lemma draws_letters: "ns \<in> draws \<Longrightarrow> list_all code_class (map ((!) Alphabet) ns)"
  by (auto simp: draws_def list_all_iff code_class_Alphabet)

lemma letters_draws:
  assumes "length ls = Length" "list_all code_class ls"
  obtains ns where "ns \<in> draws" "map ((!) Alphabet) ns = ls"
proof -
  have "\<forall>c \<in> set ls. \<exists>i. i < length Alphabet \<and> Alphabet ! i = c"
    using assms(2) by (auto simp: list_all_iff code_class_Alphabet in_set_conv_nth)
  then obtain f where f: "\<forall>c \<in> set ls. f c < length Alphabet \<and> Alphabet ! f c = c" by metis
  have "map f ls \<in> draws" using f assms(1) by (auto simp: draws_def)
  moreover have "map ((!) Alphabet) (map f ls) = ls" using f by (simp add: map_idI)
  ultimately show ?thesis by (rule that)
qed

text \<open>
  C25. \<open>Generate\<close> turns the equally likely draws into codes one to one and onto: no draw gives a
  string that is not a code, no code is missed, none comes from two draws, and there are
  \<open>23 ^ 10\<close> of them; it fails exactly when the randomness does.
\<close>

theorem codes_uniform:
  "bij_betw (\<lambda>ns. Generate (\<lambda>i. Some (ns ! i))) draws (Some ` {c. IsCode c}) \<and>
   card draws = 23 ^ 10 \<and>
   (Generate rnd = None \<longleftrightarrow> (\<exists>i. i < Length \<and> rnd i = None))"
proof (intro conjI)
  let ?g = "\<lambda>ns. Generate (\<lambda>i. Some (ns ! i))"
  have g: "?g ns = Some (format_code (map ((!) Alphabet) ns))" if "ns \<in> draws" for ns
    using that by (simp add: draws_def Generate_total)
  have "inj_on ?g draws"
  proof (rule inj_onI)
    fix ms ns assume d: "ms \<in> draws" "ns \<in> draws" and e: "?g ms = ?g ns"
    have "map ((!) Alphabet) ms = map ((!) Alphabet) ns"
    proof (rule format_inject)
      show "format_code (map ((!) Alphabet) ms) = format_code (map ((!) Alphabet) ns)"
        using e unfolding g [OF d(1)] g [OF d(2)] by (rule option.inject [THEN iffD1])
    qed (use d in \<open>simp_all add: draws_def\<close>)
    moreover have "inj_on ((!) Alphabet) {..<length Alphabet}"
      by (rule inj_on_nth [OF Alphabet_props(1)]) simp
    then have "inj_on ((!) Alphabet) (set ms \<union> set ns)"
      by (rule inj_on_subset) (use d in \<open>simp add: draws_def\<close>)
    ultimately show "ms = ns" by (rule map_inj_on)
  qed
  moreover have "?g ` draws = Some ` {c. IsCode c}"
  proof (intro equalityI subsetI)
    fix x assume "x \<in> ?g ` draws"
    then show "x \<in> Some ` {c. IsCode c}"
      by (auto simp: g) (auto intro!: IsCode_format draws_letters simp: draws_def)
  next
    fix x assume "x \<in> Some ` {c. IsCode c}"
    then obtain c where c: "x = Some c" "IsCode c" by auto
    from c(2) obtain ls where ls: "length ls = Length" "list_all code_class ls" "c = format_code ls" by (rule IsCodeE)
    from ls(1,2) obtain ns where "ns \<in> draws" "map ((!) Alphabet) ns = ls" by (rule letters_draws)
    with g c(1) ls(3) show "x \<in> ?g ` draws" by (auto intro!: image_eqI [of _ _ ns])
  qed
  ultimately show "bij_betw ?g draws (Some ` {c. IsCode c})" by (simp add: bij_betw_def)
  show "card draws = 23 ^ 10"
    unfolding draws_def by (simp add: card_lists_length_eq Alphabet_props Length_def)
  show "Generate rnd = None \<longleftrightarrow> (\<exists>i. i < Length \<and> rnd i = None)"
    by (force simp: Generate_def draw_letters_None)
qed

section \<open>Reading a code back\<close>

lemma code_class_ascii: "code_class c \<Longrightarrow> 97 \<le> (of_char c :: nat) \<and> (of_char c :: nat) \<le> 122"
  by (auto simp: code_class_def Let_def)

text \<open>A rune the user typed for a letter of a code: the letter, or its capital.\<close>

definition typed_as :: "(rune \<Rightarrow> rune) \<Rightarrow> rune list \<Rightarrow> string \<Rightarrow> bool" where
  "typed_as lo rs ls \<longleftrightarrow> (\<forall>r \<in> set rs. r < 128) \<and> map (to_lower lo) rs = map of_char ls"

lemma typed_letter:
  assumes "typed_as lo rs ls" "list_all code_class ls" "r \<in> set rs"
  shows "\<not> is_space r \<and> \<not> is_quote r \<and> \<not> is_punct r"
proof -
  have "to_lower lo r \<in> of_char ` set ls" using assms(1,3) by (metis typed_as_def list.set_map image_eqI)
  then have "97 \<le> to_lower lo r \<and> to_lower lo r \<le> 122"
    using assms(2) by (auto simp: list_all_iff dest!: bspec code_class_ascii)
  moreover have "r < 128" using assms(1,3) by (simp add: typed_as_def)
  ultimately show ?thesis
    by (auto simp: to_lower_def is_space_def is_quote_def is_punct_def split: if_splits)
qed

lemma letter_no_separator: "code_class c \<Longrightarrow> \<not> is_separator (of_char c)"
  by (auto simp: is_separator_def dest: code_class_ascii)

lemma string_bytes_letters: "list_all code_class ls \<Longrightarrow> string_bytes (map of_char ls) = ls"
proof (induction ls)
  case (Cons c ls)
  then have "(of_char c :: nat) < 128" using code_class_ascii [of c] by simp
  with Cons show ?case by (simp add: string_bytes_def utf8_def)
qed (simp add: string_bytes_def)

lemma separator_lower: "is_separator r \<Longrightarrow> to_lower lo r = r"
  by (auto simp: is_separator_def to_lower_def)

text \<open>The layers around a code come off, whatever starts and ends it.\<close>

lemma trim_layers:
  assumes "b \<noteq> []" "\<not> is_space (hd b)" "\<not> is_quote (hd b)"
    "\<not> is_space (last b)" "\<not> is_quote (last b)" "\<not> is_punct (last b)"
    and "\<forall>r \<in> set (w1 @ w2). is_space r" "\<forall>r \<in> set (q1 @ q2). is_quote r" "\<forall>r \<in> set p. is_punct r"
  shows "trim is_space (trim_right is_punct (trim is_quote (trim is_space (w1 @ q1 @ b @ p @ q2 @ w2)))) = b"
proof -
  have q: "is_quote r \<or> is_punct r \<Longrightarrow> \<not> is_space r" "is_punct r \<Longrightarrow> \<not> is_quote r" for r
    by (auto simp: is_quote_def is_punct_def is_space_def)
  have 1: "trim is_space (w1 @ (q1 @ b @ p @ q2) @ w2) = q1 @ b @ p @ q2"
  proof (rule trim_around)
    show "\<not> is_space (hd (q1 @ b @ p @ q2))"
      using assms(1,2,8) q(1) by (cases q1) (auto simp: hd_append)
    have "last (q1 @ b @ p @ q2) \<in> set q2 \<union> set p \<union> {last b}"
      using assms(1) by (cases "q2 = []"; cases "p = []") (auto simp: last_append)
    then show "\<not> is_space (last (q1 @ b @ p @ q2))" using assms(4,8,9) q(1) by auto
  qed (use assms(1,7) in auto)
  have 2: "trim is_quote (q1 @ (b @ p) @ q2) = b @ p"
  proof (rule trim_around)
    have "last (b @ p) \<in> set p \<union> {last b}" by (cases "p = []") (auto simp: last_append)
    then show "\<not> is_quote (last (b @ p))" using assms(5,9) q(2) by auto
  qed (use assms(1,3,8) in \<open>auto simp: hd_append\<close>)
  have 3: "trim_right is_punct (b @ p) = b"
    by (rule trim_right_suffix) (use assms in auto)
  have 4: "trim is_space ([] @ b @ []) = b"
    by (rule trim_around) (use assms in auto)
  from 1 2 3 4 show ?thesis by simp
qed

lemma letters_unseparated: "list_all code_class g \<Longrightarrow> \<forall>r \<in> set (map of_char g). \<not> is_separator r"
  by (auto simp: list_all_iff letter_no_separator)

lemma code_letters_plain:
  assumes "length ls = Length" "list_all code_class ls"
  shows "code_letters (FieldsFunc is_separator (map of_char ls)) = Some ls"
proof -
  have "FieldsFunc is_separator (map of_char ls :: rune list) = [map of_char ls]"
    by (rule fields_single [OF letters_unseparated [OF assms(2)]]) (use assms(1) in \<open>auto simp: Length_def\<close>)
  then show ?thesis using assms by (simp add: code_letters_def string_bytes_letters)
qed

lemma code_letters_groups:
  assumes "length g1 = 3" "length g2 = 4" "length g3 = 3"
    and "list_all code_class g1" "list_all code_class g2" "list_all code_class g3"
    and "\<forall>r \<in> set s1. is_separator r" "\<forall>r \<in> set s2. is_separator r" "s1 \<noteq> []" "s2 \<noteq> []"
  shows "code_letters (FieldsFunc is_separator (map of_char g1 @ s1 @ map of_char g2 @ s2 @ map of_char g3))
    = Some (g1 @ g2 @ g3)"
proof -
  let ?g = "\<lambda>g. map of_char (g :: string) :: rune list"
  have ne: "?g g1 \<noteq> []" "?g g2 \<noteq> []" "?g g3 \<noteq> []" using assms(1-3) by auto
  note u = letters_unseparated [OF assms(4)] letters_unseparated [OF assms(5)] letters_unseparated [OF assms(6)]
  have "FieldsFunc is_separator (?g g1 @ s1 @ ?g g2 @ s2 @ ?g g3) = [?g g1, ?g g2, ?g g3]"
    unfolding fields_run [OF u(1) assms(7) ne(1) assms(9)] fields_run [OF u(2) assms(8) ne(2) assms(10)]
      fields_single [OF u(3) ne(3)] ..
  moreover have "string_bytes (?g g1 @ ?g g2 @ ?g g3) = g1 @ g2 @ g3"
    using string_bytes_letters [of "g1 @ g2 @ g3"] assms(4-6) by simp
  ultimately show ?thesis
    using assms(1-6) by (simp add: code_letters_def Layout_def string_bytes_letters)
qed

text \<open>
  A code survives dictation and chat: however its letters are capitalised, with any separators
  between the three groups or none at all, in quotes, followed by punctuation and surrounded by
  white space, \<open>Normalize\<close> gives back the code.
\<close>

theorem normalize_reads_code:
  assumes "length g1 = 3" "length g2 = 4" "length g3 = 3" "list_all code_class (g1 @ g2 @ g3)"
    and "typed_as lo t1 g1" "typed_as lo t2 g2" "typed_as lo t3 g3"
    and "\<forall>r \<in> set (s1 @ s2). is_separator r" "s1 = [] \<longleftrightarrow> s2 = []"
    and "\<forall>r \<in> set (w1 @ w2). is_space r" "\<forall>r \<in> set (q1 @ q2). is_quote r" "\<forall>r \<in> set p. is_punct r"
  shows "Normalize lo (w1 @ q1 @ (t1 @ s1 @ t2 @ s2 @ t3) @ p @ q2 @ w2) = Some (g1 @ ''-'' @ g2 @ ''-'' @ g3)"
proof -
  define b where "b = t1 @ s1 @ t2 @ s2 @ t3"
  have len: "length t1 = 3" "length t2 = 4" "length t3 = 3"
    using assms(1-3,5-7) by (metis typed_as_def length_map)+
  have ne: "b \<noteq> []" "hd b \<in> set t1" "last b \<in> set t3"
    using len by (auto simp: b_def hd_append last_append intro!: hd_in_set last_in_set)
  have b: "\<not> is_space (hd b)" "\<not> is_quote (hd b)" "\<not> is_space (last b)" "\<not> is_quote (last b)" "\<not> is_punct (last b)"
    using typed_letter [OF assms(5) _ ne(2)] typed_letter [OF assms(7) _ ne(3)] assms(4) by auto
  have lower: "map (to_lower lo) b = map of_char g1 @ s1 @ map of_char g2 @ s2 @ map of_char g3"
    using assms(5-8) by (simp add: b_def typed_as_def separator_lower map_idI)
  have letters: "code_letters (FieldsFunc is_separator (map (to_lower lo) b)) = Some (g1 @ g2 @ g3)"
  proof (cases "s1 = []")
    case True
    then show ?thesis
      using lower assms(1-4,9) code_letters_plain [of "g1 @ g2 @ g3"] by (simp add: Length_def)
  next
    case False
    then show ?thesis
      using lower assms(1-4,8,9) code_letters_groups [of g1 g2 g3 s1 s2] by simp
  qed
  have f: "format_code (g1 @ g2 @ g3) = g1 @ ''-'' @ g2 @ ''-'' @ g3"
    using assms(1-3) by (simp add: format_code_unfold)
  have "IsCode (format_code (g1 @ g2 @ g3))"
    using assms(1-4) by (intro IsCode_format) (simp_all add: Length_def)
  then show ?thesis
    unfolding b_def [symmetric] Normalize_def Let_def trim_layers [OF ne(1) b assms(10-12)] letters
    by (simp add: f)
qed

theorem normalize_reads_code_witness:
  "Normalize id ([32] @ [34] @ (map of_char ''AbC'' @ [45, 32] @ map of_char ''defg'' @ [46] @ map of_char ''JKM'')
     @ [33] @ [34] @ [10]) = Some (''abc'' @ ''-'' @ ''defg'' @ ''-'' @ ''jkm'')"
  by (rule normalize_reads_code)
    (simp_all add: typed_as_def to_lower_def code_class_def is_separator_def is_space_def is_quote_def is_punct_def)

section \<open>Slots and the stretch cache\<close>

lemma hex_class_digit: "n < 16 \<Longrightarrow> hex_class (hex_digit n)"
  by (auto simp: hex_class_def hex_digit_def)

lemma hex_string_slot:
  assumes "length bs = 16"
  shows "ValidateSlot (hex_string bs) = None"
proof -
  have "length (hex_string bs) = 2 * length bs" by (induction bs) (auto simp: hex_string_def)
  moreover have "hex_class c" if "c \<in> set (hex_string bs)" for c
  proof -
    have "unat b div 16 < 16" for b :: byte
      using unsigned_less [where w = b and 'a = nat] by simp
    with that show ?thesis by (auto simp: hex_string_def intro!: hex_class_digit)
  qed
  ultimately show ?thesis using assms by (simp add: ValidateSlot_def list_all_iff)
qed

text \<open>The day a code was made on is among the days tried within the grace of it.\<close>

lemma epochs_meet:
  assumes "0 \<le> ts" "0 \<le> tr" "\<bar>tr - ts\<bar> \<le> EpochGrace"
  shows "Epoch ts \<in> set (EpochsFor tr)"
proof -
  define a x where "a = ts div 86400" and "x = ts mod 86400"
  define b y where "b = tr div 86400" and "y = tr mod 86400"
  have t: "ts = 86400 * a + x" "0 \<le> x" "x < 86400" "tr = 86400 * b + y" "0 \<le> y" "y < 86400"
    by (simp_all add: a_def x_def b_def y_def)
  have d: "\<bar>(86400 * b + y) - (86400 * a + x)\<bar> \<le> 3600" using assms(3) t by (simp add: EpochGrace_def)
  have "a = b \<or> (y < 3600 \<and> a = b - 1) \<or> (82800 \<le> y \<and> a = b + 1)"
  proof -
    have "b - a < 2" "- 2 < b - a" using d t(2,3,5,6) by linarith+
    then consider "b = a" | "b = a + 1" | "b = a - 1" by linarith
    then show ?thesis by cases (use d t(2,3,5,6) in linarith)+
  qed
  moreover have "Epoch ts = a" "Epoch tr = b" "rem_int tr 86400 = y"
    using assms(1,2) by (simp_all add: Epoch_def quot_int_def rem_int_def a_def b_def y_def)
  ultimately show ?thesis by (auto simp: EpochsFor_def EpochGrace_def Let_def)
qed

fun stretch_step :: "stretch_env \<Rightarrow> string \<times> int \<Rightarrow> stretch_cache \<Rightarrow> stretch_cache" where
  "stretch_step se (code, epoch) cache = snd (stretchKey se code epoch cache)"

definition cache_inv :: "stretch_env \<Rightarrow> stretch_cache \<Rightarrow> bool" where
  "cache_inv se cache \<longleftrightarrow>
     length cache \<le> stretchCacheMax \<and> distinct (map fst cache) \<and>
     (\<forall>((code, epoch), k) \<in> set cache. k = argon se code (EpochSalt ''fsend-stretch-v3'' epoch))"

lemma cache_inv_step: "cache_inv se cache \<Longrightarrow> cache_inv se (stretch_step se e cache)"
  by (cases e)
    (auto simp: cache_inv_def stretchKey_def stretchCacheMax_def Let_def map_of_eq_None_iff split: option.splits)

interpretation stretch_memo: invariant_machine "stretch_step se" "\<lambda>_ _. True" "cache_inv se" for se
  by unfold_locales (rule cache_inv_step)

lemma stretchKey_value:
  "cache_inv se cache \<Longrightarrow> fst (stretchKey se code epoch cache) = argon se code (EpochSalt ''fsend-stretch-v3'' epoch)"
  by (auto simp: cache_inv_def stretchKey_def Let_def split: option.splits dest!: map_of_SomeD)

lemma stretch_run: "cache_inv se (fold (stretch_step se) calls [])"
  by (rule stretch_memo.inv_run) (simp_all add: cache_inv_def)

lemma SlotAt_run:
  "fst (SlotAt se code epoch (fold (stretch_step se) calls [])) =
     map_option hex_string (hkdf se (argon se code (EpochSalt ''fsend-stretch-v3'' epoch)) ''fsend-slot-v3'' 16)"
  using stretchKey_value [OF stretch_run, of se code epoch calls]
  by (simp add: SlotAt_def Stretch_def case_prod_beta)

text \<open>
  C26. Sender and receiver of a code meet: whatever either process derived before, the memo gives the
  slot the stretch itself would give and never outgrows its cap; the sender's slot is one the server
  accepts; and a receiver whose clock is within the grace of the sender's tries it.
\<close>

theorem slots_meet:
  assumes "\<And>k. \<exists>b. hkdf se k ''fsend-slot-v3'' 16 = Some b \<and> length b = 16"
    and "0 \<le> ts" "0 \<le> tr" "\<bar>tr - ts\<bar> \<le> EpochGrace"
    and mine: "mine = fold (stretch_step se) calls []" and yours: "yours = fold (stretch_step se) calls' []"
  shows "\<exists>slot. fst (SlotAt se code (Epoch ts) mine) = Some slot \<and> ValidateSlot slot = None \<and>
     Some slot \<in> (\<lambda>e. fst (SlotAt se code e yours)) ` set (EpochsFor tr) \<and>
     length mine \<le> stretchCacheMax"
proof -
  obtain b where b: "hkdf se (argon se code (EpochSalt ''fsend-stretch-v3'' (Epoch ts))) ''fsend-slot-v3'' 16 = Some b" "length b = 16"
    using assms(1) by blast
  have "length mine \<le> stretchCacheMax" using stretch_run [of se calls] by (simp add: mine cache_inv_def)
  with b hex_string_slot [OF b(2)] epochs_meet [OF assms(2-4)] show ?thesis
    by (intro exI [of _ "hex_string b"]) (auto simp: mine yours SlotAt_run intro!: rev_image_eqI)
qed

text \<open>A day turns between the two: the sender at 23:59:59, the receiver 50 minutes later.\<close>

theorem slots_meet_witness:
  "\<exists>slot. fst (SlotAt \<lparr>argon = \<lambda>c s. replicate 32 7, hkdf = \<lambda>k l n. Some (replicate n 9)\<rparr>
       ''abc-defg-jkm'' (Epoch 86399) (fold (stretch_step \<lparr>argon = \<lambda>c s. replicate 32 7, hkdf = \<lambda>k l n. Some (replicate n 9)\<rparr>)
         [(''abc-defg-jkm'', 0)] [])) = Some slot \<and>
     Some slot \<in> (\<lambda>e. fst (SlotAt \<lparr>argon = \<lambda>c s. replicate 32 7, hkdf = \<lambda>k l n. Some (replicate n 9)\<rparr>
       ''abc-defg-jkm'' e (fold (stretch_step \<lparr>argon = \<lambda>c s. replicate 32 7, hkdf = \<lambda>k l n. Some (replicate n 9)\<rparr>) [] [])))
       ` set (EpochsFor 89399)"
proof -
  let ?se = "\<lparr>argon = \<lambda>c s. replicate 32 7, hkdf = \<lambda>k l n. Some (replicate n 9)\<rparr> :: stretch_env"
  have "\<exists>b. hkdf ?se k ''fsend-slot-v3'' 16 = Some b \<and> length b = 16" for k by simp
  from slots_meet [of ?se 86399 89399 _ "[(''abc-defg-jkm'', 0)]" _ "[]" "''abc-defg-jkm''", OF this _ _ _ refl refl]
  show ?thesis by (auto simp: EpochGrace_def)
qed

end
