(* ===== verification/Base32.thy ===== *)
theory Base32
  imports Fs_Text
begin

text \<open>
  \<open>encoding/base32\<close> without padding, as the relay tokens and the credentials of the pairing server are
  written: five bits to a letter of a 32-letter alphabet, the last group filled with zeros.
\<close>

definition byte_bits :: "byte \<Rightarrow> bool list" where
  "byte_bits b = map (bit b) [7, 6, 5, 4, 3, 2, 1, 0]"

definition bits_nat :: "bool list \<Rightarrow> nat" where
  "bits_nat bs = foldl (\<lambda>n b. 2 * n + of_bool b) 0 bs"

fun groups :: "nat \<Rightarrow> bool list \<Rightarrow> nat \<Rightarrow> bool list list" where
  "groups k bs 0 = []"
| "groups k bs (Suc n) = take k (bs @ replicate k False) # groups k (drop k bs) n"

definition EncodeToString :: "string \<Rightarrow> bytes \<Rightarrow> string" where
  "EncodeToString alphabet bs =
     (let bits = concat (map byte_bits bs); n = (length bits + 4) div 5 in
      map (\<lambda>g. alphabet ! bits_nat g) (groups 5 bits n))"

definition nat_bits :: "nat \<Rightarrow> bool list" where
  "nat_bits n = map (\<lambda>k. odd (n div 2 ^ k)) [4, 3, 2, 1, 0]"

fun decode_bits :: "string \<Rightarrow> string \<Rightarrow> bool list option" where
  "decode_bits alphabet [] = Some []"
| "decode_bits alphabet (c # s) =
     (case index_of c alphabet of
        None \<Rightarrow> None
      | Some i \<Rightarrow> map_option ((@) (nat_bits i)) (decode_bits alphabet s))"

definition bits_byte :: "bool list \<Rightarrow> byte" where
  "bits_byte bs = of_nat (bits_nat bs)"

text \<open>Line ends are skipped, a dangling group that holds no whole byte more is corrupt.\<close>

definition DecodeString :: "string \<Rightarrow> string \<Rightarrow> bytes option" where
  "DecodeString alphabet s =
     (let s1 = filter (\<lambda>c. c \<noteq> CHR 0x0A \<and> c \<noteq> CHR 0x0D) s in
      if length s1 mod 8 \<in> {1, 3, 6} then None
      else map_option (\<lambda>bits. map bits_byte (groups 8 bits (length s1 * 5 div 8))) (decode_bits alphabet s1))"

lemma length_groups [simp]: "length (groups k bs n) = n"
  by (induction n arbitrary: bs) auto

lemma length_EncodeToString [simp]: "length (EncodeToString a bs) = (8 * length bs + 4) div 5"
proof -
  have "length (concat (map byte_bits bs)) = 8 * length bs"
    by (induction bs) (simp_all add: byte_bits_def)
  then show ?thesis by (simp add: EncodeToString_def Let_def)
qed

lemma bits_nat_bound: "bits_nat bs < 2 ^ length bs"
proof (induction bs rule: rev_induct)
  case (snoc b bs)
  then show ?case by (cases b) (simp_all add: bits_nat_def)
qed (simp add: bits_nat_def)

lemma nat_bits_of:
  assumes "length g = 5"
  shows "nat_bits (bits_nat g) = g"
proof -
  obtain a b c d e where "g = [a, b, c, d, e]"
    using assms by (auto simp: length_Suc_conv eval_nat_numeral)
  then show ?thesis
    by (cases a; cases b; cases c; cases d; cases e) (simp_all add: nat_bits_def bits_nat_def)
qed

lemma index_of_nth: "distinct xs \<Longrightarrow> i < length xs \<Longrightarrow> index_of (xs ! i) xs = Some i"
  by (induction xs arbitrary: i) (auto simp: nth_Cons split: nat.splits)

text \<open>An alphabet of 32 different letters, none of them a line end.\<close>

definition alphabet_ok :: "string \<Rightarrow> bool" where
  "alphabet_ok a \<longleftrightarrow> distinct a \<and> length a = 32 \<and> CHR 0x0A \<notin> set a \<and> CHR 0x0D \<notin> set a"

lemma decode_groups:
  assumes "alphabet_ok a" "list_all (\<lambda>g. length g = 5) gs"
  shows "decode_bits a (map (\<lambda>g. a ! bits_nat g) gs) = Some (concat gs)"
  using assms(2)
proof (induction gs)
  case (Cons g gs)
  have "bits_nat g < 32" using bits_nat_bound [of g] Cons.prems by simp
  then have "index_of (a ! bits_nat g) a = Some (bits_nat g)"
    using assms(1) by (simp add: alphabet_ok_def index_of_nth)
  then show ?case using Cons by (simp add: nat_bits_of)
qed simp

lemma groups_length: "list_all (\<lambda>g. length g = k) (groups k bs n)"
  by (induction n arbitrary: bs) auto

lemma concat_groups:
  "length bs \<le> k * n \<Longrightarrow> concat (groups k bs n) = bs @ replicate (k * n - length bs) False"
proof (induction n arbitrary: bs)
  case (Suc n)
  show ?case
  proof (cases "k \<le> length bs")
    case True
    then show ?thesis using Suc.IH [of "drop k bs"] Suc.prems
      by (simp add: add.commute [of k "k * n"] flip: append_assoc)
  next
    case False
    then show ?thesis using Suc.IH [of "[]"] by (simp flip: replicate_add)
  qed
qed simp

lemma groups_take: "k * n \<le> m \<Longrightarrow> m \<le> length bs \<Longrightarrow> groups k (take m bs) n = groups k bs n"
proof (induction n arbitrary: bs m)
  case (Suc n)
  then show ?case by (simp add: take_drop [symmetric] drop_take Suc.IH [of "m - k" "drop k bs"])
qed simp

lemma bits_nat_horner: "bits_nat bs = horner_sum of_bool 2 (rev bs)"
proof (induction bs rule: rev_induct)
  case (snoc b bs)
  then show ?case by (simp add: bits_nat_def)
qed (simp add: bits_nat_def)

lemma bits_byte_of: "bits_byte (byte_bits b) = b"
proof -
  have r: "rev (byte_bits b) = map (bit (unat b)) [0..<8]"
    by (simp add: byte_bits_def upt_rec bit_unsigned_iff numeral_eq_Suc)
  have "bits_nat (byte_bits b) = take_bit 8 (unat b)"
    unfolding bits_nat_horner r by (rule horner_sum_bit_eq_take_bit)
  also have "\<dots> = unat b" using unsigned_less [where w = b and 'a = nat] by (simp add: take_bit_nat_eq_self)
  finally show ?thesis by (simp add: bits_byte_def)
qed

lemma groups_bytes: "groups 8 (concat (map byte_bits bs)) (length bs) = map byte_bits bs"
proof (induction bs)
  case (Cons b bs)
  have "length (byte_bits b) = 8" by (simp add: byte_bits_def)
  then show ?case using Cons by simp
qed simp

text \<open>What was encoded is decoded, for every length a whole number of bytes can have.\<close>

lemma base32_roundtrip:
  assumes "alphabet_ok a"
  shows "DecodeString a (EncodeToString a bs) = Some bs"
proof -
  let ?bits = "concat (map byte_bits bs)" and ?n = "(8 * length bs + 4) div 5"
  let ?gs = "groups 5 ?bits ?n"
  have len: "length ?bits = 8 * length bs" by (induction bs) (simp_all add: byte_bits_def)
  have enc: "EncodeToString a bs = map (\<lambda>g. a ! bits_nat g) ?gs"
    by (simp add: EncodeToString_def Let_def len)
  have in_a: "a ! bits_nat g \<in> set a" if "g \<in> set ?gs" for g
  proof -
    have "length g = 5" using groups_length [of 5 ?bits ?n] that by (simp add: list_all_iff)
    then show ?thesis using bits_nat_bound [of g] assms by (simp add: alphabet_ok_def)
  qed
  have "filter (\<lambda>c. c \<noteq> CHR 0x0A \<and> c \<noteq> CHR 0x0D) (EncodeToString a bs) = EncodeToString a bs"
    using in_a assms by (auto simp: enc alphabet_ok_def intro!: filter_True)
  moreover have "?n mod 8 \<notin> {1, 3, 6}" "?n * 5 div 8 = length bs" by auto presburger+
  moreover have "8 * length bs \<le> 5 * ?n" by presburger
  then have "concat ?gs = ?bits @ replicate (5 * ?n - 8 * length bs) False"
    using concat_groups [of ?bits 5 ?n] by (simp add: len)
  then have "groups 8 (concat ?gs) (length bs) = groups 8 ?bits (length bs)"
    using groups_take [of 8 "length bs" "8 * length bs" "concat ?gs"] by (simp add: len)
  moreover have "decode_bits a (EncodeToString a bs) = Some (concat ?gs)"
    unfolding enc by (rule decode_groups [OF assms groups_length])
  ultimately show ?thesis
    by (simp add: DecodeString_def Let_def groups_bytes comp_def bits_byte_of)
qed

end
