(* ===== verification/Release_Version.thy ===== *)
theory Release_Version
  imports Fs_Text
begin

text \<open>
  \<open>internal/update\<close> and \<open>internal/version\<close>: comparing releases, the daily update check with its cache,
  and the download of an installer with its checksum and signature. What the network, the cache file
  and cosign answer are arguments, one per question the code asks; SHA-256 is an argument too.
\<close>

section \<open>Comparing releases\<close>

text \<open>\<open>strings.SplitN(v, sep, n)\<close>: at most \<open>n\<close> parts, the last one keeping its separators.\<close>

fun split_n :: "nat \<Rightarrow> char \<Rightarrow> string \<Rightarrow> string list" where
  "split_n 0 c s = []"
| "split_n (Suc 0) c s = [s]"
| "split_n (Suc (Suc n)) c s =
     (case index_of c s of
        None \<Rightarrow> [s]
      | Some i \<Rightarrow> take i s # split_n (Suc n) c (drop (Suc i) s))"

fun before_suffix :: "string \<Rightarrow> string" where
  "before_suffix [] = []"
| "before_suffix (c # s) = (if c = CHR ''-'' \<or> c = CHR ''+'' then [] else c # before_suffix s)"

definition parse_version :: "string \<Rightarrow> (int \<times> int \<times> int) option" where
  "parse_version v =
     (let v1 = before_suffix (trim_prefix ''v'' (TrimSpace v)); parts = split_n 3 (CHR ''.'') v1 in
      if length parts \<noteq> 3 then None
      else (case Atoi (parts ! 0) of
          None \<Rightarrow> None
        | Some maj \<Rightarrow>
            (case Atoi (parts ! 1) of
               None \<Rightarrow> None
             | Some mi \<Rightarrow>
                 (case Atoi (parts ! 2) of
                    None \<Rightarrow> None
                  | Some pat \<Rightarrow> Some (maj, mi, pat)))))"

definition Newer :: "string \<Rightarrow> string \<Rightarrow> bool" where
  "Newer latest current =
     (case (parse_version latest, parse_version current) of
        (Some (lMaj, lMin, lPat), Some (cMaj, cMin, cPat)) \<Rightarrow>
          if lMaj \<noteq> cMaj then cMaj < lMaj
          else if lMin \<noteq> cMin then cMin < lMin
          else cPat < lPat
      | _ \<Rightarrow> False)"

text \<open>\<open>buildInfoVersion\<close>: the pattern \<open>[-.]\d{14}-[0-9a-f]{12}$\<close> looks at the last 28 characters.\<close>

definition hex_lower :: "char \<Rightarrow> bool" where
  "hex_lower c = (is_digit c \<or> 97 \<le> (of_char c :: nat) \<and> (of_char c :: nat) \<le> 102)"

definition pseudo_version :: "string \<Rightarrow> bool" where
  "pseudo_version v =
     (28 \<le> length v \<and>
      (let t = drop (length v - 28) v in
       (t ! 0 = CHR ''-'' \<or> t ! 0 = CHR ''.'') \<and> list_all is_digit (take 14 (drop 1 t)) \<and>
       t ! 15 = CHR ''-'' \<and> list_all hex_lower (drop 16 t)))"

definition buildInfoVersion :: "string \<Rightarrow> string" where
  "buildInfoVersion v =
     (if v = '''' \<or> v = ''(devel)'' then ''''
      else if CHR ''+'' \<in> set v \<or> pseudo_version v then ''''
      else trim_prefix ''v'' v)"

definition version_init :: "string \<Rightarrow> string option \<Rightarrow> string" where
  "version_init ldflags build_info =
     (if ldflags \<noteq> ''dev'' then ldflags
      else (case build_info of
          None \<Rightarrow> ldflags
        | Some mv \<Rightarrow> let v = buildInfoVersion mv in if v \<noteq> '''' then v else ldflags))"

section \<open>The update check\<close>

text \<open>The cache file holds a time and a version, or nothing readable; times are nanoseconds.\<close>

record update_cache =
  uc_CheckedAt :: int
  uc_Latest :: string

record update_disk =
  ud_path :: bool
  ud_cache :: "update_cache option"

definition checkInterval :: int where
  "checkInterval = 24 * 3600 * 1000000000"

definition readCache :: "update_disk \<Rightarrow> update_cache option" where
  "readCache d = (if ud_path d then ud_cache d else None)"

text \<open>Writing is best effort: \<open>written\<close> says whether this one reached the disk.\<close>

definition writeCache :: "bool \<Rightarrow> update_cache \<Rightarrow> update_disk \<Rightarrow> update_disk" where
  "writeCache written c d = (if ud_path d \<and> written then d\<lparr>ud_cache := Some c\<rparr> else d)"

text \<open>The tag of the API's answer, \<open>None\<close> for every failure to get one.\<close>

definition fetchLatest :: "string option \<Rightarrow> string option" where
  "fetchLatest answer =
     (case answer of
        None \<Rightarrow> None
      | Some tag \<Rightarrow> let t = trim_prefix ''v'' (TrimSpace tag) in if t = '''' then None else Some t)"

definition Latest :: "string option \<Rightarrow> bool \<Rightarrow> int \<Rightarrow> update_disk \<Rightarrow> string option \<times> update_disk" where
  "Latest answer written now d =
     (case fetchLatest answer of
        None \<Rightarrow> (None, d)
      | Some latest \<Rightarrow> (Some latest, writeCache written \<lparr>uc_CheckedAt = now, uc_Latest = latest\<rparr> d))"

text \<open>The lookup says whether the network was asked.\<close>

definition latestVersion :: "string option \<Rightarrow> bool \<Rightarrow> int \<Rightarrow> update_disk \<Rightarrow> string \<times> bool \<times> update_disk" where
  "latestVersion answer written now d =
     (case readCache d of
        Some c \<Rightarrow>
          if now - uc_CheckedAt c < checkInterval then (uc_Latest c, False, d)
          else (case fetchLatest answer of
              None \<Rightarrow> (uc_Latest c, True, writeCache written \<lparr>uc_CheckedAt = now, uc_Latest = uc_Latest c\<rparr> d)
            | Some l \<Rightarrow> (l, True, writeCache written \<lparr>uc_CheckedAt = now, uc_Latest = l\<rparr> d))
      | None \<Rightarrow>
          (case fetchLatest answer of
             None \<Rightarrow> ('''', True, writeCache written \<lparr>uc_CheckedAt = now, uc_Latest = ''''\<rparr> d)
           | Some l \<Rightarrow> (l, True, writeCache written \<lparr>uc_CheckedAt = now, uc_Latest = l\<rparr> d)))"

definition Available ::
  "string \<Rightarrow> string option \<Rightarrow> bool \<Rightarrow> int \<Rightarrow> string \<Rightarrow> update_disk \<Rightarrow> string option \<times> bool \<times> update_disk" where
  "Available opt_out answer written now current d =
     (if current = '''' \<or> current = ''dev'' then (None, False, d)
      else if opt_out \<noteq> '''' \<and> opt_out \<noteq> ''0'' \<and> opt_out \<noteq> ''false'' then (None, False, d)
      else (case latestVersion answer written now d of
          (latest, asked, d1) \<Rightarrow>
            (if latest = '''' \<or> \<not> Newer latest current then None else Some latest, asked, d1)))"

definition ReleaseURL :: "string \<Rightarrow> string" where
  "ReleaseURL v = ''https://github.com/polius/fsend/releases/tag/v'' @ trim_prefix ''v'' (TrimSpace v)"

section \<open>Fetching an installer\<close>

record http_answer =
  ha_status :: nat
  ha_body :: bytes
  ha_broken :: bool

definition maxAssetBytes :: nat where
  "maxAssetBytes = 4 * 1048576"

datatype fetch_error = FetchFailed | NoChecksum | ChecksumMismatch | SignatureUnavailable | SignatureBad | WriteFailed

text \<open>\<open>checkRedirect\<close>: at most ten hops, never a change of scheme.\<close>

definition checkRedirect :: "string \<Rightarrow> string list \<Rightarrow> bool" where
  "checkRedirect scheme via \<longleftrightarrow> length via < 10 \<and> scheme = hd via"

text \<open>A write fails at once, or after some of the bytes.\<close>

datatype write_fault = OpenFails | WritesOnly nat

text \<open>
  The world of a download: the answers by tag and asset name, whether cosign is on the path, its
  verdict on a checksum file and a bundle, and which writes into the directory fail.
\<close>

record fetch_world =
  fw_answer :: "string \<Rightarrow> string \<Rightarrow> http_answer option"
  fw_cosign :: bool
  fw_verify :: "bytes \<Rightarrow> bytes \<Rightarrow> bool"
  fw_fault :: "string \<Rightarrow> write_fault option"
  fw_sha256 :: "bytes \<Rightarrow> bytes"

definition fetchAsset :: "fetch_world \<Rightarrow> string \<Rightarrow> string \<Rightarrow> bytes option" where
  "fetchAsset w tag name =
     (case fw_answer w tag name of
        None \<Rightarrow> None
      | Some a \<Rightarrow>
          if ha_status a \<noteq> 200 then None
          else if ha_broken a then None
          else let data = take (maxAssetBytes + 1) (ha_body a) in
            if maxAssetBytes < length data then None else Some data)"

text \<open>
  \<open>checksumFor\<close>: the first line of two fields whose second is the name. \<open>bufio.Scanner\<close> stops at a
  line longer than its 64 KiB buffer.
\<close>

definition scan_max :: nat where
  "scan_max = 65536"

fun split_lines :: "string \<Rightarrow> string list" where
  "split_lines [] = []"
| "split_lines (c # s) =
     (if c = CHR 0x0A then [] # split_lines s
      else (case split_lines s of
          [] \<Rightarrow> [[c]]
        | l # ls \<Rightarrow> (c # l) # ls))"

definition drop_cr :: "string \<Rightarrow> string" where
  "drop_cr l = (if l \<noteq> [] \<and> last l = CHR 0x0D then butlast l else l)"

definition text_of :: "bytes \<Rightarrow> string" where
  "text_of bs = map char_of_byte bs"

definition Fields :: "string \<Rightarrow> string list" where
  "Fields s = map (\<lambda>g. concat (map snd g)) (FieldsFunc (is_space \<circ> fst) (runes s))"

fun checksum_line :: "(rune \<Rightarrow> rune) \<Rightarrow> string \<Rightarrow> string list \<Rightarrow> string option" where
  "checksum_line lo name [] = None"
| "checksum_line lo name (l # ls) =
     (if scan_max \<le> length l then None
      else let f = Fields (drop_cr l) in
        if length f = 2 \<and> f ! 1 = name then Some (ToLower lo (f ! 0)) else checksum_line lo name ls)"

definition checksumFor :: "(rune \<Rightarrow> rune) \<Rightarrow> bytes \<Rightarrow> string \<Rightarrow> string option" where
  "checksumFor lo sums name = checksum_line lo name (split_lines (text_of sums))"

definition checksumsAsset :: string where
  "checksumsAsset = ''checksums.txt''"

definition signatureAsset :: string where
  "signatureAsset = ''checksums.txt.sigstore.json''"

text \<open>A directory is the files written into it; \<open>os.WriteFile\<close> replaces a file's content.\<close>

type_synonym dir_files = "string \<rightharpoonup> bytes"

definition write_file :: "fetch_world \<Rightarrow> string \<Rightarrow> bytes \<Rightarrow> dir_files \<Rightarrow> bool \<times> dir_files" where
  "write_file w name data fs =
     (case fw_fault w name of
        None \<Rightarrow> (True, fs(name \<mapsto> data))
      | Some OpenFails \<Rightarrow> (False, fs)
      | Some (WritesOnly k) \<Rightarrow> (False, fs(name \<mapsto> take k data)))"

definition verifySignature :: "fetch_world \<Rightarrow> string \<Rightarrow> bytes \<Rightarrow> dir_files \<Rightarrow> fetch_error option \<times> dir_files" where
  "verifySignature w tag sums fs =
     (case fetchAsset w tag signatureAsset of
        None \<Rightarrow> (Some SignatureUnavailable, fs)
      | Some bundle \<Rightarrow>
          (case write_file w checksumsAsset sums fs of
             (False, fs1) \<Rightarrow> (Some WriteFailed, fs1)
           | (True, fs1) \<Rightarrow>
               (case write_file w signatureAsset bundle fs1 of
                  (False, fs2) \<Rightarrow> (Some WriteFailed, fs2)
                | (True, fs2) \<Rightarrow> (if fw_verify w sums bundle then None else Some SignatureBad, fs2))))"

definition fetch_script ::
  "(rune \<Rightarrow> rune) \<Rightarrow> fetch_world \<Rightarrow> string \<Rightarrow> bytes \<Rightarrow> string \<Rightarrow> dir_files \<Rightarrow> (fetch_error + string) \<times> dir_files" where
  "fetch_script lo w tag sums name fs =
     (case checksumFor lo sums name of
        None \<Rightarrow> (Inl NoChecksum, fs)
      | Some want \<Rightarrow>
          (case fetchAsset w tag name of
             None \<Rightarrow> (Inl FetchFailed, fs)
           | Some script \<Rightarrow>
               if hex_string (fw_sha256 w script) \<noteq> want then (Inl ChecksumMismatch, fs)
               else (case write_file w name script fs of
                   (False, fs1) \<Rightarrow> (Inl WriteFailed, fs1)
                 | (True, fs1) \<Rightarrow> (Inr name, fs1))))"

text \<open>The result is the name of the file written and whether its checksums were signed.\<close>

definition FetchInstaller ::
  "(rune \<Rightarrow> rune) \<Rightarrow> fetch_world \<Rightarrow> string \<Rightarrow> string \<Rightarrow> dir_files \<Rightarrow> (fetch_error + string \<times> bool) \<times> dir_files" where
  "FetchInstaller lo w version name fs =
     (let tag = CHR ''v'' # trim_prefix ''v'' (TrimSpace version) in
      case fetchAsset w tag checksumsAsset of
        None \<Rightarrow> (Inl FetchFailed, fs)
      | Some sums \<Rightarrow>
          if fw_cosign w then
            (case verifySignature w tag sums fs of
               (Some e, fs1) \<Rightarrow> (Inl e, fs1)
             | (None, fs1) \<Rightarrow> apfst (map_sum id (\<lambda>n. (n, True))) (fetch_script lo w tag sums name fs1))
          else apfst (map_sum id (\<lambda>n. (n, False))) (fetch_script lo w tag sums name fs))"

section \<open>The order of releases\<close>

lemma index_of_skip: "c \<notin> set xs \<Longrightarrow> index_of c (xs @ c # ys) = Some (length xs)"
  by (induction xs) auto

lemma index_of_None: "c \<notin> set xs \<Longrightarrow> index_of c xs = None"
  by (induction xs) auto

lemma dec_string_plain:
  "CHR ''.'' \<notin> set (dec_string n)" "CHR ''-'' \<notin> set (dec_string n)" "CHR ''+'' \<notin> set (dec_string n)"
  using dec_string_digits [of _ n] by force+

lemma before_suffix_append:
  "CHR ''-'' \<notin> set xs \<Longrightarrow> CHR ''+'' \<notin> set xs \<Longrightarrow> before_suffix (xs @ ys) = xs @ before_suffix ys"
  by (induction xs) auto

definition release :: "bool \<Rightarrow> nat \<Rightarrow> nat \<Rightarrow> nat \<Rightarrow> string \<Rightarrow> string" where
  "release v a b c suffix =
     (if v then ''v'' else []) @ dec_string a @ ''.'' @ dec_string b @ ''.'' @ dec_string c @ suffix"

abbreviation printable :: "string \<Rightarrow> bool" where
  "printable s \<equiv> list_all (\<lambda>c. 33 \<le> (of_char c :: nat) \<and> (of_char c :: nat) \<le> 126) s"

definition suffix_ok :: "string \<Rightarrow> bool" where
  "suffix_ok s \<longleftrightarrow> (s = [] \<or> hd s = CHR ''-'' \<or> hd s = CHR ''+'') \<and> printable s"

lemma dec_string_printable: "printable (dec_string n)"
  using dec_string_digits [of _ n] by (fastforce simp: list_all_iff)

lemma TrimSpace_printable:
  assumes "printable s" "s \<noteq> []"
  shows "TrimSpace s = s"
proof (rule TrimSpace_id)
  have p: "33 \<le> (of_char c :: nat) \<and> (of_char c :: nat) \<le> 126" if "c \<in> set s" for c
    using assms(1) that by (simp add: list_all_iff)
  show "ascii s" using p by (fastforce simp: ascii_def list_all_iff)
  show "\<not> is_space (of_char (hd s))" "\<not> is_space (of_char (last s))"
    using p [OF hd_in_set [OF assms(2)]] p [OF last_in_set [OF assms(2)]] by (auto simp: is_space_def)
qed (rule assms(2))

lemma parse_release:
  assumes "int a < 2 ^ 63" "int b < 2 ^ 63" "int c < 2 ^ 63" "suffix_ok s"
  shows "parse_version (release v a b c s) = Some (int a, int b, int c)"
proof -
  let ?n = "dec_string a @ ''.'' @ dec_string b @ ''.'' @ dec_string c"
  have "TrimSpace (release v a b c s) = release v a b c s"
    by (rule TrimSpace_printable)
      (use assms(4) dec_string_printable in \<open>auto simp: release_def suffix_ok_def\<close>)
  moreover obtain d ds where d: "dec_string a = d # ds" using dec_string_ne [of a] by (cases "dec_string a") auto
  moreover have "d \<noteq> CHR ''v''" using dec_string_digits [of d a] by (auto simp: d)
  ultimately have "trim_prefix ''v'' (TrimSpace (release v a b c s)) = ?n @ s"
    by (simp add: trim_prefix_def release_def)
  moreover have "before_suffix (?n @ s) = ?n"
  proof -
    have "before_suffix s = []" using assms(4) by (cases s) (auto simp: suffix_ok_def)
    then show ?thesis using before_suffix_append [of ?n s] dec_string_plain(2,3) by auto
  qed
  moreover have "split_n 3 (CHR ''.'') ?n = [dec_string a, dec_string b, dec_string c]"
    using dec_string_plain(1) by (simp add: numeral_3_eq_3 index_of_skip)
  ultimately show ?thesis using assms(1-3) by (simp add: parse_version_def Let_def Atoi_dec)
qed

text \<open>
  Releases are ordered by their three numbers, whatever leading \<open>v\<close> and pre-release or build
  suffix they carry; and on any texts at all \<open>Newer\<close> never holds both ways, never of a version and
  itself, and chains.
\<close>

theorem newer_numeric:
  assumes "\<forall>n \<in> {a, b, c, a', b', c'}. int n < 2 ^ 63" "suffix_ok s" "suffix_ok s'"
  shows "(Newer (release v a b c s) (release v' a' b' c' s') \<longleftrightarrow>
       a' < a \<or> a' = a \<and> (b' < b \<or> b' = b \<and> c' < c)) \<and>
     \<not> (Newer x y \<and> Newer y x) \<and> \<not> Newer x x \<and> (Newer x y \<and> Newer y z \<longrightarrow> Newer x z)"
proof -
  have "parse_version (release v a b c s) = Some (int a, int b, int c)"
    "parse_version (release v' a' b' c' s') = Some (int a', int b', int c')"
    using assms by (simp_all add: parse_release)
  then have "Newer (release v a b c s) (release v' a' b' c' s') \<longleftrightarrow>
       a' < a \<or> a' = a \<and> (b' < b \<or> b' = b \<and> c' < c)"
    by (auto simp: Newer_def)
  moreover have "\<not> (Newer x y \<and> Newer y x)" "\<not> Newer x x" "Newer x y \<and> Newer y z \<longrightarrow> Newer x z"
    by (auto simp: Newer_def split: option.splits if_splits)
  ultimately show ?thesis by blast
qed

theorem newer_numeric_witness:
  "Newer (release True 1 10 0 ''-rc1'') (release False 1 9 3 [])"
  using newer_numeric [of 1 10 0 1 9 3 "''-rc1''" "[]" True False "[]" "[]" "[]"] by (simp add: suffix_ok_def)

section \<open>The installer\<close>

lemma fetch_script_InrE:
  assumes "fetch_script lo w tag sums name fs = (Inr n, fs')"
  obtains script where "n = name" "fs' name = Some script" "length script \<le> maxAssetBytes"
    "checksumFor lo sums name = Some (hex_string (fw_sha256 w script))" "fetchAsset w tag name = Some script"
  using assms
  by (auto simp: not_less fetch_script_def write_file_def fetchAsset_def Let_def
      split: option.splits if_splits write_fault.splits prod.splits)

text \<open>
  C27. An installer that \<open>FetchInstaller\<close> returns is on disk as a file of bounded size whose digest is
  the one the release's checksum file lists for its name; where cosign is installed, that checksum
  file passed the signature check, and the result says so truthfully.
\<close>

theorem installer_verified:
  assumes "FetchInstaller lo w version name fs = (Inr (path, sig), fs')"
  shows "\<exists>tag sums script. path = name \<and> fs' name = Some script \<and> length script \<le> maxAssetBytes \<and>
     fetchAsset w tag checksumsAsset = Some sums \<and> fetchAsset w tag name = Some script \<and>
     checksumFor lo sums name = Some (hex_string (fw_sha256 w script)) \<and>
     sig = fw_cosign w \<and>
     (sig \<longrightarrow> (\<exists>bundle. fetchAsset w tag signatureAsset = Some bundle \<and> fw_verify w sums bundle))"
proof -
  let ?tag = "CHR ''v'' # trim_prefix ''v'' (TrimSpace version)"
  obtain sums where sums: "fetchAsset w ?tag checksumsAsset = Some sums"
    using assms by (auto simp: FetchInstaller_def Let_def split: option.splits)
  show ?thesis
  proof (cases "fw_cosign w")
    case False
    then have "fetch_script lo w ?tag sums name fs = (Inr path, fs') \<and> \<not> sig"
      using assms sums
      by (cases "fetch_script lo w ?tag sums name fs"; cases "fst (fetch_script lo w ?tag sums name fs)")
        (auto simp: FetchInstaller_def)
    then show ?thesis using False sums by (auto elim!: fetch_script_InrE)
  next
    case True
    obtain e fs1 where v: "verifySignature w ?tag sums fs = (e, fs1)" by (metis surj_pair)
    have e: "e = None \<and> fetch_script lo w ?tag sums name fs1 = (Inr path, fs') \<and> sig"
      using assms sums True v
      by (cases e; cases "fetch_script lo w ?tag sums name fs1"; cases "fst (fetch_script lo w ?tag sums name fs1)")
        (auto simp: FetchInstaller_def)
    have "\<exists>bundle. fetchAsset w ?tag signatureAsset = Some bundle \<and> fw_verify w sums bundle"
      using v e by (auto simp: verifySignature_def split: option.splits prod.splits bool.splits if_splits)
    then show ?thesis using True sums e by (auto elim!: fetch_script_InrE)
  qed
qed

definition sample_fetch :: fetch_world where
  "sample_fetch =
     \<lparr>fw_answer = (\<lambda>tag name. Some \<lparr>ha_status = 200,
        ha_body = (if name = checksumsAsset then map byte_of_char ''07 f'' else [1]), ha_broken = False\<rparr>),
      fw_cosign = True, fw_verify = (\<lambda>_ _. True), fw_fault = (\<lambda>_. None), fw_sha256 = (\<lambda>_. [7])\<rparr>"

lemma text_of_bytes: "text_of (map byte_of_char s) = s"
  by (simp add: text_of_def comp_def)

lemma sample_checksum: "checksumFor id (map byte_of_char ''07 f'') ''f'' = Some (hex_string [7])"
proof -
  have h: "hex_string [7] = ''07''" "char_of (48 :: nat) = CHR ''0''" "char_of (55 :: nat) = CHR ''7''" by code_simp+
  show ?thesis
    unfolding checksumFor_def text_of_bytes
    by (simp add: h drop_cr_def scan_max_def Fields_def runes_ascii ascii_def is_space_def ToLower_def to_lower_def)
qed

theorem installer_verified_witness:
  "\<exists>script. snd (FetchInstaller id sample_fetch ''1.2.3'' ''f'' Map.empty) ''f'' = Some script \<and>
     length script \<le> maxAssetBytes"
proof -
  have "FetchInstaller id sample_fetch ''1.2.3'' ''f'' Map.empty =
      (Inr (''f'', True), snd (FetchInstaller id sample_fetch ''1.2.3'' ''f'' Map.empty))"
    using sample_checksum
    by (simp add: FetchInstaller_def sample_fetch_def fetchAsset_def verifySignature_def write_file_def
        fetch_script_def Let_def checksumsAsset_def signatureAsset_def maxAssetBytes_def
        del: list.map)
  from installer_verified [OF this] show ?thesis by blast
qed

end
