(* ===== verification/Session_Table.thy ===== *)
theory Session_Table
  imports Share_Code Base32 Release_Version Wire_Proto
begin

text \<open>
  \<open>internal/server\<close> (\<open>server.go\<close>, \<open>state.go\<close>, \<open>types.go\<close>, \<open>relayws.go\<close>): the pairing server.
  The two maps of the table point to shared session objects, so sessions live in an explicit store
  and the maps hold references. Every handler runs under one lock and is one function from the
  table to an answer and the table after it; a parked \<open>/wait\<close> poll is its own value between its two
  critical sections. Requests arrive with their JSON bodies decoded (\<open>None\<close>: bad or too long). The
  clock readings and random bytes a handler takes, the order in which a loop meets the keys of a
  map, the parser and printer of IP addresses and the answers of the relay are arguments.
\<close>

section \<open>State\<close>

type_synonym ref = nat
type_synonym time = int

record ice_creds =
  ic_Ufrag :: string
  ic_Pwd :: string

datatype session_state = St_waiting | St_paired

record session =
  ss_ID :: string
  ss_Slot :: string
  ss_SenderAddr :: string
  ss_SenderRateKey :: string
  ss_SenderICE :: ice_creds
  ss_SenderToken :: string
  ss_ReceiverAddr :: string
  ss_ReceiverRateKey :: string
  ss_ReceiverICE :: ice_creds
  ss_ReceiverToken :: string
  ss_State :: session_state
  ss_CreatedAt :: time
  ss_PairedAt :: time
  ss_LastSeen :: time
  ss_SenderCandidates :: "string list"
  ss_ReceiverCandidates :: "string list"
  ss_relayToken :: "bytes option"
  ss_closed :: bool

record server_config =
  cf_ServerVersion :: string
  cf_UnpairedTTL :: time
  cf_AbandonedTTL :: time
  cf_PairedTTL :: time
  cf_LongPollTimeout :: time
  cf_MaxSessionsPerIP :: int
  cf_MaxNewSessionsPerMin :: int
  cf_ServerPassword :: string
  cf_MinClientVersion :: string
  cf_RelayPublicAddr :: string

abbreviation (input) seconds :: "int \<Rightarrow> time" where
  "seconds n \<equiv> n * 1000000000"

definition config_default :: "server_config \<Rightarrow> server_config" where
  "config_default c = c
     \<lparr>cf_UnpairedTTL := if cf_UnpairedTTL c = 0 then seconds 3600 else cf_UnpairedTTL c,
      cf_AbandonedTTL := if cf_AbandonedTTL c = 0 then seconds 300 else cf_AbandonedTTL c,
      cf_PairedTTL := if cf_PairedTTL c = 0 then seconds 600 else cf_PairedTTL c,
      cf_LongPollTimeout := if cf_LongPollTimeout c = 0 then seconds 25 else cf_LongPollTimeout c\<rparr>"

definition maxCandidatesPerSide :: nat where
  "maxCandidatesPerSide = 64"

definition consumedTTL :: time where
  "consumedTTL = seconds 600"

definition v6SiteFactor :: int where
  "v6SiteFactor = 4"

record server_metrics =
  sm_sessionsCreated :: u64
  sm_sessionsPaired :: u64
  sm_rejRate :: u64
  sm_rejConcurrency :: u64
  sm_rejAuth :: u64

text \<open>\<open>sv_panic\<close>: a channel was closed twice.\<close>

record server =
  sv_store :: "ref \<Rightarrow> session"
  sv_next :: ref
  sv_bySlot :: "string \<rightharpoonup> ref"
  sv_byID :: "string \<rightharpoonup> ref"
  sv_ipCounts :: "string \<Rightarrow> int"
  sv_ipBucket :: "string \<rightharpoonup> time list"
  sv_consumed :: "string \<rightharpoonup> time"
  sv_met :: server_metrics
  sv_stopping :: bool
  sv_panic :: bool

text \<open>The store beyond \<open>sv_next\<close> is fresh memory; what it holds there is never read.\<close>

definition zero_session :: session where
  "zero_session =
     \<lparr>ss_ID = [], ss_Slot = [], ss_SenderAddr = [], ss_SenderRateKey = [],
      ss_SenderICE = \<lparr>ic_Ufrag = [], ic_Pwd = []\<rparr>, ss_SenderToken = [], ss_ReceiverAddr = [],
      ss_ReceiverRateKey = [], ss_ReceiverICE = \<lparr>ic_Ufrag = [], ic_Pwd = []\<rparr>, ss_ReceiverToken = [],
      ss_State = St_waiting, ss_CreatedAt = 0, ss_PairedAt = 0, ss_LastSeen = 0,
      ss_SenderCandidates = [], ss_ReceiverCandidates = [], ss_relayToken = None, ss_closed = False\<rparr>"

text \<open>A Go map's missing entry reads as zero: \<open>ipCounts\<close> is a total function that is zero where absent.\<close>

definition New :: server where
  "New = \<lparr>sv_store = (\<lambda>_. zero_session), sv_next = 0, sv_bySlot = Map.empty, sv_byID = Map.empty,
     sv_ipCounts = (\<lambda>_. 0), sv_ipBucket = Map.empty, sv_consumed = Map.empty,
     sv_met = \<lparr>sm_sessionsCreated = 0, sm_sessionsPaired = 0, sm_rejRate = 0, sm_rejConcurrency = 0, sm_rejAuth = 0\<rparr>,
     sv_stopping = False, sv_panic = False\<rparr>"

datatype ip = V4 u32 | V6 "128 word"

record server_env =
  sx_cfg :: server_config
  sx_lower :: "rune \<Rightarrow> rune"
  sx_parse_ip :: "string \<Rightarrow> ip option"
  sx_ip_text :: "ip \<Rightarrow> string"
  sx_relay :: bool
  sx_forwarding :: bool
  sx_relay_ws :: bool
  sx_relay_port :: nat
  sx_relay_max :: u64

record request =
  rq_Path :: string
  rq_RemoteAddr :: string
  rq_Host :: string
  rq_Authorization :: string
  rq_FsendAuth :: string
  rq_Protocol :: string
  rq_UserAgent :: string

text \<open>The answers, with the JSON bodies as values.\<close>

record create_response =
  cr_SessionID :: string
  cr_YourObservedAddr :: string
  cr_IceCredentials :: ice_creds
  cr_TTLSeconds :: int
  cr_ServerVersion :: string
  cr_RoleToken :: string
  cr_RelayAddr :: string
  cr_RelayForwardingDisabled :: bool

record join_response =
  jr_SessionID :: string
  jr_YourObservedAddr :: string
  jr_PeerObservedAddr :: string
  jr_PeerIceCredentials :: ice_creds
  jr_YourIceCredentials :: ice_creds
  jr_RoleToken :: string
  jr_RelayAddr :: string
  jr_RelayForwardingDisabled :: bool

record alloc_response =
  ar_RelayAddr :: string
  ar_SessionToken :: string
  ar_TTLSeconds :: int
  ar_ForwardingDisabled :: bool
  ar_BudgetExhausted :: bool
  ar_TCPFallback :: bool

datatype body =
    NoBody
  | ErrorBody string
  | CreateBody create_response
  | JoinBody join_response
  | WaitBody string ice_creds
  | CandidatesBody "string list" nat
  | AllocBody alloc_response
  | RelayStatusBody string string u64
  | HealthBody string
  | RootBody string
  | WebSocketBody "bytes option"

type_synonym response = "nat \<times> body"

section \<open>Addresses and credentials\<close>

definition clientIP :: "request \<Rightarrow> string" where
  "clientIP rq = (case SplitHostPort (rq_RemoteAddr rq) of Some (host, _) \<Rightarrow> host | None \<Rightarrow> rq_RemoteAddr rq)"

definition v6_mask :: "nat \<Rightarrow> 128 word" where
  "v6_mask n = NOT (mask (128 - n))"

definition rateLimitKey :: "server_env \<Rightarrow> string \<Rightarrow> string" where
  "rateLimitKey env a =
     (case sx_parse_ip env a of
        None \<Rightarrow> a
      | Some (V4 w) \<Rightarrow> sx_ip_text env (V4 w)
      | Some (V6 w) \<Rightarrow> sx_ip_text env (V6 (w AND v6_mask 64)) @ ''/64'')"

definition v6SiteKey :: "server_env \<Rightarrow> string \<Rightarrow> string" where
  "v6SiteKey env a =
     (case sx_parse_ip env a of
        Some (V6 w) \<Rightarrow> sx_ip_text env (V6 (w AND v6_mask 48)) @ ''/48''
      | _ \<Rightarrow> [])"

definition relayAddrFor :: "server_env \<Rightarrow> request \<Rightarrow> string" where
  "relayAddrFor env rq =
     (if cf_RelayPublicAddr (sx_cfg env) \<noteq> [] then cf_RelayPublicAddr (sx_cfg env)
      else JoinHostPort (case SplitHostPort (rq_Host rq) of Some (h, _) \<Rightarrow> h | None \<Rightarrow> rq_Host rq)
             (dec_string (sx_relay_port env)))"

definition stunAddrFor :: "server_env \<Rightarrow> request \<Rightarrow> string" where
  "stunAddrFor env rq = (if \<not> sx_relay env then [] else relayAddrFor env rq)"

definition relayForwardingDisabled :: "server_env \<Rightarrow> bool" where
  "relayForwardingDisabled env \<longleftrightarrow> sx_relay env \<and> \<not> sx_forwarding env"

definition iceCredEnc :: string where
  "iceCredEnc = ''ABCDEFGHJKMNPQRSTVWXYZ0123456789''"

text \<open>What \<open>crypto/rand\<close> gives a handler: each read may fail.\<close>

record randomness =
  rn_sid :: string
  rn_token :: "bytes option"
  rn_ufrag :: "bytes option"
  rn_pwd :: "bytes option"

definition newRoleToken :: "randomness \<Rightarrow> string option" where
  "newRoleToken rnd = map_option (EncodeToString iceCredEnc) (rn_token rnd)"

definition newIceCreds :: "randomness \<Rightarrow> ice_creds option" where
  "newIceCreds rnd =
     (case rn_ufrag rnd of
        None \<Rightarrow> None
      | Some u \<Rightarrow>
          (case rn_pwd rnd of
             None \<Rightarrow> None
           | Some p \<Rightarrow> Some \<lparr>ic_Ufrag = EncodeToString iceCredEnc u, ic_Pwd = EncodeToString iceCredEnc p\<rparr>))"

definition bearerToken :: "request \<Rightarrow> string" where
  "bearerToken rq =
     (let h = rq_Authorization rq; n = length ''Bearer '' in
      if h = [] then []
      else if length h \<le> n \<or> \<not> equal_fold_ascii (take n h) ''Bearer '' then []
      else drop n h)"

datatype side = Sender_side | Receiver_side

definition sideForToken :: "session \<Rightarrow> string \<Rightarrow> side option" where
  "sideForToken s tok =
     (if tok = [] then None
      else if ss_SenderToken s \<noteq> [] \<and> ss_SenderToken s = tok then Some Sender_side
      else if ss_ReceiverToken s \<noteq> [] \<and> ss_ReceiverToken s = tok then Some Receiver_side
      else None)"

section \<open>Limits\<close>

text \<open>\<open>rateBucket.allow\<close>: drop the stamps outside the window, then count.\<close>

definition keep_stamps :: "time \<Rightarrow> time list \<Rightarrow> time list" where
  "keep_stamps cutoff stamps = filter (\<lambda>t. cutoff < t) stamps"

definition bucket_allow :: "time \<Rightarrow> int \<Rightarrow> time \<Rightarrow> time list \<Rightarrow> bool \<times> time list" where
  "bucket_allow now limit window stamps =
     (let keep = keep_stamps (now - window) stamps in
      if limit \<le> int (length keep) then (False, keep) else (True, keep @ [now]))"

definition charge_bucket :: "string \<Rightarrow> time \<Rightarrow> int \<Rightarrow> server \<Rightarrow> bool \<times> server" where
  "charge_bucket key now limit sv =
     (case bucket_allow now limit (seconds 60) (case sv_ipBucket sv key of None \<Rightarrow> [] | Some b \<Rightarrow> b) of
        (ok, b) \<Rightarrow> (ok, sv\<lparr>sv_ipBucket := (sv_ipBucket sv)(key \<mapsto> b)\<rparr>))"

definition allowNewSession :: "server_env \<Rightarrow> string \<Rightarrow> time \<Rightarrow> server \<Rightarrow> bool \<times> server" where
  "allowNewSession env a now sv =
     (let limit = cf_MaxNewSessionsPerMin (sx_cfg env) in
      if limit \<le> 0 then (True, sv)
      else (case charge_bucket (rateLimitKey env a) now limit sv of
          (False, sv1) \<Rightarrow> (False, sv1)
        | (True, sv1) \<Rightarrow>
            let site = v6SiteKey env a in
            if site \<noteq> [] then charge_bucket site now (limit * v6SiteFactor) sv1 else (True, sv1)))"

definition capped :: "server_env \<Rightarrow> string \<Rightarrow> server \<Rightarrow> bool" where
  "capped env key sv \<longleftrightarrow>
     0 < cf_MaxSessionsPerIP (sx_cfg env) \<and> cf_MaxSessionsPerIP (sx_cfg env) \<le> sv_ipCounts sv key"

text \<open>\<open>releaseIP\<close>: a count that falls to zero or below loses its entry, which reads as zero.\<close>

definition releaseIP :: "string \<Rightarrow> server \<Rightarrow> server" where
  "releaseIP key sv =
     (if key = [] then sv
      else let n = sv_ipCounts sv key - 1 in
        sv\<lparr>sv_ipCounts := (sv_ipCounts sv)(key := if n \<le> 0 then 0 else n)\<rparr>)"

definition chargeIP :: "string \<Rightarrow> server \<Rightarrow> server" where
  "chargeIP key sv = sv\<lparr>sv_ipCounts := (sv_ipCounts sv)(key := sv_ipCounts sv key + 1)\<rparr>"

definition isConsumed :: "time \<Rightarrow> string \<Rightarrow> server \<Rightarrow> bool" where
  "isConsumed now slot sv \<longleftrightarrow> (case sv_consumed sv slot of None \<Rightarrow> False | Some exp \<Rightarrow> now < exp)"

definition count_metric :: "(server_metrics \<Rightarrow> server_metrics) \<Rightarrow> server \<Rightarrow> server" where
  "count_metric f sv = sv\<lparr>sv_met := f (sv_met sv)\<rparr>"

definition clientAllowed :: "server_env \<Rightarrow> request \<Rightarrow> bool" where
  "clientAllowed env rq =
     (case Atoi (rq_Protocol rq) of
        None \<Rightarrow> False
      | Some p \<Rightarrow>
          if p < uint MinProtocolVersion then False
          else if cf_MinClientVersion (sx_cfg env) = [] then True
          else \<not> Newer (cf_MinClientVersion (sx_cfg env)) (trim_prefix ''fsend/'' (rq_UserAgent rq)))"

definition clientUpgradeMsg :: string where
  "clientUpgradeMsg = ''fsend client too old for this server; run `fsend --update` or reinstall: https://github.com/polius/fsend#install''"

text \<open>Writing through a session reference, and closing its channel.\<close>

definition update_session :: "ref \<Rightarrow> (session \<Rightarrow> session) \<Rightarrow> server \<Rightarrow> server" where
  "update_session r f sv = sv\<lparr>sv_store := (sv_store sv)(r := f (sv_store sv r))\<rparr>"

definition close_waiters :: "ref \<Rightarrow> server \<Rightarrow> server" where
  "close_waiters r sv =
     (if ss_closed (sv_store sv r) then sv\<lparr>sv_panic := True\<rparr>
      else update_session r (\<lambda>s. s\<lparr>ss_closed := True\<rparr>) sv)"

section \<open>Handlers\<close>

definition err :: "nat \<Rightarrow> string \<Rightarrow> server \<Rightarrow> response \<times> server" where
  "err status msg sv = ((status, ErrorBody msg), sv)"

definition rate_limited :: "server \<Rightarrow> response \<times> server" where
  "rate_limited sv = err 429 ''rate limit hit'' (count_metric (\<lambda>m. m\<lparr>sm_rejRate := sm_rejRate m + 1\<rparr>) sv)"

definition concurrency_limited :: "server \<Rightarrow> response \<times> server" where
  "concurrency_limited sv =
     err 429 ''too many concurrent sessions for this IP''
       (count_metric (\<lambda>m. m\<lparr>sm_rejConcurrency := sm_rejConcurrency m + 1\<rparr>) sv)"

definition new_session ::
  "server_env \<Rightarrow> request \<Rightarrow> (nat \<Rightarrow> time) \<Rightarrow> string \<Rightarrow> string \<Rightarrow> string \<Rightarrow> ice_creds \<Rightarrow> session" where
  "new_session env rq clk sid slot tok ice = zero_session
     \<lparr>ss_ID := sid, ss_Slot := slot, ss_SenderAddr := clientIP rq,
      ss_SenderRateKey := rateLimitKey env (clientIP rq), ss_SenderICE := ice, ss_SenderToken := tok,
      ss_State := St_waiting, ss_CreatedAt := clk 2, ss_LastSeen := clk 3\<rparr>"

definition insert_session :: "session \<Rightarrow> server \<Rightarrow> server" where
  "insert_session s sv = sv
     \<lparr>sv_store := (sv_store sv)(sv_next sv := s), sv_next := Suc (sv_next sv),
      sv_bySlot := (sv_bySlot sv)(ss_Slot s \<mapsto> sv_next sv), sv_byID := (sv_byID sv)(ss_ID s \<mapsto> sv_next sv)\<rparr>"

definition create_answer :: "server_env \<Rightarrow> request \<Rightarrow> session \<Rightarrow> response" where
  "create_answer env rq s =
     (200, CreateBody
        \<lparr>cr_SessionID = ss_ID s, cr_YourObservedAddr = rq_RemoteAddr rq, cr_IceCredentials = ss_SenderICE s,
         cr_TTLSeconds = quot_int (cf_UnpairedTTL (sx_cfg env)) 1000000000, cr_ServerVersion = cf_ServerVersion (sx_cfg env),
         cr_RoleToken = ss_SenderToken s, cr_RelayAddr = stunAddrFor env rq,
         cr_RelayForwardingDisabled = relayForwardingDisabled env\<rparr>)"

text \<open>The part of a create that runs under the lock.\<close>

definition create_locked ::
  "server_env \<Rightarrow> request \<Rightarrow> (nat \<Rightarrow> time) \<Rightarrow> randomness \<Rightarrow> string \<Rightarrow> server \<Rightarrow> response \<times> server" where
  "create_locked env rq clk rnd slot sv =
     (case allowNewSession env (clientIP rq) (clk 0) sv of
        (False, sv1) \<Rightarrow> rate_limited sv1
      | (True, sv1) \<Rightarrow>
          let rateKey = rateLimitKey env (clientIP rq) in
          if capped env rateKey sv1 then concurrency_limited sv1
          else if sv_bySlot sv1 slot \<noteq> None \<or> isConsumed (clk 1) slot sv1 then err 409 ''slot already in use'' sv1
          else (case newRoleToken rnd of
              None \<Rightarrow> err 500 ''internal error'' sv1
            | Some tok \<Rightarrow>
                (case newIceCreds rnd of
                   None \<Rightarrow> err 500 ''internal error'' sv1
                 | Some ice \<Rightarrow>
                     let s = new_session env rq clk (rn_sid rnd) slot tok ice;
                         sv2 = chargeIP rateKey (insert_session s sv1)
                     in (create_answer env rq s,
                         count_metric (\<lambda>m. m\<lparr>sm_sessionsCreated := sm_sessionsCreated m + 1\<rparr>) sv2))))"

definition createSession ::
  "server_env \<Rightarrow> request \<Rightarrow> (nat \<Rightarrow> time) \<Rightarrow> randomness \<Rightarrow> string option \<Rightarrow> server \<Rightarrow> response \<times> server" where
  "createSession env rq clk rnd body sv =
     (if \<not> clientAllowed env rq then err 426 clientUpgradeMsg sv
      else (case body of
          None \<Rightarrow> err 400 ''bad json'' sv
        | Some raw \<Rightarrow>
            let slot = ToLower (sx_lower env) (TrimSpace raw) in
            if ValidateSlot slot \<noteq> None then err 400 ''missing or malformed slot'' sv
            else create_locked env rq clk rnd slot sv))"

definition pair_session ::
  "server_env \<Rightarrow> request \<Rightarrow> time \<Rightarrow> string \<Rightarrow> ice_creds \<Rightarrow> session \<Rightarrow> session" where
  "pair_session env rq now tok ice s = s
     \<lparr>ss_ReceiverAddr := clientIP rq, ss_ReceiverRateKey := rateLimitKey env (clientIP rq),
      ss_ReceiverICE := ice, ss_ReceiverToken := tok, ss_State := St_paired, ss_PairedAt := now\<rparr>"

definition join_answer :: "server_env \<Rightarrow> request \<Rightarrow> session \<Rightarrow> response" where
  "join_answer env rq s =
     (200, JoinBody
        \<lparr>jr_SessionID = ss_ID s, jr_YourObservedAddr = rq_RemoteAddr rq, jr_PeerObservedAddr = ss_SenderAddr s,
         jr_PeerIceCredentials = ss_SenderICE s, jr_YourIceCredentials = ss_ReceiverICE s,
         jr_RoleToken = ss_ReceiverToken s, jr_RelayAddr = stunAddrFor env rq,
         jr_RelayForwardingDisabled = relayForwardingDisabled env\<rparr>)"

definition join_locked ::
  "server_env \<Rightarrow> request \<Rightarrow> (nat \<Rightarrow> time) \<Rightarrow> randomness \<Rightarrow> string \<Rightarrow> server \<Rightarrow> response \<times> server" where
  "join_locked env rq clk rnd slot sv =
     (case allowNewSession env (clientIP rq) (clk 0) sv of
        (False, sv1) \<Rightarrow> rate_limited sv1
      | (True, sv1) \<Rightarrow>
          if isConsumed (clk 1) slot sv1 then err 409 ''code already used'' sv1
          else (case sv_bySlot sv1 slot of
              None \<Rightarrow> err 404 ''code not found'' sv1
            | Some r \<Rightarrow>
                let rateKey = rateLimitKey env (clientIP rq) in
                if ss_State (sv_store sv1 r) \<noteq> St_waiting then err 409 ''session already paired'' sv1
                else if capped env rateKey sv1 then concurrency_limited sv1
                else (case newIceCreds rnd of
                    None \<Rightarrow> err 500 ''internal error'' sv1
                  | Some ice \<Rightarrow>
                      (case newRoleToken rnd of
                         None \<Rightarrow> err 500 ''internal error'' sv1
                       | Some tok \<Rightarrow>
                           let sv2 = update_session r (pair_session env rq (clk 2) tok ice) sv1;
                               sv3 = count_metric (\<lambda>m. m\<lparr>sm_sessionsPaired := sm_sessionsPaired m + 1\<rparr>) (chargeIP rateKey sv2);
                               sv4 = close_waiters r sv3
                           in (join_answer env rq (sv_store sv4 r), sv4)))))"

definition joinSession ::
  "server_env \<Rightarrow> request \<Rightarrow> (nat \<Rightarrow> time) \<Rightarrow> randomness \<Rightarrow> string \<Rightarrow> server \<Rightarrow> response \<times> server" where
  "joinSession env rq clk rnd path_slot sv =
     (if \<not> clientAllowed env rq then err 426 clientUpgradeMsg sv
      else join_locked env rq clk rnd (ToLower (sx_lower env) path_slot) sv)"

text \<open>A poll that has to wait keeps the slot, the session's ID and its channel, which is the session's.\<close>

record parked =
  pk_slot :: string
  pk_sessID :: string
  pk_waiters :: ref

definition heartbeat :: "server_env \<Rightarrow> request \<Rightarrow> time \<Rightarrow> ref \<Rightarrow> server \<Rightarrow> server" where
  "heartbeat env rq now r sv =
     (let sv1 = update_session r (\<lambda>s. s\<lparr>ss_LastSeen := now\<rparr>) sv in
      if ss_SenderRateKey (sv_store sv1 r) = [] then
        let key = rateLimitKey env (clientIP rq) in
        chargeIP key (update_session r (\<lambda>s. s\<lparr>ss_SenderAddr := clientIP rq, ss_SenderRateKey := key\<rparr>) sv1)
      else sv1)"

definition waitSession ::
  "server_env \<Rightarrow> request \<Rightarrow> (nat \<Rightarrow> time) \<Rightarrow> string \<Rightarrow> server \<Rightarrow> (response + parked) \<times> server" where
  "waitSession env rq clk path_slot sv =
     (let slot = ToLower (sx_lower env) path_slot in
      case allowNewSession env (clientIP rq) (clk 0) sv of
        (False, sv1) \<Rightarrow> apfst Inl (rate_limited sv1)
      | (True, sv1) \<Rightarrow>
          (case sv_bySlot sv1 slot of
             None \<Rightarrow> apfst Inl (err 404 ''code not found'' sv1)
           | Some r \<Rightarrow>
               if sideForToken (sv_store sv1 r) (bearerToken rq) \<noteq> Some Sender_side
               then apfst Inl (err 404 ''code not found'' sv1)
               else let sv2 = heartbeat env rq (clk 1) r sv1; s = sv_store sv2 r in
                 if ss_State s = St_paired then (Inl (200, WaitBody (ss_ReceiverAddr s) (ss_ReceiverICE s)), sv2)
                 else (Inr \<lparr>pk_slot = slot, pk_sessID = ss_ID s, pk_waiters = r\<rparr>, sv2)))"

text \<open>What wakes a parked poll: its timeout, the shutdown, or its channel.\<close>

datatype wake = Poll_timeout | Server_stopping | Waiters_closed

definition wake_enabled :: "server \<Rightarrow> parked \<Rightarrow> wake \<Rightarrow> bool" where
  "wake_enabled sv pk w \<longleftrightarrow>
     (case w of
        Poll_timeout \<Rightarrow> True
      | Server_stopping \<Rightarrow> sv_stopping sv
      | Waiters_closed \<Rightarrow> ss_closed (sv_store sv (pk_waiters pk)))"

definition wait_wake :: "parked \<Rightarrow> wake \<Rightarrow> server \<Rightarrow> response" where
  "wait_wake pk w sv =
     (case w of
        Poll_timeout \<Rightarrow> (204, NoBody)
      | Server_stopping \<Rightarrow> (204, NoBody)
      | Waiters_closed \<Rightarrow>
          (case sv_bySlot sv (pk_slot pk) of
             None \<Rightarrow> (404, ErrorBody ''session expired'')
           | Some r \<Rightarrow>
               if ss_ID (sv_store sv r) = pk_sessID pk
               then (200, WaitBody (ss_ReceiverAddr (sv_store sv r)) (ss_ReceiverICE (sv_store sv r)))
               else (404, ErrorBody ''session expired'')))"

definition side_candidates :: "side \<Rightarrow> session \<Rightarrow> string list" where
  "side_candidates sd s = (case sd of Sender_side \<Rightarrow> ss_SenderCandidates s | Receiver_side \<Rightarrow> ss_ReceiverCandidates s)"

definition add_candidates :: "side \<Rightarrow> string list \<Rightarrow> session \<Rightarrow> session" where
  "add_candidates sd cs s =
     (case sd of
        Sender_side \<Rightarrow> s\<lparr>ss_SenderCandidates := ss_SenderCandidates s @ cs\<rparr>
      | Receiver_side \<Rightarrow> s\<lparr>ss_ReceiverCandidates := ss_ReceiverCandidates s @ cs\<rparr>)"

definition pushCandidates :: "request \<Rightarrow> string \<Rightarrow> string list option \<Rightarrow> server \<Rightarrow> response \<times> server" where
  "pushCandidates rq sid body sv =
     (case body of
        None \<Rightarrow> err 400 ''bad json'' sv
      | Some cs \<Rightarrow>
          (case sv_byID sv sid of
             None \<Rightarrow> err 404 ''session not found'' sv
           | Some r \<Rightarrow>
               (case sideForToken (sv_store sv r) (bearerToken rq) of
                  None \<Rightarrow> err 401 ''missing or invalid role token'' sv
                | Some sd \<Rightarrow>
                    if maxCandidatesPerSide < length (side_candidates sd (sv_store sv r)) + length cs
                    then err 413 ''candidate cap reached'' sv
                    else ((204, NoBody), update_session r (add_candidates sd cs) sv))))"

definition other_side :: "side \<Rightarrow> side" where
  "other_side sd = (case sd of Sender_side \<Rightarrow> Receiver_side | Receiver_side \<Rightarrow> Sender_side)"

definition since_param :: "string \<Rightarrow> nat" where
  "since_param v = (case Atoi v of None \<Rightarrow> 0 | Some n \<Rightarrow> if 0 < n then nat n else 0)"

definition pullCandidates :: "request \<Rightarrow> string \<Rightarrow> string \<Rightarrow> server \<Rightarrow> response \<times> server" where
  "pullCandidates rq sid since sv =
     (case sv_byID sv sid of
        None \<Rightarrow> err 404 ''session not found'' sv
      | Some r \<Rightarrow>
          (case sideForToken (sv_store sv r) (bearerToken rq) of
             None \<Rightarrow> err 401 ''missing or invalid role token'' sv
           | Some sd \<Rightarrow>
               let theirs = side_candidates (other_side sd) (sv_store sv r); n = since_param since in
               if n < length theirs then ((200, CandidatesBody (drop n theirs) (length theirs)), sv)
               else ((204, NoBody), sv)))"

definition drop_session :: "string \<Rightarrow> ref \<Rightarrow> server \<Rightarrow> server" where
  "drop_session sid r sv = sv
     \<lparr>sv_byID := (sv_byID sv)(sid := None), sv_bySlot := (sv_bySlot sv)(ss_Slot (sv_store sv r) := None)\<rparr>"

definition deleteSession :: "request \<Rightarrow> (nat \<Rightarrow> time) \<Rightarrow> string \<Rightarrow> string \<Rightarrow> server \<Rightarrow> response \<times> server" where
  "deleteSession rq clk sid consumed sv =
     (case sv_byID sv sid of
        None \<Rightarrow> err 404 ''session not found'' sv
      | Some r \<Rightarrow>
          let s = sv_store sv r in
          if sideForToken s (bearerToken rq) = None then err 401 ''missing or invalid role token'' sv
          else let sv1 = releaseIP (ss_ReceiverRateKey s) (releaseIP (ss_SenderRateKey s) (drop_session sid r sv));
                   sv2 = (if consumed \<noteq> [] then sv1\<lparr>sv_consumed := (sv_consumed sv1)(ss_Slot s \<mapsto> clk 0 + consumedTTL)\<rparr> else sv1)
               in ((204, NoBody), sv2))"

section \<open>The relay's endpoints\<close>

text \<open>The allocator is the relay; a request that needs an allocation comes with the relay's answer.\<close>

datatype alloc_error = Alloc_budget | Alloc_draining | Alloc_other

definition ReasonCapHit :: string where
  "ReasonCapHit = ''cap_hit''"

definition TokenEncoding :: string where
  "TokenEncoding = ''0123456789ABCDEFGHJKMNPQRSTVWXYZ''"

definition relayTCPFallback :: "server_env \<Rightarrow> bool" where
  "relayTCPFallback env = (if \<not> sx_relay env \<or> \<not> sx_forwarding env then False else sx_relay_ws env)"

definition alloc_answer :: "server_env \<Rightarrow> request \<Rightarrow> bytes \<Rightarrow> response" where
  "alloc_answer env rq tok =
     (200, AllocBody
        \<lparr>ar_RelayAddr = relayAddrFor env rq, ar_SessionToken = EncodeToString TokenEncoding tok,
         ar_TTLSeconds = quot_int (cf_PairedTTL (sx_cfg env)) 1000000000,
         ar_ForwardingDisabled = (\<not> sx_forwarding env), ar_BudgetExhausted = False,
         ar_TCPFallback = relayTCPFallback env\<rparr>)"

definition budget_answer :: response where
  "budget_answer =
     (200, AllocBody \<lparr>ar_RelayAddr = [], ar_SessionToken = [], ar_TTLSeconds = 0, ar_ForwardingDisabled = False,
        ar_BudgetExhausted = True, ar_TCPFallback = False\<rparr>)"

definition allocateRelay ::
  "server_env \<Rightarrow> request \<Rightarrow> (alloc_error + bytes) \<Rightarrow> string option \<Rightarrow> server \<Rightarrow> response \<times> server" where
  "allocateRelay env rq alloc body sv =
     (if \<not> sx_relay env then err 503 ''relay not enabled on this server'' sv
      else (case body of
          None \<Rightarrow> err 400 ''bad json'' sv
        | Some sid \<Rightarrow>
            if sid = [] then err 400 ''missing session_id'' sv
            else (case sv_byID sv sid of
                None \<Rightarrow> err 404 ''session not found'' sv
              | Some r \<Rightarrow>
                  if sideForToken (sv_store sv r) (bearerToken rq) = None then err 401 ''missing or invalid role token'' sv
                  else (case ss_relayToken (sv_store sv r) of
                      Some tok \<Rightarrow> (alloc_answer env rq tok, sv)
                    | None \<Rightarrow>
                        (case alloc of
                           Inl Alloc_budget \<Rightarrow> (budget_answer, sv)
                         | Inl Alloc_draining \<Rightarrow> err 503 ''server restarting'' sv
                         | Inl Alloc_other \<Rightarrow> err 500 ''alloc failed'' sv
                         | Inr tok \<Rightarrow>
                             (alloc_answer env rq tok, update_session r (\<lambda>s. s\<lparr>ss_relayToken := Some tok\<rparr>) sv))))))"

definition relayStatus :: "server_env \<Rightarrow> request \<Rightarrow> (bytes \<Rightarrow> string) \<Rightarrow> string \<Rightarrow> server \<Rightarrow> response \<times> server" where
  "relayStatus env rq status sid sv =
     (if \<not> sx_relay env then err 503 ''relay not enabled'' sv
      else if sid = [] then err 400 ''missing session_id'' sv
      else (case sv_byID sv sid of
          None \<Rightarrow> ((200, RelayStatusBody ''unknown'' [] 0), sv)
        | Some r \<Rightarrow>
            (case ss_relayToken (sv_store sv r) of
               None \<Rightarrow> ((200, RelayStatusBody ''unknown'' [] 0), sv)
             | Some tok \<Rightarrow>
                 if sideForToken (sv_store sv r) (bearerToken rq) = None then ((200, RelayStatusBody ''unknown'' [] 0), sv)
                 else let reason = status tok in
                   if reason = [] then ((200, RelayStatusBody ''active'' [] 0), sv)
                   else ((200, RelayStatusBody ''evicted'' reason (if reason = ReasonCapHit then sx_relay_max env else 0)), sv))))"

text \<open>The WebSocket endpoint hands a session's link, or a probe (\<open>None\<close>), over to the relay.\<close>

definition relayWebSocket :: "server_env \<Rightarrow> request \<Rightarrow> string \<Rightarrow> server \<Rightarrow> response \<times> server" where
  "relayWebSocket env rq sid sv =
     (if \<not> relayTCPFallback env then err 503 ''relay TCP fallback not available on this server'' sv
      else if sid = [] then ((101, WebSocketBody None), sv)
      else (case sv_byID sv sid of
          None \<Rightarrow> err 404 ''relay not allocated for this session'' sv
        | Some r \<Rightarrow>
            (case ss_relayToken (sv_store sv r) of
               None \<Rightarrow> err 404 ''relay not allocated for this session'' sv
             | Some tok \<Rightarrow>
                 if sideForToken (sv_store sv r) (bearerToken rq) = None then err 401 ''missing or invalid role token'' sv
                 else ((101, WebSocketBody (Some tok)), sv))))"

definition readiness :: "server_env \<Rightarrow> bool \<Rightarrow> response" where
  "readiness env healthy =
     (if sx_relay env \<and> \<not> healthy then (503, HealthBody ''degraded'') else (200, HealthBody ''ok''))"

section \<open>The janitor\<close>

definition evict_one :: "server_env \<Rightarrow> time \<Rightarrow> string \<Rightarrow> server \<Rightarrow> server" where
  "evict_one env now sid sv =
     (case sv_byID sv sid of
        None \<Rightarrow> sv
      | Some r \<Rightarrow>
          let s = sv_store sv r in
          (case ss_State s of
             St_waiting \<Rightarrow>
               if cf_UnpairedTTL (sx_cfg env) < now - ss_CreatedAt s \<or> cf_AbandonedTTL (sx_cfg env) < now - ss_LastSeen s
               then close_waiters r (releaseIP (ss_SenderRateKey s) (drop_session sid r sv))
               else sv
           | St_paired \<Rightarrow>
               if cf_PairedTTL (sx_cfg env) < now - ss_PairedAt s
               then releaseIP (ss_ReceiverRateKey s) (releaseIP (ss_SenderRateKey s) (drop_session sid r sv))
               else sv))"

definition expire_consumed :: "time \<Rightarrow> server \<Rightarrow> server" where
  "expire_consumed now sv = sv
     \<lparr>sv_consumed := (\<lambda>slot. case sv_consumed sv slot of None \<Rightarrow> None | Some exp \<Rightarrow> if exp < now then None else Some exp)\<rparr>"

definition expire_buckets :: "time \<Rightarrow> server \<Rightarrow> server" where
  "expire_buckets now sv = sv
     \<lparr>sv_ipBucket := (\<lambda>key. case sv_ipBucket sv key of
          None \<Rightarrow> None
        | Some b \<Rightarrow> let keep = keep_stamps (now - seconds 60) b in if keep = [] then None else Some keep)\<rparr>"

text \<open>\<open>order\<close> is the order in which the loop over \<open>byID\<close> meets its keys.\<close>

definition evict :: "server_env \<Rightarrow> time \<Rightarrow> string list \<Rightarrow> server \<Rightarrow> server" where
  "evict env now order sv = expire_buckets now (expire_consumed now (fold (evict_one env now) order sv))"

section \<open>Surviving a restart\<close>

record saved_session =
  sd_ID :: string
  sd_Slot :: string
  sd_SenderToken :: string
  sd_SenderICE :: ice_creds
  sd_CreatedAt :: time

record state_file =
  sf_Version :: int
  sf_Sessions :: "saved_session list"

definition stateVersion :: int where
  "stateVersion = 1"

definition ReleaseWaiters :: "server \<Rightarrow> server" where
  "ReleaseWaiters sv = sv\<lparr>sv_stopping := True\<rparr>"

definition save_session :: "session \<Rightarrow> saved_session" where
  "save_session s =
     \<lparr>sd_ID = ss_ID s, sd_Slot = ss_Slot s, sd_SenderToken = ss_SenderToken s, sd_SenderICE = ss_SenderICE s,
      sd_CreatedAt = ss_CreatedAt s\<rparr>"

fun save_sessions :: "string list \<Rightarrow> server \<Rightarrow> saved_session list" where
  "save_sessions [] sv = []"
| "save_sessions (sid # order) sv =
     (case sv_byID sv sid of
        None \<Rightarrow> save_sessions order sv
      | Some r \<Rightarrow>
          if ss_State (sv_store sv r) \<noteq> St_waiting then save_sessions order sv
          else save_session (sv_store sv r) # save_sessions order sv)"

text \<open>
  The file is absent or holds bytes; marshalling is an argument and may fail, and so may the atomic
  write, which then leaves the file as it was.
\<close>

record state_codec =
  st_marshal :: "state_file \<Rightarrow> bytes option"
  st_unmarshal :: "bytes \<Rightarrow> state_file option"

definition SaveState ::
  "state_codec \<Rightarrow> bool \<Rightarrow> string list \<Rightarrow> server \<Rightarrow> bytes option \<Rightarrow> (nat \<times> bool) \<times> bytes option" where
  "SaveState cd write_ok order sv disk =
     (let st = \<lparr>sf_Version = stateVersion, sf_Sessions = save_sessions order sv\<rparr> in
      case st_marshal cd st of
        None \<Rightarrow> ((0, False), disk)
      | Some data \<Rightarrow>
          if write_ok then ((length (sf_Sessions st), True), Some data)
          else ((length (sf_Sessions st), False), disk))"

definition restored_session :: "time \<Rightarrow> saved_session \<Rightarrow> session" where
  "restored_session now ss = zero_session
     \<lparr>ss_ID := sd_ID ss, ss_Slot := sd_Slot ss, ss_SenderToken := sd_SenderToken ss, ss_SenderICE := sd_SenderICE ss,
      ss_State := St_waiting, ss_CreatedAt := sd_CreatedAt ss, ss_LastSeen := now\<rparr>"

fun load_sessions :: "server_env \<Rightarrow> time \<Rightarrow> saved_session list \<Rightarrow> nat \<Rightarrow> server \<Rightarrow> nat \<times> server" where
  "load_sessions env now [] n sv = (n, sv)"
| "load_sessions env now (ss # sss) n sv =
     (if cf_UnpairedTTL (sx_cfg env) < now - sd_CreatedAt ss \<or> ValidateSlot (sd_Slot ss) \<noteq> None \<or>
         sd_ID ss = [] \<or> sd_SenderToken ss = []
      then load_sessions env now sss n sv
      else if sv_bySlot sv (sd_Slot ss) \<noteq> None then load_sessions env now sss n sv
      else if sv_byID sv (sd_ID ss) \<noteq> None then load_sessions env now sss n sv
      else load_sessions env now sss (Suc n) (insert_session (restored_session now ss) sv))"

text \<open>The faults of reading and of removing the file are arguments.\<close>

definition LoadState ::
  "server_env \<Rightarrow> state_codec \<Rightarrow> bool \<Rightarrow> bool \<Rightarrow> time \<Rightarrow> server \<Rightarrow> bytes option
     \<Rightarrow> (nat \<times> bool) \<times> server \<times> bytes option" where
  "LoadState env cd read_ok remove_ok now sv disk =
     (case disk of
        None \<Rightarrow> ((0, True), sv, disk)
      | Some data \<Rightarrow>
          if \<not> read_ok then ((0, False), sv, disk)
          else if \<not> remove_ok then ((0, False), sv, disk)
          else (case st_unmarshal cd data of
              None \<Rightarrow> ((0, False), sv, None)
            | Some st \<Rightarrow>
                if sf_Version st \<noteq> stateVersion then ((0, False), sv, None)
                else (case load_sessions env now (sf_Sessions st) 0 sv of (n, sv1) \<Rightarrow> ((n, True), sv1, None))))"

section \<open>The server as a machine\<close>

text \<open>The routes of the multiplexer, with what each takes from path, query and body.\<close>

datatype route =
    R_create "string option"
  | R_join string
  | R_wait string
  | R_push string "string list option"
  | R_pull string string
  | R_delete string string
  | R_allocate "string option"
  | R_status string
  | R_ws string
  | R_health
  | R_liveness
  | R_readiness
  | R_root

record inputs =
  or_clk :: "nat \<Rightarrow> time"
  or_rnd :: randomness
  or_alloc :: "alloc_error + bytes"
  or_status :: "bytes \<Rightarrow> string"
  or_healthy :: bool

definition dispatch :: "server_env \<Rightarrow> inputs \<Rightarrow> request \<Rightarrow> route \<Rightarrow> server \<Rightarrow> (response + parked) \<times> server" where
  "dispatch env orc rq rt sv =
     (case rt of
        R_create body \<Rightarrow> apfst Inl (createSession env rq (or_clk orc) (or_rnd orc) body sv)
      | R_join slot \<Rightarrow> apfst Inl (joinSession env rq (or_clk orc) (or_rnd orc) slot sv)
      | R_wait slot \<Rightarrow> waitSession env rq (or_clk orc) slot sv
      | R_push sid body \<Rightarrow> apfst Inl (pushCandidates rq sid body sv)
      | R_pull sid since \<Rightarrow> apfst Inl (pullCandidates rq sid since sv)
      | R_delete sid consumed \<Rightarrow> apfst Inl (deleteSession rq (or_clk orc) sid consumed sv)
      | R_allocate body \<Rightarrow> apfst Inl (allocateRelay env rq (or_alloc orc) body sv)
      | R_status sid \<Rightarrow> apfst Inl (relayStatus env rq (or_status orc) sid sv)
      | R_ws sid \<Rightarrow> apfst Inl (relayWebSocket env rq sid sv)
      | R_health \<Rightarrow> (Inl (readiness env (or_healthy orc)), sv)
      | R_liveness \<Rightarrow> (Inl (200, HealthBody ''ok''), sv)
      | R_readiness \<Rightarrow> (Inl (readiness env (or_healthy orc)), sv)
      | R_root \<Rightarrow> (Inl (200, RootBody (''fsend server is up and running'' @ [CHR 0x0A])), sv))"

definition withServerAuth ::
  "server_env \<Rightarrow> request \<Rightarrow> (server \<Rightarrow> (response + parked) \<times> server) \<Rightarrow> server \<Rightarrow> (response + parked) \<times> server" where
  "withServerAuth env rq inner sv =
     (if rq_Path rq \<in> {''/health'', ''/healthz'', ''/readyz'', ''/''} then inner sv
      else if rq_FsendAuth rq = [] \<or> rq_FsendAuth rq \<noteq> cf_ServerPassword (sx_cfg env)
      then apfst Inl (err 401 ''server password required''
             (count_metric (\<lambda>m. m\<lparr>sm_rejAuth := sm_rejAuth m + 1\<rparr>) sv))
      else inner sv)"

definition handle_request :: "server_env \<Rightarrow> inputs \<Rightarrow> request \<Rightarrow> route \<Rightarrow> server \<Rightarrow> (response + parked) \<times> server" where
  "handle_request env orc rq rt sv =
     (if cf_ServerPassword (sx_cfg env) \<noteq> [] then withServerAuth env rq (dispatch env orc rq rt) sv
      else dispatch env orc rq rt sv)"

datatype server_event =
    Ev_request inputs request route
  | Ev_evict time "string list"
  | Ev_load time "saved_session list"
  | Ev_release

definition server_step :: "server_env \<Rightarrow> server_event \<Rightarrow> server \<Rightarrow> server" where
  "server_step env ev sv =
     (case ev of
        Ev_request orc rq rt \<Rightarrow> snd (handle_request env orc rq rt sv)
      | Ev_evict now order \<Rightarrow> evict env now order sv
      | Ev_load now sss \<Rightarrow> snd (load_sessions env now sss 0 sv)
      | Ev_release \<Rightarrow> ReleaseWaiters sv)"

end
