(* ===== verification/Session_Inv.thy ===== *)
theory Session_Inv
  imports Session_Table
begin

text \<open>
  What every event of the pairing server keeps: the two maps and the store describe one table of
  sessions by ID (\<open>tab\<close>), in which slots are unique; the per-address counts are the number of live
  session sides; sessions are well formed; and no channel is closed twice. The abstract table changes
  only by the steps of \<open>table_step\<close>.
\<close>

named_theorems sv_simps \<open>projections of the server's operations\<close>

section \<open>The table behind the maps\<close>

definition tab :: "server \<Rightarrow> string \<rightharpoonup> session" where
  "tab sv = (\<lambda>sid. map_option (sv_store sv) (sv_byID sv sid))"

definition linked :: "server \<Rightarrow> bool" where
  "linked sv \<longleftrightarrow>
     (\<forall>sid r. sv_byID sv sid = Some r \<longrightarrow>
        r < sv_next sv \<and> ss_ID (sv_store sv r) = sid \<and> sv_bySlot sv (ss_Slot (sv_store sv r)) = Some r) \<and>
     (\<forall>slot r. sv_bySlot sv slot = Some r \<longrightarrow>
        sv_byID sv (ss_ID (sv_store sv r)) = Some r \<and> ss_Slot (sv_store sv r) = slot)"

lemma linked_ID:
  "linked sv \<Longrightarrow> sv_byID sv sid = Some r \<Longrightarrow>
     r < sv_next sv \<and> ss_ID (sv_store sv r) = sid \<and> sv_bySlot sv (ss_Slot (sv_store sv r)) = Some r"
  by (simp add: linked_def)

lemma linked_Slot:
  "linked sv \<Longrightarrow> sv_bySlot sv slot = Some r \<Longrightarrow>
     r < sv_next sv \<and> sv_byID sv (ss_ID (sv_store sv r)) = Some r \<and> ss_Slot (sv_store sv r) = slot"
  by (auto simp: linked_def)

lemma linked_ref: "linked sv \<Longrightarrow> sv_byID sv sid = Some r \<Longrightarrow> sv_bySlot sv (ss_Slot (sv_store sv r)) = Some r"
  by (simp add: linked_def)

lemma linked_ref': "linked sv \<Longrightarrow> sv_bySlot sv slot = Some r \<Longrightarrow> sv_byID sv (ss_ID (sv_store sv r)) = Some r"
  by (simp add: linked_def)

lemma linked_same: "linked sv \<Longrightarrow> sv_byID sv a = Some r \<Longrightarrow> sv_byID sv b = Some r \<Longrightarrow> a = b"
  by (metis linked_ID)

text \<open>The three ways the table changes.\<close>

lemma insert_linked:
  assumes "linked sv" "sv_byID sv (ss_ID s) = None" "sv_bySlot sv (ss_Slot s) = None"
  shows "linked (insert_session s sv)" "tab (insert_session s sv) = (tab sv)(ss_ID s \<mapsto> s)"
proof -
  have i: "sv_byID sv sid = Some r \<Longrightarrow> r \<noteq> sv_next sv" for sid r
    using linked_ID [OF assms(1)] by blast
  have l: "sv_bySlot sv slot = Some r \<Longrightarrow> r \<noteq> sv_next sv" for slot r
    using linked_Slot [OF assms(1)] by blast
  show "tab (insert_session s sv) = (tab sv)(ss_ID s \<mapsto> s)"
  proof (rule ext)
    fix sid
    show "tab (insert_session s sv) sid = ((tab sv)(ss_ID s \<mapsto> s)) sid"
      using i [of sid] by (cases "sv_byID sv sid") (auto simp: tab_def insert_session_def)
  qed
  show "linked (insert_session s sv)"
    unfolding linked_def
  proof (intro conjI allI impI)
    fix sid r assume r: "sv_byID (insert_session s sv) sid = Some r"
    let ?t = "insert_session s sv"
    have "r < sv_next ?t \<and> ss_ID (sv_store ?t r) = sid \<and> sv_bySlot ?t (ss_Slot (sv_store ?t r)) = Some r"
    proof (cases "sid = ss_ID s")
      case True
      then show ?thesis using r by (simp add: insert_session_def)
    next
      case False
      then have o: "sv_byID sv sid = Some r" using r by (simp add: insert_session_def)
      note k = linked_ID [OF assms(1) o] and n = i [OF o]
      have "ss_Slot (sv_store sv r) \<noteq> ss_Slot s" using k assms(3) by auto
      then show ?thesis using k n by (simp add: insert_session_def)
    qed
    then show "r < sv_next ?t" "ss_ID (sv_store ?t r) = sid" "sv_bySlot ?t (ss_Slot (sv_store ?t r)) = Some r"
      by simp_all
  next
    fix slot r assume r: "sv_bySlot (insert_session s sv) slot = Some r"
    let ?t = "insert_session s sv"
    have "sv_byID ?t (ss_ID (sv_store ?t r)) = Some r \<and> ss_Slot (sv_store ?t r) = slot"
    proof (cases "slot = ss_Slot s")
      case True
      then show ?thesis using r by (simp add: insert_session_def)
    next
      case False
      then have o: "sv_bySlot sv slot = Some r" using r by (simp add: insert_session_def)
      note k = linked_Slot [OF assms(1) o] and n = l [OF o]
      have "ss_ID (sv_store sv r) \<noteq> ss_ID s" using k assms(2) by auto
      then show ?thesis using k n by (simp add: insert_session_def)
    qed
    then show "sv_byID ?t (ss_ID (sv_store ?t r)) = Some r" "ss_Slot (sv_store ?t r) = slot" by simp_all
  qed
qed

lemma update_linked:
  assumes "linked sv" "sv_byID sv sid = Some r"
    and "\<And>s. ss_ID (f s) = ss_ID s" "\<And>s. ss_Slot (f s) = ss_Slot s"
  shows "linked (update_session r f sv)" "tab (update_session r f sv) = (tab sv)(sid \<mapsto> f (sv_store sv r))"
proof -
  have "ss_ID (sv_store (update_session r f sv) x) = ss_ID (sv_store sv x)"
    "ss_Slot (sv_store (update_session r f sv) x) = ss_Slot (sv_store sv x)" for x
    using assms(3,4) by (simp_all add: update_session_def)
  then show "linked (update_session r f sv)"
    using assms(1) unfolding linked_def by (simp add: update_session_def)
  show "tab (update_session r f sv) = (tab sv)(sid \<mapsto> f (sv_store sv r))"
  proof (rule ext)
    fix k
    show "tab (update_session r f sv) k = ((tab sv)(sid \<mapsto> f (sv_store sv r))) k"
      using linked_same [OF assms(1) _ assms(2), of k] assms(2)
      by (cases "sv_byID sv k") (auto simp: tab_def update_session_def)
  qed
qed

lemma drop_linked:
  assumes "linked sv" "sv_byID sv sid = Some r"
  shows "linked (drop_session sid r sv)" "tab (drop_session sid r sv) = (tab sv)(sid := None)"
proof -
  show "tab (drop_session sid r sv) = (tab sv)(sid := None)"
    by (auto simp: tab_def drop_session_def fun_eq_iff)
  have other: "ss_Slot (sv_store sv x) \<noteq> ss_Slot (sv_store sv r)" if "sv_byID sv k = Some x" "k \<noteq> sid" for k x
  proof
    assume "ss_Slot (sv_store sv x) = ss_Slot (sv_store sv r)"
    then have "Some x = Some r" using linked_ref [OF assms(1) that(1)] linked_ref [OF assms] by (simp only:)
    then have "x = r" by simp
    then show False using linked_same [OF assms(1) that(1)] assms(2) that(2) by simp
  qed
  have other': "ss_ID (sv_store sv x) \<noteq> sid" if "sv_bySlot sv k = Some x" "k \<noteq> ss_Slot (sv_store sv r)" for k x
  proof
    assume "ss_ID (sv_store sv x) = sid"
    then have "Some x = Some r" using linked_ref' [OF assms(1) that(1)] assms(2) by (simp only:)
    then have "x = r" by simp
    then show False using linked_Slot [OF assms(1) that(1)] that(2) by simp
  qed
  show "linked (drop_session sid r sv)"
    unfolding linked_def
  proof (intro conjI allI impI)
    fix k x assume "sv_byID (drop_session sid r sv) k = Some x"
    then have o: "sv_byID sv k = Some x" "k \<noteq> sid" by (auto simp: drop_session_def split: if_splits)
    with linked_ID [OF assms(1) o(1)] other [OF o]
    show "x < sv_next (drop_session sid r sv)" "ss_ID (sv_store (drop_session sid r sv) x) = k"
      "sv_bySlot (drop_session sid r sv) (ss_Slot (sv_store (drop_session sid r sv) x)) = Some x"
      by (simp_all add: drop_session_def)
  next
    fix k x assume "sv_bySlot (drop_session sid r sv) k = Some x"
    then have o: "sv_bySlot sv k = Some x" "k \<noteq> ss_Slot (sv_store sv r)" by (auto simp: drop_session_def split: if_splits)
    with linked_Slot [OF assms(1) o(1)] other' [OF o]
    show "sv_byID (drop_session sid r sv) (ss_ID (sv_store (drop_session sid r sv) x)) = Some x"
      "ss_Slot (sv_store (drop_session sid r sv) x) = k"
      by (simp_all add: drop_session_def)
  qed
qed

text \<open>What linking and the table depend on.\<close>

definition sess :: "server \<Rightarrow> (ref \<Rightarrow> session) \<times> ref \<times> (string \<rightharpoonup> ref) \<times> (string \<rightharpoonup> ref)" where
  "sess sv = (sv_store sv, sv_next sv, sv_bySlot sv, sv_byID sv)"

lemma sess_linked: "sess sv' = sess sv \<Longrightarrow> linked sv' = linked sv"
  by (simp add: sess_def linked_def)

lemma sess_tab: "sess sv' = sess sv \<Longrightarrow> tab sv' = tab sv"
  by (simp add: sess_def tab_def)

lemma sess_frames [sv_simps]:
  "sess (chargeIP k sv) = sess sv" "sess (releaseIP k sv) = sess sv" "sess (count_metric f sv) = sess sv"
  "sess (sv\<lparr>sv_consumed := c\<rparr>) = sess sv" "sess (sv\<lparr>sv_ipBucket := b\<rparr>) = sess sv"
  "sess (sv\<lparr>sv_ipCounts := n\<rparr>) = sess sv" "sess (sv\<lparr>sv_stopping := p\<rparr>) = sess sv"
  by (simp_all add: sess_def chargeIP_def releaseIP_def count_metric_def Let_def)

lemma panic_frames [sv_simps]:
  "sv_panic (chargeIP k sv) = sv_panic sv" "sv_panic (releaseIP k sv) = sv_panic sv"
  "sv_panic (count_metric f sv) = sv_panic sv" "sv_panic (update_session r g sv) = sv_panic sv"
  "sv_panic (insert_session s sv) = sv_panic sv" "sv_panic (drop_session sid r sv) = sv_panic sv"
  by (simp_all add: chargeIP_def releaseIP_def count_metric_def update_session_def insert_session_def
      drop_session_def Let_def)

lemma counts_frames [sv_simps]:
  "sv_ipCounts (count_metric f sv) = sv_ipCounts sv" "sv_ipCounts (update_session r g sv) = sv_ipCounts sv"
  "sv_ipCounts (insert_session s sv) = sv_ipCounts sv" "sv_ipCounts (drop_session sid r sv) = sv_ipCounts sv"
  "sv_ipCounts (chargeIP k sv) = (sv_ipCounts sv)(k := sv_ipCounts sv k + 1)"
  by (simp_all add: chargeIP_def count_metric_def update_session_def insert_session_def drop_session_def)

lemma charge_bucket_frame:
  "charge_bucket k now limit sv = (ok, sv') \<Longrightarrow> \<exists>b. sv' = sv\<lparr>sv_ipBucket := b\<rparr>"
  by (auto simp: charge_bucket_def split: prod.splits)

lemma allowNewSession_frame:
  assumes "allowNewSession env a now sv = (ok, sv')"
  shows "\<exists>b. sv' = sv\<lparr>sv_ipBucket := b\<rparr>"
proof -
  have "\<exists>b. sv = sv\<lparr>sv_ipBucket := b\<rparr>" by (rule exI [of _ "sv_ipBucket sv"]) simp
  then show ?thesis
    using assms
    by (auto simp: allowNewSession_def Let_def split: if_splits prod.splits bool.splits dest!: charge_bucket_frame)
qed

section \<open>Sessions\<close>

definition session_ok :: "session \<Rightarrow> bool" where
  "session_ok s \<longleftrightarrow>
     ss_ID s \<noteq> [] \<and> ss_SenderToken s \<noteq> [] \<and> ValidateSlot (ss_Slot s) = None \<and> (ss_closed s \<longleftrightarrow> ss_State s = St_paired) \<and>
     (ss_State s = St_waiting \<longrightarrow> ss_ReceiverRateKey s = [] \<and> ss_ReceiverToken s = []) \<and>
     length (ss_SenderCandidates s) \<le> maxCandidatesPerSide \<and>
     length (ss_ReceiverCandidates s) \<le> maxCandidatesPerSide"

text \<open>The ways a live session changes.\<close>

inductive evolves :: "session \<Rightarrow> session \<Rightarrow> bool" where
  claim: "ss_State s = St_waiting \<Longrightarrow>
    evolves s (s\<lparr>ss_ReceiverAddr := a, ss_ReceiverRateKey := k, ss_ReceiverICE := i, ss_ReceiverToken := t,
      ss_State := St_paired, ss_PairedAt := p, ss_closed := True\<rparr>)"
| beat: "evolves s (s\<lparr>ss_LastSeen := n\<rparr>)"
| located: "ss_SenderRateKey s = [] \<Longrightarrow>
    evolves s (s\<lparr>ss_LastSeen := n, ss_SenderAddr := a, ss_SenderRateKey := k\<rparr>)"
| push: "length (side_candidates sd s) + length cs \<le> maxCandidatesPerSide \<Longrightarrow> evolves s (add_candidates sd cs s)"
| token: "ss_relayToken s = None \<Longrightarrow> evolves s (s\<lparr>ss_relayToken := Some t\<rparr>)"

lemma evolves_key: "evolves s s' \<Longrightarrow> ss_ID s' = ss_ID s \<and> ss_Slot s' = ss_Slot s"
  by (induction rule: evolves.induct) (auto simp: add_candidates_def split: side.split)

lemma evolves_ok: "evolves s s' \<Longrightarrow> session_ok s \<Longrightarrow> session_ok s'"
  by (induction rule: evolves.induct)
    (auto simp: session_ok_def add_candidates_def side_candidates_def split: side.splits)

text \<open>What one session contributes to the count of a rate key.\<close>

definition weight :: "string \<Rightarrow> session \<Rightarrow> int" where
  "weight key s = of_bool (ss_SenderRateKey s = key) + of_bool (ss_ReceiverRateKey s = key)"

definition sides :: "string \<Rightarrow> (string \<rightharpoonup> session) \<Rightarrow> int" where
  "sides key t = (\<Sum>sid \<in> dom t. weight key (the (t sid)))"

lemma sides_cong: "(\<And>sid. sid \<in> dom t \<Longrightarrow> t' sid = t sid) \<Longrightarrow> (\<Sum>sid \<in> dom t. weight key (the (t' sid))) = sides key t"
  by (simp add: sides_def)

lemma sides_insert: "finite (dom t) \<Longrightarrow> t sid = None \<Longrightarrow> sides key (t(sid \<mapsto> s)) = sides key t + weight key s"
proof -
  assume f: "finite (dom t)" and n: "t sid = None"
  have "sid \<notin> dom t" using n by auto
  then have "sides key (t(sid \<mapsto> s)) = weight key s + (\<Sum>k \<in> dom t. weight key (the ((t(sid \<mapsto> s)) k)))"
    using f by (simp add: sides_def)
  also have "(\<Sum>k \<in> dom t. weight key (the ((t(sid \<mapsto> s)) k))) = sides key t"
    by (rule sides_cong) (use n in auto)
  finally show ?thesis by (simp only: add.commute)
qed

lemma sides_drop: "finite (dom t) \<Longrightarrow> t sid = Some s \<Longrightarrow> sides key (t(sid := None)) = sides key t - weight key s"
proof -
  assume f: "finite (dom t)" and s: "t sid = Some s"
  have "finite (dom (t(sid := None)))" using f by simp
  from sides_insert [OF this, of sid key s] s show ?thesis by (simp add: fun_upd_idem)
qed

lemma sides_update:
  "finite (dom t) \<Longrightarrow> t sid = Some s \<Longrightarrow> sides key (t(sid \<mapsto> s')) = sides key t - weight key s + weight key s'"
  using sides_drop [of t sid s key] sides_insert [of "t(sid := None)" sid key s'] by simp

lemma weight_bound: "finite (dom t) \<Longrightarrow> t sid = Some s \<Longrightarrow> weight key s \<le> sides key t"
proof -
  assume f: "finite (dom t)" and s: "t sid = Some s"
  have "0 \<le> sides key (t(sid := None))" by (simp add: sides_def weight_def sum_nonneg)
  then show ?thesis using sides_drop [OF f s, of key] by simp
qed

definition counted :: "server \<Rightarrow> bool" where
  "counted sv \<longleftrightarrow> finite (dom (tab sv)) \<and> (\<forall>key. key \<noteq> [] \<longrightarrow> sv_ipCounts sv key = sides key (tab sv))"

definition good :: "server \<Rightarrow> bool" where
  "good sv \<longleftrightarrow> linked sv \<and> counted sv \<and> (\<forall>s \<in> ran (tab sv). session_ok s) \<and> \<not> sv_panic sv"

section \<open>The changes of the table\<close>

inductive change :: "string set \<Rightarrow> server \<Rightarrow> server \<Rightarrow> bool" for I where
  same: "sess sv' = sess sv \<Longrightarrow> sv_ipCounts sv' = sv_ipCounts sv \<Longrightarrow> sv_panic sv' = sv_panic sv \<Longrightarrow> change I sv sv'"
| created: "sv_byID sv (ss_ID s) = None \<Longrightarrow> sv_bySlot sv (ss_Slot s) = None \<Longrightarrow>
    session_ok s \<Longrightarrow> ss_State s = St_waiting \<Longrightarrow>
    sess sv' = sess (insert_session s sv) \<Longrightarrow>
    (\<And>k. k \<noteq> [] \<Longrightarrow> sv_ipCounts sv' k = sv_ipCounts sv k + weight k s) \<Longrightarrow> sv_panic sv' = sv_panic sv \<Longrightarrow>
    ss_ID s \<in> I \<Longrightarrow> change I sv sv'"
| changed: "sv_byID sv sid = Some r \<Longrightarrow> evolves (sv_store sv r) s' \<Longrightarrow>
    sess sv' = sess (update_session r (\<lambda>_. s') sv) \<Longrightarrow>
    (\<And>k. k \<noteq> [] \<Longrightarrow> sv_ipCounts sv' k = sv_ipCounts sv k - weight k (sv_store sv r) + weight k s') \<Longrightarrow>
    sv_panic sv' = sv_panic sv \<Longrightarrow> change I sv sv'"
| dropped: "sv_byID sv sid = Some r \<Longrightarrow>
    sess sv' = sess (update_session r (\<lambda>_. s') (drop_session sid r sv)) \<Longrightarrow>
    (\<And>k. k \<noteq> [] \<Longrightarrow> sv_ipCounts sv' k = sv_ipCounts sv k - weight k (sv_store sv r)) \<Longrightarrow>
    sv_panic sv' = sv_panic sv \<Longrightarrow> change I sv sv'"

text \<open>The abstract machine: one table of sessions by ID, with unique slots.\<close>

inductive table_step :: "(string \<rightharpoonup> session) \<Rightarrow> (string \<rightharpoonup> session) \<Rightarrow> bool" where
  t_same: "table_step t t"
| t_create: "t (ss_ID s) = None \<Longrightarrow> (\<And>s'. s' \<in> ran t \<Longrightarrow> ss_Slot s' \<noteq> ss_Slot s) \<Longrightarrow>
    session_ok s \<Longrightarrow> ss_State s = St_waiting \<Longrightarrow> table_step t (t(ss_ID s \<mapsto> s))"
| t_evolve: "t sid = Some s \<Longrightarrow> evolves s s' \<Longrightarrow> table_step t (t(sid \<mapsto> s'))"
| t_drop: "t sid = Some s \<Longrightarrow> table_step t (t(sid := None))"

lemma tab_live: "sv_byID sv sid = Some r \<Longrightarrow> tab sv sid = Some (sv_store sv r)"
  by (simp add: tab_def)

lemma update_const: "update_session r f sv = update_session r (\<lambda>_. f (sv_store sv r)) sv"
  by (simp add: update_session_def)

lemma update_to:
  assumes "linked sv" "sv_byID sv sid = Some r" "ss_ID s' = ss_ID (sv_store sv r)" "ss_Slot s' = ss_Slot (sv_store sv r)"
  shows "linked (update_session r (\<lambda>_. s') sv)" "tab (update_session r (\<lambda>_. s') sv) = (tab sv)(sid \<mapsto> s')"
proof -
  let ?f = "\<lambda>s. s'\<lparr>ss_ID := ss_ID s, ss_Slot := ss_Slot s\<rparr>"
  have "?f (sv_store sv r) = s'" using assms(3,4) by (cases s') simp
  then have "update_session r (\<lambda>_. s') sv = update_session r ?f sv" by (simp add: update_session_def)
  with update_linked [OF assms(1,2), of ?f] \<open>?f (sv_store sv r) = s'\<close>
  show "linked (update_session r (\<lambda>_. s') sv)" "tab (update_session r (\<lambda>_. s') sv) = (tab sv)(sid \<mapsto> s')"
    by simp_all
qed

text \<open>A session that has been dropped may change without anyone noticing.\<close>

lemma dead_update:
  assumes "linked sv" "\<And>k. sv_byID sv k \<noteq> Some r"
  shows "linked (update_session r (\<lambda>_. s') sv)" "tab (update_session r (\<lambda>_. s') sv) = tab sv"
proof -
  have n: "sv_bySlot sv k \<noteq> Some r" for k using linked_ref' [OF assms(1)] assms(2) by blast
  show "tab (update_session r (\<lambda>_. s') sv) = tab sv"
    using assms(2) by (auto simp: tab_def update_session_def fun_eq_iff intro!: option.map_cong)
  have st: "x \<noteq> r \<Longrightarrow> sv_store (update_session r (\<lambda>_. s') sv) x = sv_store sv x" for x
    by (simp add: update_session_def)
  have id: "sv_byID sv k = Some x \<Longrightarrow> x \<noteq> r" for k x using assms(2) by blast
  have sl: "sv_bySlot sv k = Some x \<Longrightarrow> x \<noteq> r" for k x using n by blast
  show "linked (update_session r (\<lambda>_. s') sv)"
    unfolding linked_def
  proof (intro conjI allI impI)
    fix k x assume "sv_byID (update_session r (\<lambda>_. s') sv) k = Some x"
    then have o: "sv_byID sv k = Some x" by (simp add: update_session_def)
    from linked_ID [OF assms(1) o] show "x < sv_next (update_session r (\<lambda>_. s') sv)"
      "ss_ID (sv_store (update_session r (\<lambda>_. s') sv) x) = k"
      "sv_bySlot (update_session r (\<lambda>_. s') sv) (ss_Slot (sv_store (update_session r (\<lambda>_. s') sv) x)) = Some x"
      unfolding st [OF id [OF o]] by (simp_all add: update_session_def)
  next
    fix k x assume "sv_bySlot (update_session r (\<lambda>_. s') sv) k = Some x"
    then have o: "sv_bySlot sv k = Some x" by (simp add: update_session_def)
    from linked_Slot [OF assms(1) o]
    show "sv_byID (update_session r (\<lambda>_. s') sv) (ss_ID (sv_store (update_session r (\<lambda>_. s') sv) x)) = Some x"
      "ss_Slot (sv_store (update_session r (\<lambda>_. s') sv) x) = k"
      unfolding st [OF sl [OF o]] by (simp_all add: update_session_def)
  qed
qed

lemma dropped_linked:
  assumes "linked sv" "sv_byID sv sid = Some r"
  shows "linked (update_session r (\<lambda>_. s') (drop_session sid r sv))"
    "tab (update_session r (\<lambda>_. s') (drop_session sid r sv)) = (tab sv)(sid := None)"
proof -
  have dead: "sv_byID (drop_session sid r sv) k \<noteq> Some r" for k
    using linked_same [OF assms(1) _ assms(2), of k] by (auto simp: drop_session_def)
  note d = drop_linked [OF assms]
  show "linked (update_session r (\<lambda>_. s') (drop_session sid r sv))"
    by (rule dead_update(1) [OF d(1) dead])
  show "tab (update_session r (\<lambda>_. s') (drop_session sid r sv)) = (tab sv)(sid := None)"
    using dead_update(2) [OF d(1) dead] d(2) by simp
qed

lemma change_table:
  assumes "change I sv sv'" "linked sv"
  shows "linked sv' \<and> table_step (tab sv) (tab sv')"
  using assms(1)
proof cases
  case same
  then show ?thesis using assms(2) sess_linked [OF same(1)] sess_tab [OF same(1)] by (simp add: t_same)
next
  case (created s)
  note i = insert_linked [OF assms(2) created(1,2)]
  have "ss_Slot x \<noteq> ss_Slot s" if "x \<in> ran (tab sv)" for x
  proof -
    obtain k r where "sv_byID sv k = Some r" "x = sv_store sv r" using \<open>x \<in> ran (tab sv)\<close> by (auto simp: ran_def tab_def)
    then have "sv_bySlot sv (ss_Slot x) = Some r" using linked_ref [OF assms(2)] by simp
    with created(2) show ?thesis by auto
  qed
  moreover have "tab sv (ss_ID s) = None" using created(1) by (simp add: tab_def)
  ultimately have "table_step (tab sv) ((tab sv)(ss_ID s \<mapsto> s))" using created(3,4) by (intro t_create)
  then show ?thesis using i sess_linked [OF created(5)] sess_tab [OF created(5)] by simp
next
  case (changed sid r s')
  have key: "ss_ID s' = ss_ID (sv_store sv r)" "ss_Slot s' = ss_Slot (sv_store sv r)"
    using evolves_key [OF changed(2)] by simp_all
  note u = update_to [OF assms(2) changed(1) key]
  show ?thesis
    using u sess_linked [OF changed(3)] sess_tab [OF changed(3)] t_evolve [of "tab sv", OF tab_live [OF changed(1)] changed(2)]
    by simp
next
  case (dropped sid r s')
  note d = dropped_linked [OF assms(2) dropped(1)]
  show ?thesis
    using d sess_linked [OF dropped(2)] sess_tab [OF dropped(2)] t_drop [of "tab sv", OF tab_live [OF dropped(1)]]
    by simp
qed

lemma table_step_ok: "table_step t t' \<Longrightarrow> \<forall>s \<in> ran t. session_ok s \<Longrightarrow> \<forall>s \<in> ran t'. session_ok s"
  by (induction rule: table_step.induct) (auto simp: ran_def split: if_splits dest: evolves_ok)

lemma table_step_finite: "table_step t t' \<Longrightarrow> finite (dom t) \<Longrightarrow> finite (dom t')"
  by (induction rule: table_step.induct) auto

lemma change_counted:
  assumes "change I sv sv'" "linked sv" "counted sv"
  shows "counted sv'"
proof -
  have fin: "finite (dom (tab sv))" and cnt: "key \<noteq> [] \<Longrightarrow> sv_ipCounts sv key = sides key (tab sv)" for key
    using assms(3) by (simp_all add: counted_def)
  have "finite (dom (tab sv'))" using change_table [OF assms(1,2)] table_step_finite fin by blast
  moreover have "sv_ipCounts sv' key = sides key (tab sv')" if k: "key \<noteq> []" for key
    using assms(1)
  proof cases
    case same
    then show ?thesis using cnt [OF k] sess_tab [OF same(1)] by simp
  next
    case (created s)
    have "tab sv' = (tab sv)(ss_ID s \<mapsto> s)"
      using insert_linked(2) [OF assms(2) created(1,2)] sess_tab [OF created(5)] by simp
    moreover have "tab sv (ss_ID s) = None" using created(1) by (simp add: tab_def)
    ultimately show ?thesis using created(6) [OF k] cnt [OF k] fin by (simp add: sides_insert)
  next
    case (changed sid r s')
    have "tab sv' = (tab sv)(sid \<mapsto> s')"
      using update_to(2) [OF assms(2) changed(1)] evolves_key [OF changed(2)] sess_tab [OF changed(3)] by simp
    then show ?thesis
      using changed(4) [OF k] cnt [OF k] sides_update [OF fin tab_live [OF changed(1)]] by simp
  next
    case (dropped sid r s')
    have "tab sv' = (tab sv)(sid := None)"
      using dropped_linked(2) [OF assms(2) dropped(1)] sess_tab [OF dropped(2)] by simp
    then show ?thesis
      using dropped(3) [OF k] cnt [OF k] sides_drop [OF fin tab_live [OF dropped(1)]] by simp
  qed
  ultimately show ?thesis by (simp add: counted_def)
qed

lemma change_good: "change I sv sv' \<Longrightarrow> good sv \<Longrightarrow> good sv'"
  unfolding good_def
  using change_table [of I sv sv'] change_counted [of I sv sv'] table_step_ok [of "tab sv" "tab sv'"]
  by (auto elim: change.cases)

section \<open>Every handler is a change\<close>

lemma bucket_sess [sv_simps]:
  "sess (insert_session s (sv\<lparr>sv_ipBucket := b\<rparr>)) = sess (insert_session s sv)"
  "sess (update_session r f (sv\<lparr>sv_ipBucket := b\<rparr>)) = sess (update_session r f sv)"
  "drop_session sid r (sv\<lparr>sv_ipBucket := b\<rparr>) = (drop_session sid r sv)\<lparr>sv_ipBucket := b\<rparr>"
  by (simp_all add: sess_def insert_session_def update_session_def drop_session_def)

lemma bucket_change:
  assumes "change I (sv\<lparr>sv_ipBucket := b\<rparr>) sv'"
  shows "change I sv sv'"
  using assms
proof cases
  case same
  show ?thesis by (rule change.same) (use same in \<open>simp_all add: sv_simps\<close>)
next
  case (created s)
  show ?thesis by (rule change.created [of sv s]) (use created in \<open>simp_all add: sv_simps\<close>)
next
  case (changed sid r s')
  show ?thesis by (rule change.changed [of sv sid r s']) (use changed in \<open>simp_all add: sv_simps\<close>)
next
  case (dropped sid r s')
  show ?thesis by (rule change.dropped [of sv sid r _ s']) (use dropped in \<open>simp_all add: sv_simps\<close>)
qed

lemma bucket_good: "good (sv\<lparr>sv_ipBucket := b\<rparr>) = good sv"
proof -
  have "linked (sv\<lparr>sv_ipBucket := b\<rparr>) = linked sv" "tab (sv\<lparr>sv_ipBucket := b\<rparr>) = tab sv"
    by (simp_all add: linked_def tab_def)
  then show ?thesis by (simp add: good_def counted_def)
qed

lemma metric_change:
  assumes "change I sv sv'"
  shows "change I sv (count_metric f sv')"
  using assms
proof cases
  case same
  show ?thesis by (rule change.same) (use same in \<open>simp_all add: sv_simps\<close>)
next
  case (created s)
  show ?thesis by (rule change.created [of sv s]) (use created in \<open>simp_all add: sv_simps\<close>)
next
  case (changed sid r s')
  show ?thesis by (rule change.changed [of sv sid r s']) (use changed in \<open>simp_all add: sv_simps\<close>)
next
  case (dropped sid r s')
  show ?thesis by (rule change.dropped [of sv sid r _ s']) (use dropped in \<open>simp_all add: sv_simps\<close>)
qed

lemma change_refl: "change I sv sv"
  by (rule change.same) simp_all

lemma err_change: "change I sv (snd (err n m sv))"
  by (simp add: err_def change_refl)

lemma limited_change: "change I sv (snd (rate_limited sv))" "change I sv (snd (concurrency_limited sv))"
  by (simp_all add: rate_limited_def concurrency_limited_def err_def metric_change change_refl)

lemmas sv_cases = err_change limited_change change_refl

lemma token_ne:
  assumes "rn_token rnd \<noteq> Some []" "newRoleToken rnd = Some tok"
  shows "tok \<noteq> []"
proof -
  obtain bs where b: "rn_token rnd = Some bs" "tok = EncodeToString iceCredEnc bs"
    using assms(2) by (auto simp: newRoleToken_def)
  then have "0 < length bs" using assms(1) by simp
  then have "5 \<le> 8 * length bs + 4" by linarith
  then have "0 < length tok" by (simp add: b div_greater_zero_iff)
  then show ?thesis by simp
qed

lemma create_change:
  assumes "ValidateSlot slot = None" "sv_byID sv (rn_sid rnd) = None" "rn_sid rnd \<noteq> []" "rn_token rnd \<noteq> Some []"
    and "rn_sid rnd \<in> I"
  shows "change I sv (snd (create_locked env rq clk rnd slot sv))"
proof -
  obtain ok sv1 where a: "allowNewSession env (clientIP rq) (clk 0) sv = (ok, sv1)" by (metis surj_pair)
  obtain b where b: "sv1 = sv\<lparr>sv_ipBucket := b\<rparr>" using allowNewSession_frame [OF a] by blast
  have created: "change I sv1 (count_metric f (chargeIP (rateLimitKey env (clientIP rq))
      (insert_session (new_session env rq clk (rn_sid rnd) slot tok ice) sv1)))"
    if "sv_bySlot sv1 slot = None" "newRoleToken rnd = Some tok" for f tok ice
    by (rule change.created [where s = "new_session env rq clk (rn_sid rnd) slot tok ice"])
      (use that assms token_ne [OF _ that(2)] in
        \<open>simp_all add: sv_simps new_session_def zero_session_def session_ok_def weight_def b\<close>)
  have "change I sv1 (snd (create_locked env rq clk rnd slot sv))"
    using created
    by (auto simp: create_locked_def a Let_def sv_cases split: bool.splits option.splits)
  then show ?thesis unfolding b by (rule bucket_change)
qed

lemma createSession_change:
  "sv_byID sv (rn_sid rnd) = None \<Longrightarrow> rn_sid rnd \<noteq> [] \<Longrightarrow> rn_token rnd \<noteq> Some [] \<Longrightarrow> rn_sid rnd \<in> I \<Longrightarrow>
    change I sv (snd (createSession env rq clk rnd body sv))"
  by (simp add: createSession_def Let_def sv_cases create_change split: option.splits)

lemma close_after:
  assumes "\<not> ss_closed (sv_store sv r)"
  shows "close_waiters r sv = update_session r (\<lambda>s. s\<lparr>ss_closed := True\<rparr>) sv"
  using assms by (simp add: close_waiters_def)

lemma claim_change:
  assumes "sv_byID sv sid = Some r" "ss_State (sv_store sv r) = St_waiting" "session_ok (sv_store sv r)"
    and "key = rateLimitKey env (clientIP rq)"
  shows "change I sv (close_waiters r (count_metric f (chargeIP key (update_session r (pair_session env rq now tok ice) sv))))"
proof -
  let ?sv = "count_metric f (chargeIP key (update_session r (pair_session env rq now tok ice) sv))"
  let ?s = "(pair_session env rq now tok ice (sv_store sv r))\<lparr>ss_closed := True\<rparr>"
  have st: "sv_store ?sv r = pair_session env rq now tok ice (sv_store sv r)"
    by (simp add: count_metric_def chargeIP_def update_session_def)
  have open': "\<not> ss_closed (sv_store sv r)" "ss_ReceiverRateKey (sv_store sv r) = []"
    using assms(2,3) by (simp_all add: session_ok_def)
  then have c: "close_waiters r ?sv = update_session r (\<lambda>s. s\<lparr>ss_closed := True\<rparr>) ?sv"
    by (intro close_after) (simp add: st pair_session_def)
  show ?thesis
    unfolding c
  proof (rule change.changed [OF assms(1), where s' = ?s])
    show "evolves (sv_store sv r) ?s"
      using evolves.claim [OF assms(2)] by (simp add: pair_session_def)
    show "sess (update_session r (\<lambda>s. s\<lparr>ss_closed := True\<rparr>) ?sv) = sess (update_session r (\<lambda>_. ?s) sv)"
      by (simp add: sess_def update_session_def count_metric_def chargeIP_def)
    show "sv_ipCounts (update_session r (\<lambda>s. s\<lparr>ss_closed := True\<rparr>) ?sv) k =
        sv_ipCounts sv k - weight k (sv_store sv r) + weight k ?s" if "k \<noteq> []" for k
      using that open'(2) by (simp add: sv_simps weight_def pair_session_def assms(4))
  qed (simp add: sv_simps)
qed

lemma live_by_slot: "linked sv \<Longrightarrow> sv_bySlot sv slot = Some r \<Longrightarrow> \<exists>sid. sv_byID sv sid = Some r"
  using linked_ref' by blast

lemma good_live: "good sv \<Longrightarrow> sv_byID sv sid = Some r \<Longrightarrow> session_ok (sv_store sv r)"
  by (metis good_def ranI tab_live)

lemma join_change:
  assumes "good sv"
  shows "change I sv (snd (join_locked env rq clk rnd slot sv))"
proof -
  obtain ok sv1 where a: "allowNewSession env (clientIP rq) (clk 0) sv = (ok, sv1)" by (metis surj_pair)
  obtain b where b: "sv1 = sv\<lparr>sv_ipBucket := b\<rparr>" using allowNewSession_frame [OF a] by blast
  have g: "good sv1" using assms by (simp add: b bucket_good)
  have claimed: "change I sv1 (close_waiters r (count_metric f (chargeIP (rateLimitKey env (clientIP rq))
      (update_session r (pair_session env rq now tok ice) sv1))))"
    if r: "sv_bySlot sv1 slot = Some r" and w: "ss_State (sv_store sv1 r) = St_waiting" for r f now tok ice
  proof -
    obtain sid where "sv_byID sv1 sid = Some r" using live_by_slot [OF _ r] g by (auto simp: good_def)
    then show ?thesis using w g by (intro claim_change) (auto intro: good_live)
  qed
  have "change I sv1 (snd (join_locked env rq clk rnd slot sv))"
    using claimed
    by (auto simp: join_locked_def a Let_def sv_cases split: bool.splits option.splits)
  then show ?thesis unfolding b by (rule bucket_change)
qed

lemma heartbeat_change:
  assumes "sv_byID sv sid = Some r" "session_ok (sv_store sv r)"
  shows "change I sv (heartbeat env rq now r sv)"
proof (cases "ss_SenderRateKey (sv_store sv r) = []")
  case True
  let ?k = "rateLimitKey env (clientIP rq)"
  let ?s = "(sv_store sv r)\<lparr>ss_LastSeen := now, ss_SenderAddr := clientIP rq, ss_SenderRateKey := ?k\<rparr>"
  show ?thesis
  proof (rule change.changed [OF assms(1), where s' = ?s])
    show "evolves (sv_store sv r) ?s" using True by (rule evolves.located)
  qed (use True in \<open>simp_all add: heartbeat_def Let_def sess_def update_session_def chargeIP_def weight_def\<close>)
next
  case False
  let ?s = "(sv_store sv r)\<lparr>ss_LastSeen := now\<rparr>"
  show ?thesis
  proof (rule change.changed [OF assms(1), where s' = ?s])
    show "evolves (sv_store sv r) ?s" by (rule evolves.beat)
  qed (use False in \<open>simp_all add: heartbeat_def Let_def sess_def update_session_def chargeIP_def weight_def\<close>)
qed

lemma wait_change:
  assumes "good sv"
  shows "change I sv (snd (waitSession env rq clk slot sv))"
proof -
  obtain ok sv1 where a: "allowNewSession env (clientIP rq) (clk 0) sv = (ok, sv1)" by (metis surj_pair)
  obtain b where b: "sv1 = sv\<lparr>sv_ipBucket := b\<rparr>" using allowNewSession_frame [OF a] by blast
  have g: "good sv1" using assms by (simp add: b bucket_good)
  have beat: "change I sv1 (heartbeat env rq now r sv1)" if r: "sv_bySlot sv1 k = Some r" for k r now
  proof -
    obtain sid where "sv_byID sv1 sid = Some r" using live_by_slot [OF _ r] g by (auto simp: good_def)
    then show ?thesis using g by (intro heartbeat_change) (auto intro: good_live)
  qed
  have "change I sv1 (snd (waitSession env rq clk slot sv))"
    using beat
    by (auto simp: waitSession_def a Let_def sv_cases split: bool.splits option.splits)
  then show ?thesis unfolding b by (rule bucket_change)
qed

lemma push_change: "change I sv (snd (pushCandidates rq sid body sv))"
proof -
  have push: "change I sv (update_session r (add_candidates sd cs) sv)"
    if "sv_byID sv sid = Some r" "length (side_candidates sd (sv_store sv r)) + length cs \<le> maxCandidatesPerSide" for r sd cs
    by (rule change.changed [OF that(1) evolves.push [OF that(2)]])
      (simp_all add: sess_def update_session_def weight_def add_candidates_def split: side.splits)
  show ?thesis
    using push
    by (auto simp: pushCandidates_def sv_cases not_less split: option.splits)
qed

lemma pull_change: "change I sv (snd (pullCandidates rq sid since sv))"
  by (auto simp: pullCandidates_def sv_cases Let_def split: option.splits)

lemma release_counts:
  "k \<noteq> [] \<Longrightarrow> 0 < sv_ipCounts sv key \<or> k \<noteq> key \<Longrightarrow>
     sv_ipCounts (releaseIP key sv) k = sv_ipCounts sv k - of_bool (k = key)"
  by (auto simp: releaseIP_def Let_def)

lemma release_both:
  assumes "k \<noteq> []" "\<And>k. k \<noteq> [] \<Longrightarrow> weight k s \<le> sv_ipCounts sv k"
  shows "sv_ipCounts (releaseIP (ss_ReceiverRateKey s) (releaseIP (ss_SenderRateKey s) sv)) k = sv_ipCounts sv k - weight k s"
proof -
  let ?a = "ss_SenderRateKey s" and ?b = "ss_ReceiverRateKey s"
  have a: "0 < sv_ipCounts sv k" if "k = ?a" using assms(2) [OF assms(1)] that by (simp add: weight_def of_bool_def split: if_splits)
  have 1: "sv_ipCounts (releaseIP ?a sv) k = sv_ipCounts sv k - of_bool (k = ?a)"
    using a by (intro release_counts [OF assms(1)]) auto
  have b: "0 < sv_ipCounts (releaseIP ?a sv) k" if "k = ?b"
    using assms(2) [OF assms(1)] that 1 by (simp add: weight_def of_bool_def split: if_splits)
  have "sv_ipCounts (releaseIP ?b (releaseIP ?a sv)) k = sv_ipCounts (releaseIP ?a sv) k - of_bool (k = ?b)"
    using b by (intro release_counts [OF assms(1)]) auto
  with 1 show ?thesis by (simp add: weight_def eq_commute [of k])
qed

lemma good_weight:
  assumes "good sv" "sv_byID sv sid = Some r" "k \<noteq> []"
  shows "weight k (sv_store sv r) \<le> sv_ipCounts sv k"
proof -
  have "finite (dom (tab sv))" "sv_ipCounts sv k = sides k (tab sv)"
    using assms(1,3) by (simp_all add: good_def counted_def)
  then show ?thesis using weight_bound [of "tab sv" sid "sv_store sv r" k] tab_live [OF assms(2)] by simp
qed

lemma release_change:
  assumes "good sv" "sv_byID sv sid = Some r"
  shows "change I sv (releaseIP (ss_ReceiverRateKey (sv_store sv r))
      (releaseIP (ss_SenderRateKey (sv_store sv r)) (drop_session sid r sv)))"
proof (rule change.dropped [OF assms(2), where s' = "sv_store sv r"])
  show "sess (releaseIP (ss_ReceiverRateKey (sv_store sv r)) (releaseIP (ss_SenderRateKey (sv_store sv r)) (drop_session sid r sv))) =
      sess (update_session r (\<lambda>_. sv_store sv r) (drop_session sid r sv))"
    by (simp add: sv_simps) (simp add: sess_def update_session_def drop_session_def)
  show "sv_ipCounts (releaseIP (ss_ReceiverRateKey (sv_store sv r))
       (releaseIP (ss_SenderRateKey (sv_store sv r)) (drop_session sid r sv))) k =
      sv_ipCounts sv k - weight k (sv_store sv r)" if "k \<noteq> []" for k
    using release_both [OF that, of "sv_store sv r" "drop_session sid r sv"] good_weight [OF assms]
    by (simp add: sv_simps)
qed (simp add: sv_simps)

lemma consumed_change:
  assumes "change I sv sv'"
  shows "change I sv (sv'\<lparr>sv_consumed := c\<rparr>)"
  using assms
proof cases
  case same
  show ?thesis by (rule change.same) (use same in \<open>simp_all add: sv_simps\<close>)
next
  case (created s)
  show ?thesis by (rule change.created [of sv s]) (use created in \<open>simp_all add: sv_simps\<close>)
next
  case (changed sid r s')
  show ?thesis by (rule change.changed [of sv sid r s']) (use changed in \<open>simp_all add: sv_simps\<close>)
next
  case (dropped sid r s')
  show ?thesis by (rule change.dropped [of sv sid r _ s']) (use dropped in \<open>simp_all add: sv_simps\<close>)
qed

lemma delete_change: "good sv \<Longrightarrow> change I sv (snd (deleteSession rq clk sid consumed sv))"
  by (auto simp: deleteSession_def sv_cases Let_def release_change consumed_change split: option.splits)

lemma allocate_change: "change I sv (snd (allocateRelay env rq alloc body sv))"
proof -
  have tok: "change I sv (update_session r (\<lambda>s. s\<lparr>ss_relayToken := Some t\<rparr>) sv)"
    if "sv_byID sv sid = Some r" "ss_relayToken (sv_store sv r) = None" for sid r t
    by (rule change.changed [OF that(1) evolves.token [OF that(2), where t = t]])
      (simp_all add: sess_def update_session_def weight_def)
  show ?thesis
    using tok
    by (auto simp: allocateRelay_def sv_cases split: option.splits sum.splits alloc_error.splits)
qed

lemma relay_read_change:
  "change I sv (snd (relayStatus env rq status sid sv))" "change I sv (snd (relayWebSocket env rq sid sv))"
  by (auto simp: relayStatus_def relayWebSocket_def Let_def sv_cases split: option.splits)

text \<open>What the environment guarantees of an event: a new session's ID is not in the table.\<close>

definition event_ok :: "server_event \<Rightarrow> server \<Rightarrow> bool" where
  "event_ok ev sv \<longleftrightarrow>
     (case ev of
        Ev_request inp rq (R_create body) \<Rightarrow>
          sv_byID sv (rn_sid (or_rnd inp)) = None \<and> rn_sid (or_rnd inp) \<noteq> [] \<and> rn_token (or_rnd inp) \<noteq> Some []
      | _ \<Rightarrow> True)"

text \<open>The IDs an event may bring into the table.\<close>

definition issues :: "server_event \<Rightarrow> string set" where
  "issues ev =
     (case ev of
        Ev_request inp rq (R_create body) \<Rightarrow> {rn_sid (or_rnd inp)}
      | Ev_load now sss \<Rightarrow> set (map sd_ID sss)
      | _ \<Rightarrow> {})"

lemma dispatch_change:
  assumes "good sv" "event_ok (Ev_request inp rq rt) sv" "issues (Ev_request inp rq rt) \<subseteq> I"
  shows "change I sv (snd (dispatch env inp rq rt sv))"
  using assms
  by (cases rt)
    (simp_all add: dispatch_def event_ok_def issues_def createSession_change joinSession_def sv_cases join_change wait_change
      push_change pull_change delete_change allocate_change relay_read_change)

lemma request_change:
  assumes "good sv" "event_ok (Ev_request inp rq rt) sv" "issues (Ev_request inp rq rt) \<subseteq> I"
  shows "change I sv (snd (handle_request env inp rq rt sv))"
  using dispatch_change [OF assms]
  by (simp add: handle_request_def withServerAuth_def err_def metric_change change_refl)

lemma evict_one_change:
  assumes "good sv"
  shows "change I sv (evict_one env now sid sv)"
proof (cases "sv_byID sv sid")
  case None
  then show ?thesis by (simp add: evict_one_def change_refl)
next
  case (Some r)
  let ?s = "sv_store sv r"
  have ok: "session_ok ?s" by (rule good_live [OF assms Some])
  have waiting: "change I sv (close_waiters r (releaseIP (ss_SenderRateKey ?s) (drop_session sid r sv)))"
    if w: "ss_State ?s = St_waiting"
  proof -
    let ?d = "releaseIP (ss_SenderRateKey ?s) (drop_session sid r sv)"
    have r: "ss_ReceiverRateKey ?s = []" "\<not> ss_closed ?s" using ok w by (simp_all add: session_ok_def)
    then have "?d = releaseIP (ss_ReceiverRateKey ?s) ?d" by (simp add: releaseIP_def)
    then have cnt: "sv_ipCounts ?d k = sv_ipCounts sv k - weight k ?s" if "k \<noteq> []" for k
      using release_both [OF that, of ?s "drop_session sid r sv"] good_weight [OF assms Some] by (simp add: sv_simps)
    have st: "sv_store ?d = sv_store sv" by (simp add: releaseIP_def drop_session_def Let_def)
    have c: "close_waiters r ?d = update_session r (\<lambda>_. ?s\<lparr>ss_closed := True\<rparr>) ?d"
      using r by (simp add: close_waiters_def st) (simp add: update_session_def st)
    show ?thesis
      unfolding c
    proof (rule change.dropped [OF Some, where s' = "?s\<lparr>ss_closed := True\<rparr>"])
      show "sess (update_session r (\<lambda>_. ?s\<lparr>ss_closed := True\<rparr>) ?d) =
          sess (update_session r (\<lambda>_. ?s\<lparr>ss_closed := True\<rparr>) (drop_session sid r sv))"
        by (simp add: sess_def update_session_def releaseIP_def drop_session_def Let_def)
    qed (simp_all add: sv_simps cnt)
  qed
  show ?thesis
    using waiting release_change [OF assms Some]
    by (auto simp: evict_one_def Some Let_def change_refl split: session_state.splits)
qed

lemma changes_good: "(change I)\<^sup>*\<^sup>* sv sv' \<Longrightarrow> good sv \<Longrightarrow> good sv'"
  by (induction rule: rtranclp_induct) (auto intro: change_good)

lemma evict_changes:
  assumes "good sv"
  shows "(change I)\<^sup>*\<^sup>* sv (evict env now order sv)"
proof -
  have "(change I)\<^sup>*\<^sup>* sv (fold (evict_one env now) order sv)"
    using assms
  proof (induction order arbitrary: sv)
    case (Cons sid order)
    have c: "change I sv (evict_one env now sid sv)" by (rule evict_one_change [OF Cons.prems])
    from Cons.IH [OF change_good [OF c Cons.prems]] c show ?case
      by (simp add: converse_rtranclp_into_rtranclp)
  qed simp
  moreover have "change I s (expire_buckets now (expire_consumed now s))" for s
    by (rule change.same) (simp_all add: sess_def expire_buckets_def expire_consumed_def)
  ultimately show ?thesis unfolding evict_def by (rule rtranclp.rtrancl_into_rtrancl)
qed

lemma load_changes:
  "sd_ID ` set sss \<subseteq> I \<Longrightarrow> (change I)\<^sup>*\<^sup>* sv (snd (load_sessions env now sss n sv))"
proof (induction sss arbitrary: n sv)
  case (Cons ss sss)
  let ?r = "restored_session now ss"
  have c: "change I sv (insert_session ?r sv)"
    if "ValidateSlot (sd_Slot ss) = None" "sv_bySlot sv (sd_Slot ss) = None" "sv_byID sv (sd_ID ss) = None"
      "sd_ID ss \<noteq> []" "sd_SenderToken ss \<noteq> []"
    by (rule change.created [of sv ?r])
      (use that Cons.prems in \<open>simp_all add: restored_session_def zero_session_def session_ok_def weight_def sv_simps\<close>)
  show ?case
  proof (cases "snd (load_sessions env now (ss # sss) n sv) = snd (load_sessions env now sss n sv)")
    case True
    then show ?thesis using Cons by simp
  next
    case False
    then have "ValidateSlot (sd_Slot ss) = None" "sv_bySlot sv (sd_Slot ss) = None" "sv_byID sv (sd_ID ss) = None"
      "sd_ID ss \<noteq> []" "sd_SenderToken ss \<noteq> []"
      and l: "snd (load_sessions env now (ss # sss) n sv) = snd (load_sessions env now sss (Suc n) (insert_session ?r sv))"
      by (auto split: if_splits)
    then have "change I sv (insert_session ?r sv)" by (intro c)
    moreover have "(change I)\<^sup>*\<^sup>* (insert_session ?r sv) (snd (load_sessions env now sss (Suc n) (insert_session ?r sv)))"
      by (rule Cons.IH) (use Cons.prems in simp)
    ultimately show ?thesis unfolding l by (rule converse_rtranclp_into_rtranclp)
  qed
qed simp

lemma step_changes:
  assumes "good sv" "event_ok ev sv" "issues ev \<subseteq> I"
  shows "(change I)\<^sup>*\<^sup>* sv (server_step env ev sv)"
proof (cases ev)
  case (Ev_request inp rq rt)
  then show ?thesis using request_change [OF assms(1)] assms(2,3) by (auto simp: server_step_def)
next
  case (Ev_release)
  then show ?thesis by (auto simp: server_step_def ReleaseWaiters_def sess_def intro!: r_into_rtranclp change.same)
qed (use assms evict_changes load_changes in \<open>simp_all add: server_step_def issues_def\<close>)

interpretation pairing: invariant_machine "server_step env" event_ok good for env
  by unfold_locales (blast intro: changes_good step_changes [OF _ _ subset_refl])

lemma good_New: "good New"
  by (simp add: good_def New_def linked_def counted_def tab_def sides_def)

end
