(* ===== verification/Session_Claims.thy ===== *)
theory Session_Claims
  imports Session_Inv
begin

text \<open>
  The properties of the pairing server: the refinement of the abstract table and the invariant of
  every reachable state, that a code is claimed once and a waiting sender hears of its own receiver
  only, that an error answer leaves the sessions alone, the rate limit over every window, and codes
  that survive a restart.
\<close>

section \<open>Every reachable state\<close>

lemma changes_table: "(change I)\<^sup>*\<^sup>* sv sv' \<Longrightarrow> linked sv \<Longrightarrow> linked sv' \<and> table_step\<^sup>*\<^sup>* (tab sv) (tab sv')"
proof (induction rule: rtranclp_induct)
  case (step a b)
  then have a: "linked a" "table_step\<^sup>*\<^sup>* (tab sv) (tab a)" by auto
  from change_table [OF step(2) a(1)] a(2) show ?case
    by (auto intro: rtranclp.rtrancl_into_rtrancl)
qed simp

lemma run_table:
  assumes "run_ok (server_step env) event_ok sv es" "good sv"
  shows "table_step\<^sup>*\<^sup>* (tab sv) (tab (fold (server_step env) es sv))"
  using assms
proof (induction es arbitrary: sv)
  case (Cons e es)
  have c: "(change (issues e))\<^sup>*\<^sup>* sv (server_step env e sv)"
    using Cons.prems by (intro step_changes) auto
  have "good (server_step env e sv)" using changes_good [OF c Cons.prems(2)] .
  then have "table_step\<^sup>*\<^sup>* (tab (server_step env e sv)) (tab (fold (server_step env) (e # es) sv))"
    using Cons by simp
  moreover have "table_step\<^sup>*\<^sup>* (tab sv) (tab (server_step env e sv))"
    using changes_table [OF c] Cons.prems(2) by (simp add: good_def)
  ultimately show ?case by (rule rtranclp_trans [rotated])
qed simp

lemma good_slots:
  assumes "good sv" "tab sv a = Some s" "tab sv b = Some t" "ss_Slot s = ss_Slot t"
  shows "a = b"
proof -
  obtain r q where r: "sv_byID sv a = Some r" "s = sv_store sv r" and q: "sv_byID sv b = Some q" "t = sv_store sv q"
    using assms(2,3) by (auto simp: tab_def)
  have l: "linked sv" using assms(1) by (simp add: good_def)
  have "Some r = Some q"
    using linked_ref [OF l r(1)] linked_ref [OF l q(1)] assms(4) r(2) q(2) by (simp only:)
  then have "r = q" by simp
  then show ?thesis using linked_same [OF l r(1)] q(1) by simp
qed

section \<open>A small run\<close>

definition sample_env :: server_env where
  "sample_env =
     \<lparr>sx_cfg = config_default
        \<lparr>cf_ServerVersion = ''1'', cf_UnpairedTTL = 0, cf_AbandonedTTL = 0, cf_PairedTTL = 0, cf_LongPollTimeout = 0,
         cf_MaxSessionsPerIP = 2, cf_MaxNewSessionsPerMin = 30, cf_ServerPassword = [], cf_MinClientVersion = [],
         cf_RelayPublicAddr = []\<rparr>,
      sx_lower = id, sx_parse_ip = (\<lambda>_. None), sx_ip_text = (\<lambda>_. []), sx_relay = False, sx_forwarding = False,
      sx_relay_ws = False, sx_relay_port = 443, sx_relay_max = 0\<rparr>"

definition sample_request :: "string \<Rightarrow> string \<Rightarrow> request" where
  "sample_request addr auth =
     \<lparr>rq_Path = [], rq_RemoteAddr = addr, rq_Host = [], rq_Authorization = auth, rq_FsendAuth = [],
      rq_Protocol = ''3'', rq_UserAgent = []\<rparr>"

definition sample_inputs :: "time \<Rightarrow> string \<Rightarrow> byte \<Rightarrow> inputs" where
  "sample_inputs now sid b =
     \<lparr>or_clk = (\<lambda>_. now), or_rnd = \<lparr>rn_sid = sid, rn_token = Some [b], rn_ufrag = Some [b], rn_pwd = Some [b]\<rparr>,
      or_alloc = Inl Alloc_other, or_status = (\<lambda>_. []), or_healthy = True\<rparr>"

definition sample_slot :: string where
  "sample_slot = replicate 32 (CHR ''a'')"

definition sample_create :: server_event where
  "sample_create = Ev_request (sample_inputs 0 ''S1'' 1) (sample_request ''9:1'' []) (R_create (Some sample_slot))"

definition sample_join :: server_event where
  "sample_join = Ev_request (sample_inputs 5 ''S2'' 2) (sample_request ''8:1'' []) (R_join sample_slot)"

definition sample_state :: server where
  "sample_state = fold (server_step sample_env) [sample_create, sample_join] New"

lemma sample_slot_texts:
  "TrimSpace sample_slot = sample_slot" "ToLower lo sample_slot = sample_slot" "ValidateSlot sample_slot = None"
proof -
  show "TrimSpace sample_slot = sample_slot"
    by (rule TrimSpace_printable) (simp_all add: sample_slot_def list_all_iff)
  have "to_lower lo (of_char (CHR ''a'')) = of_char (CHR ''a'')" by (simp add: to_lower_def)
  then have "char_of (to_lower lo (of_char (CHR ''a''))) = CHR ''a''" by (simp only: char_of_char)
  then show "ToLower lo sample_slot = sample_slot"
    by (simp add: ToLower_def ascii_def sample_slot_def list_all_iff)
  show "ValidateSlot sample_slot = None"
    by (simp add: ValidateSlot_def sample_slot_def list_all_iff hex_class_def)
qed

lemma sample_client: "clientAllowed sample_env (sample_request a t)"
  by (simp add: clientAllowed_def sample_request_def sample_env_def config_default_def Atoi_def
      is_digit_def digits_value_def MinProtocolVersion_def)

lemma sample_key: "rateLimitKey sample_env a = a" "v6SiteKey sample_env a = []"
  by (simp_all add: rateLimitKey_def v6SiteKey_def sample_env_def)

lemma sample_ip: "clientIP (sample_request ''9:1'' t) = ''9''" "clientIP (sample_request ''8:1'' t) = ''8''"
  by (simp_all add: clientIP_def sample_request_def SplitHostPort_def last_index_of_def)

lemma sample_cfg:
  "cf_MaxNewSessionsPerMin (sx_cfg sample_env) = 30" "cf_MaxSessionsPerIP (sx_cfg sample_env) = 2"
  "cf_ServerPassword (sx_cfg sample_env) = []" "sx_lower sample_env = id"
  by (simp_all add: sample_env_def config_default_def)

lemma sample_bearer: "bearerToken (sample_request a (''Bearer '' @ t)) = t"
  by (simp add: bearerToken_def sample_request_def equal_fold_ascii_def)

definition sample_token :: "byte \<Rightarrow> string" where
  "sample_token b = EncodeToString iceCredEnc [b]"

definition sample_ice :: "byte \<Rightarrow> ice_creds" where
  "sample_ice b = \<lparr>ic_Ufrag = sample_token b, ic_Pwd = sample_token b\<rparr>"

lemma sample_random:
  "newRoleToken (or_rnd (sample_inputs n i b)) = Some (sample_token b)"
  "newIceCreds (or_rnd (sample_inputs n i b)) = Some (sample_ice b)"
  "rn_sid (or_rnd (sample_inputs n i b)) = i" "or_clk (sample_inputs n i b) k = n"
  by (simp_all add: newRoleToken_def newIceCreds_def sample_inputs_def sample_token_def sample_ice_def)

lemmas sample_simps =
  sample_slot_texts sample_client sample_key sample_ip sample_cfg sample_random

definition sample_waiting :: session where
  "sample_waiting = new_session sample_env (sample_request ''9:1'' []) (\<lambda>_. 0) ''S1'' sample_slot (sample_token 1) (sample_ice 1)"

lemma sample_created:
  "tab (server_step sample_env sample_create New) = [''S1'' \<mapsto> sample_waiting]"
  by (simp add: server_step_def sample_create_def handle_request_def dispatch_def createSession_def sample_simps
      create_locked_def allowNewSession_def charge_bucket_def bucket_allow_def keep_stamps_def capped_def isConsumed_def
      New_def count_metric_def chargeIP_def insert_session_def sample_waiting_def tab_def fun_eq_iff new_session_def Let_def)

lemma sample_run_ok: "run_ok (server_step sample_env) event_ok New [sample_create, sample_join]"
  by (simp add: event_ok_def sample_create_def sample_join_def sample_inputs_def New_def)

lemma sample_joined:
  "\<exists>s. tab sample_state ''S1'' = Some s \<and> ss_State s = St_paired \<and> ss_ReceiverAddr s = ''8'' \<and>
     ss_ReceiverICE s = sample_ice 2 \<and> ss_SenderToken s = sample_token 1"
  by (simp add: sample_state_def server_step_def sample_create_def sample_join_def handle_request_def dispatch_def
      createSession_def joinSession_def sample_simps join_locked_def pair_session_def close_waiters_def update_session_def
      create_locked_def allowNewSession_def charge_bucket_def bucket_allow_def keep_stamps_def capped_def isConsumed_def
      New_def count_metric_def chargeIP_def insert_session_def tab_def new_session_def Let_def zero_session_def)

section \<open>The claims\<close>



text \<open>
  C28. In every state the server reaches no channel was closed twice, slots are unique among the live
  sessions, the count of every address is exactly the number of live session sides that came from it,
  and every session is well formed: a valid slot, a closed channel if and only if it is paired, no
  receiver while it waits, at most 64 candidates a side.
\<close>

theorem pairing_invariant:
  assumes "run_ok (server_step env) event_ok New es" "sv = fold (server_step env) es New"
  shows "\<not> sv_panic sv \<and>
     (\<forall>key. key \<noteq> [] \<longrightarrow> sv_ipCounts sv key = sides key (tab sv)) \<and>
     (\<forall>a b s t. tab sv a = Some s \<and> tab sv b = Some t \<and> ss_Slot s = ss_Slot t \<longrightarrow> a = b) \<and>
     (\<forall>s \<in> ran (tab sv). session_ok s)"
proof -
  have "good sv" unfolding assms(2) by (rule pairing.inv_run [OF good_New assms(1)])
  then show ?thesis using good_slots [of sv] by (simp add: good_def counted_def)
qed

theorem pairing_invariant_witness:
  "sv_ipCounts sample_state ''9'' = sides ''9'' (tab sample_state) \<and> session_ok (the (tab sample_state ''S1''))"
proof -
  obtain s where "tab sample_state ''S1'' = Some s" using sample_joined by blast
  then have "s \<in> ran (tab sample_state)" by (rule ranI)
  with pairing_invariant [OF sample_run_ok sample_state_def] \<open>tab sample_state ''S1'' = Some s\<close> show ?thesis
    by simp
qed

section \<open>One receiver to a code\<close>

text \<open>What the table keeps of a session whose ID is not issued again.\<close>

definition same_pair :: "session \<Rightarrow> session \<Rightarrow> bool" where
  "same_pair s s' \<longleftrightarrow>
     ss_ID s' = ss_ID s \<and> ss_Slot s' = ss_Slot s \<and> ss_SenderToken s' = ss_SenderToken s \<and> ss_SenderICE s' = ss_SenderICE s \<and>
     (ss_State s = St_paired \<longrightarrow>
        ss_State s' = St_paired \<and> ss_ReceiverToken s' = ss_ReceiverToken s \<and> ss_ReceiverAddr s' = ss_ReceiverAddr s \<and>
        ss_ReceiverICE s' = ss_ReceiverICE s)"

lemma evolves_pair: "evolves s s' \<Longrightarrow> same_pair s s'"
  by (induction rule: evolves.induct) (auto simp: same_pair_def add_candidates_def split: side.splits)

lemma same_pair_trans: "same_pair a b \<Longrightarrow> same_pair b c \<Longrightarrow> same_pair a c"
  by (auto simp: same_pair_def)

text \<open>The session \<open>s\<close> under its ID and reference, as it has evolved, or gone.\<close>

definition follows :: "string \<Rightarrow> ref \<Rightarrow> session \<Rightarrow> server \<Rightarrow> bool" where
  "follows sid r s sv \<longleftrightarrow>
     (sv_byID sv sid = None \<or> sv_byID sv sid = Some r \<and> same_pair s (sv_store sv r))"

lemma change_follows:
  assumes "change I sv sv'" "linked sv" "sid \<notin> I" "follows sid r s sv"
  shows "follows sid r s sv'"
  using assms(1)
proof cases
  case same
  then show ?thesis using assms(4) by (simp add: follows_def sess_def)
next
  case (created n)
  have "ss_ID n \<noteq> sid" using created(8) assms(3) by auto
  moreover have "x \<noteq> sv_next sv" if "sv_byID sv sid = Some x" for x
    using linked_ID [OF assms(2) that] by auto
  ultimately show ?thesis using created(5) assms(4) by (auto simp: follows_def sess_def insert_session_def)
next
  case (changed k q n)
  then show ?thesis using assms(4) evolves_pair [OF changed(2)]
    by (auto simp: follows_def sess_def update_session_def intro: same_pair_trans)
next
  case (dropped k q n)
  show ?thesis
  proof (cases "k = sid")
    case True
    then show ?thesis using dropped(2) by (simp add: follows_def sess_def update_session_def drop_session_def)
  next
    case False
    then have "q \<noteq> x" if "sv_byID sv sid = Some x" for x
      using linked_same [OF assms(2) that, of k] dropped(1) by auto
    then show ?thesis using dropped(2) False assms(4)
      by (auto simp: follows_def sess_def update_session_def drop_session_def)
  qed
qed

lemma run_follows:
  assumes "run_ok (server_step env) event_ok sv es" "good sv" "\<forall>ev \<in> set es. sid \<notin> issues ev" "follows sid r s sv"
  shows "follows sid r s (fold (server_step env) es sv)"
  using assms
proof (induction es arbitrary: sv)
  case (Cons e es)
  have c: "(change (issues e))\<^sup>*\<^sup>* sv (server_step env e sv)"
    using Cons.prems by (intro step_changes) auto
  from c have "follows sid r s (server_step env e sv) \<and> linked (server_step env e sv)"
  proof (induction rule: rtranclp_induct)
    case base
    then show ?case using Cons.prems by (simp add: good_def)
  next
    case (step a b)
    then show ?case using change_follows [OF step(2)] change_table [OF step(2)] Cons.prems(3) by auto
  qed
  then show ?case using Cons changes_good [OF c] by simp
qed simp

text \<open>
  C5. A code has one receiver: from the moment a session is paired, whatever is asked of the server
  afterwards, the session under that ID has the same receiver, with the same address and credentials
  and the same tokens for both sides, until it is gone for good; no later join changes it.
\<close>

theorem claimed_once:
  assumes "run_ok (server_step env) event_ok sv es" "good sv" "\<forall>ev \<in> set es. sid \<notin> issues ev"
    and "tab sv sid = Some s" "ss_State s = St_paired" "sv' = fold (server_step env) es sv" "tab sv' sid = Some s'"
  shows "ss_State s' = St_paired \<and> ss_ReceiverToken s' = ss_ReceiverToken s \<and> ss_ReceiverAddr s' = ss_ReceiverAddr s \<and>
     ss_ReceiverICE s' = ss_ReceiverICE s \<and> ss_SenderToken s' = ss_SenderToken s \<and> ss_Slot s' = ss_Slot s"
proof -
  obtain r where r: "sv_byID sv sid = Some r" "s = sv_store sv r" using assms(4) by (auto simp: tab_def)
  then have "follows sid r s sv" by (simp add: follows_def same_pair_def)
  from run_follows [OF assms(1-3) this] have "same_pair s s'"
    using assms(7) unfolding assms(6) [symmetric] by (auto simp: follows_def tab_def)
  then show ?thesis using assms(5) by (simp add: same_pair_def)
qed

definition sample_join2 :: server_event where
  "sample_join2 = Ev_request (sample_inputs 9 ''S3'' 3) (sample_request ''7:1'' []) (R_join sample_slot)"

lemma sample_ip3: "clientIP (sample_request ''7:1'' t) = ''7''"
  by (simp add: clientIP_def sample_request_def SplitHostPort_def last_index_of_def)

text \<open>A second receiver of the same code changes nothing of the pairing.\<close>

lemma sample_rejected: "tab (fold (server_step sample_env) [sample_join2] sample_state) = tab sample_state"
  by (simp add: sample_state_def server_step_def sample_create_def sample_join_def sample_join2_def handle_request_def
      dispatch_def createSession_def joinSession_def sample_simps sample_ip3 join_locked_def pair_session_def close_waiters_def
      update_session_def create_locked_def allowNewSession_def charge_bucket_def bucket_allow_def keep_stamps_def
      capped_def isConsumed_def New_def count_metric_def chargeIP_def insert_session_def tab_def new_session_def
      err_def Let_def zero_session_def)

theorem claimed_once_witness:
  "\<exists>s. tab (fold (server_step sample_env) [sample_join2] sample_state) ''S1'' = Some s \<and> ss_ReceiverAddr s = ''8''"
proof -
  obtain s where s: "tab sample_state ''S1'' = Some s" "ss_State s = St_paired" "ss_ReceiverAddr s = ''8''"
    using sample_joined by blast
  let ?sv = "fold (server_step sample_env) [sample_join2] sample_state"
  have g: "good sample_state"
    unfolding sample_state_def by (rule pairing.inv_run [OF good_New sample_run_ok])
  have ok: "run_ok (server_step sample_env) event_ok sample_state [sample_join2]"
    by (simp add: event_ok_def sample_join2_def)
  have i: "\<forall>ev \<in> set [sample_join2]. ''S1'' \<notin> issues ev" by (simp add: issues_def sample_join2_def)
  obtain s' where "tab ?sv ''S1'' = Some s'" using sample_rejected s(1) by auto
  with claimed_once [OF ok g i s(1,2) refl this] s(3) show ?thesis by auto
qed

section \<open>A waiting sender hears of its own receiver\<close>

lemma wait_parks:
  assumes "waitSession env rq clk slot sv = (Inr pk, sv1)" "good sv"
  shows "\<exists>s. sv_byID sv1 (pk_sessID pk) = Some (pk_waiters pk) \<and> s = sv_store sv1 (pk_waiters pk) \<and>
     ss_SenderToken s = bearerToken rq \<and> ss_ID s = pk_sessID pk"
proof -
  obtain ok sv0 where a: "allowNewSession env (clientIP rq) (clk 0) sv = (ok, sv0)" by (metis surj_pair)
  obtain b where b: "sv0 = sv\<lparr>sv_ipBucket := b\<rparr>" using allowNewSession_frame [OF a] by blast
  have ok: "ok" using assms(1) by (cases ok) (auto simp: waitSession_def a Let_def rate_limited_def err_def)
  obtain r where r: "sv_bySlot sv0 (ToLower (sx_lower env) slot) = Some r"
    using assms(1) ok by (auto simp: waitSession_def a Let_def err_def split: option.splits)
  have side: "sideForToken (sv_store sv0 r) (bearerToken rq) = Some Sender_side"
    using assms(1) ok r by (auto simp: waitSession_def a Let_def err_def split: if_splits)
  have res: "sv1 = heartbeat env rq (clk 1) r sv0" "pk_waiters pk = r" "pk_sessID pk = ss_ID (sv_store sv1 r)"
    using assms(1) ok r side by (auto simp: waitSession_def a Let_def split: if_splits)
  have "sv_byID sv0 (ss_ID (sv_store sv0 r)) = Some r"
    using linked_ref' [of sv0 _ r] r assms(2) unfolding b by (simp add: good_def linked_def)
  moreover have "sv_byID sv1 = sv_byID sv0" "ss_ID (sv_store sv1 r) = ss_ID (sv_store sv0 r)"
    "ss_SenderToken (sv_store sv1 r) = ss_SenderToken (sv_store sv0 r)"
    unfolding res(1) by (simp_all add: heartbeat_def Let_def update_session_def chargeIP_def)
  moreover have "ss_SenderToken (sv_store sv0 r) = bearerToken rq"
    using side by (auto simp: sideForToken_def split: if_splits)
  ultimately show ?thesis using res by simp
qed

text \<open>
  Whatever happens while a sender's poll is parked - its session joined, swept away, its slot taken
  over by another session - an answer that names a peer names the receiver paired with the very
  session the poll was admitted to with that session's sender token.
\<close>

theorem wait_own_peer:
  assumes "waitSession env rq clk slot sv = (Inr pk, sv1)" "good sv"
    and "run_ok (server_step env) event_ok sv1 es" "\<forall>ev \<in> set es. pk_sessID pk \<notin> issues ev"
    and "sv2 = fold (server_step env) es sv1" "wake_enabled sv2 pk w" "wait_wake pk w sv2 = (st, WaitBody addr ice)"
  shows "\<exists>s. tab sv2 (pk_sessID pk) = Some s \<and> ss_State s = St_paired \<and> ss_SenderToken s = bearerToken rq \<and>
     addr = ss_ReceiverAddr s \<and> ice = ss_ReceiverICE s"
proof -
  let ?id = "pk_sessID pk" and ?r = "pk_waiters pk"
  define s0 where "s0 = sv_store sv1 ?r"
  have p: "sv_byID sv1 ?id = Some ?r" "ss_SenderToken s0 = bearerToken rq"
    using wait_parks [OF assms(1,2)] by (auto simp: s0_def)
  have g1: "good sv1" using wait_change [OF assms(2), of _ env rq clk slot] change_good assms(1,2) by fastforce
  then have g2: "good sv2" unfolding assms(5) by (rule pairing.inv_run [OF _ assms(3)])
  have f: "follows ?id ?r s0 sv2"
    unfolding assms(5) by (rule run_follows [OF assms(3) g1 assms(4)]) (simp add: follows_def p(1) s0_def same_pair_def)
  have w: "w = Waiters_closed" using assms(7) by (cases w) (auto simp: wait_wake_def)
  then obtain q where q: "sv_bySlot sv2 (pk_slot pk) = Some q" "ss_ID (sv_store sv2 q) = ?id"
    "addr = ss_ReceiverAddr (sv_store sv2 q)" "ice = ss_ReceiverICE (sv_store sv2 q)"
    using assms(7) by (auto simp: wait_wake_def split: option.splits if_splits)
  have live: "sv_byID sv2 ?id = Some q" using linked_ref' [OF _ q(1)] g2 q(2) by (simp add: good_def)
  then have qr: "q = ?r" and tok: "ss_SenderToken (sv_store sv2 q) = bearerToken rq"
    using f p(2) by (auto simp: follows_def same_pair_def)
  have "ss_closed (sv_store sv2 q)" using assms(6) w qr by (simp add: wake_enabled_def)
  then have "ss_State (sv_store sv2 q) = St_paired" using good_live [OF g2 live] by (simp add: session_ok_def)
  with tok q(3,4) tab_live [OF live] show ?thesis by blast
qed

lemma sample_token_ne: "sample_token b \<noteq> []"
proof -
  have "length (sample_token b) = 2" by (simp add: sample_token_def)
  then show ?thesis by auto
qed

definition sample_poll :: request where
  "sample_poll = sample_request ''9:2'' (''Bearer '' @ sample_token 1)"

definition sample_first :: server where
  "sample_first = fold (server_step sample_env) [sample_create] New"

lemma sample_ip_poll: "clientIP sample_poll = ''9''"
  by (simp add: sample_poll_def clientIP_def sample_request_def SplitHostPort_def last_index_of_def)

lemmas sample_eval =
  server_step_def sample_create_def sample_join_def handle_request_def dispatch_def createSession_def joinSession_def
  sample_simps join_locked_def pair_session_def close_waiters_def update_session_def create_locked_def
  allowNewSession_def charge_bucket_def bucket_allow_def keep_stamps_def capped_def isConsumed_def New_def
  count_metric_def chargeIP_def insert_session_def tab_def new_session_def Let_def zero_session_def

lemma sample_bearer_poll: "bearerToken sample_poll = sample_token 1"
  unfolding sample_poll_def by (rule sample_bearer)

lemma sample_parked:
  "\<exists>sv1. waitSession sample_env sample_poll (\<lambda>_. 3) sample_slot sample_first =
      (Inr \<lparr>pk_slot = sample_slot, pk_sessID = ''S1'', pk_waiters = 0\<rparr>, sv1) \<and>
    wait_wake \<lparr>pk_slot = sample_slot, pk_sessID = ''S1'', pk_waiters = 0\<rparr> Waiters_closed
      (server_step sample_env sample_join sv1) = (200, WaitBody ''8'' (sample_ice 2)) \<and>
    ss_closed (sv_store (server_step sample_env sample_join sv1) 0)"
  by (simp add: sample_first_def waitSession_def heartbeat_def sideForToken_def sample_bearer_poll
      sample_ip_poll sample_token_ne sample_eval wait_wake_def)

theorem wait_own_peer_witness:
  "\<exists>sv1 s. snd (waitSession sample_env sample_poll (\<lambda>_. 3) sample_slot sample_first) = sv1 \<and>
     tab (server_step sample_env sample_join sv1) ''S1'' = Some s \<and> ss_ReceiverAddr s = ''8''"
proof -
  let ?pk = "\<lparr>pk_slot = sample_slot, pk_sessID = ''S1'', pk_waiters = 0\<rparr>"
  obtain sv1 where p: "waitSession sample_env sample_poll (\<lambda>_. 3) sample_slot sample_first = (Inr ?pk, sv1)"
    and w: "wait_wake ?pk Waiters_closed (fold (server_step sample_env) [sample_join] sv1) = (200, WaitBody ''8'' (sample_ice 2))"
    and c: "ss_closed (sv_store (fold (server_step sample_env) [sample_join] sv1) 0)"
    using sample_parked by auto
  have g: "good sample_first"
    unfolding sample_first_def using sample_run_ok by (intro pairing.inv_run [OF good_New]) simp
  have r: "run_ok (server_step sample_env) event_ok sv1 [sample_join]"
    by (simp add: event_ok_def sample_join_def)
  have i: "\<forall>ev \<in> set [sample_join]. pk_sessID ?pk \<notin> issues ev" by (simp add: issues_def sample_join_def)
  have e: "wake_enabled (fold (server_step sample_env) [sample_join] sv1) ?pk Waiters_closed"
    using c by (simp add: wake_enabled_def)
  from wait_own_peer [OF p g r i refl e w] p show ?thesis by auto
qed

section \<open>Errors\<close>

text \<open>Nothing but rate limiting and metrics differs.\<close>

definition quiet :: "server \<Rightarrow> server \<Rightarrow> bool" where
  "quiet sv sv' \<longleftrightarrow>
     sess sv' = sess sv \<and> sv_ipCounts sv' = sv_ipCounts sv \<and> sv_consumed sv' = sv_consumed sv \<and>
     sv_stopping sv' = sv_stopping sv \<and> sv_panic sv' = sv_panic sv"

lemma quiet_err [simp]:
  "quiet sv sv" "quiet sv (count_metric f sv)" "quiet sv (sv\<lparr>sv_ipBucket := b\<rparr>)"
  "quiet sv (count_metric f (sv\<lparr>sv_ipBucket := b\<rparr>))"
  by (simp_all add: quiet_def sess_def count_metric_def)

text \<open>An answer is no error, or the handler was quiet.\<close>

definition harmless :: "server \<Rightarrow> response \<times> server \<Rightarrow> bool" where
  "harmless sv r \<longleftrightarrow> fst (fst r) < 400 \<or> quiet sv (snd r)"

lemma harmless_err [simp]:
  "harmless sv (err n m sv)" "harmless sv (rate_limited sv)" "harmless sv (concurrency_limited sv)"
  "harmless sv (err n m (sv\<lparr>sv_ipBucket := b\<rparr>))" "harmless sv (rate_limited (sv\<lparr>sv_ipBucket := b\<rparr>))"
  "harmless sv (concurrency_limited (sv\<lparr>sv_ipBucket := b\<rparr>))"
  "harmless sv ((200, bd), sv')" "harmless sv ((204, bd), sv')" "harmless sv ((101, bd), sv')"
  by (simp_all add: harmless_def err_def rate_limited_def concurrency_limited_def)

lemma create_harmless: "harmless sv (createSession env rq clk rnd body sv)"
proof -
  obtain ok sv1 where a: "allowNewSession env (clientIP rq) (clk 0) sv = (ok, sv1)" by (metis surj_pair)
  obtain b where b: "sv1 = sv\<lparr>sv_ipBucket := b\<rparr>" using allowNewSession_frame [OF a] by blast
  have "harmless sv (create_locked env rq clk rnd slot sv)" for slot
    by (simp add: create_locked_def a b Let_def create_answer_def split: bool.split option.split)
  then show ?thesis by (simp add: createSession_def Let_def split: option.split)
qed

lemma join_harmless: "harmless sv (joinSession env rq clk rnd slot sv)"
proof -
  obtain ok sv1 where a: "allowNewSession env (clientIP rq) (clk 0) sv = (ok, sv1)" by (metis surj_pair)
  obtain b where b: "sv1 = sv\<lparr>sv_ipBucket := b\<rparr>" using allowNewSession_frame [OF a] by blast
  show ?thesis
    by (simp add: joinSession_def join_locked_def a b Let_def join_answer_def split: bool.split option.split)
qed

lemma other_harmless:
  "harmless sv (pushCandidates rq sid cs sv)" "harmless sv (pullCandidates rq sid since sv)"
  "harmless sv (deleteSession rq clk sid consumed sv)" "harmless sv (allocateRelay env rq alloc body sv)"
  "harmless sv (relayStatus env rq status sid sv)" "harmless sv (relayWebSocket env rq sid sv)"
  by (simp_all add: pushCandidates_def pullCandidates_def deleteSession_def allocateRelay_def relayStatus_def
      relayWebSocket_def alloc_answer_def budget_answer_def Let_def split: option.split sum.split alloc_error.split)

lemma wait_harmless:
  assumes "waitSession env rq clk slot sv = (Inl r, sv')"
  shows "harmless sv (r, sv')"
proof -
  obtain ok sv1 where a: "allowNewSession env (clientIP rq) (clk 0) sv = (ok, sv1)" by (metis surj_pair)
  obtain b where b: "sv1 = sv\<lparr>sv_ipBucket := b\<rparr>" using allowNewSession_frame [OF a] by blast
  show ?thesis
    using assms
    by (auto simp: waitSession_def a b Let_def rate_limited_def err_def harmless_def split: bool.splits option.splits if_splits)
qed

lemma dispatch_harmless:
  assumes "dispatch env inp rq rt sv = (Inl r, sv')"
  shows "harmless sv (r, sv')"
proof -
  have inl: "apfst Inl x = (Inl r, sv') \<Longrightarrow> harmless sv x \<Longrightarrow> harmless sv (r, sv')"
    for x :: "response \<times> server" by (cases x) auto
  have same: "harmless sv (x, sv)" for sv :: server and x :: response by (simp add: harmless_def)
  show ?thesis
    using assms
    by (cases rt)
      (auto simp: dispatch_def readiness_def same dest!: inl
        intro: create_harmless join_harmless other_harmless wait_harmless)
qed

text \<open>
  C29. An error changes nothing: a request answered with a status of 400 or more - a bad body, a wrong
  token, a taken slot, an exhausted limit, failing randomness, a missing server password - leaves
  sessions, counts and used codes as they were. Where a server password is set, a request to anything
  but the four open paths that does not carry it gets 401.
\<close>

theorem error_changes_nothing:
  assumes "handle_request env inp rq rt sv = (Inl (st, bd), sv')"
  shows "(400 \<le> st \<longrightarrow> quiet sv sv') \<and>
     (cf_ServerPassword (sx_cfg env) \<noteq> [] \<and> rq_FsendAuth rq \<noteq> cf_ServerPassword (sx_cfg env) \<and>
        rq_Path rq \<notin> {''/health'', ''/healthz'', ''/readyz'', ''/''} \<longrightarrow> st = 401 \<and> quiet sv sv')"
proof (intro conjI impI)
  assume "400 \<le> st"
  then show "quiet sv sv'"
    using assms dispatch_harmless [of env inp rq rt sv "(st, bd)" sv']
    by (auto simp: handle_request_def withServerAuth_def err_def harmless_def split: if_splits)
qed (use assms in \<open>auto simp: handle_request_def withServerAuth_def err_def\<close>)

theorem error_changes_nothing_witness:
  "quiet sample_state (snd (handle_request sample_env (sample_inputs 9 [] 3) sample_poll (R_push ''S9'' (Some [])) sample_state))"
proof -
  let ?r = "handle_request sample_env (sample_inputs 9 [] 3) sample_poll (R_push ''S9'' (Some [])) sample_state"
  have "sv_byID sample_state ''S9'' = None" by (simp add: sample_state_def sample_eval)
  then have "?r = (Inl (404, ErrorBody ''session not found''), snd ?r)"
    by (simp add: handle_request_def sample_simps dispatch_def pushCandidates_def err_def)
  from error_changes_nothing [OF this] show ?thesis by simp
qed

section \<open>The rate limit\<close>

text \<open>
  One rate key over time: attempts (\<open>True\<close>) go through its bucket, the janitor's sweeps (\<open>False\<close>) prune
  it. The run returns the stamps of the attempts let through, latest last.
\<close>

fun bucket_run :: "int \<Rightarrow> time \<Rightarrow> (time \<times> bool) list \<Rightarrow> time list \<Rightarrow> time list" where
  "bucket_run limit window [] stamps = []"
| "bucket_run limit window ((now, attempt) # es) stamps =
     (if attempt then
        (case bucket_allow now limit window stamps of
           (ok, stamps1) \<Rightarrow> (if ok then [now] else []) @ bucket_run limit window es stamps1)
      else bucket_run limit window es (keep_stamps (now - window) stamps))"

definition in_window :: "time \<Rightarrow> time \<Rightarrow> time list \<Rightarrow> time list" where
  "in_window window t stamps = filter (\<lambda>a. t - window < a \<and> a \<le> t) stamps"

text \<open>The bucket holds what was let through after some time that has left the window.\<close>

lemma bucket_window:
  assumes "sorted (map fst es)" "\<forall>e \<in> set es. now \<le> fst e" "\<forall>a \<in> set past. a \<le> now" "c \<le> now - window" "0 \<le> limit"
    and "\<And>t. int (length (in_window window t past)) \<le> limit"
  shows "int (length (in_window window t (past @ bucket_run limit window es (keep_stamps c past)))) \<le> limit"
  using assms
proof (induction es arbitrary: now past c)
  case (Cons e es)
  obtain n attempt where e: "e = (n, attempt)" by (cases e) auto
  have n: "now \<le> n" "sorted (map fst es)" "\<forall>e \<in> set es. n \<le> fst e" using Cons.prems(1,2) by (auto simp: e)
  have k: "keep_stamps (n - window) (keep_stamps c past) = keep_stamps (n - window) past"
    using Cons.prems(4) n(1) by (auto simp: keep_stamps_def intro!: filter_cong)
  have old: "\<forall>a \<in> set past. a \<le> n" using Cons.prems(3) n(1) by auto
  consider (rest) "bucket_run limit window (e # es) (keep_stamps c past) = bucket_run limit window es (keep_stamps (n - window) past)"
    | (new) "bucket_run limit window (e # es) (keep_stamps c past) = n # bucket_run limit window es (keep_stamps (n - window) past @ [n])"
        "int (length (keep_stamps (n - window) past)) < limit"
    by (cases attempt; cases "limit \<le> int (length (keep_stamps (n - window) past))")
      (simp_all add: e bucket_allow_def Let_def k)
  then show ?case
  proof cases
    case rest
    show ?thesis
      unfolding rest by (rule Cons.IH [OF n(2,3) old _ Cons.prems(5,6)]) simp
  next
    case new
    have f: "keep_stamps (n - window - 1) (past @ [n]) = keep_stamps (n - window - 1) past @ [n]" if "0 \<le> window"
      using that by (simp add: keep_stamps_def)
    show ?thesis
    proof (cases "0 < window")
      case True
      then have snoc: "keep_stamps (n - window) past @ [n] = keep_stamps (n - window) (past @ [n])"
        by (simp add: keep_stamps_def)
      have "int (length (in_window window t (past @ [n]))) \<le> limit" for t
      proof (cases "n \<le> t \<and> t - window < n")
        case True
        have "in_window window t past = filter (\<lambda>a. t - window < a) (keep_stamps (n - window) past)"
          using old True by (auto simp: in_window_def keep_stamps_def intro!: filter_cong)
        then have "length (in_window window t past) \<le> length (keep_stamps (n - window) past)" by simp
        with new(2) show ?thesis using True by (simp add: in_window_def)
      next
        case False
        then show ?thesis using Cons.prems(6) [of t] by (auto simp: in_window_def)
      qed
      then show ?thesis
        unfolding new(1) snoc
        using Cons.IH [OF n(2,3), of "past @ [n]" "n - window"] old Cons.prems(5) by simp
    next
      case False
      then have "in_window window t xs = []" for xs by (auto simp: in_window_def)
      then show ?thesis using Cons.prems(5) by simp
    qed
  qed
qed simp

text \<open>
  C30. The rate limit holds over every window: with a clock that does not go back, however attempts and
  sweeps of the janitor interleave, at most \<open>limit\<close> attempts are let through in any span of the window's
  length, wherever it starts.
\<close>

theorem rate_limit_window:
  assumes "sorted (map fst es)" "0 \<le> limit"
  shows "int (length (in_window window t (bucket_run limit window es []))) \<le> limit"
proof (cases es)
  case (Cons e es')
  have "\<forall>x \<in> set es. fst e \<le> fst x" using assms(1) by (auto simp: Cons)
  from bucket_window [OF assms(1) this _ _ assms(2), of "[]" "fst e - window" window t]
  show ?thesis by (simp add: keep_stamps_def in_window_def assms(2))
qed (simp add: in_window_def assms(2))

theorem rate_limit_window_witness:
  "int (length (in_window 60 70 (bucket_run 2 60 [(1, True), (30, True), (50, True), (62, False), (70, True)] []))) \<le> 2 \<and>
     bucket_run 2 60 [(1, True), (30, True), (50, True), (62, False), (70, True)] [] = [1, 30, 70]"
  using rate_limit_window [of "[(1, True), (30, True), (50, True), (62, False), (70, True)]" 2 60 70]
  by (simp add: bucket_allow_def keep_stamps_def)

section \<open>Restarts\<close>

definition waits :: "server \<Rightarrow> string \<Rightarrow> bool" where
  "waits sv sid \<longleftrightarrow> map_option ss_State (tab sv sid) = Some St_waiting"

lemma save_sessions_eq:
  "save_sessions order sv = map (\<lambda>sid. save_session (the (tab sv sid))) (filter (waits sv) order)"
  by (induction order) (auto simp: waits_def tab_def split: option.splits)

lemma map_of_graph: "map_of (map (\<lambda>k. (k, f k)) ks) x = (if x \<in> set ks then Some (f x) else None)"
  by (induction ks) auto

lemma load_all:
  assumes "good sv" "\<forall>ss \<in> set sss. now - sd_CreatedAt ss \<le> cf_UnpairedTTL (sx_cfg env) \<and>
      ValidateSlot (sd_Slot ss) = None \<and> sd_ID ss \<noteq> [] \<and> sd_SenderToken ss \<noteq> [] \<and>
      sv_byID sv (sd_ID ss) = None \<and> sv_bySlot sv (sd_Slot ss) = None"
    and "distinct (map sd_ID sss)" "distinct (map sd_Slot sss)"
  shows "fst (load_sessions env now sss n sv) = n + length sss \<and>
     tab (snd (load_sessions env now sss n sv)) = tab sv ++ map_of (map (\<lambda>ss. (sd_ID ss, restored_session now ss)) sss)"
  using assms
proof (induction sss arbitrary: n sv)
  case (Cons ss sss)
  let ?r = "restored_session now ss" and ?m = "map_of (map (\<lambda>ss. (sd_ID ss, restored_session now ss)) sss)"
  have r: "ss_ID ?r = sd_ID ss" "ss_Slot ?r = sd_Slot ss" by (simp_all add: restored_session_def)
  have free: "sv_byID sv (ss_ID ?r) = None" "sv_bySlot sv (ss_Slot ?r) = None" using Cons.prems(2) by (simp_all add: r)
  have "change {sd_ID ss} sv (insert_session ?r sv)"
    by (rule change.created [of sv ?r])
      (use free Cons.prems(2) in \<open>simp_all add: restored_session_def zero_session_def session_ok_def weight_def sv_simps\<close>)
  then have g: "good (insert_session ?r sv)" using change_good Cons.prems(1) by blast
  have t: "tab (insert_session ?r sv) = (tab sv)(sd_ID ss \<mapsto> ?r)"
    using insert_linked(2) [OF _ free] Cons.prems(1) by (simp add: good_def r)
  have "\<forall>x \<in> set sss. sv_byID (insert_session ?r sv) (sd_ID x) = None \<and> sv_bySlot (insert_session ?r sv) (sd_Slot x) = None"
    using Cons.prems(2-4) by (auto simp: insert_session_def r image_iff)
  then have ih: "fst (load_sessions env now sss (Suc n) (insert_session ?r sv)) = Suc n + length sss"
    "tab (snd (load_sessions env now sss (Suc n) (insert_session ?r sv))) = tab (insert_session ?r sv) ++ ?m"
    using Cons.IH [of "insert_session ?r sv" "Suc n", OF g] Cons.prems(2-4) by auto
  have L: "load_sessions env now (ss # sss) n sv = load_sessions env now sss (Suc n) (insert_session ?r sv)"
    using Cons.prems(2) by simp
  have "sd_ID ss \<notin> dom ?m" using Cons.prems(3) by (simp add: dom_map_of_conv_image_fst image_image)
  then have "(tab sv)(sd_ID ss \<mapsto> ?r) ++ ?m = (tab sv ++ ?m)(sd_ID ss \<mapsto> ?r)" by (rule map_add_upd_left)
  then have E: "tab sv ++ map_of (map (\<lambda>ss. (sd_ID ss, restored_session now ss)) (ss # sss)) = tab (insert_session ?r sv) ++ ?m"
    by (simp only: t list.map map_of.simps fst_conv snd_conv map_add_upd)
  show ?case unfolding L E ih by simp
qed simp

definition saved_state :: "string list \<Rightarrow> server \<Rightarrow> state_file" where
  "saved_state order sv = \<lparr>sf_Version = stateVersion, sf_Sessions = save_sessions order sv\<rparr>"

text \<open>
  C31. A restart keeps every code a sender is still waiting on: what a shutdown saves of a reachable
  state, in whatever order it meets the sessions, the next process loads completely, as long as no code
  has outlived its time; exactly the waiting sessions come back, under their IDs, slots, tokens and
  credentials, and the file is gone.
\<close>

theorem restart_keeps_codes:
  assumes "\<And>data. st_marshal cd (saved_state order sv) = Some data \<Longrightarrow> st_unmarshal cd data = Some (saved_state order sv)"
    and "good sv" "set order = dom (sv_byID sv)" "distinct order"
    and "SaveState cd True order sv disk = ((n, True), Some data)"
    and "LoadState env cd True True now New (Some data) = (res, sv', disk')"
    and "\<forall>s \<in> ran (tab sv). ss_State s = St_waiting \<longrightarrow> now - ss_CreatedAt s \<le> cf_UnpairedTTL (sx_cfg env)"
  shows "res = (n, True) \<and> disk' = None \<and>
     tab sv' = (\<lambda>sid. if waits sv sid then Some (restored_session now (save_session (the (tab sv sid)))) else None)"
proof -
  let ?ids = "filter (waits sv) order" and ?save = "\<lambda>sid. save_session (the (tab sv sid))"
  let ?sss = "save_sessions order sv"
  have sss: "?sss = map ?save ?ids" by (rule save_sessions_eq)
  have at: "tab sv sid = Some (the (tab sv sid))" "ss_ID (the (tab sv sid)) = sid" "session_ok (the (tab sv sid))"
    "ss_State (the (tab sv sid)) = St_waiting" "the (tab sv sid) \<in> ran (tab sv)" if "waits sv sid" for sid
  proof -
    obtain s where s: "tab sv sid = Some s" "ss_State s = St_waiting" using \<open>waits sv sid\<close> by (auto simp: waits_def)
    show "tab sv sid = Some (the (tab sv sid))" "ss_State (the (tab sv sid)) = St_waiting"
      "the (tab sv sid) \<in> ran (tab sv)" "session_ok (the (tab sv sid))"
      using s assms(2) by (auto simp: good_def intro: ranI)
    show "ss_ID (the (tab sv sid)) = sid"
      using s linked_ID [of sv sid] assms(2) by (auto simp: good_def tab_def)
  qed
  have id: "map sd_ID ?sss = ?ids"
    unfolding sss map_map by (rule map_idI) (use at(2) in \<open>simp add: save_session_def\<close>)
  have slots: "distinct (map sd_Slot ?sss)"
    unfolding sss map_map distinct_map
  proof (intro conjI inj_onI)
    fix x y assume "x \<in> set ?ids" "y \<in> set ?ids" "(sd_Slot \<circ> ?save) x = (sd_Slot \<circ> ?save) y"
    then show "x = y" using good_slots [OF assms(2) at(1) at(1), of x y] by (simp add: save_session_def)
  qed (use assms(4) in simp)
  have valid: "\<forall>ss \<in> set ?sss. now - sd_CreatedAt ss \<le> cf_UnpairedTTL (sx_cfg env) \<and>
      ValidateSlot (sd_Slot ss) = None \<and> sd_ID ss \<noteq> [] \<and> sd_SenderToken ss \<noteq> [] \<and>
      sv_byID New (sd_ID ss) = None \<and> sv_bySlot New (sd_Slot ss) = None"
    using at(3-5) assms(7) by (auto simp: sss save_session_def session_ok_def New_def)
  have save: "st_marshal cd (saved_state order sv) = Some data" "n = length ?sss"
    using assms(5) by (auto simp: SaveState_def saved_state_def Let_def split: option.splits)
  have l: "fst (load_sessions env now ?sss 0 New) = length ?sss"
    "tab (snd (load_sessions env now ?sss 0 New)) = tab New ++ map_of (map (\<lambda>ss. (sd_ID ss, restored_session now ss)) ?sss)"
    using load_all [OF good_New valid, of 0] id assms(4) slots by simp_all
  have "map (\<lambda>ss. (sd_ID ss, restored_session now ss)) ?sss = map (\<lambda>sid. (sid, restored_session now (?save sid))) ?ids"
    using at(2) by (simp add: sss save_session_def)
  then have "map_of (map (\<lambda>ss. (sd_ID ss, restored_session now ss)) ?sss) sid =
      (if waits sv sid then Some (restored_session now (?save sid)) else None)" for sid
    using at(1) [of sid] assms(3) by (auto simp: map_of_graph tab_def)
  then show ?thesis
    using assms(6) save l assms(1) [OF save(1)]
    by (auto simp: LoadState_def saved_state_def tab_def New_def split: prod.splits)
qed

definition sample_codec :: state_codec where
  "sample_codec = \<lparr>st_marshal = (\<lambda>_. Some [1]), st_unmarshal = (\<lambda>_. Some (saved_state [''S1''] sample_first))\<rparr>"

lemma sample_first_tab:
  "tab sample_first = [''S1'' \<mapsto> sample_waiting]" "dom (sv_byID sample_first) = {''S1''}"
proof -
  show t: "tab sample_first = [''S1'' \<mapsto> sample_waiting]"
    by (simp add: sample_first_def sample_created)
  have "dom (sv_byID sample_first) = dom (tab sample_first)" by (auto simp: tab_def)
  then show "dom (sv_byID sample_first) = {''S1''}" by (simp add: t)
qed

lemma sample_waiting_fields: "ss_State sample_waiting = St_waiting" "ss_CreatedAt sample_waiting = 0"
  "ss_Slot sample_waiting = sample_slot"
  by (simp_all add: sample_waiting_def new_session_def zero_session_def)

theorem restart_keeps_codes_witness:
  "\<exists>s. tab (fst (snd (LoadState sample_env sample_codec True True 60 New (Some [1])))) ''S1'' = Some s \<and>
     ss_Slot s = sample_slot"
proof -
  obtain res sv' d where l: "LoadState sample_env sample_codec True True 60 New (Some [1]) = (res, sv', d)"
    by (metis surj_pair)
  have g: "good sample_first"
    unfolding sample_first_def using sample_run_ok by (intro pairing.inv_run [OF good_New]) simp
  have s: "SaveState sample_codec True [''S1''] sample_first None = ((1, True), Some [1])"
    using sample_first_tab
    by (simp add: SaveState_def sample_codec_def save_sessions_eq waits_def sample_waiting_fields del: save_sessions.simps)
  have "waits sample_first ''S1''" by (simp add: waits_def sample_first_tab sample_waiting_fields)
  then show ?thesis
    using restart_keeps_codes [of sample_codec "[''S1'']" sample_first, OF _ g _ _ s l] l
    by (simp add: sample_codec_def sample_first_tab sample_waiting_fields sample_env_def config_default_def
        restored_session_def save_session_def)
qed

end
