(* ===== verification/Relay_Frame.thy ===== *)
theory Relay_Frame
  imports Base32 Fs_Errors Session_Table
begin

text \<open>
  \<open>internal/relay/framing.go\<close> and \<open>conn.go\<close>: the datagrams of the relay and its client. A data frame is
  a version byte, the allocation's token and an opaque payload; a control frame has a fixed size
  and carries the registration handshake. The client is the connection QUIC runs on: it registers,
  wraps what it sends and unwraps what it receives. SHA-256 is an argument; a socket is the list of
  what it returns and an oracle for its writes.
\<close>

section \<open>Frames\<close>

type_synonym Token = bytes
type_synonym PeerID = bytes

definition HeaderSize :: nat where "HeaderSize = 17"
definition relay_version :: byte where "relay_version = 1"
definition TokenSize :: nat where "TokenSize = 16"
definition MaxDatagram :: nat where "MaxDatagram = 2048"
definition ControlVersion :: byte where "ControlVersion = 2"
definition PeerIDSize :: nat where "PeerIDSize = 8"
definition cookieSize :: nat where "cookieSize = 16"
definition ControlSize :: nat where "ControlSize = HeaderSize + 1 + PeerIDSize + cookieSize"
definition msgHello :: byte where "msgHello = 1"
definition msgChallenge :: byte where "msgChallenge = 2"
definition msgRegister :: byte where "msgRegister = 3"
definition msgRegistered :: byte where "msgRegistered = 4"

lemmas frame_consts = HeaderSize_def relay_version_def TokenSize_def MaxDatagram_def ControlVersion_def
  PeerIDSize_def cookieSize_def ControlSize_def

lemmas msg_types = msgHello_def msgChallenge_def msgRegister_def msgRegistered_def

definition token_string :: "Token \<Rightarrow> string" where
  "token_string t = EncodeToString TokenEncoding t"

definition ParseToken :: "string \<Rightarrow> Token option" where
  "ParseToken s =
     (case DecodeString TokenEncoding s of
        None \<Rightarrow> None
      | Some b \<Rightarrow> if length b \<noteq> TokenSize then None else Some b)"

text \<open>\<open>copy(out[i:], src)\<close>, which copies what fits.\<close>

definition copy_at :: "nat \<Rightarrow> bytes \<Rightarrow> bytes \<Rightarrow> bytes" where
  "copy_at i src out = take i out @ take (length out - i) src @ drop (i + length src) out"

text \<open>\<open>Frame\<close> panics (\<open>None\<close>) when the header does not fit the buffer.\<close>

definition Frame :: "bytes \<Rightarrow> Token \<Rightarrow> bytes \<Rightarrow> (nat \<times> bytes) option" where
  "Frame out token payload =
     (if length out < HeaderSize then None
      else Some (HeaderSize + length payload,
        copy_at HeaderSize payload (copy_at 1 (take TokenSize token) (out[0 := relay_version]))))"

definition Parse :: "bytes \<Rightarrow> (byte \<times> Token \<times> bytes) option" where
  "Parse datagram =
     (if length datagram < HeaderSize then None
      else Some (datagram ! 0, take TokenSize (drop 1 datagram), drop HeaderSize datagram))"

definition PeerIDFor :: "(bytes \<Rightarrow> bytes) \<Rightarrow> string \<Rightarrow> PeerID" where
  "PeerIDFor sha256 secret =
     copy_at 0 (sha256 (map byte_of_char (''fsend relay peer id'' @ [CHR 0x00] @ secret))) (replicate PeerIDSize 0)"

definition frameControl :: "Token \<Rightarrow> byte \<Rightarrow> PeerID \<Rightarrow> bytes option \<Rightarrow> bytes" where
  "frameControl token typ pid cookie =
     (let out = copy_at 1 (take TokenSize token) ((replicate ControlSize 0)[0 := ControlVersion]);
          out = copy_at (HeaderSize + 1) pid (out[HeaderSize := typ])
      in case cookie of None \<Rightarrow> out | Some c \<Rightarrow> copy_at (HeaderSize + 1 + PeerIDSize) c out)"

definition parseControl :: "bytes \<Rightarrow> (Token \<times> byte \<times> PeerID \<times> bytes) option" where
  "parseControl b =
     (if length b \<noteq> ControlSize \<or> b ! 0 \<noteq> ControlVersion then None
      else Some (take TokenSize (drop 1 b), b ! HeaderSize, take PeerIDSize (drop (HeaderSize + 1) b),
                 drop (HeaderSize + 1 + PeerIDSize) b))"

lemma length_copy_at [simp]: "i \<le> length out \<Longrightarrow> length (copy_at i src out) = length out"
  by (auto simp: copy_at_def)

lemma take_first [simp]: "0 < n \<Longrightarrow> take (Suc 0) ((replicate n a)[0 := x]) = [x]"
  by (cases n) simp_all

lemma frame_shape:
  assumes "length token = TokenSize"
  shows "Frame (replicate (HeaderSize + length p) 0) token p
       = Some (HeaderSize + length p, relay_version # token @ p)"
  using assms by (simp add: Frame_def copy_at_def frame_consts)

lemma parse_frame:
  assumes "length token = TokenSize"
  shows "Parse (relay_version # token @ p) = Some (relay_version, token, p)"
  using assms by (simp add: Parse_def frame_consts)

lemma control_shape:
  assumes "length token = TokenSize" "length pid = PeerIDSize"
  shows "frameControl token typ pid None = ControlVersion # token @ typ # pid @ replicate cookieSize 0"
    and "length c = cookieSize \<Longrightarrow>
         frameControl token typ pid (Some c) = ControlVersion # token @ typ # pid @ c"
  using assms by (simp_all add: frameControl_def copy_at_def frame_consts Let_def list_update_append
      eval_nat_numeral)

lemma length_frameControl [simp]: "length (frameControl token typ pid c) = ControlSize"
  by (simp add: frameControl_def Let_def frame_consts split: option.split)

lemma parse_control:
  assumes "length token = TokenSize" "length pid = PeerIDSize" "length c = cookieSize"
  shows "parseControl (ControlVersion # token @ typ # pid @ c) = Some (token, typ, pid, c)"
  using assms by (simp add: parseControl_def frame_consts nth_append)

lemma parse_frameControl:
  assumes "length token = TokenSize" "length pid = PeerIDSize"
  shows "parseControl (frameControl token typ pid None) = Some (token, typ, pid, replicate cookieSize 0)"
    and "length c = cookieSize \<Longrightarrow>
         parseControl (frameControl token typ pid (Some c)) = Some (token, typ, pid, c)"
  using assms by (simp_all add: control_shape parse_control)

lemma control_first: "parseControl b = Some r \<Longrightarrow> length b = ControlSize \<and> b ! 0 = ControlVersion"
  by (auto simp: parseControl_def split: if_splits)

lemma frameControl_first: "frameControl token typ pid c ! 0 = ControlVersion"
  by (auto simp: frameControl_def Let_def copy_at_def frame_consts nth_append split: option.split)

lemma token_alphabet: "alphabet_ok TokenEncoding"
  unfolding alphabet_ok_def TokenEncoding_def by (auto simp: nth_append)

lemma token_string_roundtrip: "length t = TokenSize \<Longrightarrow> ParseToken (token_string t) = Some t"
  by (simp add: ParseToken_def token_string_def base32_roundtrip token_alphabet)

section \<open>The client's connection\<close>

record relay_conn =
  rc_token :: Token
  rc_id :: PeerID
  rc_gotInbound :: bool
  rc_closed :: bool

definition NewClient :: "Token \<Rightarrow> PeerID \<Rightarrow> relay_conn" where
  "NewClient token random = \<lparr>rc_token = token, rc_id = random, rc_gotInbound = False, rc_closed = False\<rparr>"

definition WithPeerID :: "PeerID \<Rightarrow> relay_conn \<Rightarrow> relay_conn" where
  "WithPeerID pid c = c\<lparr>rc_id := pid\<rparr>"

definition conn_control :: "relay_conn \<Rightarrow> byte \<Rightarrow> bytes option \<Rightarrow> bytes" where
  "conn_control c typ cookie = frameControl (rc_token c) typ (rc_id c) cookie"

text \<open>
  \<open>Register\<close> reads the socket under a deadline: a datagram, a timeout with what the context says
  by then, or an error. \<open>wr k\<close> is the error of the \<open>k\<close>-th write. The result is the datagrams it wrote
  and how it returned; \<open>None\<close> is a call still waiting when the inputs end.
\<close>

datatype context_err = Ctx_alive | Ctx_cancelled | Ctx_expired

datatype reg_input = Reg_data bytes | Reg_timeout context_err | Reg_error goerr

datatype reg_result = Reg_done | Reg_no_reply | Reg_failed goerr

fun register_loop ::
  "relay_conn \<Rightarrow> (nat \<Rightarrow> goerr option) \<Rightarrow> bytes \<Rightarrow> bool \<Rightarrow> nat \<Rightarrow> reg_input list \<Rightarrow> bytes list \<times> reg_result option"
where
  "register_loop c wr msg send k inputs =
     (let out = if send then [msg] else []; k1 = if send then Suc k else k in
      case (if send then wr k else None) of
        Some e \<Rightarrow> (out, Some (Reg_failed e))
      | None \<Rightarrow>
          (case inputs of
             [] \<Rightarrow> (out, None)
           | Reg_error e # rest \<Rightarrow> (out, Some (Reg_failed e))
           | Reg_timeout Ctx_cancelled # rest \<Rightarrow> (out, Some (Reg_failed [CtxCanceled]))
           | Reg_timeout Ctx_expired # rest \<Rightarrow> (out, Some Reg_no_reply)
           | Reg_timeout Ctx_alive # rest \<Rightarrow> apfst ((@) out) (register_loop c wr msg True k1 rest)
           | Reg_data d # rest \<Rightarrow>
               (case parseControl (take MaxDatagram d) of
                  None \<Rightarrow> apfst ((@) out) (register_loop c wr msg False k1 rest)
                | Some (tok, typ, pid, cookie) \<Rightarrow>
                    if tok \<noteq> rc_token c then apfst ((@) out) (register_loop c wr msg False k1 rest)
                    else if typ = msgChallenge
                    then apfst ((@) out) (register_loop c wr (conn_control c msgRegister (Some cookie)) True k1 rest)
                    else if typ = msgRegistered \<and> pid = rc_id c then (out, Some Reg_done)
                    else apfst ((@) out) (register_loop c wr msg False k1 rest))))"

declare register_loop.simps [simp del]

definition Register :: "relay_conn \<Rightarrow> (nat \<Rightarrow> goerr option) \<Rightarrow> reg_input list \<Rightarrow> bytes list \<times> reg_result option" where
  "Register c wr inputs = register_loop c wr (conn_control c msgHello None) True 0 inputs"

text \<open>A tick of the keepalive: it ends once the connection is closed or the peer was heard.\<close>

definition keepalive_tick :: "relay_conn \<Rightarrow> bytes option" where
  "keepalive_tick c =
     (if rc_closed c \<or> rc_gotInbound c then None else Some (conn_control c msgHello None))"

definition conn_Close :: "relay_conn \<Rightarrow> bool \<times> relay_conn" where
  "conn_Close c = (if rc_closed c then (False, c) else (True, c\<lparr>rc_closed := True\<rparr>))"

text \<open>
  One turn of \<open>ReadFrom\<close> on what the socket put into the buffer of \<open>MaxDatagram + 1\<close> bytes, for a
  caller with room for \<open>m\<close> bytes: what it answers, and the payload it returns with.
\<close>

definition read_turn :: "nat \<Rightarrow> bytes \<Rightarrow> relay_conn \<Rightarrow> bytes option \<times> bytes option \<times> relay_conn" where
  "read_turn m b c =
     (if b \<noteq> [] \<and> b ! 0 = ControlVersion
      then (case parseControl b of
              Some (tok, typ, _, cookie) \<Rightarrow>
                if tok = rc_token c \<and> typ = msgChallenge
                then (Some (conn_control c msgRegister (Some cookie)), None, c) else (None, None, c)
            | None \<Rightarrow> (None, None, c))
      else (case Parse b of
              None \<Rightarrow> (None, None, c)
            | Some (ver, token, payload) \<Rightarrow>
                if ver \<noteq> relay_version \<or> token \<noteq> rc_token c then (None, None, c)
                else if length b = MaxDatagram + 1 \<or> m < length payload then (None, None, c)
                else (None, Some payload, c\<lparr>rc_gotInbound := True\<rparr>)))"

fun conn_ReadFrom :: "nat \<Rightarrow> (goerr + bytes) list \<Rightarrow> relay_conn \<Rightarrow> bytes list \<times> (goerr + bytes) option \<times> relay_conn" where
  "conn_ReadFrom m [] c = ([], None, c)"
| "conn_ReadFrom m (Inl e # rest) c = ([], Some (Inl e), c)"
| "conn_ReadFrom m (Inr d # rest) c =
     (case read_turn m (take (MaxDatagram + 1) d) c of
        (_, Some payload, c1) \<Rightarrow> ([], Some (Inr payload), c1)
      | (Some answer, None, c1) \<Rightarrow> apfst ((#) answer) (conn_ReadFrom m rest c1)
      | (None, None, c1) \<Rightarrow> conn_ReadFrom m rest c1)"

text \<open>\<open>WriteTo\<close>: the datagram handed to the socket, and the length reported for what the socket took.\<close>

definition conn_WriteTo :: "bytes \<Rightarrow> (bytes \<Rightarrow> goerr + nat) \<Rightarrow> relay_conn \<Rightarrow> bytes option \<times> (goerr + nat)" where
  "conn_WriteTo p wr c =
     (if MaxDatagram < length p + HeaderSize then (None, Inl [])
      else (case Frame (replicate (HeaderSize + length p) 0) (rc_token c) p of
          None \<Rightarrow> (None, Inl [])
        | Some (_, out) \<Rightarrow>
            (Some out, case wr out of
                Inl e \<Rightarrow> Inl e
              | Inr n \<Rightarrow> if n < HeaderSize then Inl [] else Inr (n - HeaderSize))))"

lemma conn_control_first: "conn_control c typ cookie \<noteq> [] \<and> conn_control c typ cookie ! 0 = ControlVersion"
  by (metis ControlSize_def conn_control_def frameControl_first length_frameControl add_is_0 list.size(3) one_neq_zero)

lemma write_read_turn:
  assumes "length (rc_token c) = TokenSize" "rc_token d = rc_token c"
    and "length p + HeaderSize \<le> MaxDatagram" "length p \<le> m"
  shows "conn_WriteTo p wr c = (Some (relay_version # rc_token c @ p),
           case wr (relay_version # rc_token c @ p) of Inl e \<Rightarrow> Inl e
             | Inr n \<Rightarrow> if n < HeaderSize then Inl [] else Inr (n - HeaderSize))"
    and "read_turn m (relay_version # rc_token c @ p) d = (None, Some p, d\<lparr>rc_gotInbound := True\<rparr>)"
  using assms
  by (simp_all add: conn_WriteTo_def frame_shape read_turn_def parse_frame)
    (simp_all add: frame_consts)

end
