(* ===== verification/Relay_Server.thy ===== *)
theory Relay_Server
  imports Relay_Frame
begin

text \<open>
  \<open>internal/relay/server.go\<close>, \<open>budget.go\<close> and the server's half of \<open>ws.go\<close>: allocations and their two
  peers, the registration handshake, forwarding under the per-session cap and the daily budget,
  STUN replies, tombstones and the janitor. An allocation is shared by the table and by the readers
  that looked it up, so it lives in a store under a reference. Forwarding a datagram takes a reader
  three atomic steps after it found the destination (\<open>task\<close>), between which other readers run;
  every other handler is one step. HMAC, the seeded hash of prefixes, the STUN library, randomness
  and the clock are arguments; times are Unix nanoseconds.
\<close>

section \<open>Addresses\<close>

record udp_addr =
  ua_IP :: bytes
  ua_Port :: int

definition v4_in_v6 :: bytes where "v4_in_v6 = replicate 10 0 @ [255, 255]"

definition IP_To4 :: "bytes \<Rightarrow> bytes option" where
  "IP_To4 ip =
     (if length ip = 4 then Some ip
      else if length ip = 16 \<and> take 12 ip = v4_in_v6 then Some (drop 12 ip) else None)"

definition IP_To16 :: "bytes \<Rightarrow> bytes" where
  "IP_To16 ip = (if length ip = 4 then v4_in_v6 @ ip else if length ip = 16 then ip else [])"

definition IP_Equal :: "bytes \<Rightarrow> bytes \<Rightarrow> bool" where
  "IP_Equal a b =
     (if length a = length b then a = b
      else if length a = 4 \<and> length b = 16 then take 12 b = v4_in_v6 \<and> a = drop 12 b
      else if length a = 16 \<and> length b = 4 then take 12 a = v4_in_v6 \<and> drop 12 a = b
      else False)"

definition udpEqual :: "udp_addr \<Rightarrow> udp_addr \<Rightarrow> bool" where
  "udpEqual a b \<longleftrightarrow> ua_Port a = ua_Port b \<and> IP_Equal (ua_IP a) (ua_IP b)"

text \<open>Where a peer receives: a UDP address or a WebSocket link, named by its reference.\<close>

datatype endpoint = Udp udp_addr | Ws nat

fun ep_is :: "endpoint \<Rightarrow> endpoint \<Rightarrow> bool" where
  "ep_is (Ws k) (Ws l) \<longleftrightarrow> k = l"
| "ep_is (Udp a) (Udp b) \<longleftrightarrow> udpEqual a b"
| "ep_is _ _ \<longleftrightarrow> False"

record peer =
  pe_id :: PeerID
  pe_ep :: endpoint

section \<open>The daily budget\<close>

record dayBudget =
  db_limit :: u64
  db_day :: int
  db_used :: u64

definition utc_day :: "time \<Rightarrow> int" where
  "utc_day now = now div 86400000000000 * 86400"

definition roll :: "time \<Rightarrow> dayBudget \<Rightarrow> dayBudget" where
  "roll now b = (if utc_day now \<noteq> db_day b then b\<lparr>db_day := utc_day now, db_used := 0\<rparr> else b)"

definition charge :: "time \<Rightarrow> u64 \<Rightarrow> dayBudget \<Rightarrow> bool \<times> dayBudget" where
  "charge now n b =
     (if db_limit b = 0 then (False, b)
      else let b1 = roll now b; b2 = b1\<lparr>db_used := db_used b1 + n\<rparr>
           in (db_limit b2 < db_used b2, b2))"

definition exhausted :: "time \<Rightarrow> dayBudget \<Rightarrow> bool \<times> dayBudget" where
  "exhausted now b =
     (if db_limit b = 0 then (False, b)
      else let b1 = roll now b in (db_limit b1 \<le> db_used b1, b1))"

definition usedToday :: "time \<Rightarrow> dayBudget \<Rightarrow> u64 \<times> dayBudget" where
  "usedToday now b = (let b1 = roll now b in (db_used b1, b1))"

section \<open>Allocations\<close>

record allocation =
  al_token :: Token
  al_p0 :: "peer option"
  al_p1 :: "peer option"
  al_bytes :: u64
  al_lastActivity :: time
  al_lastNudge :: time
  al_createdAt :: time
  al_dataCounted :: bool

definition has_id :: "PeerID \<Rightarrow> peer option \<Rightarrow> bool" where
  "has_id pid p = (case p of None \<Rightarrow> False | Some q \<Rightarrow> pe_id q = pid)"

definition alloc_register :: "PeerID \<Rightarrow> endpoint \<Rightarrow> allocation \<Rightarrow> bool \<times> allocation" where
  "alloc_register pid ep a =
     (let np = \<lparr>pe_id = pid, pe_ep = ep\<rparr> in
      if has_id pid (al_p0 a) then (True, a\<lparr>al_p0 := Some np\<rparr>)
      else if has_id pid (al_p1 a) then (True, a\<lparr>al_p1 := Some np\<rparr>)
      else if al_p0 a = None then (True, a\<lparr>al_p0 := Some np\<rparr>)
      else if al_p1 a = None then (True, a\<lparr>al_p1 := Some np\<rparr>)
      else (False, a))"

definition nudgeInterval :: int where "nudgeInterval = 100000000"

definition nudgeDue :: "time \<Rightarrow> allocation \<Rightarrow> bool \<times> allocation" where
  "nudgeDue now a =
     (if nudgeInterval \<le> now - al_lastNudge a then (True, a\<lparr>al_lastNudge := now\<rparr>) else (False, a))"

section \<open>The server\<close>

record relay_env =
  rx_cap :: u64
  rx_dayLimit :: u64
  rx_disabled :: bool
  rx_key :: bytes
  rx_hmac :: "bytes \<Rightarrow> bytes \<Rightarrow> bytes"
  rx_hash :: "bytes \<Rightarrow> u64"
  rx_isStun :: "bytes \<Rightarrow> bool"
  rx_isBinding :: "bytes \<Rightarrow> bool"
  rx_stunAnswer :: "bytes \<Rightarrow> udp_addr \<Rightarrow> bytes option"

record ws_link =
  wl_token :: Token
  wl_out :: "bytes list"
  wl_done :: bool

record tombstone =
  tb_reason :: string
  tb_expiresAt :: time

record relay =
  rl_allocs :: "Token \<rightharpoonup> nat"
  rl_store :: "nat \<Rightarrow> allocation"
  rl_next :: nat
  rl_tombstone :: "Token \<rightharpoonup> tombstone"
  rl_links :: "nat \<Rightarrow> ws_link"
  rl_nextLink :: nat
  rl_stunWindow :: time
  rl_stunCount :: int
  rl_stunPerSlot :: "nat \<Rightarrow> u16"
  rl_healthy :: bool
  rl_draining :: bool
  rl_budget :: dayBudget
  rl_bytesForwarded :: u64
  rl_peak :: u64
  rl_capped :: u64
  rl_transfers :: u64
  rl_oversize :: u64
  rl_tcpFallbacks :: u64

definition activeWindow :: int where "activeWindow = 3000000000"
definition stunResponsesPerSec :: int where "stunResponsesPerSec = 4000"
definition stunPerPrefixPerSec :: u16 where "stunPerPrefixPerSec = 100"
definition stunPrefixSlots :: nat where "stunPrefixSlots = 4096"
definition TombstoneTTL :: int where "TombstoneTTL = 300000000000"
definition sessionIdleTimeout :: int where "sessionIdleTimeout = 60000000000"
definition ReasonBudgetHit :: string where "ReasonBudgetHit = ''daily_budget''"
definition ReasonIdle :: string where "ReasonIdle = ''idle''"

definition zero_alloc :: allocation where
  "zero_alloc = \<lparr>al_token = [], al_p0 = None, al_p1 = None, al_bytes = 0, al_lastActivity = 0,
     al_lastNudge = 0, al_createdAt = 0, al_dataCounted = False\<rparr>"

text \<open>The zero \<open>time.Time\<close>, the first of January of the year one.\<close>

definition zero_time :: time where "zero_time = - 62135596800000000000"

definition NewServer :: "relay_env \<Rightarrow> relay" where
  "NewServer env =
     \<lparr>rl_allocs = Map.empty, rl_store = (\<lambda>_. zero_alloc), rl_next = 0, rl_tombstone = Map.empty,
      rl_links = (\<lambda>_. \<lparr>wl_token = [], wl_out = [], wl_done = True\<rparr>), rl_nextLink = 0,
      rl_stunWindow = zero_time, rl_stunCount = 0, rl_stunPerSlot = (\<lambda>_. 0), rl_healthy = True, rl_draining = False,
      rl_budget = \<lparr>db_limit = rx_dayLimit env, db_day = 0, db_used = 0\<rparr>, rl_bytesForwarded = 0, rl_peak = 0,
      rl_capped = 0, rl_transfers = 0, rl_oversize = 0, rl_tcpFallbacks = 0\<rparr>"

definition on_alloc :: "nat \<Rightarrow> (allocation \<Rightarrow> allocation) \<Rightarrow> relay \<Rightarrow> relay" where
  "on_alloc r f rv = rv\<lparr>rl_store := (rl_store rv)(r := f (rl_store rv r))\<rparr>"

definition Drain :: "relay \<Rightarrow> relay" where
  "Drain rv = rv\<lparr>rl_draining := True\<rparr>"

text \<open>\<open>toks\<close> are the keys of the table, in the order of the loop.\<close>

definition ActiveAllocations :: "time \<Rightarrow> Token list \<Rightarrow> relay \<Rightarrow> nat" where
  "ActiveAllocations now toks rv =
     length (filter (\<lambda>t. case rl_allocs rv t of
         None \<Rightarrow> False
       | Some r \<Rightarrow> now - activeWindow \<le> al_lastActivity (rl_store rv r)) toks)"

definition Status :: "Token \<Rightarrow> relay \<Rightarrow> string" where
  "Status t rv =
     (case rl_allocs rv t of
        Some _ \<Rightarrow> []
      | None \<Rightarrow> (case rl_tombstone rv t of Some e \<Rightarrow> tb_reason e | None \<Rightarrow> []))"

definition Forwarding :: "relay_env \<Rightarrow> bool" where
  "Forwarding env \<longleftrightarrow> \<not> rx_disabled env"

text \<open>\<open>Allocate\<close>: \<open>t1\<close> and \<open>t2\<close> are its two readings of the clock, \<open>rnd\<close> the random token.\<close>

datatype alloc_error = Draining | BudgetExhausted | RandFailed | TokenCollision

definition Allocate :: "time \<Rightarrow> time \<Rightarrow> Token option \<Rightarrow> relay \<Rightarrow> (alloc_error + Token) \<times> relay" where
  "Allocate t1 t2 rnd rv =
     (if rl_draining rv then (Inl Draining, rv)
      else (case exhausted t1 (rl_budget rv) of
          (True, b) \<Rightarrow> (Inl BudgetExhausted, rv\<lparr>rl_budget := b\<rparr>)
        | (False, b) \<Rightarrow>
            let rv1 = rv\<lparr>rl_budget := b\<rparr> in
            (case rnd of
               None \<Rightarrow> (Inl RandFailed, rv1)
             | Some t \<Rightarrow>
                 if rl_allocs rv1 t \<noteq> None then (Inl TokenCollision, rv1)
                 else (Inr t, rv1\<lparr>rl_store := (rl_store rv1)(rl_next rv1 :=
                          zero_alloc\<lparr>al_token := t, al_createdAt := t2, al_lastActivity := t2\<rparr>),
                        rl_allocs := (rl_allocs rv1)(t \<mapsto> rl_next rv1), rl_next := Suc (rl_next rv1)\<rparr>))))"

definition lookup_alloc :: "Token \<Rightarrow> relay \<Rightarrow> nat option" where
  "lookup_alloc t rv = rl_allocs rv t"

definition relay_evict :: "time \<Rightarrow> Token \<Rightarrow> string \<Rightarrow> relay \<Rightarrow> relay" where
  "relay_evict now t reason rv = rv
     \<lparr>rl_allocs := (rl_allocs rv)(t := None),
      rl_tombstone := (rl_tombstone rv)(t \<mapsto> \<lparr>tb_reason = reason, tb_expiresAt = now + TombstoneTTL\<rparr>)\<rparr>"

definition idle :: "time \<Rightarrow> relay \<Rightarrow> Token \<Rightarrow> bool" where
  "idle now rv t =
     (case rl_allocs rv t of
        None \<Rightarrow> False
      | Some r \<Rightarrow> al_lastActivity (rl_store rv r) < now - sessionIdleTimeout)"

definition sweep :: "time \<Rightarrow> relay \<Rightarrow> relay" where
  "sweep now rv =
     (let tomb = (\<lambda>t. if idle now rv t then Some \<lparr>tb_reason = ReasonIdle, tb_expiresAt = now + TombstoneTTL\<rparr>
                      else rl_tombstone rv t)
      in rv\<lparr>rl_allocs := (\<lambda>t. if idle now rv t then None else rl_allocs rv t),
            rl_tombstone := (\<lambda>t. case tomb t of
                None \<Rightarrow> None
              | Some e \<Rightarrow> if tb_expiresAt e < now then None else Some e)\<rparr>)"

section \<open>Replies\<close>

definition wsQueue :: nat where "wsQueue = 256"

text \<open>
  \<open>send\<close>: what goes out on the socket, or a copy in the link's queue. A full queue or an ended link
  drops it.
\<close>

definition relay_send :: "endpoint \<Rightarrow> bytes \<Rightarrow> relay \<Rightarrow> (udp_addr \<times> bytes) list \<times> relay" where
  "relay_send ep b rv =
     (case ep of
        Udp a \<Rightarrow> ([(a, b)], rv)
      | Ws l \<Rightarrow>
          let k = rl_links rv l in
          if wl_done k \<or> wsQueue \<le> length (wl_out k) then ([], rv)
          else ([], rv\<lparr>rl_links := (rl_links rv)(l := k\<lparr>wl_out := wl_out k @ [b]\<rparr>)\<rparr>))"

definition stunPrefix :: "bytes \<Rightarrow> bytes" where
  "stunPrefix ip =
     (case IP_To4 ip of
        Some v4 \<Rightarrow> take 3 v4
      | None \<Rightarrow> if length ip = 16 then take 6 ip else ip)"

definition stun_slot :: "relay_env \<Rightarrow> bytes \<Rightarrow> nat" where
  "stun_slot env ip = unat (rx_hash env (stunPrefix ip)) mod stunPrefixSlots"

definition new_window :: "time \<Rightarrow> relay \<Rightarrow> relay" where
  "new_window now rv =
     (if 1000000000 \<le> now - rl_stunWindow rv
      then rv\<lparr>rl_stunWindow := now, rl_stunCount := 0, rl_stunPerSlot := (\<lambda>_. 0)\<rparr> else rv)"

definition allowReply :: "relay_env \<Rightarrow> time \<Rightarrow> bytes \<Rightarrow> relay \<Rightarrow> bool \<times> relay" where
  "allowReply env now ip rv =
     (let rv1 = new_window now rv; k = stun_slot env ip in
      if stunResponsesPerSec \<le> rl_stunCount rv1 \<or> stunPerPrefixPerSec \<le> rl_stunPerSlot rv1 k then (False, rv1)
      else (True, rv1\<lparr>rl_stunCount := rl_stunCount rv1 + 1,
                       rl_stunPerSlot := (rl_stunPerSlot rv1)(k := rl_stunPerSlot rv1 k + 1)\<rparr>))"

definition handleSTUN :: "relay_env \<Rightarrow> time \<Rightarrow> bytes \<Rightarrow> udp_addr \<Rightarrow> relay \<Rightarrow> (udp_addr \<times> bytes) list \<times> relay" where
  "handleSTUN env now datagram src rv =
     (if \<not> rx_isStun env datagram then ([], rv)
      else (case allowReply env now (ua_IP src) rv of
          (False, rv1) \<Rightarrow> ([], rv1)
        | (True, rv1) \<Rightarrow>
            if \<not> rx_isBinding env datagram then ([], rv1)
            else (case rx_stunAnswer env datagram src of
                None \<Rightarrow> ([], rv1)
              | Some resp \<Rightarrow> ([(src, resp)], rv1))))"

section \<open>Registration\<close>

definition cookieLifetime :: int where "cookieLifetime = 30000000000"

definition cookieEpoch :: "time \<Rightarrow> u64" where
  "cookieEpoch now = word_of_int (now div cookieLifetime)"

definition cookie :: "relay_env \<Rightarrow> Token \<Rightarrow> udp_addr \<Rightarrow> u64 \<Rightarrow> bytes" where
  "cookie env tok src epoch =
     copy_at 0 (rx_hmac env (rx_key env)
         (be64 epoch @ tok @ IP_To16 (ua_IP src) @ be16 (word_of_int (ua_Port src))))
       (replicate cookieSize 0)"

definition cookieValid :: "relay_env \<Rightarrow> bytes \<Rightarrow> Token \<Rightarrow> udp_addr \<Rightarrow> time \<Rightarrow> bool" where
  "cookieValid env c tok src now \<longleftrightarrow>
     (let e = cookieEpoch now in c = cookie env tok src e \<or> c = cookie env tok src (e - 1))"

definition challenge ::
  "relay_env \<Rightarrow> Token \<Rightarrow> PeerID \<Rightarrow> udp_addr \<Rightarrow> time \<Rightarrow> relay \<Rightarrow> (udp_addr \<times> bytes) list \<times> relay" where
  "challenge env tok pid src now rv =
     (case allowReply env now (ua_IP src) rv of
        (False, rv1) \<Rightarrow> ([], rv1)
      | (True, rv1) \<Rightarrow>
          relay_send (Udp src) (frameControl tok msgChallenge pid (Some (cookie env tok src (cookieEpoch now)))) rv1)"

text \<open>Recording the source of a control frame, and the answer to it.\<close>

definition record_peer ::
  "Token \<Rightarrow> nat \<Rightarrow> PeerID \<Rightarrow> endpoint \<Rightarrow> time \<Rightarrow> relay \<Rightarrow> (udp_addr \<times> bytes) list \<times> relay" where
  "record_peer tok r pid src now rv =
     (case alloc_register pid src (rl_store rv r) of
        (False, _) \<Rightarrow> ([], rv)
      | (True, a) \<Rightarrow>
          relay_send src (frameControl tok msgRegistered pid None)
            (on_alloc r (\<lambda>_. a\<lparr>al_lastActivity := now\<rparr>) rv))"

definition handleControl ::
  "relay_env \<Rightarrow> time \<Rightarrow> bytes \<Rightarrow> endpoint \<Rightarrow> relay \<Rightarrow> (udp_addr \<times> bytes) list \<times> relay" where
  "handleControl env now b src rv =
     (case parseControl b of
        None \<Rightarrow> ([], rv)
      | Some (tok, typ, pid, ck) \<Rightarrow>
          (case lookup_alloc tok rv of
             None \<Rightarrow> ([], rv)
           | Some r \<Rightarrow>
               (case src of
                  Udp a \<Rightarrow>
                    if typ = msgHello then challenge env tok pid a now rv
                    else if typ = msgRegister \<and> cookieValid env ck tok a now
                    then record_peer tok r pid src now rv
                    else ([], rv)
                | Ws _ \<Rightarrow>
                    if typ = msgHello \<or> typ = msgRegister then record_peer tok r pid src now rv
                    else ([], rv))))"

section \<open>Forwarding\<close>

text \<open>
  A reader that found the destination of a datagram: it still has to charge the session, then the
  day, and then to count and send.
\<close>

datatype stage = To_charge | To_budget u64 | To_forward u64

record task =
  tk_alloc :: nat
  tk_token :: Token
  tk_dst :: endpoint
  tk_now :: time
  tk_data :: bytes
  tk_stage :: stage

text \<open>The destination for a source: outside \<open>None\<close> for a source that is not registered.\<close>

definition direction :: "allocation \<Rightarrow> endpoint \<Rightarrow> peer option option" where
  "direction a src =
     (if (case al_p0 a of None \<Rightarrow> False | Some p \<Rightarrow> ep_is (pe_ep p) src) then Some (al_p1 a)
      else if (case al_p1 a of None \<Rightarrow> False | Some p \<Rightarrow> ep_is (pe_ep p) src) then Some (al_p0 a)
      else None)"

definition nudge ::
  "relay_env \<Rightarrow> time \<Rightarrow> bytes \<Rightarrow> endpoint \<Rightarrow> Token \<Rightarrow> nat \<Rightarrow> relay \<Rightarrow> (udp_addr \<times> bytes) list \<times> relay" where
  "nudge env now datagram src tok r rv =
     (case src of
        Ws _ \<Rightarrow> ([], rv)
      | Udp a \<Rightarrow>
          if length datagram < ControlSize then ([], rv)
          else (case nudgeDue now (rl_store rv r) of
              (False, _) \<Rightarrow> ([], rv)
            | (True, al) \<Rightarrow> challenge env tok (replicate PeerIDSize 0) a now (on_alloc r (\<lambda>_. al) rv)))"

definition route_data ::
  "relay_env \<Rightarrow> time \<Rightarrow> bytes \<Rightarrow> endpoint \<Rightarrow> relay \<Rightarrow> (udp_addr \<times> bytes) list \<times> task option \<times> relay" where
  "route_data env now datagram src rv =
     (case Parse datagram of
        None \<Rightarrow> ([], None, rv)
      | Some (_, token, _) \<Rightarrow>
          (case lookup_alloc token rv of
             None \<Rightarrow> ([], None, rv)
           | Some r \<Rightarrow>
               (case direction (rl_store rv r) src of
                  None \<Rightarrow> (case nudge env now datagram src token r rv of (out, rv1) \<Rightarrow> (out, None, rv1))
                | Some dst \<Rightarrow>
                    let rv1 = on_alloc r (\<lambda>a. a\<lparr>al_lastActivity := now\<rparr>) rv in
                    (case dst of
                       None \<Rightarrow> ([], None, rv1)
                     | Some p \<Rightarrow> ([], Some \<lparr>tk_alloc = r, tk_token = token, tk_dst = pe_ep p, tk_now = now,
                                            tk_data = datagram, tk_stage = To_charge\<rparr>, rv1)))))"

definition begin_handle ::
  "relay_env \<Rightarrow> time \<Rightarrow> bytes \<Rightarrow> endpoint \<Rightarrow> relay \<Rightarrow> (udp_addr \<times> bytes) list \<times> task option \<times> relay" where
  "begin_handle env now datagram src rv =
     (case datagram of
        [] \<Rightarrow> ([], None, rv)
      | b # _ \<Rightarrow>
          if b = relay_version then (if rx_disabled env then ([], None, rv) else route_data env now datagram src rv)
          else if b = ControlVersion
          then (if rx_disabled env then ([], None, rv)
                else (case handleControl env now datagram src rv of (out, rv1) \<Rightarrow> (out, None, rv1)))
          else (case src of
              Udp a \<Rightarrow> (case handleSTUN env now datagram a rv of (out, rv1) \<Rightarrow> (out, None, rv1))
            | Ws _ \<Rightarrow> ([], None, rv)))"

definition wire_size :: "bytes \<Rightarrow> u64" where
  "wire_size d = of_nat (length d)"

text \<open>Adding to the session's bytes and the cap; \<open>clk\<close> is the clock an eviction reads.\<close>

definition charge_session :: "relay_env \<Rightarrow> time \<Rightarrow> task \<Rightarrow> relay \<Rightarrow> task option \<times> relay" where
  "charge_session env clk t rv =
     (let r = tk_alloc t; tot = al_bytes (rl_store rv r) + wire_size (tk_data t);
          rv1 = on_alloc r (\<lambda>a. a\<lparr>al_bytes := tot\<rparr>) rv
      in if 0 < rx_cap env \<and> rx_cap env < tot
         then (None, relay_evict clk (tk_token t) ReasonCapHit (rv1\<lparr>rl_capped := rl_capped rv1 + 1\<rparr>))
         else (Some (t\<lparr>tk_stage := To_budget tot\<rparr>), rv1))"

definition charge_day :: "time \<Rightarrow> task \<Rightarrow> u64 \<Rightarrow> relay \<Rightarrow> task option \<times> relay" where
  "charge_day clk t tot rv =
     (case charge (tk_now t) (wire_size (tk_data t)) (rl_budget rv) of
        (True, b) \<Rightarrow> (None, relay_evict clk (tk_token t) ReasonBudgetHit (rv\<lparr>rl_budget := b\<rparr>))
      | (False, b) \<Rightarrow> (Some (t\<lparr>tk_stage := To_forward tot\<rparr>), rv\<lparr>rl_budget := b\<rparr>))"

definition count_forward :: "task \<Rightarrow> u64 \<Rightarrow> relay \<Rightarrow> relay" where
  "count_forward t tot rv =
     (let r = tk_alloc t; rv1 = rv\<lparr>rl_bytesForwarded := rl_bytesForwarded rv + wire_size (tk_data t)\<rparr>;
          rv2 = (if al_dataCounted (rl_store rv1 r) then rv1
                 else on_alloc r (\<lambda>a. a\<lparr>al_dataCounted := True\<rparr>) (rv1\<lparr>rl_transfers := rl_transfers rv1 + 1\<rparr>))
      in rv2\<lparr>rl_peak := max tot (rl_peak rv2)\<rparr>)"

definition task_step ::
  "relay_env \<Rightarrow> time \<Rightarrow> task \<Rightarrow> relay \<Rightarrow> (udp_addr \<times> bytes) list \<times> task option \<times> relay" where
  "task_step env clk t rv =
     (case tk_stage t of
        To_charge \<Rightarrow> ([], charge_session env clk t rv)
      | To_budget tot \<Rightarrow> ([], charge_day clk t tot rv)
      | To_forward tot \<Rightarrow>
          (case relay_send (tk_dst t) (tk_data t) (count_forward t tot rv) of (out, rv1) \<Rightarrow> (out, None, rv1)))"

definition then_step ::
  "relay_env \<Rightarrow> time \<Rightarrow> (udp_addr \<times> bytes) list \<times> task option \<times> relay \<Rightarrow> (udp_addr \<times> bytes) list \<times> task option \<times> relay" where
  "then_step env clk x =
     (case x of
        (out, None, rv) \<Rightarrow> (out, None, rv)
      | (out, Some t, rv) \<Rightarrow> apfst ((@) out) (task_step env clk t rv))"

text \<open>A whole call of \<open>handle\<close> that no other reader interrupts.\<close>

definition handle ::
  "relay_env \<Rightarrow> time \<Rightarrow> time \<Rightarrow> bytes \<Rightarrow> endpoint \<Rightarrow> relay \<Rightarrow> (udp_addr \<times> bytes) list \<times> relay" where
  "handle env now clk datagram src rv =
     (case then_step env clk (then_step env clk (then_step env clk (begin_handle env now datagram src rv))) of
        (out, _, rv1) \<Rightarrow> (out, rv1))"

section \<open>The readers\<close>

text \<open>
  One UDP reader, over what the socket returns until the context ends. It gives up on a closed
  socket and after \<open>maxReadErrors\<close> errors in a row; the result says whether it failed.
\<close>

definition maxReadErrors :: nat where "maxReadErrors = 100"

datatype sock_result =
    Sk_data bytes udp_addr time time
  | Sk_other_addr bytes
  | Sk_too_long
  | Sk_error bool
  | Sk_stop

fun readLoop ::
  "relay_env \<Rightarrow> nat \<Rightarrow> sock_result list \<Rightarrow> relay \<Rightarrow> (udp_addr \<times> bytes) list \<times> bool option \<times> relay" where
  "readLoop env errs [] rv = ([], None, rv)"
| "readLoop env errs (Sk_stop # rest) rv = ([], Some True, rv)"
| "readLoop env errs (Sk_too_long # rest) rv = readLoop env errs rest (rv\<lparr>rl_oversize := rl_oversize rv + 1\<rparr>)"
| "readLoop env errs (Sk_error closed # rest) rv =
     (if closed \<or> maxReadErrors < Suc errs then ([], Some False, rv\<lparr>rl_healthy := False\<rparr>)
      else readLoop env (Suc errs) rest rv)"
| "readLoop env errs (Sk_other_addr d # rest) rv =
     (if MaxDatagram < length d then readLoop env 0 rest (rv\<lparr>rl_oversize := rl_oversize rv + 1\<rparr>)
      else readLoop env 0 rest rv)"
| "readLoop env errs (Sk_data d a now clk # rest) rv =
     (if MaxDatagram < length d then readLoop env 0 rest (rv\<lparr>rl_oversize := rl_oversize rv + 1\<rparr>)
      else (case handle env now clk d (Udp a) rv of
          (out, rv1) \<Rightarrow> apfst ((@) out) (readLoop env 0 rest rv1)))"

text \<open>A WebSocket link: upgrading, a message read, its end, and its writer taking from the queue.\<close>

definition ServeWS :: "relay_env \<Rightarrow> Token \<Rightarrow> relay \<Rightarrow> (nat + nat) \<times> relay" where
  "ServeWS env tok rv =
     (if rx_disabled env then (Inl 503, rv)
      else if lookup_alloc tok rv = None then (Inl 410, rv)
      else (Inr (rl_nextLink rv), rv
         \<lparr>rl_tcpFallbacks := rl_tcpFallbacks rv + 1,
          rl_links := (rl_links rv)(rl_nextLink rv := \<lparr>wl_token = tok, wl_out = [], wl_done = False\<rparr>),
          rl_nextLink := Suc (rl_nextLink rv)\<rparr>))"

definition ws_end :: "nat \<Rightarrow> relay \<Rightarrow> relay" where
  "ws_end l rv = rv\<lparr>rl_links := (rl_links rv)(l := (rl_links rv l)\<lparr>wl_done := True\<rparr>)\<rparr>"

text \<open>What the link's loop does with a message: nothing, end the link, or hand it to \<open>handle\<close>.\<close>

datatype ws_action = Ws_skip | Ws_end | Ws_handle

definition ws_read :: "nat \<Rightarrow> bool \<Rightarrow> bytes \<Rightarrow> relay \<Rightarrow> ws_action" where
  "ws_read l binary msg rv =
     (let tok = wl_token (rl_links rv l) in
      if MaxDatagram < length msg then Ws_end
      else if \<not> binary \<or> length msg < HeaderSize \<or> take TokenSize (drop 1 msg) \<noteq> tok then Ws_skip
      else if lookup_alloc tok rv = None then Ws_end
      else Ws_handle)"

definition ws_write :: "nat \<Rightarrow> relay \<Rightarrow> bytes option \<times> relay" where
  "ws_write l rv =
     (let k = rl_links rv l in
      case wl_out k of
        [] \<Rightarrow> (None, rv)
      | b # rest \<Rightarrow>
          if wl_done k then (None, rv)
          else (Some b, rv\<lparr>rl_links := (rl_links rv)(l := k\<lparr>wl_out := rest\<rparr>)\<rparr>))"

section \<open>The relay as a machine\<close>

text \<open>
  Any number of readers and links at once. A datagram starts a handler; a forwarding handler is a
  task that advances on its own, and the trace keeps what was forwarded. An index out of range and
  an event of a link that is not there change nothing.
\<close>

datatype relay_event =
    E_udp time bytes udp_addr
  | E_ws time bool bytes nat
  | E_task nat time
  | E_allocate time time "Token option"
  | E_sweep time
  | E_drain
  | E_open Token
  | E_close nat
  | E_write nat

record relay_run =
  rr_relay :: relay
  rr_tasks :: "task list"
  rr_trace :: "task list"
  rr_sent :: "(udp_addr \<times> bytes) list"

definition start_handler :: "(udp_addr \<times> bytes) list \<times> task option \<times> relay \<Rightarrow> relay_run \<Rightarrow> relay_run" where
  "start_handler x s =
     (case x of (out, t, rv) \<Rightarrow>
        s\<lparr>rr_relay := rv, rr_tasks := rr_tasks s @ (case t of None \<Rightarrow> [] | Some u \<Rightarrow> [u]), rr_sent := rr_sent s @ out\<rparr>)"

definition advance :: "relay_env \<Rightarrow> nat \<Rightarrow> time \<Rightarrow> relay_run \<Rightarrow> relay_run" where
  "advance env i clk s =
     (if i < length (rr_tasks s)
      then (let t = rr_tasks s ! i in
            case task_step env clk t (rr_relay s) of
              (out, u, rv) \<Rightarrow> s
                \<lparr>rr_relay := rv,
                 rr_tasks := take i (rr_tasks s) @ (case u of None \<Rightarrow> [] | Some v \<Rightarrow> [v]) @ drop (Suc i) (rr_tasks s),
                 rr_trace := rr_trace s @ (case tk_stage t of To_forward _ \<Rightarrow> [t] | _ \<Rightarrow> []),
                 rr_sent := rr_sent s @ out\<rparr>)
      else s)"

fun relay_step :: "relay_env \<Rightarrow> relay_event \<Rightarrow> relay_run \<Rightarrow> relay_run" where
  "relay_step env (E_udp now d a) s =
     (if MaxDatagram < length d
      then s\<lparr>rr_relay := (rr_relay s)\<lparr>rl_oversize := rl_oversize (rr_relay s) + 1\<rparr>\<rparr>
      else start_handler (begin_handle env now d (Udp a) (rr_relay s)) s)"
| "relay_step env (E_ws now binary d l) s =
     (if wl_done (rl_links (rr_relay s) l) then s
      else (case ws_read l binary d (rr_relay s) of
          Ws_skip \<Rightarrow> s
        | Ws_end \<Rightarrow> s\<lparr>rr_relay := ws_end l (rr_relay s)\<rparr>
        | Ws_handle \<Rightarrow> start_handler (begin_handle env now d (Ws l) (rr_relay s)) s))"
| "relay_step env (E_task i clk) s = advance env i clk s"
| "relay_step env (E_allocate t1 t2 rnd) s = s\<lparr>rr_relay := snd (Allocate t1 t2 rnd (rr_relay s))\<rparr>"
| "relay_step env (E_sweep now) s = s\<lparr>rr_relay := sweep now (rr_relay s)\<rparr>"
| "relay_step env E_drain s = s\<lparr>rr_relay := Drain (rr_relay s)\<rparr>"
| "relay_step env (E_open tok) s = s\<lparr>rr_relay := snd (ServeWS env tok (rr_relay s))\<rparr>"
| "relay_step env (E_close l) s = s\<lparr>rr_relay := ws_end l (rr_relay s)\<rparr>"
| "relay_step env (E_write l) s = s\<lparr>rr_relay := snd (ws_write l (rr_relay s))\<rparr>"

definition relay_init :: "relay_env \<Rightarrow> relay_run" where
  "relay_init env = \<lparr>rr_relay = NewServer env, rr_tasks = [], rr_trace = [], rr_sent = []\<rparr>"

end
