(* ===== verification/Relay_Claims.thy ===== *)
theory Relay_Claims
  imports Relay_Server
begin

text \<open>
  What the relay guarantees whatever arrives and however its readers interleave: no session forwards
  more than its cap and no UTC day more than the budget; nothing is sent to an address that did not
  ask for it or prove that it receives; and two clients that register get their datagrams through.
\<close>

section \<open>What the handlers leave alone\<close>

text \<open>Handlers that neither charge bytes nor make allocations.\<close>

definition quiet :: "relay \<Rightarrow> relay \<Rightarrow> bool" where
  "quiet rv rv' \<longleftrightarrow> rl_next rv' = rl_next rv \<and> rl_budget rv' = rl_budget rv \<and>
     (\<forall>tok r. rl_allocs rv' tok = Some r \<longrightarrow> rl_allocs rv tok = Some r) \<and>
     (\<forall>r. al_bytes (rl_store rv' r) = al_bytes (rl_store rv r) \<and> al_token (rl_store rv' r) = al_token (rl_store rv r))"

named_theorems quiets

lemma quiet_refl [simp, quiets]: "quiet rv rv"
  by (simp add: quiet_def)

lemma quiet_trans: "quiet a b \<Longrightarrow> quiet b c \<Longrightarrow> quiet a c"
  by (simp add: quiet_def)

lemma quiet_on_alloc:
  "(\<And>a. al_bytes (f a) = al_bytes a \<and> al_token (f a) = al_token a) \<Longrightarrow> quiet rv (on_alloc r f rv)"
  by (auto simp: quiet_def on_alloc_def)

lemma quiet_send [quiets]: "quiet rv (snd (relay_send ep b rv))"
  by (auto simp: relay_send_def quiet_def Let_def split: endpoint.split)

lemma quiet_allowReply [quiets]: "quiet rv (snd (allowReply env now ip rv))"
  by (auto simp: allowReply_def new_window_def quiet_def Let_def)

lemma quiet_handleSTUN [quiets]: "quiet rv (snd (handleSTUN env now d a rv))"
  using quiet_allowReply [of rv env now "ua_IP a"]
  by (auto simp: handleSTUN_def split: prod.splits bool.splits option.splits)

lemma quiet_challenge [quiets]: "quiet rv (snd (challenge env tok pid a now rv))"
  using quiet_allowReply [of rv env now "ua_IP a"] quiet_trans [OF _ quiet_send]
  by (auto simp: challenge_def split: prod.splits bool.splits)

lemma register_keeps: "al_bytes (snd (alloc_register pid ep a)) = al_bytes a \<and>
    al_token (snd (alloc_register pid ep a)) = al_token a"
  by (simp add: alloc_register_def Let_def)

lemma quiet_record_peer [quiets]: "quiet rv (snd (record_peer tok r pid src now rv))"
proof (cases "alloc_register pid src (rl_store rv r)")
  case (Pair ok a)
  have "quiet rv (on_alloc r (\<lambda>_. a\<lparr>al_lastActivity := now\<rparr>) rv)"
    using register_keeps [of pid src "rl_store rv r"] Pair by (auto simp: quiet_def on_alloc_def)
  then show ?thesis using quiet_trans [OF _ quiet_send] Pair
    by (auto simp: record_peer_def split: bool.splits)
qed

lemma quiet_handleControl [quiets]: "quiet rv (snd (handleControl env now b src rv))"
  by (auto simp: handleControl_def quiet_challenge quiet_record_peer split: option.splits endpoint.splits)

lemma quiet_nudge [quiets]: "quiet rv (snd (nudge env now d src tok r rv))"
proof -
  have "quiet rv (on_alloc r (\<lambda>_. snd (nudgeDue now (rl_store rv r))) rv)"
    by (auto simp: quiet_def on_alloc_def nudgeDue_def)
  then show ?thesis using quiet_trans [OF _ quiet_challenge]
    by (auto simp: nudge_def split: endpoint.splits prod.splits bool.splits)
qed

text \<open>The ways a handler can go.\<close>

inductive handled ::
  "relay_env \<Rightarrow> time \<Rightarrow> bytes \<Rightarrow> endpoint \<Rightarrow> relay \<Rightarrow> (udp_addr \<times> bytes) list \<Rightarrow> task option \<Rightarrow> relay \<Rightarrow> bool"
  for env now d src rv where
  ignored: "handled env now d src rv [] None rv"
| control: "handleControl env now d src rv = (out, rv') \<Longrightarrow> handled env now d src rv out None rv'"
| stun: "src = Udp a \<Longrightarrow> handleSTUN env now d a rv = (out, rv') \<Longrightarrow> handled env now d src rv out None rv'"
| unknown: "Parse d = Some (ver, tok, p) \<Longrightarrow> rl_allocs rv tok = Some r \<Longrightarrow>
    nudge env now d src tok r rv = (out, rv') \<Longrightarrow> handled env now d src rv out None rv'"
| alone: "handled env now d src rv [] None (on_alloc r (al_lastActivity_update (\<lambda>_. now)) rv)"
| routed: "Parse d = Some (ver, tok, p) \<Longrightarrow> rl_allocs rv tok = Some r \<Longrightarrow>
    direction (rl_store rv r) src = Some (Some q) \<Longrightarrow>
    handled env now d src rv [] (Some \<lparr>tk_alloc = r, tk_token = tok, tk_dst = pe_ep q, tk_now = now, tk_data = d,
      tk_stage = To_charge\<rparr>) (on_alloc r (al_lastActivity_update (\<lambda>_. now)) rv)"

lemma begin_handle_handled:
  "begin_handle env now d src rv = (out, t, rv') \<Longrightarrow> handled env now d src rv out t rv'"
  by (auto simp: begin_handle_def route_data_def lookup_alloc_def Let_def
      split: list.splits if_splits endpoint.splits prod.splits option.splits intro: handled.intros)

text \<open>A handler starts at most one task, at its first stage, for a live allocation.\<close>

lemma begin_handle_quiet:
  assumes "begin_handle env now d src rv = (out, t, rv')"
  shows "quiet rv rv' \<and> (case t of None \<Rightarrow> True
    | Some u \<Rightarrow> tk_stage u = To_charge \<and> tk_data u = d \<and> rl_allocs rv (tk_token u) = Some (tk_alloc u))"
proof -
  have act: "quiet rv (on_alloc r (al_lastActivity_update (\<lambda>_. now)) rv)" for r
    by (rule quiet_on_alloc) simp
  from begin_handle_handled [OF assms] show ?thesis
  proof cases
    case control
    then show ?thesis using quiet_handleControl [of rv env now d src] by simp
  next
    case (stun a)
    then show ?thesis using quiet_handleSTUN [of rv env now d a] by simp
  next
    case (unknown ver tok p r)
    then show ?thesis using quiet_nudge [of rv env now d src tok r] by simp
  qed (simp_all add: act)
qed

lemma quiet_evict [quiets]: "quiet rv (relay_evict clk tok reason rv)"
  by (simp add: quiet_def relay_evict_def)

lemma quiet_count_forward [quiets]: "quiet rv (count_forward t n rv)"
  by (auto simp: quiet_def count_forward_def on_alloc_def Let_def)

lemma quiet_housekeeping [quiets]:
  "quiet rv (sweep now rv)" "quiet rv (Drain rv)" "quiet rv (snd (ServeWS env tok rv))" "quiet rv (ws_end l rv)"
  "quiet rv (snd (ws_write l rv))" "quiet rv (rv\<lparr>rl_oversize := n\<rparr>)" "quiet rv (rv\<lparr>rl_capped := n\<rparr>)"
  by (auto simp: quiet_def sweep_def Drain_def ServeWS_def ws_end_def ws_write_def Let_def
      split: if_splits list.splits)

section \<open>The limits\<close>

text \<open>Bytes of the tasks that satisfy a predicate.\<close>

definition fwd :: "(task \<Rightarrow> bool) \<Rightarrow> task list \<Rightarrow> nat" where
  "fwd P ts = (\<Sum>t\<leftarrow>filter P ts. length (tk_data t))"

lemma fwd_simps [simp]:
  "fwd P [] = 0" "fwd P (t # ts) = (if P t then length (tk_data t) else 0) + fwd P ts"
  "fwd P (ts @ us) = fwd P ts + fwd P us"
  by (simp_all add: fwd_def)

lemma fwd_none: "(\<And>t. t \<in> set ts \<Longrightarrow> \<not> P t) \<Longrightarrow> fwd P ts = 0"
  by (simp add: fwd_def)

definition past_cap :: "task \<Rightarrow> bool" where
  "past_cap t \<longleftrightarrow> tk_stage t \<noteq> To_charge"

definition past_day :: "task \<Rightarrow> bool" where
  "past_day t \<longleftrightarrow> (case tk_stage t of To_forward _ \<Rightarrow> True | _ \<Rightarrow> False)"

text \<open>What a session, or a day, has forwarded or is committed to forward.\<close>

definition session_load :: "nat \<Rightarrow> relay_run \<Rightarrow> nat" where
  "session_load r s = fwd (\<lambda>t. tk_alloc t = r) (rr_trace s) + fwd (\<lambda>t. tk_alloc t = r \<and> past_cap t) (rr_tasks s)"

definition day_load :: "int \<Rightarrow> relay_run \<Rightarrow> nat" where
  "day_load d s = fwd (\<lambda>t. utc_day (tk_now t) = d) (rr_trace s) + fwd (\<lambda>t. utc_day (tk_now t) = d \<and> past_day t) (rr_tasks s)"

definition refs_fresh :: "relay_run \<Rightarrow> bool" where
  "refs_fresh s \<longleftrightarrow> (\<forall>t \<in> set (rr_tasks s) \<union> set (rr_trace s). tk_alloc t < rl_next (rr_relay s)) \<and>
     (\<forall>tok r. rl_allocs (rr_relay s) tok = Some r \<longrightarrow> r < rl_next (rr_relay s))"

definition within_cap :: "relay_env \<Rightarrow> relay_run \<Rightarrow> bool" where
  "within_cap env s \<longleftrightarrow> 0 < rx_cap env \<longrightarrow> (\<forall>r. session_load r s \<le> unat (rx_cap env) \<and>
     session_load r s \<le> unat (al_bytes (rl_store (rr_relay s) r)))"

definition within_day :: "relay_env \<Rightarrow> relay_run \<Rightarrow> bool" where
  "within_day env s \<longleftrightarrow> db_limit (rl_budget (rr_relay s)) = rx_dayLimit env \<and>
     (0 < rx_dayLimit env \<longrightarrow>
        day_load (db_day (rl_budget (rr_relay s))) s \<le> unat (db_used (rl_budget (rr_relay s))) \<and>
        (\<forall>d. day_load d s \<le> unat (rx_dayLimit env)) \<and>
        (\<forall>d > db_day (rl_budget (rr_relay s)). day_load d s = 0))"

definition limits_kept :: "relay_env \<Rightarrow> relay_run \<Rightarrow> bool" where
  "limits_kept env s \<longleftrightarrow> refs_fresh s \<and> within_cap env s \<and> within_day env s"

text \<open>
  What an event may assume: the byte counters stay inside 64 bits, and the days that charge the
  budget do not run backwards.
\<close>

fun relay_ok :: "relay_env \<Rightarrow> relay_event \<Rightarrow> relay_run \<Rightarrow> bool" where
  "relay_ok env (E_task i clk) s \<longleftrightarrow> i < length (rr_tasks s) \<longrightarrow>
     (let t = rr_tasks s ! i; n = length (tk_data t); b = rl_budget (rr_relay s) in
      case tk_stage t of
        To_charge \<Rightarrow> uint (al_bytes (rl_store (rr_relay s) (tk_alloc t))) + int n < 2 ^ 64
      | To_budget _ \<Rightarrow> db_limit b = 0 \<or> db_day b \<le> utc_day (tk_now t) \<and> uint (db_used (roll (tk_now t) b)) + int n < 2 ^ 64
      | To_forward _ \<Rightarrow> True)"
| "relay_ok env (E_allocate t1 t2 rnd) s \<longleftrightarrow> db_day (rl_budget (rr_relay s)) \<le> utc_day t1"
| "relay_ok env _ s \<longleftrightarrow> True"

lemma unat_add_size:
  "unat x + n < 2 ^ 64 \<Longrightarrow> unat (x + of_nat n :: u64) = unat x + n"
  by (simp add: unat_word_ariths unat_of_nat)

lemma uint_fits: "uint x + int n < 18446744073709551616 \<longleftrightarrow> unat (x :: u64) + n < 18446744073709551616"
proof -
  have "uint x + int n = int (unat x + n)" by simp
  then show ?thesis by (simp only: of_nat_less_numeral_iff)
qed

text \<open>An event that leaves the limits alone.\<close>

lemma limits_quiet:
  assumes "limits_kept env s" "quiet (rr_relay s) (rr_relay s')" "rr_trace s' = rr_trace s"
    and "rr_tasks s' = rr_tasks s \<or> (\<exists>t. rr_tasks s' = rr_tasks s @ [t] \<and> tk_stage t = To_charge \<and>
           (\<exists>tok. rl_allocs (rr_relay s) tok = Some (tk_alloc t)))"
  shows "limits_kept env s'"
proof -
  have "session_load r s' = session_load r s" "day_load d s' = day_load d s" for r d
    using assms(3,4) by (auto simp: session_load_def day_load_def past_cap_def past_day_def)
  moreover have "refs_fresh s'"
    using assms unfolding limits_kept_def refs_fresh_def quiet_def by auto metis+
  ultimately show ?thesis
    using assms(1,2) by (auto simp: limits_kept_def within_cap_def within_day_def quiet_def)
qed

text \<open>A new allocation has nothing against it, and rolling to a later day starts from nothing.\<close>

lemma session_load_fresh: "refs_fresh s \<Longrightarrow> rl_next (rr_relay s) \<le> r \<Longrightarrow> session_load r s = 0"
  unfolding session_load_def refs_fresh_def by (subst fwd_none, force, subst fwd_none, force, simp)

lemma within_day_roll:
  assumes "within_day env s" "db_day (rl_budget (rr_relay s)) \<le> utc_day now"
    and "rl_budget (rr_relay s') = roll now (rl_budget (rr_relay s))" "rr_trace s' = rr_trace s" "rr_tasks s' = rr_tasks s"
  shows "within_day env s'"
proof -
  have "day_load d s' = day_load d s" for d using assms(4,5) by (simp add: day_load_def)
  with assms(1,2,3) show ?thesis by (auto simp: within_day_def roll_def split: if_splits)
qed

lemma limits_allocate:
  assumes "limits_kept env s" "db_day (rl_budget (rr_relay s)) \<le> utc_day t1"
  shows "limits_kept env (s\<lparr>rr_relay := snd (Allocate t1 t2 rnd (rr_relay s))\<rparr>)"
proof -
  let ?rv = "rr_relay s" and ?s' = "s\<lparr>rr_relay := snd (Allocate t1 t2 rnd (rr_relay s))\<rparr>"
  obtain full b where b: "exhausted t1 (rl_budget ?rv) = (full, b)" by fastforce
  have bud: "rl_budget (rr_relay ?s') = rl_budget ?rv \<or> rl_budget (rr_relay ?s') = roll t1 (rl_budget ?rv)"
    using b by (auto simp: Allocate_def exhausted_def Let_def split: if_splits option.splits bool.splits)
  have same: "session_load r ?s' = session_load r s" "day_load d ?s' = day_load d s" for r d
    by (simp_all add: session_load_def day_load_def)
  have day: "within_day env ?s'"
  proof (cases "rl_budget (rr_relay ?s') = rl_budget ?rv")
    case True
    then show ?thesis using assms(1) by (simp add: limits_kept_def within_day_def day_load_def)
  next
    case False
    then show ?thesis using within_day_roll [of env s t1 ?s'] assms bud by (simp add: limits_kept_def)
  qed
  have store: "rl_next ?rv \<le> rl_next (rr_relay ?s') \<and>
      (\<forall>r < rl_next ?rv. rl_store (rr_relay ?s') r = rl_store ?rv r) \<and>
      (\<forall>r \<ge> rl_next (rr_relay ?s'). rl_store (rr_relay ?s') r = rl_store ?rv r) \<and>
      (\<forall>tok r. rl_allocs (rr_relay ?s') tok = Some r \<longrightarrow> rl_allocs ?rv tok = Some r \<or> r < rl_next (rr_relay ?s'))"
    using b by (auto simp: Allocate_def Let_def split: option.splits bool.splits)
  have fresh: "refs_fresh ?s'"
    using assms(1) store unfolding limits_kept_def refs_fresh_def by simp (meson less_le_trans)
  have "within_cap env ?s'"
    unfolding within_cap_def
  proof (intro impI allI)
    fix r assume cap: "0 < rx_cap env"
    have old: "session_load r s \<le> unat (rx_cap env) \<and> session_load r s \<le> unat (al_bytes (rl_store ?rv r))"
      using assms(1) cap by (simp add: limits_kept_def within_cap_def)
    show "session_load r ?s' \<le> unat (rx_cap env) \<and> session_load r ?s' \<le> unat (al_bytes (rl_store (rr_relay ?s') r))"
    proof (cases "r < rl_next ?rv")
      case True
      then show ?thesis using old store same(1) [of r] by simp
    next
      case False
      then show ?thesis using session_load_fresh [of s r] same(1) [of r] assms(1) by (simp add: limits_kept_def)
    qed
  qed
  with fresh day show ?thesis by (simp add: limits_kept_def)
qed

text \<open>A task's step, in terms of what it does to the loads.\<close>

definition stepped :: "nat \<Rightarrow> task option \<Rightarrow> relay \<Rightarrow> (udp_addr \<times> bytes) list \<Rightarrow> relay_run \<Rightarrow> relay_run" where
  "stepped i u rv out s = s
     \<lparr>rr_relay := rv,
      rr_tasks := take i (rr_tasks s) @ (case u of None \<Rightarrow> [] | Some v \<Rightarrow> [v]) @ drop (Suc i) (rr_tasks s),
      rr_trace := rr_trace s @ (case tk_stage (rr_tasks s ! i) of To_forward _ \<Rightarrow> [rr_tasks s ! i] | _ \<Rightarrow> []),
      rr_sent := rr_sent s @ out\<rparr>"

lemma advance_stepped:
  assumes "i < length (rr_tasks s)" "task_step env clk (rr_tasks s ! i) (rr_relay s) = (out, u, rv)"
  shows "advance env i clk s = stepped i u rv out s"
  using assms by (simp add: advance_def stepped_def Let_def)

lemma fwd_split: "i < length ts \<Longrightarrow> fwd P ts = fwd P (take i ts) + (if P (ts ! i) then length (tk_data (ts ! i)) else 0) + fwd P (drop (Suc i) ts)"
  using id_take_nth_drop [of i ts] fwd_simps by (metis add.assoc)

lemma stepped_loads:
  assumes "i < length (rr_tasks s)" "t = rr_tasks s ! i" "n = length (tk_data t)"
    and "\<And>v. u = Some v \<Longrightarrow> tk_alloc v = tk_alloc t \<and> tk_now v = tk_now t \<and> tk_data v = tk_data t \<and>
           past_cap v \<and> \<not> past_day t"
  shows "session_load r (stepped i u rv out s) + (if tk_alloc t = r \<and> past_cap t \<and> \<not> past_day t then n else 0) =
      session_load r s + (if tk_alloc t = r \<and> u \<noteq> None then n else 0)" (is ?session)
    and "day_load d (stepped i u rv out s) =
      day_load d s + (if utc_day (tk_now t) = d \<and> (\<exists>v. u = Some v \<and> past_day v) then n else 0)" (is ?day)
proof -
  let ?P = "\<lambda>v. tk_alloc v = r \<and> past_cap v" and ?Q = "\<lambda>v. utc_day (tk_now v) = d \<and> past_day v"
  have trace: "rr_trace (stepped i u rv out s) = rr_trace s @ (if past_day t then [t] else [])"
    using assms(2) by (simp add: stepped_def past_day_def split: stage.split)
  have tasks: "fwd P (rr_tasks (stepped i u rv out s)) =
      fwd P (take i (rr_tasks s)) + (case u of None \<Rightarrow> 0 | Some v \<Rightarrow> if P v then length (tk_data v) else 0)
        + fwd P (drop (Suc i) (rr_tasks s))" for P
    by (simp add: stepped_def split: option.split)
  have cap: "past_day t \<Longrightarrow> past_cap t" by (auto simp: past_day_def past_cap_def split: stage.splits)
  have split: "fwd P (rr_tasks s) =
      fwd P (take i (rr_tasks s)) + (if P t then n else 0) + fwd P (drop (Suc i) (rr_tasks s))" for P
    unfolding assms(2,3) by (rule fwd_split [OF assms(1)])
  have n: "length (tk_data t) = n" using assms(3) by simp
  show ?session
  proof (cases u)
    case None
    show ?thesis by (simp only: session_load_def trace tasks split [of ?P] fwd_simps) (use None cap n in simp)
  next
    case (Some v)
    note v = assms(4) [OF Some]
    have "tk_alloc v = tk_alloc t" "length (tk_data v) = n" "past_cap v" "\<not> past_day t" using v n by simp_all
    then show ?thesis by (simp only: session_load_def trace tasks split [of ?P] fwd_simps) (use Some in simp)
  qed
  show ?day
  proof (cases u)
    case None
    show ?thesis by (simp only: day_load_def trace tasks split [of ?Q] fwd_simps) (use None n in simp)
  next
    case (Some v)
    note v = assms(4) [OF Some]
    have "tk_now v = tk_now t" "length (tk_data v) = n" "\<not> past_day t" using v n by simp_all
    then show ?thesis by (simp only: day_load_def trace tasks split [of ?Q] fwd_simps) (use Some in simp)
  qed
qed

lemma refs_stepped:
  assumes "refs_fresh s" "i < length (rr_tasks s)" "u = None \<or> (\<exists>v. u = Some v \<and> tk_alloc v = tk_alloc (rr_tasks s ! i))"
    and "rl_next rv = rl_next (rr_relay s)" "\<And>tok r. rl_allocs rv tok = Some r \<Longrightarrow> rl_allocs (rr_relay s) tok = Some r"
  shows "refs_fresh (stepped i u rv out s)"
proof -
  let ?s = "stepped i u rv out s" and ?n = "rl_next (rr_relay s)"
  have "tk_alloc t < ?n" if "t \<in> set (rr_tasks s) \<union> set (rr_trace s)" for t
    using assms(1) that by (simp add: refs_fresh_def)
  moreover have "set (rr_trace ?s) \<subseteq> set (rr_trace s) \<union> set (rr_tasks s)"
    using assms(2) by (auto simp: stepped_def split: stage.splits)
  moreover have "x \<in> set (rr_tasks ?s) \<Longrightarrow> x \<in> set (rr_tasks s) \<or> tk_alloc x = tk_alloc (rr_tasks s ! i)" for x
    using assms(3) by (auto simp: stepped_def dest: in_set_takeD in_set_dropD split: option.splits)
  ultimately have "\<forall>t \<in> set (rr_tasks ?s) \<union> set (rr_trace ?s). tk_alloc t < ?n"
    using nth_mem [OF assms(2)] by (metis Un_iff subsetD)
  moreover have "\<forall>tok r. rl_allocs rv tok = Some r \<longrightarrow> r < ?n"
    using assms(1,5) unfolding refs_fresh_def by metis
  ultimately show ?thesis using assms(4) by (simp add: refs_fresh_def stepped_def)
qed

lemma charge_session_bytes:
  assumes "charge_session env clk t rv = (u, rv')"
  shows "rl_next rv' = rl_next rv \<and> rl_budget rv' = rl_budget rv \<and>
      (\<forall>tok r. rl_allocs rv' tok = Some r \<longrightarrow> rl_allocs rv tok = Some r) \<and>
      (\<forall>r. al_bytes (rl_store rv' r) = al_bytes (rl_store rv r) + (if r = tk_alloc t then wire_size (tk_data t) else 0))"
    and "u = None \<or> u = Some (t\<lparr>tk_stage := To_budget (al_bytes (rl_store rv' (tk_alloc t)))\<rparr>) \<and>
      (rx_cap env = 0 \<or> al_bytes (rl_store rv' (tk_alloc t)) \<le> rx_cap env)"
  using assms by (auto simp: charge_session_def relay_evict_def on_alloc_def Let_def word_neq_0_conv not_less
      split: if_splits)

lemma limits_charge:
  assumes "limits_kept env s" "i < length (rr_tasks s)" "t = rr_tasks s ! i" "tk_stage t = To_charge"
    and "unat (al_bytes (rl_store (rr_relay s) (tk_alloc t))) + length (tk_data t) < 2 ^ 64"
    and "charge_session env clk t (rr_relay s) = (u, rv)"
  shows "limits_kept env (stepped i u rv [] s)"
proof -
  let ?s = "stepped i u rv [] s" and ?n = "length (tk_data t)" and ?b = "\<lambda>r. unat (al_bytes (rl_store (rr_relay s) r))"
  note st = charge_session_bytes [OF assms(6)]
  have t: "\<not> past_cap t" "\<not> past_day t" using assms(4) by (simp_all add: past_cap_def past_day_def)
  have u: "tk_alloc v = tk_alloc t \<and> tk_now v = tk_now t \<and> tk_data v = tk_data t \<and> past_cap v \<and> \<not> past_day t"
    if "u = Some v" for v
    using st(2) that t by (auto simp: past_cap_def)
  have nf: "\<not> past_day v" if "u = Some v" for v using st(2) that by (auto simp: past_day_def)
  note loads = stepped_loads [where u = u and rv = rv and out = "[]", OF assms(2,3) refl u]
  have S: "session_load r ?s = session_load r s + (if tk_alloc t = r \<and> u \<noteq> None then ?n else 0)" for r
    using loads(1) [of r] t by simp
  have D: "day_load d ?s = day_load d s" for d using loads(2) [of d] nf by auto
  have bytes: "unat (al_bytes (rl_store rv r)) = ?b r + (if r = tk_alloc t then ?n else 0)" for r
    using st(1) assms(5) by (simp add: wire_size_def unat_add_size)
  have "within_cap env ?s"
    unfolding within_cap_def
  proof (intro impI allI)
    fix r assume cap: "0 < rx_cap env"
    have old: "session_load r s \<le> unat (rx_cap env) \<and> session_load r s \<le> ?b r"
      using assms(1) cap by (simp add: limits_kept_def within_cap_def)
    have "u \<noteq> None \<Longrightarrow> unat (al_bytes (rl_store rv (tk_alloc t))) \<le> unat (rx_cap env)"
      using st(2) cap by (auto simp: word_le_nat_alt)
    then show "session_load r ?s \<le> unat (rx_cap env) \<and> session_load r ?s \<le> unat (al_bytes (rl_store (rr_relay ?s) r))"
      using old S [of r] bytes [of r] by (auto simp: stepped_def split: if_splits)
  qed
  moreover have "within_day env ?s"
    using assms(1) st(1) D by (simp add: limits_kept_def within_day_def stepped_def)
  moreover have "refs_fresh ?s"
  proof (rule refs_stepped [OF _ assms(2)])
    show "refs_fresh s" using assms(1) by (simp add: limits_kept_def)
    show "u = None \<or> (\<exists>v. u = Some v \<and> tk_alloc v = tk_alloc (rr_tasks s ! i))"
      unfolding assms(3) [symmetric] by (cases u) (use u in blast)+
  qed (use st(1) in blast)+
  ultimately show ?thesis by (simp add: limits_kept_def)
qed

lemma charge_day_budget:
  assumes "charge_day clk t tot rv = (u, rv')"
  shows "rl_next rv' = rl_next rv \<and> rl_store rv' = rl_store rv \<and>
      (\<forall>tok r. rl_allocs rv' tok = Some r \<longrightarrow> rl_allocs rv tok = Some r) \<and>
      rl_budget rv' = (let b = rl_budget rv; b1 = roll (tk_now t) b in
         if db_limit b = 0 then b else b1\<lparr>db_used := db_used b1 + wire_size (tk_data t)\<rparr>)"
    and "u = None \<or> u = Some (t\<lparr>tk_stage := To_forward tot\<rparr>) \<and>
      (db_limit (rl_budget rv') = 0 \<or> db_used (rl_budget rv') \<le> db_limit (rl_budget rv'))"
  using assms by (auto simp: charge_day_def charge_def relay_evict_def Let_def not_less split: if_splits bool.splits)

lemma roll_simps [simp]: "db_limit (roll now b) = db_limit b" "db_day (roll now b) = utc_day now"
  by (simp_all add: roll_def)

lemma limits_day:
  assumes "limits_kept env s" "i < length (rr_tasks s)" "t = rr_tasks s ! i" "tk_stage t = To_budget tot"
    and "relay_ok env (E_task i clk) s" and "charge_day clk t tot (rr_relay s) = (u, rv)"
  shows "limits_kept env (stepped i u rv [] s)"
proof -
  let ?s = "stepped i u rv [] s" and ?n = "length (tk_data t)" and ?b = "rl_budget (rr_relay s)"
  let ?today = "utc_day (tk_now t)"
  note st = charge_day_budget [OF assms(6)]
  have t: "past_cap t" "\<not> past_day t" using assms(4) by (simp_all add: past_cap_def past_day_def)
  have u: "tk_alloc v = tk_alloc t \<and> tk_now v = tk_now t \<and> tk_data v = tk_data t \<and> past_cap v \<and> \<not> past_day t"
    if "u = Some v" for v
  proof -
    have "v = t\<lparr>tk_stage := To_forward tot\<rparr>" using st(2) that by simp
    then show ?thesis using t(2) by (simp add: past_cap_def)
  qed
  note loads = stepped_loads [where u = u and rv = rv and out = "[]", OF assms(2,3) refl u]
  have S: "session_load r ?s \<le> session_load r s" for r
    using loads(1) [of r] t by (auto split: if_splits)
  have pd: "(\<exists>v. u = Some v \<and> past_day v) \<longleftrightarrow> u \<noteq> None"
    using st(2) by (elim disjE) (simp_all add: past_day_def)
  have D: "day_load d ?s = day_load d s + (if ?today = d \<and> u \<noteq> None then ?n else 0)" for d
    using loads(2) [of d] unfolding pd .
  have "within_cap env ?s"
    unfolding within_cap_def
  proof (intro impI allI)
    fix r assume "0 < rx_cap env"
    then have "session_load r s \<le> unat (rx_cap env) \<and> session_load r s \<le> unat (al_bytes (rl_store (rr_relay s) r))"
      using assms(1) by (simp add: limits_kept_def within_cap_def)
    moreover have "rl_store rv = rl_store (rr_relay s)" using st(1) by blast
    ultimately show "session_load r ?s \<le> unat (rx_cap env) \<and> session_load r ?s \<le> unat (al_bytes (rl_store (rr_relay ?s) r))"
      using S [of r] by (auto simp: stepped_def)
  qed
  moreover have "within_day env ?s"
  proof (cases "rx_dayLimit env = 0")
    case True
    then show ?thesis using assms(1) st(1) by (simp add: limits_kept_def within_day_def stepped_def Let_def)
  next
    case False
    let ?r = "roll (tk_now t) ?b"
    let ?s1 = "s\<lparr>rr_relay := (rr_relay s)\<lparr>rl_budget := ?r\<rparr>\<rparr>"
    have lim: "db_limit ?b = rx_dayLimit env" "within_day env s" using assms(1) by (simp_all add: limits_kept_def within_day_def)
    have ok: "db_day ?b \<le> ?today" "unat (db_used ?r) + ?n < 2 ^ 64"
      using assms(2-5) False lim by (simp_all add: Let_def uint_fits)
    have rolled: "within_day env ?s1" by (rule within_day_roll [OF lim(2) ok(1)]) simp_all
    have load1: "day_load d ?s1 = day_load d s" for d by (simp add: day_load_def)
    have pos: "0 < rx_dayLimit env" using False by (simp add: word_neq_0_conv)
    have base: "day_load ?today s \<le> unat (db_used ?r)" "day_load d s \<le> unat (rx_dayLimit env)"
        "d > ?today \<Longrightarrow> day_load d s = 0" for d
      using rolled pos load1 by (simp_all add: within_day_def)
    have bud: "rl_budget rv = ?r\<lparr>db_used := db_used ?r + wire_size (tk_data t)\<rparr>"
      using st(1) lim(1) False by (simp add: Let_def)
    have used: "unat (db_used (rl_budget rv)) = unat (db_used ?r) + ?n"
      using ok(2) by (simp add: bud wire_size_def unat_add_size)
    have fits: "u \<noteq> None \<Longrightarrow> unat (db_used ?r) + ?n \<le> unat (rx_dayLimit env)"
      using st(2) lim(1) False used by (auto simp: bud word_le_nat_alt)
    have "day_load d ?s \<le> unat (rx_dayLimit env)" for d
      using D [of d] base(1) base(2) [of d] fits by (auto split: if_splits)
    then show ?thesis
      using D base used pos lim(1) by (simp add: within_day_def stepped_def bud)
  qed
  moreover have "refs_fresh ?s"
  proof (rule refs_stepped [OF _ assms(2)])
    show "refs_fresh s" using assms(1) by (simp add: limits_kept_def)
    show "u = None \<or> (\<exists>v. u = Some v \<and> tk_alloc v = tk_alloc (rr_tasks s ! i))"
      unfolding assms(3) [symmetric] by (cases u) (use u in blast)+
  qed (use st(1) in blast)+
  ultimately show ?thesis by (simp add: limits_kept_def)
qed

lemma limits_forward:
  assumes "limits_kept env s" "i < length (rr_tasks s)" "t = rr_tasks s ! i" "tk_stage t = To_forward tot"
    and "quiet (rr_relay s) rv"
  shows "limits_kept env (stepped i None rv out s)"
proof -
  let ?s = "stepped i None rv out s"
  have t: "past_day t" using assms(4) by (simp add: past_day_def)
  note loads = stepped_loads [where u = None and rv = rv and out = out, OF assms(2,3) refl]
  have "session_load r ?s = session_load r s" "day_load d ?s = day_load d s" for r d
    using loads(1) [of r] loads(2) [of d] t by simp_all
  moreover have "refs_fresh ?s"
    by (rule refs_stepped) (use assms in \<open>auto simp: limits_kept_def quiet_def\<close>)
  ultimately show ?thesis
    using assms(1,5) by (auto simp: limits_kept_def within_cap_def within_day_def quiet_def stepped_def)
qed

lemma limits_task:
  assumes "limits_kept env s" "relay_ok env (E_task i clk) s"
  shows "limits_kept env (advance env i clk s)"
proof (cases "i < length (rr_tasks s)")
  case True
  let ?t = "rr_tasks s ! i"
  obtain out u rv where ts: "task_step env clk ?t (rr_relay s) = (out, u, rv)" by (metis prod_cases3)
  note eq = advance_stepped [OF True ts]
  show ?thesis
  proof (cases "tk_stage ?t")
    case To_charge
    with ts have "out = []" "charge_session env clk ?t (rr_relay s) = (u, rv)" by (simp_all add: task_step_def)
    then show ?thesis using limits_charge [OF assms(1) True refl To_charge] assms(2) True To_charge by (simp add: eq Let_def uint_fits)
  next
    case (To_budget tot)
    with ts have "out = []" "charge_day clk ?t tot (rr_relay s) = (u, rv)" by (simp_all add: task_step_def)
    then show ?thesis using limits_day [OF assms(1) True refl To_budget assms(2)] by (simp add: eq)
  next
    case (To_forward tot)
    with ts have "u = None" "rv = snd (relay_send (tk_dst ?t) (tk_data ?t) (count_forward ?t tot (rr_relay s)))"
      by (auto simp: task_step_def split: prod.splits)
    moreover have "quiet (rr_relay s) (snd (relay_send (tk_dst ?t) (tk_data ?t) (count_forward ?t tot (rr_relay s))))"
      by (rule quiet_trans [OF quiet_count_forward quiet_send])
    ultimately show ?thesis using limits_forward [OF assms(1) True refl To_forward] by (simp add: eq)
  qed
qed (simp add: advance_def assms(1))

lemma limits_start:
  assumes "limits_kept env s"
  shows "limits_kept env (start_handler (begin_handle env now d src (rr_relay s)) s)"
proof -
  obtain out t rv where b: "begin_handle env now d src (rr_relay s) = (out, t, rv)" by (metis prod_cases3)
  show ?thesis
    by (rule limits_quiet [OF assms])
      (use begin_handle_quiet [OF b] in \<open>auto simp: start_handler_def b split: option.splits\<close>)
qed

text \<open>Events that change the relay alone.\<close>

lemma limits_relay:
  "limits_kept env s \<Longrightarrow> quiet (rr_relay s) rv \<Longrightarrow> limits_kept env (s\<lparr>rr_relay := rv\<rparr>)"
  by (rule limits_quiet [where s = s]) simp_all

lemma limits_step:
  assumes "limits_kept env s" "relay_ok env e s"
  shows "limits_kept env (relay_step env e s)"
proof (cases e)
  case (E_udp now d a)
  then show ?thesis using limits_start [OF assms(1)] limits_relay [OF assms(1)] by (simp add: quiets)
next
  case (E_ws now binary d l)
  then show ?thesis using assms(1) limits_start [OF assms(1)] limits_relay [OF assms(1)]
    by (simp add: quiets split: ws_action.split)
next
  case (E_task i clk)
  then show ?thesis using limits_task assms by simp
next
  case (E_allocate t1 t2 rnd)
  then show ?thesis using limits_allocate assms by simp
qed (use limits_relay [OF assms(1)] in \<open>simp_all add: quiets\<close>)

interpretation relay: invariant_machine "relay_step env" "relay_ok env" "limits_kept env" for env
  by unfold_locales (rule limits_step)

lemma limits_init: "limits_kept env (relay_init env)"
  by (simp add: limits_kept_def refs_fresh_def within_cap_def within_day_def relay_init_def NewServer_def
      session_load_def day_load_def)


definition sample_relay_env :: relay_env where
  "sample_relay_env = \<lparr>rx_cap = 100, rx_dayLimit = 1000, rx_disabled = False, rx_key = [1], rx_hmac = (\<lambda>k m. k @ m),
     rx_hash = (\<lambda>_. 0), rx_isStun = (\<lambda>_. False), rx_isBinding = (\<lambda>_. False), rx_stunAnswer = (\<lambda>_ _. None)\<rparr>"

definition sample_tok :: Token where "sample_tok = replicate 16 7"

definition sample_relay_events :: "relay_event list" where
  "sample_relay_events =
     [E_allocate 0 0 (Some sample_tok), E_open sample_tok, E_open sample_tok,
      E_ws 1 True (frameControl sample_tok msgHello (replicate 8 1) None) 0,
      E_ws 1 True (frameControl sample_tok msgHello (replicate 8 2) None) 1,
      E_ws 2 True (relay_version # sample_tok @ [9, 9, 9]) 0, E_task 0 2, E_task 0 2, E_task 0 2]"

lemma sample_relay_trace:
  "map tk_data (rr_trace (fold (relay_step sample_relay_env) sample_relay_events (relay_init sample_relay_env)))
     = [relay_version # sample_tok @ [9, 9, 9]]"
  by code_simp

lemma sample_relay_ok:
  "run_ok (relay_step sample_relay_env) (relay_ok sample_relay_env) (relay_init sample_relay_env) sample_relay_events"
  by code_simp


text \<open>A call of \<open>handle\<close> that nothing interrupts is a run of the machine.\<close>

lemma then_step_run:
  assumes "x = (out, t, rv)" "then_step env clk x = (out', t', rv')"
    and "rr_relay s = rv" "rr_tasks s = (case t of None \<Rightarrow> [] | Some u \<Rightarrow> [u])" "rr_sent s = sent @ out"
  shows "let s' = relay_step env (E_task 0 clk) s in
    rr_relay s' = rv' \<and> rr_tasks s' = (case t' of None \<Rightarrow> [] | Some u \<Rightarrow> [u]) \<and> rr_sent s' = sent @ out'"
  using assms by (auto simp: then_step_def advance_def Let_def apfst_def map_prod_def split: option.splits prod.splits)

lemma handle_is_run:
  assumes "length d \<le> MaxDatagram" "rr_tasks s = []" "handle env now clk d (Udp a) (rr_relay s) = (out, rv)"
  shows "let s' = fold (relay_step env) [E_udp now d a, E_task 0 clk, E_task 0 clk, E_task 0 clk] s in
    rr_relay s' = rv \<and> rr_sent s' = rr_sent s @ out"
proof -
  let ?x = "begin_handle env now d (Udp a) (rr_relay s)"
  let ?s0 = "relay_step env (E_udp now d a) s"
  obtain o0 t0 r0 where x0: "?x = (o0, t0, r0)" by (metis prod_cases3)
  obtain o1 t1 r1 where x1: "then_step env clk ?x = (o1, t1, r1)" by (metis prod_cases3)
  obtain o2 t2 r2 where x2: "then_step env clk (then_step env clk ?x) = (o2, t2, r2)" by (metis prod_cases3)
  obtain o3 t3 r3 where x3: "then_step env clk (then_step env clk (then_step env clk ?x)) = (o3, t3, r3)" by (metis prod_cases3)
  have s0: "rr_relay ?s0 = r0" "rr_tasks ?s0 = (case t0 of None \<Rightarrow> [] | Some u \<Rightarrow> [u])" "rr_sent ?s0 = rr_sent s @ o0"
    using assms(1,2) by (simp_all add: start_handler_def x0)
  note s1 = then_step_run [OF x0 x1 s0, unfolded Let_def]
  note s2 = then_step_run [OF x1 x2 s1 [THEN conjunct1] s1 [THEN conjunct2, THEN conjunct1]
      s1 [THEN conjunct2, THEN conjunct2], unfolded Let_def]
  note s3 = then_step_run [OF x2 x3 s2 [THEN conjunct1] s2 [THEN conjunct2, THEN conjunct1]
      s2 [THEN conjunct2, THEN conjunct2], unfolded Let_def]
  have "o3 = out" "r3 = rv" using assms(3) x3 by (simp_all add: handle_def)
  then show ?thesis using s3 by (simp add: Let_def)
qed

section \<open>Nothing is reflected\<close>

text \<open>
  An address is verified for an allocation once a registration came from it with a cookie the relay
  makes for that address, at that time.
\<close>

definition verified :: "relay_env \<Rightarrow> relay_event list \<Rightarrow> Token \<Rightarrow> udp_addr \<Rightarrow> bool" where
  "verified env es tok a \<longleftrightarrow> (\<exists>now d pid ck. E_udp now d a \<in> set es \<and>
     parseControl d = Some (tok, msgRegister, pid, ck) \<and> cookieValid env ck tok a now)"

definition ep_verified :: "relay_env \<Rightarrow> relay_event list \<Rightarrow> Token \<Rightarrow> endpoint \<Rightarrow> bool" where
  "ep_verified env es tok ep \<longleftrightarrow> (case ep of Udp a \<Rightarrow> verified env es tok a | Ws _ \<Rightarrow> True)"

text \<open>Where a forwarded datagram came from: a link, or a verified address of the same allocation.\<close>

definition sourced :: "relay_env \<Rightarrow> relay_event list \<Rightarrow> Token \<Rightarrow> bytes \<Rightarrow> bool" where
  "sourced env es tok d \<longleftrightarrow> (\<exists>now bin l. E_ws now bin d l \<in> set es) \<or>
     (\<exists>now a b. E_udp now d a \<in> set es \<and> verified env es tok b \<and> udpEqual b a)"

definition reply_ok :: "relay_env \<Rightarrow> relay_event list \<Rightarrow> udp_addr \<times> bytes \<Rightarrow> bool" where
  "reply_ok env es am \<longleftrightarrow> (case am of (a, m) \<Rightarrow>
     \<exists>now d. E_udp now d a \<in> set es \<and> (length m \<le> length d \<or> rx_stunAnswer env d a = Some m))"

definition peers_ok :: "relay_env \<Rightarrow> relay_event list \<Rightarrow> relay \<Rightarrow> bool" where
  "peers_ok env es rv \<longleftrightarrow> (\<forall>tok r. rl_allocs rv tok = Some r \<longrightarrow> al_token (rl_store rv r) = tok \<and> r < rl_next rv) \<and>
     (\<forall>r p. al_p0 (rl_store rv r) = Some p \<or> al_p1 (rl_store rv r) = Some p \<longrightarrow>
        ep_verified env es (al_token (rl_store rv r)) (pe_ep p))"

definition task_ok :: "relay_env \<Rightarrow> relay_event list \<Rightarrow> task \<Rightarrow> bool" where
  "task_ok env es t \<longleftrightarrow> ep_verified env es (tk_token t) (tk_dst t) \<and> sourced env es (tk_token t) (tk_data t) \<and>
     take TokenSize (drop 1 (tk_data t)) = tk_token t"

definition unreflected :: "relay_env \<Rightarrow> relay_event list \<Rightarrow> relay_run \<Rightarrow> bool" where
  "unreflected env es s \<longleftrightarrow> peers_ok env es (rr_relay s) \<and> (\<forall>t \<in> set (rr_tasks s) \<union> set (rr_trace s). task_ok env es t) \<and>
     (\<forall>am \<in> set (rr_sent s). reply_ok env es am \<or> 
        (\<exists>t \<in> set (rr_trace s). tk_dst t = Udp (fst am) \<and> tk_data t = snd am))"

lemma seen_more:
  "set es \<subseteq> set fs \<Longrightarrow> verified env es tok a \<Longrightarrow> verified env fs tok a"
  "set es \<subseteq> set fs \<Longrightarrow> ep_verified env es tok ep \<Longrightarrow> ep_verified env fs tok ep"
  "set es \<subseteq> set fs \<Longrightarrow> sourced env es tok d \<Longrightarrow> sourced env fs tok d"
  "set es \<subseteq> set fs \<Longrightarrow> reply_ok env es am \<Longrightarrow> reply_ok env fs am"
  "set es \<subseteq> set fs \<Longrightarrow> peers_ok env es rv \<Longrightarrow> peers_ok env fs rv"
  "set es \<subseteq> set fs \<Longrightarrow> task_ok env es t \<Longrightarrow> task_ok env fs t"
proof -
  assume sub: "set es \<subseteq> set fs"
  show v: "verified env es tok a \<Longrightarrow> verified env fs tok a" for tok a
    using sub unfolding verified_def by blast
  show e: "ep_verified env es tok ep \<Longrightarrow> ep_verified env fs tok ep" for tok ep
    using v by (auto simp: ep_verified_def split: endpoint.splits)
  show src: "sourced env es tok d \<Longrightarrow> sourced env fs tok d" for tok d
    using sub v unfolding sourced_def by blast
  show "reply_ok env es am \<Longrightarrow> reply_ok env fs am"
    using sub unfolding reply_ok_def by auto
  show "peers_ok env es rv \<Longrightarrow> peers_ok env fs rv"
    using e unfolding peers_ok_def by blast
  show "task_ok env es t \<Longrightarrow> task_ok env fs t"
    using e src unfolding task_ok_def by blast
qed

text \<open>Steps that register nobody.\<close>

definition same_slots :: "relay \<Rightarrow> relay \<Rightarrow> bool" where
  "same_slots rv rv' \<longleftrightarrow> rl_next rv' = rl_next rv \<and> (\<forall>tok r. rl_allocs rv' tok = Some r \<longrightarrow> rl_allocs rv tok = Some r) \<and>
     (\<forall>r. al_token (rl_store rv' r) = al_token (rl_store rv r) \<and>
          al_p0 (rl_store rv' r) = al_p0 (rl_store rv r) \<and> al_p1 (rl_store rv' r) = al_p1 (rl_store rv r))"

named_theorems slots

lemma same_slots_refl [simp, slots]: "same_slots rv rv"
  by (simp add: same_slots_def)

lemma same_slots_trans: "same_slots a b \<Longrightarrow> same_slots b c \<Longrightarrow> same_slots a c"
  by (simp add: same_slots_def)

lemma peers_slots: "peers_ok env es rv \<Longrightarrow> same_slots rv rv' \<Longrightarrow> peers_ok env es rv'"
  unfolding peers_ok_def same_slots_def by metis

lemma slots_send [slots]: "same_slots rv (snd (relay_send ep b rv))"
  by (auto simp: relay_send_def same_slots_def Let_def split: endpoint.split)

lemma slots_allowReply [slots]: "same_slots rv (snd (allowReply env now ip rv))"
  by (auto simp: allowReply_def new_window_def same_slots_def Let_def)

lemma slots_on_alloc:
  "(\<And>a. al_token (f a) = al_token a \<and> al_p0 (f a) = al_p0 a \<and> al_p1 (f a) = al_p1 a) \<Longrightarrow> same_slots rv (on_alloc r f rv)"
  by (auto simp: same_slots_def on_alloc_def)

lemma slots_housekeeping [slots]:
  "same_slots rv (sweep now rv)" "same_slots rv (Drain rv)" "same_slots rv (snd (ServeWS env tok rv))"
  "same_slots rv (ws_end l rv)" "same_slots rv (snd (ws_write l rv))" "same_slots rv (rv\<lparr>rl_oversize := n\<rparr>)"
  "same_slots rv (relay_evict clk tok reason rv)" "same_slots rv (count_forward t n rv)"
  by (auto simp: same_slots_def sweep_def Drain_def ServeWS_def ws_end_def ws_write_def relay_evict_def
      count_forward_def on_alloc_def Let_def split: if_splits list.splits)

lemma slots_task_step:
  assumes "task_step env clk t rv = (out, u, rv')"
  shows "same_slots rv rv'"
proof (cases "tk_stage t")
  case To_charge
  with assms show ?thesis
    by (auto simp: task_step_def charge_session_def relay_evict_def on_alloc_def same_slots_def Let_def split: if_splits)
next
  case (To_budget tot)
  with assms show ?thesis
    by (auto simp: task_step_def charge_day_def relay_evict_def same_slots_def split: prod.splits bool.splits if_splits)
next
  case (To_forward tot)
  then have "rv' = snd (relay_send (tk_dst t) (tk_data t) (count_forward t tot rv))"
    using assms by (auto simp: task_step_def split: prod.splits)
  then show ?thesis using same_slots_trans [OF slots_housekeeping(8) slots_send] by simp
qed

text \<open>The replies go to the source and are no larger than what it sent.\<close>

definition answers :: "endpoint \<Rightarrow> nat \<Rightarrow> (udp_addr \<times> bytes) list \<Rightarrow> bool" where
  "answers src n out \<longleftrightarrow> (\<forall>am \<in> set out. src = Udp (fst am) \<and> length (snd am) \<le> n)"

lemma answers_send: "length b \<le> n \<Longrightarrow> answers ep n (fst (relay_send ep b rv))"
  by (auto simp: answers_def relay_send_def Let_def split: endpoint.split)

lemma challenge_answers:
  assumes "challenge env tok pid a now rv = (out, rv')" "ControlSize \<le> n"
  shows "same_slots rv rv' \<and> answers (Udp a) n out"
  using assms slots_allowReply [of rv env now "ua_IP a"]
  by (auto simp: challenge_def relay_send_def answers_def split: prod.splits bool.splits)

lemma nudge_answers:
  assumes "nudge env now d src tok r rv = (out, rv')"
  shows "same_slots rv rv' \<and> answers src (length d) out"
proof -
  have act: "same_slots rv (on_alloc r (\<lambda>_. snd (nudgeDue now (rl_store rv r))) rv)"
    by (auto simp: same_slots_def on_alloc_def nudgeDue_def)
  show ?thesis
  proof (cases src)
    case (Ws l)
    then show ?thesis using assms by (simp add: nudge_def answers_def)
  next
    case (Udp a)
    obtain due al where nd: "nudgeDue now (rl_store rv r) = (due, al)" by fastforce
    show ?thesis
    proof (cases "ControlSize \<le> length d \<and> due")
      case True
      then have "challenge env tok (replicate PeerIDSize 0) a now (on_alloc r (\<lambda>_. al) rv) = (out, rv')"
        using assms Udp nd by (simp add: nudge_def)
      then show ?thesis
        using challenge_answers True act nd Udp same_slots_trans by (metis snd_conv)
    next
      case False
      then show ?thesis using assms Udp nd by (auto simp: nudge_def answers_def split: if_splits)
    qed
  qed
qed

lemma register_slots:
  assumes "alloc_register pid ep a = (True, a')" "al_p0 a' = Some p \<or> al_p1 a' = Some p"
  shows "p = \<lparr>pe_id = pid, pe_ep = ep\<rparr> \<or> al_p0 a = Some p \<or> al_p1 a = Some p"
  using assms by (auto simp: alloc_register_def Let_def split: if_splits)

lemma record_peer_ok:
  assumes "peers_ok env es rv" "rl_allocs rv tok = Some r" "ep_verified env es tok src"
    and "record_peer tok r pid src now rv = (out, rv')" "ControlSize \<le> n"
  shows "peers_ok env es rv' \<and> answers src n out"
proof -
  obtain ok a where reg: "alloc_register pid src (rl_store rv r) = (ok, a)" by fastforce
  have tok: "al_token (rl_store rv r) = tok" using assms(1,2) by (simp add: peers_ok_def)
  have a: "al_token a = al_token (rl_store rv r)" using register_keeps [of pid src "rl_store rv r"] reg by simp
  show ?thesis
  proof (cases ok)
    case True
    let ?rv1 = "on_alloc r (\<lambda>_. a\<lparr>al_lastActivity := now\<rparr>) rv"
    have "peers_ok env es ?rv1"
      unfolding peers_ok_def
    proof (intro conjI allI impI)
      show "al_token (rl_store ?rv1 q) = t" "q < rl_next ?rv1" if "rl_allocs ?rv1 t = Some q" for t q
        using assms(1) that a by (auto simp: peers_ok_def on_alloc_def)
      show "ep_verified env es (al_token (rl_store ?rv1 q)) (pe_ep p)"
        if "al_p0 (rl_store ?rv1 q) = Some p \<or> al_p1 (rl_store ?rv1 q) = Some p" for q p
      proof (cases "q = r")
        case True
        then have "al_p0 a = Some p \<or> al_p1 a = Some p" using that by (simp add: on_alloc_def)
        then have "p = \<lparr>pe_id = pid, pe_ep = src\<rparr> \<or> al_p0 (rl_store rv r) = Some p \<or> al_p1 (rl_store rv r) = Some p"
          using register_slots reg \<open>ok\<close> by simp
        then show ?thesis using assms(1,3) tok a True by (auto simp: peers_ok_def on_alloc_def)
      next
        case False
        then show ?thesis using assms(1) that by (auto simp: peers_ok_def on_alloc_def)
      qed
    qed
    moreover have "(out, rv') = relay_send src (frameControl tok msgRegistered pid None) ?rv1"
      using assms(4) reg True by (simp add: record_peer_def)
    ultimately show ?thesis
      using peers_slots slots_send answers_send [of "frameControl tok msgRegistered pid None" n src] assms(5)
      by (metis fst_conv snd_conv length_frameControl)
  qed (use assms(1,4) reg in \<open>simp add: record_peer_def answers_def\<close>)
qed

lemma control_ok:
  assumes "peers_ok env es rv" "handleControl env now b src rv = (out, rv')"
    and "\<And>a. src = Udp a \<Longrightarrow> E_udp now b a \<in> set es"
  shows "peers_ok env es rv' \<and> answers src (length b) out"
proof (cases "parseControl b")
  case (Some f)
  obtain tok ty pid ck where f: "f = (tok, ty, pid, ck)" by (metis prod_cases4)
  have len: "ControlSize \<le> length b" using control_first [OF Some] by simp
  have pf: "parseControl b = Some (tok, ty, pid, ck)" using Some f by simp
  show ?thesis
  proof (cases "rl_allocs rv tok")
    case (Some r)
    note [simp] = \<open>parseControl b = Some f\<close> f Some
    show ?thesis
    proof (cases src)
      case (Ws l)
      then show ?thesis
        using assms(1,2) record_peer_ok [OF assms(1) Some, of src pid now out rv' "length b"] len
        by (auto simp: handleControl_def lookup_alloc_def ep_verified_def answers_def split: if_splits)
    next
      case (Udp a)
      have v: "ep_verified env es tok src" if "ty = msgRegister" "cookieValid env ck tok a now"
        using assms(3) [OF Udp] that pf unfolding Udp ep_verified_def verified_def endpoint.case by blast
      show ?thesis
        using assms(1,2) Udp record_peer_ok [OF assms(1) Some v, of pid now out rv' "length b"] len
          challenge_answers [of env tok pid a now rv out rv' "length b"] peers_slots [OF assms(1)]
        by (auto simp: handleControl_def lookup_alloc_def answers_def split: if_splits)
    qed
  qed (use assms f Some in \<open>simp add: handleControl_def lookup_alloc_def answers_def\<close>)
qed (use assms in \<open>simp add: handleControl_def answers_def\<close>)

lemma stun_ok:
  assumes "handleSTUN env now d a rv = (out, rv')"
  shows "same_slots rv rv' \<and> (\<forall>am \<in> set out. fst am = a \<and> rx_stunAnswer env d a = Some (snd am))"
  using assms slots_allowReply [of rv env now "ua_IP a"]
  by (auto simp: handleSTUN_def split: if_splits prod.splits bool.splits option.splits)

text \<open>What a handler's start does, for an event that is part of the run.\<close>

lemma start_unreflected:
  assumes s: "unreflected env es s"
    and e: "\<And>a. src = Udp a \<Longrightarrow> E_udp now d a \<in> set es" "\<And>l. src = Ws l \<Longrightarrow> \<exists>bin. E_ws now bin d l \<in> set es"
  shows "unreflected env es (start_handler (begin_handle env now d src (rr_relay s)) s)"
proof -
  let ?rv = "rr_relay s"
  obtain out t rv' where b: "begin_handle env now d src ?rv = (out, t, rv')" by (metis prod_cases3)
  have peers: "peers_ok env es ?rv" using s by (simp add: unreflected_def)
  have act: "same_slots ?rv (on_alloc r (al_lastActivity_update (\<lambda>_. now)) ?rv)" for r
    by (rule slots_on_alloc) simp
  have reply: "answers src (length d) out \<Longrightarrow> \<forall>am \<in> set out. reply_ok env es am"
    using e(1) by (fastforce simp: answers_def reply_ok_def)
  have "peers_ok env es rv' \<and> (\<forall>am \<in> set out. reply_ok env es am) \<and> (case t of None \<Rightarrow> True | Some u \<Rightarrow> task_ok env es u)"
    using begin_handle_handled [OF b]
  proof cases
    case control
    then show ?thesis using control_ok [OF peers _ e(1)] reply by auto
  next
    case (stun a)
    then have "same_slots ?rv rv' \<and> (\<forall>am \<in> set out. fst am = a \<and> rx_stunAnswer env d a = Some (snd am))"
      using stun_ok by blast
    moreover have "E_udp now d a \<in> set es" using e(1) stun by simp
    ultimately show ?thesis using stun peers_slots [OF peers] unfolding reply_ok_def by fastforce
  next
    case (unknown ver tok p r)
    then show ?thesis using nudge_answers reply peers_slots [OF peers] by fastforce
  next
    case (routed ver tok p r q)
    let ?al = "rl_store ?rv r"
    have tok: "al_token ?al = tok" using peers routed by (simp add: peers_ok_def)
    obtain p' where p': "al_p0 ?al = Some p' \<or> al_p1 ?al = Some p'" "ep_is (pe_ep p') src"
      and q: "al_p0 ?al = Some q \<or> al_p1 ?al = Some q"
      using routed by (auto simp: direction_def split: if_splits option.splits)
    have "ep_verified env es tok (pe_ep q)" "ep_verified env es tok (pe_ep p')"
      using peers p'(1) q tok unfolding peers_ok_def by metis+
    moreover from this(2) have "sourced env es tok d"
      using p'(2) e by (cases "pe_ep p'"; cases src) (auto simp: sourced_def ep_verified_def)
    moreover have "take TokenSize (drop 1 d) = tok" using routed by (auto simp: Parse_def split: if_splits)
    ultimately show ?thesis using routed peers_slots [OF peers act] by (simp add: task_ok_def)
  qed (simp_all add: peers peers_slots [OF peers act])
  then show ?thesis using s by (auto simp: b start_handler_def unreflected_def split: option.splits)
qed

lemma task_unreflected:
  assumes s: "unreflected env es s"
  shows "unreflected env es (advance env i clk s)"
proof (cases "i < length (rr_tasks s)")
  case True
  let ?t = "rr_tasks s ! i"
  obtain out u rv where ts: "task_step env clk ?t (rr_relay s) = (out, u, rv)" by (metis prod_cases3)
  let ?s = "stepped i u rv out s"
  have t: "task_ok env es ?t" using s nth_mem [OF True] by (simp add: unreflected_def)
  have u: "u = None \<or> (\<exists>v. u = Some v \<and> task_ok env es v)"
    using ts t by (auto simp: task_step_def charge_session_def charge_day_def task_ok_def Let_def
        split: stage.splits if_splits prod.splits bool.splits)
  have out: "(\<forall>am \<in> set out. tk_dst ?t = Udp (fst am) \<and> tk_data ?t = snd am) \<and>
      (out = [] \<or> rr_trace ?s = rr_trace s @ [?t])"
    using ts by (auto simp: task_step_def stepped_def relay_send_def Let_def
        split: stage.splits prod.splits endpoint.splits if_splits)
  have trace: "set (rr_trace ?s) = set (rr_trace s) \<or> set (rr_trace ?s) = insert ?t (set (rr_trace s))"
    by (auto simp: stepped_def split: stage.split)
  have "x \<in> set (rr_tasks ?s) \<Longrightarrow> x \<in> set (rr_tasks s) \<or> u = Some x" for x
    by (auto simp: stepped_def dest: in_set_takeD in_set_dropD split: option.splits)
  then have tasks: "\<forall>x \<in> set (rr_tasks ?s) \<union> set (rr_trace ?s). task_ok env es x"
    using s t u trace unfolding unreflected_def by (metis Un_iff insertE option.distinct(1) option.inject)
  have "peers_ok env es rv" using s slots_task_step [OF ts] peers_slots unfolding unreflected_def by blast
  moreover have "rr_sent ?s = rr_sent s @ out" "rr_relay ?s = rv" by (simp_all add: stepped_def)
  ultimately have "unreflected env es ?s"
    using s tasks out trace unfolding unreflected_def by (auto 0 4)
  then show ?thesis by (simp add: advance_stepped [OF True ts])
qed (simp add: advance_def s)

lemma unreflected_allocate:
  assumes "unreflected env es s"
  shows "unreflected env es (s\<lparr>rr_relay := snd (Allocate t1 t2 rnd (rr_relay s))\<rparr>)"
proof -
  have "peers_ok env es (snd (Allocate t1 t2 rnd rv))" if p: "peers_ok env es rv" for rv
  proof (cases "rl_draining rv")
    case False
    obtain full b where b: "exhausted t1 (rl_budget rv) = (full, b)" by fastforce
    have p1: "peers_ok env es (rv\<lparr>rl_budget := b\<rparr>)" using p by (simp add: peers_ok_def)
    show ?thesis
    proof (cases rnd)
      case (Some t)
      have "peers_ok env es (rv\<lparr>rl_budget := b, rl_store := (rl_store rv)(rl_next rv :=
              zero_alloc\<lparr>al_token := t, al_createdAt := t2, al_lastActivity := t2\<rparr>),
              rl_allocs := (rl_allocs rv)(t \<mapsto> rl_next rv), rl_next := Suc (rl_next rv)\<rparr>)"
        using p unfolding peers_ok_def by (auto simp: zero_alloc_def less_Suc_eq)
      then show ?thesis using False b p1 Some by (simp add: Allocate_def Let_def split: bool.split)
    qed (use False b p1 in \<open>simp add: Allocate_def split: bool.split\<close>)
  qed (simp add: Allocate_def p)
  then show ?thesis using assms by (simp add: unreflected_def)
qed

lemma unreflected_relay:
  "unreflected env es s \<Longrightarrow> same_slots (rr_relay s) rv \<Longrightarrow> unreflected env es (s\<lparr>rr_relay := rv\<rparr>)"
  using peers_slots by (auto simp: unreflected_def)

lemma unreflected_more: "unreflected env es s \<Longrightarrow> set es \<subseteq> set fs \<Longrightarrow> unreflected env fs s"
  unfolding unreflected_def using seen_more(4,5,6) by meson

lemma unreflected_step:
  assumes s: "unreflected env es s" and e: "e \<in> set es"
  shows "unreflected env es (relay_step env e s)"
proof (cases e)
  case (E_udp now d a)
  then show ?thesis using start_unreflected [OF s, of "Udp a" now d] e unreflected_relay [OF s]
    by (auto simp: slots)
next
  case (E_ws now binary d l)
  then have "unreflected env es (start_handler (begin_handle env now d (Ws l) (rr_relay s)) s)"
    using start_unreflected [OF s, of "Ws l" now d] e by auto
  then show ?thesis using E_ws s unreflected_relay [OF s] by (simp add: slots split: ws_action.split)
next
  case (E_task i clk)
  then show ?thesis using task_unreflected [OF s] by simp
next
  case (E_allocate t1 t2 rnd)
  then show ?thesis using unreflected_allocate [OF s] by simp
qed (use unreflected_relay [OF s] in \<open>simp_all add: slots\<close>)

text \<open>The same machine with its history, for facts about what was seen.\<close>

interpretation traced: invariant_machine
  "\<lambda>e (s, es). (relay_step env e s, es @ [e])" "\<lambda>_ _. True" "\<lambda>(s, es). unreflected env es s" for env
proof unfold_locales
  fix x :: "relay_run \<times> relay_event list" and e
  obtain s es where x: "x = (s, es)" by fastforce
  assume "case x of (s, es) \<Rightarrow> unreflected env es s"
  then have "unreflected env (es @ [e]) s" using x unreflected_more [of env es s "es @ [e]"] by auto
  then show "case (case x of (s, es) \<Rightarrow> (relay_step env e s, es @ [e])) of (s, es) \<Rightarrow> unreflected env es s"
    using unreflected_step [of env "es @ [e]" s e] by (simp add: x)
qed

lemma traced_fold:
  "fold (\<lambda>e (s, es). (relay_step env e s, es @ [e])) es (s, hist) = (fold (relay_step env) es s, hist @ es)"
  by (induction es arbitrary: s hist) simp_all

lemma unreflected_run: "unreflected env es (fold (relay_step env) es (relay_init env))"
proof -
  have "unreflected env [] (relay_init env)"
    by (simp add: unreflected_def peers_ok_def relay_init_def NewServer_def zero_alloc_def)
  then show ?thesis
    using traced.inv_run [of env "(relay_init env, [])" es] by (simp add: traced_fold)
qed

text \<open>
  C8. The relay is no reflector. Whatever datagrams arrive, from whatever addresses, and however the
  readers interleave: each datagram it sends over UDP goes to an address that sent it a datagram at
  least as large (or is the STUN library's answer to one), or it is a data frame that is forwarded,
  unchanged, to an address verified for the allocation whose token the frame carries, and that frame
  came in over a link or from a verified address of the same allocation. Verified means that a
  registration came from the address with the cookie the relay makes for it.
\<close>

theorem relay_reflects_nothing:
  assumes "s = fold (relay_step env) es (relay_init env)" and "(a, m) \<in> set (rr_sent s)"
  shows "(\<exists>now d. E_udp now d a \<in> set es \<and> (length m \<le> length d \<or> rx_stunAnswer env d a = Some m)) \<or>
    (let tok = take TokenSize (drop 1 m) in verified env es tok a \<and>
       ((\<exists>now bin l. E_ws now bin m l \<in> set es) \<or>
        (\<exists>now b c. E_udp now m b \<in> set es \<and> verified env es tok c \<and> udpEqual c b)))"
proof -
  have "reply_ok env es (a, m) \<or> (\<exists>t \<in> set (rr_trace s). task_ok env es t \<and> tk_dst t = Udp a \<and> tk_data t = m)"
    using unreflected_run [of env es] assms unfolding unreflected_def by fastforce
  then show ?thesis
    by (auto simp: reply_ok_def task_ok_def ep_verified_def sourced_def Let_def)
qed

definition addr_a :: udp_addr where "addr_a = \<lparr>ua_IP = [10, 0, 0, 1], ua_Port = 5000\<rparr>"
definition addr_b :: udp_addr where "addr_b = \<lparr>ua_IP = [10, 0, 0, 2], ua_Port = 6000\<rparr>"

definition sample_register :: "udp_addr \<Rightarrow> byte \<Rightarrow> bytes" where
  "sample_register a k = frameControl sample_tok msgRegister (replicate 8 k)
     (Some (cookie sample_relay_env sample_tok a (cookieEpoch 1)))"

definition sample_udp_events :: "relay_event list" where
  "sample_udp_events =
     [E_allocate 0 0 (Some sample_tok), E_udp 1 (sample_register addr_a 1) addr_a, E_udp 1 (sample_register addr_b 2) addr_b,
      E_udp 2 (relay_version # sample_tok @ [9]) addr_a, E_task 0 2, E_task 0 2, E_task 0 2]"

lemma sample_udp_sent:
  "last (rr_sent (fold (relay_step sample_relay_env) sample_udp_events (relay_init sample_relay_env)))
     = (addr_b, relay_version # sample_tok @ [9])"
  "rr_sent (fold (relay_step sample_relay_env) sample_udp_events (relay_init sample_relay_env)) \<noteq> []"
  by code_simp+

theorem relay_reflects_nothing_witness:
  "(\<exists>now d. E_udp now d addr_b \<in> set sample_udp_events \<and> length d \<ge> 18) \<and>
   (let m = relay_version # sample_tok @ [9] in
     (\<exists>now d. E_udp now d addr_b \<in> set sample_udp_events \<and>
        (length m \<le> length d \<or> rx_stunAnswer sample_relay_env d addr_b = Some m)) \<or>
     verified sample_relay_env sample_udp_events (take TokenSize (drop 1 m)) addr_b)"
proof -
  have in_sent: "(addr_b, relay_version # sample_tok @ [9])
      \<in> set (rr_sent (fold (relay_step sample_relay_env) sample_udp_events (relay_init sample_relay_env)))"
    using sample_udp_sent last_in_set by metis
  have "E_udp 1 (sample_register addr_b 2) addr_b \<in> set sample_udp_events" "18 \<le> length (sample_register addr_b 2)"
    by (simp_all add: sample_udp_events_def sample_register_def frame_consts)
  then show ?thesis
    using relay_reflects_nothing [OF refl in_sent] by (auto simp: Let_def)
qed

section \<open>Two clients through the relay\<close>

text \<open>The registration of a client at \<open>a\<close>, its messages and the relay's answers carried both ways.\<close>

definition udp_handshake ::
  "relay_env \<Rightarrow> time \<Rightarrow> time \<Rightarrow> relay_conn \<Rightarrow> udp_addr \<Rightarrow> relay \<Rightarrow> reg_result option \<times> relay" where
  "udp_handshake env t1 t2 c a rv =
     (case handle env t1 t1 (hd (fst (Register c (\<lambda>_. None) []))) (Udp a) rv of
        (out1, rv1) \<Rightarrow>
          (case handle env t2 t2 (last (fst (Register c (\<lambda>_. None) (map (Reg_data \<circ> snd) out1)))) (Udp a) rv1 of
             (out2, rv2) \<Rightarrow> (snd (Register c (\<lambda>_. None) (map (Reg_data \<circ> snd) (out1 @ out2))), rv2)))"

lemma handle_control:
  assumes "\<not> rx_disabled env" "d ! 0 = ControlVersion" "d \<noteq> []"
  shows "handle env now clk d src rv = handleControl env now d src rv"
proof -
  obtain ds where "d = ControlVersion # ds" using assms(2,3) by (cases d) auto
  then show ?thesis using assms(1)
    by (simp add: handle_def begin_handle_def then_step_def frame_consts split: prod.split)
qed

lemma frameControl_nonempty: "frameControl tok ty pid c \<noteq> []"
  using length_frameControl [of tok ty pid c] by (metis ControlSize_def add_is_0 list.size(3) one_neq_zero)

lemmas handle_frame = handle_control [OF _ frameControl_first frameControl_nonempty]

lemma msg_distinct [simp]:
  "msgHello \<noteq> msgRegister" "msgRegister \<noteq> msgHello" "msgRegistered \<noteq> msgChallenge" "msgChallenge \<noteq> msgRegistered"
  by (simp_all add: msg_types)

lemma control_fits: "take MaxDatagram (frameControl tok ty pid c) = frameControl tok ty pid c"
  by (simp add: frame_consts)

lemma length_cookie [simp]: "length (cookie env tok a e) = cookieSize"
  by (simp add: cookie_def)

lemma handshake_done:
  assumes "\<not> rx_disabled env" "length (rc_token c) = TokenSize" "length (rc_id c) = PeerIDSize"
    and "rl_allocs rv (rc_token c) = Some r" "allowReply env t1 (ua_IP a) rv = (True, rv1)"
    and "cookieEpoch t2 = cookieEpoch t1 \<or> cookieEpoch t2 = cookieEpoch t1 + 1"
    and "alloc_register (rc_id c) (Udp a) (rl_store rv r) = (True, al)"
  shows "udp_handshake env t1 t2 c a rv = (Some Reg_done, on_alloc r (\<lambda>_. al\<lparr>al_lastActivity := t2\<rparr>) rv1)"
proof -
  let ?tok = "rc_token c" and ?id = "rc_id c" and ?ck = "cookie env (rc_token c) a (cookieEpoch t1)"
  let ?hello = "frameControl ?tok msgHello ?id None" and ?ch = "frameControl ?tok msgChallenge ?id (Some ?ck)"
  let ?reg = "frameControl ?tok msgRegister ?id (Some ?ck)" and ?ok = "frameControl ?tok msgRegistered ?id None"
  note parse [simp] = parse_frameControl [OF assms(2,3)]
  have same: "rl_allocs rv1 = rl_allocs rv" "rl_store rv1 = rl_store rv"
    using assms(5) by (auto simp: allowReply_def new_window_def Let_def split: if_splits)
  have h1: "handle env t1 t1 ?hello (Udp a) rv = ([(a, ?ch)], rv1)"
    using assms(4,5) by (simp add: handle_frame [OF assms(1)] handleControl_def lookup_alloc_def challenge_def relay_send_def)
  have "cookieValid env ?ck ?tok a t2"
    using assms(6) by (auto simp: cookieValid_def Let_def)
  then have h2: "handle env t2 t2 ?reg (Udp a) rv1 = ([(a, ?ok)], on_alloc r (\<lambda>_. al\<lparr>al_lastActivity := t2\<rparr>) rv1)"
    using assms(4,7) same
    by (simp add: handle_frame [OF assms(1)] handleControl_def lookup_alloc_def record_peer_def relay_send_def)
  have r0: "fst (Register c (\<lambda>_. None) []) = [?hello]"
    by (simp add: Register_def register_loop.simps conn_control_def)
  have r1: "fst (Register c (\<lambda>_. None) [Reg_data ?ch]) = [?hello, ?reg]"
    by (simp add: Register_def register_loop.simps conn_control_def control_fits)
  have r2: "snd (Register c (\<lambda>_. None) [Reg_data ?ch, Reg_data ?ok]) = Some Reg_done"
    by (simp add: Register_def register_loop.simps conn_control_def control_fits)
  show ?thesis
    by (simp add: udp_handshake_def r0 h1 r1 h2 r2)
qed

lemma handle_forwards:
  assumes "\<not> rx_disabled env" "length tok = TokenSize" "rl_allocs rv tok = Some r"
    and "direction (rl_store rv r) src = Some (Some q)" "pe_ep q = Udp b" "d = relay_version # tok @ p"
    and "rx_cap env = 0 \<or> al_bytes (rl_store rv r) + wire_size d \<le> rx_cap env"
    and "\<not> fst (charge now (wire_size d) (rl_budget rv))"
  shows "fst (handle env now clk d src rv) = [(b, d)]"
proof -
  let ?rv1 = "on_alloc r (al_lastActivity_update (\<lambda>_. now)) rv"
  let ?t = "\<lparr>tk_alloc = r, tk_token = tok, tk_dst = Udp b, tk_now = now, tk_data = d, tk_stage = To_charge\<rparr>"
  have start: "begin_handle env now d src rv = ([], Some ?t, ?rv1)"
    using assms(1-6) by (simp add: begin_handle_def route_data_def parse_frame lookup_alloc_def Let_def)
  have "\<not> (0 < rx_cap env \<and> rx_cap env < al_bytes (rl_store rv r) + wire_size d)"
    using assms(7) by auto
  then obtain tot rv2 where charged: "charge_session env clk ?t ?rv1 = (Some (?t\<lparr>tk_stage := To_budget tot\<rparr>), rv2)"
      "rl_budget rv2 = rl_budget rv"
    by (simp add: charge_session_def on_alloc_def Let_def)
  obtain bud where "charge now (wire_size d) (rl_budget rv2) = (False, bud)"
    using assms(8) charged(2) by (metis eq_fst_iff)
  then have day: "charge_day clk (?t\<lparr>tk_stage := To_budget tot\<rparr>) tot rv2
      = (Some (?t\<lparr>tk_stage := To_forward tot\<rparr>), rv2\<lparr>rl_budget := bud\<rparr>)"
    by (simp add: charge_day_def)
  have s1: "then_step env clk ([], Some ?t, ?rv1) = ([], Some (?t\<lparr>tk_stage := To_budget tot\<rparr>), rv2)"
    by (simp add: then_step_def task_step_def charged)
  have s2: "then_step env clk ([], Some (?t\<lparr>tk_stage := To_budget tot\<rparr>), rv2)
      = ([], Some (?t\<lparr>tk_stage := To_forward tot\<rparr>), rv2\<lparr>rl_budget := bud\<rparr>)"
    unfolding then_step_def task_step_def using day by simp
  show ?thesis
    unfolding handle_def start s1 s2 by (simp add: then_step_def task_step_def relay_send_def)
qed

text \<open>What a handshake changes: the slots of its allocation.\<close>

lemma handshake_kept:
  assumes "allowReply env t ip rv = (True, rv1)" "alloc_register pid ep (rl_store rv r) = (True, al)"
    and "rv2 = on_alloc r (\<lambda>_. al\<lparr>al_lastActivity := t2\<rparr>) rv1"
  shows "rl_allocs rv2 = rl_allocs rv \<and> rl_budget rv2 = rl_budget rv \<and> rl_store rv2 r = al\<lparr>al_lastActivity := t2\<rparr> \<and>
    al_bytes al = al_bytes (rl_store rv r)"
  using assms register_keeps [of pid ep "rl_store rv r"]
  by (auto simp: allowReply_def new_window_def on_alloc_def Let_def split: if_splits)

lemma direction_pair:
  assumes "al_p0 a = Some p" "al_p1 a = Some q" "pe_ep p = Udp x" "pe_ep q = Udp y" "\<not> udpEqual x y"
  shows "direction a (Udp x) = Some (Some q)" "direction a (Udp y) = Some (Some p)"
proof -
  have "udpEqual x x" "udpEqual y y" by (simp_all add: udpEqual_def IP_Equal_def)
  with assms show "direction a (Udp x) = Some (Some q)" "direction a (Udp y) = Some (Some p)"
    by (simp_all add: direction_def)
qed

text \<open>
  C35. Two clients of one fresh allocation, at different addresses and with different peer ids, both
  finish the registration handshake with the relay, provided the relay still has replies to give and
  each echoes its cookie in the same or the next epoch. From then on a datagram either writes reaches
  the other's \<open>ReadFrom\<close> unchanged, as long as the session's cap and the day's budget allow it.
\<close>

theorem relay_path_delivers:
  assumes "\<not> rx_disabled env" "length tok = TokenSize" "rl_allocs rv tok = Some r"
    and "al_p0 (rl_store rv r) = None" "al_p1 (rl_store rv r) = None"
    and "rc_token c = tok" "rc_token d = tok" "length (rc_id c) = PeerIDSize" "length (rc_id d) = PeerIDSize"
    and "rc_id c \<noteq> rc_id d" "\<not> udpEqual a b"
    and "cookieEpoch t2 = cookieEpoch t1 \<or> cookieEpoch t2 = cookieEpoch t1 + 1"
    and "cookieEpoch t4 = cookieEpoch t3 \<or> cookieEpoch t4 = cookieEpoch t3 + 1"
    and "udp_handshake env t1 t2 c a rv = (res1, rv1)" "udp_handshake env t3 t4 d b rv1 = (res2, rv2)"
    and "fst (allowReply env t1 (ua_IP a) rv)" "fst (allowReply env t3 (ua_IP b) rv1)"
    and "length p + HeaderSize \<le> MaxDatagram" "length p \<le> m"
    and "rx_cap env = 0 \<or> al_bytes (rl_store rv r) + of_nat (HeaderSize + length p) \<le> rx_cap env"
    and "\<not> fst (charge now (of_nat (HeaderSize + length p)) (rl_budget rv))"
  shows "res1 = Some Reg_done \<and> res2 = Some Reg_done \<and>
    (\<exists>f. fst (conn_WriteTo p wr c) = Some f \<and> fst (conn_WriteTo p wr d) = Some f \<and>
       fst (handle env now clk f (Udp a) rv2) = [(b, f)] \<and> fst (handle env now clk f (Udp b) rv2) = [(a, f)] \<and>
       fst (snd (conn_ReadFrom m [Inr f] d)) = Some (Inr p) \<and> fst (snd (conn_ReadFrom m [Inr f] c)) = Some (Inr p))"
proof -
  let ?al = "rl_store rv r" and ?f = "relay_version # tok @ p"
  let ?pc = "\<lparr>pe_id = rc_id c, pe_ep = Udp a\<rparr>" and ?pd = "\<lparr>pe_id = rc_id d, pe_ep = Udp b\<rparr>"
  obtain rva rvb where reply: "allowReply env t1 (ua_IP a) rv = (True, rva)" "allowReply env t3 (ua_IP b) rv1 = (True, rvb)"
    using assms(16,17) by (metis eq_fst_iff)
  have regc: "alloc_register (rc_id c) (Udp a) ?al = (True, ?al\<lparr>al_p0 := Some ?pc\<rparr>)"
    using assms(4,5) by (simp add: alloc_register_def has_id_def)
  have h1: "res1 = Some Reg_done \<and> rv1 = on_alloc r (\<lambda>_. ?al\<lparr>al_p0 := Some ?pc, al_lastActivity := t2\<rparr>) rva"
    using handshake_done [OF assms(1) _ assms(8) _ reply(1) assms(12) regc] assms(2,3,6,14) by simp
  have k1: "rl_allocs rv1 = rl_allocs rv" "rl_budget rv1 = rl_budget rv"
      "rl_store rv1 r = ?al\<lparr>al_p0 := Some ?pc, al_lastActivity := t2\<rparr>"
    using handshake_kept [OF reply(1) regc] h1 by auto
  have regd: "alloc_register (rc_id d) (Udp b) (rl_store rv1 r) = (True, (rl_store rv1 r)\<lparr>al_p1 := Some ?pd\<rparr>)"
    using assms(5,10) by (simp add: alloc_register_def has_id_def k1(3))
  have h2: "res2 = Some Reg_done \<and> rv2 = on_alloc r (\<lambda>_. (rl_store rv1 r)\<lparr>al_p1 := Some ?pd, al_lastActivity := t4\<rparr>) rvb"
    using handshake_done [OF assms(1) _ assms(9) _ reply(2) assms(13) regd] assms(2,3,7,15) k1(1) by simp
  have k2: "rl_allocs rv2 tok = Some r" "rl_budget rv2 = rl_budget rv"
      "rl_store rv2 r = (rl_store rv1 r)\<lparr>al_p1 := Some ?pd, al_lastActivity := t4\<rparr>"
    using handshake_kept [OF reply(2) regd] h2 k1 assms(3) by auto
  have dir: "direction (rl_store rv2 r) (Udp a) = Some (Some ?pd)" "direction (rl_store rv2 r) (Udp b) = Some (Some ?pc)"
    using direction_pair [of "rl_store rv2 r" ?pc ?pd a b] assms(11) by (simp_all add: k2(3) k1(3))
  have size: "wire_size ?f = of_nat (HeaderSize + length p)"
    using assms(2) by (simp add: wire_size_def frame_consts)
  have cap: "rx_cap env = 0 \<or> al_bytes (rl_store rv2 r) + wire_size ?f \<le> rx_cap env"
    using assms(20) unfolding size k2(3) k1(3) by simp
  have day: "\<not> fst (charge now (wire_size ?f) (rl_budget rv2))"
    using assms(21) unfolding size k2(2) .
  have fwd: "fst (handle env now clk ?f (Udp a) rv2) = [(b, ?f)]" "fst (handle env now clk ?f (Udp b) rv2) = [(a, ?f)]"
    using handle_forwards [OF assms(1,2) k2(1) dir(1) _ refl cap day] handle_forwards [OF assms(1,2) k2(1) dir(2) _ refl cap day]
    by simp_all
  have fits: "take (MaxDatagram + 1) ?f = ?f" using assms(2,18) by (simp add: frame_consts)
  have written: "fst (conn_WriteTo p wr c) = Some ?f" "fst (conn_WriteTo p wr d) = Some ?f"
    using write_read_turn(1) [of c c p m wr] write_read_turn(1) [of d d p m wr] assms(2,6,7,18,19) by simp_all
  have "read_turn m ?f d = (None, Some p, d\<lparr>rc_gotInbound := True\<rparr>)" "read_turn m ?f c = (None, Some p, c\<lparr>rc_gotInbound := True\<rparr>)"
    using write_read_turn(2) [of c d p m] write_read_turn(2) [of c c p m] assms(2,6,7,18,19) by simp_all
  then have "fst (snd (conn_ReadFrom m [Inr ?f] d)) = Some (Inr p)" "fst (snd (conn_ReadFrom m [Inr ?f] c)) = Some (Inr p)"
    using fits by simp_all
  with h1 h2 fwd written show ?thesis by blast
qed

definition sample_rv :: relay where
  "sample_rv = snd (Allocate 0 0 (Some sample_tok) (NewServer sample_relay_env))"

definition sample_client :: "byte \<Rightarrow> relay_conn" where
  "sample_client k = NewClient sample_tok (replicate 8 k)"

lemma sample_path:
  "\<not> rx_disabled sample_relay_env" "length sample_tok = TokenSize" "rl_allocs sample_rv sample_tok = Some 0"
  "al_p0 (rl_store sample_rv 0) = None" "al_p1 (rl_store sample_rv 0) = None"
  "rc_token (sample_client k) = sample_tok" "length (rc_id (sample_client k)) = PeerIDSize"
  "rc_id (sample_client 1) \<noteq> rc_id (sample_client 2)" "\<not> udpEqual addr_a addr_b"
  "fst (allowReply sample_relay_env 1 (ua_IP addr_a) sample_rv)"
  "fst (allowReply sample_relay_env 3 (ua_IP addr_b) (snd (udp_handshake sample_relay_env 1 2 (sample_client 1) addr_a sample_rv)))"
  "al_bytes (rl_store sample_rv 0) + of_nat (HeaderSize + length [42 :: byte]) \<le> rx_cap sample_relay_env"
  "\<not> fst (charge 5 (of_nat (HeaderSize + length [42 :: byte])) (rl_budget sample_rv))"
  by (code_simp, code_simp, code_simp, code_simp, code_simp, simp add: sample_client_def NewClient_def,
      simp add: sample_client_def NewClient_def frame_consts) code_simp+

theorem relay_path_delivers_witness:
  "let (res1, rv1) = udp_handshake sample_relay_env 1 2 (sample_client 1) addr_a sample_rv;
       (res2, rv2) = udp_handshake sample_relay_env 3 4 (sample_client 2) addr_b rv1
   in res1 = Some Reg_done \<and> res2 = Some Reg_done \<and>
      (\<exists>f. fst (handle sample_relay_env 5 5 f (Udp addr_a) rv2) = [(addr_b, f)] \<and>
           fst (snd (conn_ReadFrom 100 [Inr f] (sample_client 2))) = Some (Inr [42]))"
proof -
  obtain res1 rv1 where h1: "udp_handshake sample_relay_env 1 2 (sample_client 1) addr_a sample_rv = (res1, rv1)" by fastforce
  obtain res2 rv2 where h2: "udp_handshake sample_relay_env 3 4 (sample_client 2) addr_b rv1 = (res2, rv2)" by fastforce
  have epochs: "cookieEpoch 2 = cookieEpoch 1" "cookieEpoch 4 = cookieEpoch 3"
    by (simp_all add: cookieEpoch_def cookieLifetime_def)
  have fits: "length [42 :: byte] + HeaderSize \<le> MaxDatagram" "length [42 :: byte] \<le> 100"
    by (simp_all add: frame_consts)
  show ?thesis
    unfolding h1 h2 Let_def prod.case
    using relay_path_delivers [OF sample_path(1-5) sample_path(6) sample_path(6) sample_path(7) sample_path(7)
        sample_path(8,9) disjI1 [OF epochs(1)] disjI1 [OF epochs(2)] h1 h2 sample_path(10)
        sample_path(11) [unfolded h1 snd_conv] fits disjI2 [OF sample_path(12)] sample_path(13)]
    by blast
qed

end
