(* ===== verification/Peer_Auth.thy ===== *)
theory Peer_Auth
  imports Cpace Fs_Errors
begin

text \<open>
  \<open>internal/quicconn/auth.go\<close> and \<open>connid.go\<close>: the two ends of a connection prove to each other that
  they know the code, by CPace bound to the TLS session and an exchange of confirmation tags, and
  connection ids that no STUN demultiplexer can mistake. The primitives, the TLS exporter and
  the randomness are arguments; a control stream is what is still to be read and what was written.
\<close>

record 'f auth_env =
  au_pp :: "'f pake_prims"
  au_hmac :: "bytes \<Rightarrow> bytes \<Rightarrow> bytes"
  au_exporter :: "bytes option"
  au_scalar :: bytes

definition str :: "string \<Rightarrow> bytes" where "str s = map byte_of_char s"

definition exporterLen :: nat where "exporterLen = 32"
definition tagLen :: nat where "tagLen = 32"
definition pakeMsgLen :: nat where "pakeMsgLen = 2 + ShareSize"
definition maxPakeMsgLen :: nat where "maxPakeMsgLen = 1024"
definition suiteCPace :: byte where "suiteCPace = 67"
definition suiteVersion :: byte where "suiteVersion = 1"
definition suiteSPAKE2 :: byte where "suiteSPAKE2 = 83"

datatype auth_role = roleSender | roleReceiver

definition dirSenderToReceiver :: bytes where "dirSenderToReceiver = str ''fsend-confirm-sender''"
definition dirReceiverToSender :: bytes where "dirReceiverToSender = str ''fsend-confirm-receiver''"
definition adSender :: bytes where "adSender = str ''fsend sender''"
definition adReceiver :: bytes where "adReceiver = str ''fsend receiver''"

fun otherRole :: "auth_role \<Rightarrow> auth_role" where
  "otherRole roleSender = roleReceiver"
| "otherRole roleReceiver = roleSender"

definition parsePakeMsg :: "bytes \<Rightarrow> goerr + bytes" where
  "parsePakeMsg msg =
     (if length msg = 1 + 32 \<and> msg ! 0 = suiteSPAKE2 then Inl [ErrIncompatibleVersion]
      else if 2 \<le> length msg \<and> msg ! 0 = suiteCPace \<and> msg ! 1 \<noteq> suiteVersion then Inl [ErrIncompatibleVersion]
      else if length msg \<noteq> pakeMsgLen \<or> msg ! 0 \<noteq> suiteCPace then Inl [ErrPeerAuthFailed]
      else Inr (drop 2 msg))"

definition lenPrefixed :: "bytes \<Rightarrow> bytes" where
  "lenPrefixed b = be32 (of_nat (length b)) @ b"

definition confirm_input :: "bytes \<Rightarrow> auth_role \<Rightarrow> bytes \<Rightarrow> bytes \<Rightarrow> bytes" where
  "confirm_input exporter r senderMsg receiverMsg =
     exporter @ (case r of roleSender \<Rightarrow> dirSenderToReceiver | roleReceiver \<Rightarrow> dirReceiverToSender)
       @ lenPrefixed senderMsg @ lenPrefixed receiverMsg"

definition confirmTag ::
  "(bytes \<Rightarrow> bytes \<Rightarrow> bytes) \<Rightarrow> bytes \<Rightarrow> bytes \<Rightarrow> auth_role \<Rightarrow> bytes \<Rightarrow> bytes \<Rightarrow> bytes" where
  "confirmTag hmac key exporter r senderMsg receiverMsg = hmac key (confirm_input exporter r senderMsg receiverMsg)"

definition sessionBinding :: "(bytes \<Rightarrow> bytes \<Rightarrow> bytes) \<Rightarrow> bytes \<Rightarrow> bytes \<Rightarrow> bytes" where
  "sessionBinding hmac key exporter = hmac key (str ''fsend-session-binding'' @ exporter)"

definition writeFramed :: "bytes \<Rightarrow> writer \<Rightarrow> goerr option \<times> writer" where
  "writeFramed msg w =
     (if maxPakeMsgLen < length msg then (Some [], w)
      else (case write_all (be16 (of_nat (length msg))) w of
          (False, w1) \<Rightarrow> (Some [], w1)
        | (True, w1) \<Rightarrow>
            (case write_all msg w1 of (ok, w2) \<Rightarrow> (if ok then None else Some [], w2))))"

definition readFramed :: "nat \<Rightarrow> reader \<Rightarrow> (goerr + bytes) \<times> reader" where
  "readFramed maxLen rd =
     (case read_full 2 rd of
        (Inl e, r1) \<Rightarrow> (Inl (io_goerr e), r1)
      | (Inr hdr, r1) \<Rightarrow>
          let n = unat (be_word hdr :: u16) in
          if n = 0 then (Inl [ErrPeerAuthFailed], r1)
          else if maxLen < n then (Inl [ErrPeerAuthFailed], r1)
          else (case read_full n r1 of
              (Inl e, r2) \<Rightarrow> (Inl (io_goerr e), r2)
            | (Inr buf, r2) \<Rightarrow> (Inr buf, r2)))"

definition my_ad :: "auth_role \<Rightarrow> bytes" where
  "my_ad r = (case r of roleSender \<Rightarrow> adSender | roleReceiver \<Rightarrow> adReceiver)"

definition pake_role :: "auth_role \<Rightarrow> role" where
  "pake_role r = (case r of roleSender \<Rightarrow> Initiator | roleReceiver \<Rightarrow> Responder)"

text \<open>The transcript, ordered by role so that both ends hash the same bytes.\<close>

definition transcript :: "auth_role \<Rightarrow> bytes \<Rightarrow> bytes \<Rightarrow> bytes \<times> bytes" where
  "transcript r myMsg peerMsg = (case r of roleSender \<Rightarrow> (myMsg, peerMsg) | roleReceiver \<Rightarrow> (peerMsg, myMsg))"

text \<open>The exchange of the tags, once the key is there.\<close>

definition confirm_key ::
  "'f auth_env \<Rightarrow> bytes \<Rightarrow> bytes \<Rightarrow> auth_role \<Rightarrow> bytes \<Rightarrow> bytes \<Rightarrow> reader \<Rightarrow> writer \<Rightarrow> (goerr + bytes) \<times> reader \<times> writer" where
  "confirm_key env key exporter r myMsg peerMsg rd w =
     (case transcript r myMsg peerMsg of
        (senderMsg, receiverMsg) \<Rightarrow>
          let myTag = confirmTag (au_hmac env) key exporter r senderMsg receiverMsg;
              wantTag = confirmTag (au_hmac env) key exporter (otherRole r) senderMsg receiverMsg in
          (case write_all myTag w of
             (False, w1) \<Rightarrow> (Inl [], rd, w1)
           | (True, w1) \<Rightarrow>
               (case read_full tagLen rd of
                  (Inl e, r1) \<Rightarrow> (Inl (io_goerr e), r1, w1)
                | (Inr peerTag, r1) \<Rightarrow>
                    if wantTag \<noteq> peerTag then (Inl [ErrPeerAuthFailed], r1, w1)
                    else (Inr (sessionBinding (au_hmac env) key exporter), r1, w1))))"

definition authenticatePeer ::
  "'f auth_env \<Rightarrow> string \<Rightarrow> auth_role \<Rightarrow> reader \<Rightarrow> writer \<Rightarrow> (goerr + bytes) \<times> reader \<times> writer" where
  "authenticatePeer env code r rd w =
     (case au_exporter env of
        None \<Rightarrow> (Inl [], rd, w)
      | Some exporter \<Rightarrow>
          (case pake_New (au_pp env) (pake_role r)
                  \<lparr>pa_PRS = str code, pa_CI = str ''fsend'', pa_SID = exporter, pa_AD = my_ad r\<rparr> (au_scalar env) of
             Inl _ \<Rightarrow> (Inl [], rd, w)
           | Inr st \<Rightarrow>
               let myMsg = [suiteCPace, suiteVersion] @ ps_share st in
               (case writeFramed myMsg w of
                  (Some e, w1) \<Rightarrow> (Inl e, rd, w1)
                | (None, w1) \<Rightarrow>
                    (case readFramed maxPakeMsgLen rd of
                       (Inl e, r1) \<Rightarrow> (Inl e, r1, w1)
                     | (Inr peerMsg, r1) \<Rightarrow>
                         (case parsePakeMsg peerMsg of
                            Inl e \<Rightarrow> (Inl e, r1, w1)
                          | Inr peerShare \<Rightarrow>
                              (case fst (pake_Finish (au_pp env) peerShare (my_ad (otherRole r)) st) of
                                 Inl _ \<Rightarrow> (Inl [ErrPeerAuthFailed], r1, w1)
                               | Inr key \<Rightarrow> confirm_key env key exporter r myMsg peerMsg r1 w1))))))"

section \<open>Connection ids\<close>

definition stunMagicCookie :: u32 where "stunMagicCookie = 0x2112A442"
definition connIDLen :: nat where "connIDLen = 8"

definition placesMagicCookie :: "bytes \<Rightarrow> bool" where
  "placesMagicCookie cid \<longleftrightarrow> 7 \<le> length cid \<and> be_word (take 4 (drop 3 cid)) = stunMagicCookie"

text \<open>\<open>rnd k\<close> is what the \<open>k\<close>-th reading of the randomness puts into the buffer; the loop may go on for ever.\<close>

partial_function (option) GenerateConnectionID :: "(nat \<Rightarrow> bytes option) \<Rightarrow> nat \<Rightarrow> bytes option option" where
  [code]: "GenerateConnectionID rnd k =
     (case rnd k of
        None \<Rightarrow> Some None
      | Some b \<Rightarrow> if placesMagicCookie b then GenerateConnectionID rnd (Suc k) else Some (Some b))"

text \<open>A short-header packet is a flags byte, the connection id and the rest; pion calls it STUN by bytes 4 to 7.\<close>

lemma conn_id_drawn:
  assumes "GenerateConnectionID rnd k = Some x"
  shows "\<forall>c. x = Some c \<longrightarrow> \<not> placesMagicCookie c \<and> (\<exists>j. rnd j = Some c)"
proof (rule GenerateConnectionID.raw_induct
    [where P = "\<lambda>rnd k x. \<forall>c. x = Some c \<longrightarrow> \<not> placesMagicCookie c \<and> (\<exists>j. rnd j = Some c)", OF _ assms])
  fix gen and rnd :: "nat \<Rightarrow> bytes option" and k x
  assume ih: "\<And>rnd k y. gen rnd k = Some y \<Longrightarrow> \<forall>c. y = Some c \<longrightarrow> \<not> placesMagicCookie c \<and> (\<exists>j. rnd j = Some c)"
    and eq: "(case rnd k of None \<Rightarrow> Some None | Some b \<Rightarrow> if placesMagicCookie b then gen rnd (Suc k) else Some (Some b)) = Some x"
  show "\<forall>c. x = Some c \<longrightarrow> \<not> placesMagicCookie c \<and> (\<exists>j. rnd j = Some c)"
    using eq ih [of rnd "Suc k" x] by (auto split: option.splits if_splits)
qed

lemma conn_id_stun_safe:
  assumes "GenerateConnectionID rnd k = Some (Some cid)" "\<And>j b. rnd j = Some b \<Longrightarrow> length b = connIDLen"
  shows "length cid = connIDLen \<and> be_word (take 4 (drop 4 (flags # cid @ rest))) \<noteq> stunMagicCookie"
  using conn_id_drawn [OF assms(1)] assms(2) by (auto simp: placesMagicCookie_def connIDLen_def)

lemma conn_id_found:
  assumes "\<And>j. j < n \<Longrightarrow> \<exists>b. rnd (k + j) = Some b \<and> placesMagicCookie b" "rnd (k + n) = Some b" "\<not> placesMagicCookie b"
  shows "GenerateConnectionID rnd k = Some (Some b)"
  using assms
proof (induction n arbitrary: k)
  case 0
  then show ?case by (subst GenerateConnectionID.simps) simp
next
  case (Suc n)
  obtain c where c: "rnd k = Some c" "placesMagicCookie c" using Suc.prems(1) [of 0] by auto
  have "GenerateConnectionID rnd (Suc k) = Some (Some b)"
    using Suc.prems(1) [of "Suc j" for j] Suc.prems(2,3) by (intro Suc.IH) auto
  then show ?case using c by (subst GenerateConnectionID.simps) simp
qed

section \<open>Two honest ends\<close>

lemma length_be16_msg: "be_word (be16 (of_nat n)) = (of_nat n :: u16)"
  by simp

lemma frame_roundtrip:
  assumes "0 < length msg" "length msg \<le> maxPakeMsgLen"
  shows "writeFramed msg \<lparr>w_out = out, w_room = None\<rparr>
      = (None, \<lparr>w_out = out @ be16 (of_nat (length msg)) @ msg, w_room = None\<rparr>)"
    and "readFramed maxPakeMsgLen \<lparr>r_data = be16 (of_nat (length msg)) @ msg @ rest, r_end = e\<rparr>
      = (Inr msg, \<lparr>r_data = rest, r_end = e\<rparr>)"
proof -
  have "unat (of_nat (length msg) :: u16) = length msg"
    using assms(2) by (simp add: unat_of_nat maxPakeMsgLen_def)
  then show "readFramed maxPakeMsgLen \<lparr>r_data = be16 (of_nat (length msg)) @ msg @ rest, r_end = e\<rparr>
      = (Inr msg, \<lparr>r_data = rest, r_end = e\<rparr>)"
    using assms by (simp add: readFramed_def stream_simps)
  show "writeFramed msg \<lparr>w_out = out, w_room = None\<rparr>
      = (None, \<lparr>w_out = out @ be16 (of_nat (length msg)) @ msg, w_room = None\<rparr>)"
    using assms(2) by (simp add: writeFramed_def stream_simps)
qed

lemma parse_own:
  "length share = ShareSize \<Longrightarrow> parsePakeMsg ([suiteCPace, suiteVersion] @ share) = Inr share"
  by (simp add: parsePakeMsg_def suiteCPace_def suiteVersion_def suiteSPAKE2_def pakeMsgLen_def ShareSize_def)

definition pake_msg :: "bytes \<Rightarrow> bytes" where
  "pake_msg share = [suiteCPace, suiteVersion] @ share"

text \<open>What one end writes in a run that gets to the tags.\<close>

definition sent_by ::
  "(bytes \<Rightarrow> bytes \<Rightarrow> bytes) \<Rightarrow> bytes \<Rightarrow> bytes \<Rightarrow> auth_role \<Rightarrow> bytes \<Rightarrow> bytes \<Rightarrow> bytes" where
  "sent_by hmac key exporter r my peer =
     (case transcript r (pake_msg my) (pake_msg peer) of
        (s, t) \<Rightarrow> be16 (of_nat (length (pake_msg my))) @ pake_msg my @ confirmTag hmac key exporter r s t)"

lemma transcript_swap: "transcript (otherRole r) y x = transcript r x y"
  by (cases r) (simp_all add: transcript_def)

lemma otherRole_invol [simp]: "otherRole (otherRole r) = r"
  by (cases r) simp_all

lemma authenticate_run:
  assumes "au_exporter env = Some exporter"
    and "pake_New (au_pp env) (pake_role r) \<lparr>pa_PRS = str code, pa_CI = str ''fsend'', pa_SID = exporter, pa_AD = my_ad r\<rparr>
           (au_scalar env) = Inr st"
    and "length (ps_share st) = ShareSize" "length peer = ShareSize"
    and "fst (pake_Finish (au_pp env) peer (my_ad (otherRole r)) st) = Inr key"
    and "\<And>m. length (au_hmac env key m) = tagLen"
  shows "authenticatePeer env code r
      \<lparr>r_data = sent_by (au_hmac env) key exporter (otherRole r) peer (ps_share st), r_end = e\<rparr> \<lparr>w_out = [], w_room = None\<rparr>
    = (Inr (sessionBinding (au_hmac env) key exporter), \<lparr>r_data = [], r_end = e\<rparr>,
       \<lparr>w_out = sent_by (au_hmac env) key exporter r (ps_share st) peer, w_room = None\<rparr>)"
proof -
  obtain s t where st: "transcript r (pake_msg (ps_share st)) (pake_msg peer) = (s, t)" by fastforce
  have len: "0 < length (pake_msg b)" "length (pake_msg b) \<le> maxPakeMsgLen" if "length b = ShareSize" for b
    using that by (simp_all add: pake_msg_def ShareSize_def maxPakeMsgLen_def)
  have tag: "length (confirmTag (au_hmac env) key exporter q s t) = tagLen" for q
    using assms(6) by (simp add: confirmTag_def)
  note w = frame_roundtrip(1) [OF len [OF assms(3)]] and rd = frame_roundtrip(2) [OF len [OF assms(4)]]
  note parse = parse_own [OF assms(4), folded pake_msg_def]
  show ?thesis
    unfolding authenticatePeer_def assms(1,2) option.case sum.case Let_def pake_msg_def [symmetric]
    using st transcript_swap [of "r" "pake_msg peer" "pake_msg (ps_share st)"] tag read_full_append [OF tag [symmetric], of "otherRole r" "[]" e]
    by (simp add: w rd sent_by_def parse assms(5) confirm_key_def stream_simps)
qed

section \<open>What an accepted tag proves\<close>

lemma take_dir:
  "take 15 (case r of roleSender \<Rightarrow> dirSenderToReceiver | roleReceiver \<Rightarrow> dirReceiverToSender)
     = take 15 (case q of roleSender \<Rightarrow> dirSenderToReceiver | roleReceiver \<Rightarrow> dirReceiverToSender) \<longleftrightarrow> r = q"
  by (cases r; cases q)
    (simp_all add: dirSenderToReceiver_def dirReceiverToSender_def str_def byte_of_char_def)

lemma confirm_input_inject:
  assumes "confirm_input x r s t = confirm_input y q u v" "length x = length y"
  shows "x = y \<and> r = q"
proof -
  let ?d = "\<lambda>r. case r of roleSender \<Rightarrow> dirSenderToReceiver | roleReceiver \<Rightarrow> dirReceiverToSender"
  have eq: "x = y" "?d r @ lenPrefixed s @ lenPrefixed t = ?d q @ lenPrefixed u @ lenPrefixed v"
    using assms by (simp_all add: confirm_input_def)
  have "15 \<le> length (?d r)" for r
    by (cases r) (simp_all add: dirSenderToReceiver_def dirReceiverToSender_def str_def)
  then have "take 15 (?d r) = take 15 (?d q)"
    using arg_cong [OF eq(2), of "take 15"] by (metis append_eq_conv_conj take_append diff_is_0_eq' take_0 append_Nil2)
  then show ?thesis using take_dir eq(1) by blast
qed

lemma read_full_ok: "read_full n r = (Inr x, r') \<Longrightarrow> r_data r = x @ r_data r' \<and> length x = n"
  using read_full_InrD by blast

lemma readFramed_ok:
  assumes "readFramed m r = (Inr b, r')"
  shows "\<exists>hdr. length hdr = 2 \<and> r_data r = hdr @ b @ r_data r'"
  using assms
  by (auto simp: readFramed_def Let_def split: prod.splits sum.splits if_splits dest!: read_full_ok)

lemma authenticate_confirms:
  assumes "authenticatePeer env code r rd w = (Inr b, rd', w')"
  shows "\<exists>ex share peerMsg r1 w1 key. au_exporter env = Some ex \<and> readFramed maxPakeMsgLen rd = (Inr peerMsg, r1) \<and>
    confirm_key env key ex r ([suiteCPace, suiteVersion] @ share) peerMsg r1 w1 = (Inr b, rd', w')"
  using assms unfolding authenticatePeer_def Let_def
  by (auto split: option.splits sum.splits prod.splits)

lemma write_all_ok: "write_all b w = (True, w') \<Longrightarrow> w_out w' = w_out w @ b"
  by (auto simp: write_all_def split: option.splits if_splits)

lemma confirm_key_ok:
  assumes "confirm_key env key ex r my peer rd w = (Inr b, rd', w')"
  shows "\<exists>s t. b = sessionBinding (au_hmac env) key ex \<and>
    r_data rd = confirmTag (au_hmac env) key ex (otherRole r) s t @ r_data rd' \<and>
    length (confirmTag (au_hmac env) key ex (otherRole r) s t) = tagLen \<and>
    w_out w' = w_out w @ confirmTag (au_hmac env) key ex r s t"
proof -
  obtain s t where tr: "transcript r my peer = (s, t)" by fastforce
  have "write_all (confirmTag (au_hmac env) key ex r s t) w = (True, w')"
    "read_full tagLen rd = (Inr (confirmTag (au_hmac env) key ex (otherRole r) s t), rd')"
    "b = sessionBinding (au_hmac env) key ex"
    using assms tr by (auto simp: confirm_key_def Let_def split: prod.splits bool.splits sum.splits if_splits)
  then show ?thesis using write_all_ok read_full_ok by blast
qed

text \<open>
  An end that succeeds has read the other direction's tag and written its own, both over its key and
  its session.
\<close>

lemma authenticate_tags:
  assumes "authenticatePeer env code r rd w = (Inr b, rd', w')"
  shows "\<exists>ex key s t pre out. au_exporter env = Some ex \<and> b = sessionBinding (au_hmac env) key ex \<and>
    r_data rd = pre @ confirmTag (au_hmac env) key ex (otherRole r) s t @ r_data rd' \<and>
    length (confirmTag (au_hmac env) key ex (otherRole r) s t) = tagLen \<and>
    w_out w' = out @ confirmTag (au_hmac env) key ex r s t"
proof -
  obtain ex share peerMsg r1 w1 key where a: "au_exporter env = Some ex" "readFramed maxPakeMsgLen rd = (Inr peerMsg, r1)"
    "confirm_key env key ex r ([suiteCPace, suiteVersion] @ share) peerMsg r1 w1 = (Inr b, rd', w')"
    using authenticate_confirms [OF assms] by blast
  obtain hdr where hdr: "r_data rd = hdr @ peerMsg @ r_data r1" using readFramed_ok [OF a(2)] by blast
  from confirm_key_ok [OF a(3)] obtain s t where k: "b = sessionBinding (au_hmac env) key ex"
    "r_data r1 = confirmTag (au_hmac env) key ex (otherRole r) s t @ r_data rd'"
    "length (confirmTag (au_hmac env) key ex (otherRole r) s t) = tagLen"
    "w_out w' = w_out w1 @ confirmTag (au_hmac env) key ex r s t" by blast
  have "r_data rd = (hdr @ peerMsg) @ confirmTag (au_hmac env) key ex (otherRole r) s t @ r_data rd'"
    by (simp add: hdr k(2))
  then show ?thesis using a(1) k(1,3,4) by blast
qed

section \<open>Properties\<close>

text \<open>
  C36. Two honest ends of one connection that use the same code authenticate each other: each, reading
  exactly what the other writes, succeeds, and both get the same session binding, provided X25519
  commutes on their scalars and is not neutral, and HMAC gives 32 bytes.
\<close>

theorem peer_auth_agrees:
  assumes "au_exporter ea = Some ex" "au_exporter eb = Some ex" "au_pp eb = au_pp ea" "au_hmac eb = au_hmac ea"
    and "pake_New (au_pp ea) Initiator \<lparr>pa_PRS = str code, pa_CI = str ''fsend'', pa_SID = ex, pa_AD = adSender\<rparr>
           (au_scalar ea) = Inr sa"
    and "pake_New (au_pp ea) Responder \<lparr>pa_PRS = str code, pa_CI = str ''fsend'', pa_SID = ex, pa_AD = adReceiver\<rparr>
           (au_scalar eb) = Inr sb"
    and "length (ps_share sa) = ShareSize" "length (ps_share sb) = ShareSize"
    and "pp_x25519 (au_pp ea) (au_scalar ea) (ps_share sb) = Some k" "pp_x25519 (au_pp ea) (au_scalar eb) (ps_share sa) = Some k"
    and "\<And>key m. length (au_hmac ea key m) = tagLen"
  shows "\<exists>b outA outB.
    (case authenticatePeer ea code roleSender \<lparr>r_data = outB, r_end = e\<rparr> \<lparr>w_out = [], w_room = None\<rparr> of
       (res, _, w) \<Rightarrow> res = Inr b \<and> w_out w = outA) \<and>
    (case authenticatePeer eb code roleReceiver \<lparr>r_data = outA, r_end = e\<rparr> \<lparr>w_out = [], w_room = None\<rparr> of
       (res, _, w) \<Rightarrow> res = Inr b \<and> w_out w = outB)"
proof -
  have st: "ps_role sa = Initiator" "ps_sid sa = ex" "ps_ad sa = adSender" "ps_priv sa = au_scalar ea" "\<not> ps_usedUp sa"
    "ps_role sb = Responder" "ps_sid sb = ex" "ps_ad sb = adReceiver" "ps_priv sb = au_scalar eb" "\<not> ps_usedUp sb"
    using assms(5,6) by (auto simp: pake_New_def split: if_splits option.splits)
  let ?key = "pp_sha512 (au_pp ea) (isk_input ex k (ps_share sa) adSender (ps_share sb) adReceiver)"
  have fin: "fst (pake_Finish (au_pp ea) (ps_share sb) adReceiver sa) = Inr ?key"
    "fst (pake_Finish (au_pp ea) (ps_share sa) adSender sb) = Inr ?key"
    using st assms(7-10) by (simp_all add: pake_Finish_def scalarMult_def)
  let ?sent = "sent_by (au_hmac ea) ?key ex"
  note ra = authenticate_run [of ea ex roleSender code sa "ps_share sb" ?key e, simplified pake_role_def my_ad_def otherRole.simps auth_role.case,
      OF assms(1,5,7,8) fin(1) assms(11)]
  note rb = authenticate_run [of eb ex roleReceiver code sb "ps_share sa" ?key e, simplified pake_role_def my_ad_def otherRole.simps auth_role.case assms(3,4),
      OF assms(2,6,8,7) fin(2) assms(11)]
  show ?thesis
    by (rule exI [of _ "sessionBinding (au_hmac ea) ?key ex"], rule exI [of _ "?sent roleSender (ps_share sa) (ps_share sb)"],
        rule exI [of _ "?sent roleReceiver (ps_share sb) (ps_share sa)"]) (use ra rb in \<open>simp add: case_prod_beta\<close>)
qed


text \<open>Toy ends for the witnesses.\<close>

definition toy_auth :: "(bytes \<Rightarrow> bytes \<Rightarrow> bytes) \<Rightarrow> byte \<Rightarrow> nat auth_env" where
  "toy_auth h k = \<lparr>au_pp = toy_prims, au_hmac = h, au_exporter = Some (replicate 32 9), au_scalar = replicate 32 k\<rparr>"

definition toy_end :: "role \<Rightarrow> bytes \<Rightarrow> byte \<Rightarrow> pake_state" where
  "toy_end r ad k = \<lparr>ps_role = r, ps_sid = replicate 32 9, ps_ad = ad, ps_priv = replicate 32 k,
     ps_share = replicate 32 k, ps_usedUp = False\<rparr>"

lemma toy_auth_simps [simp]:
  "au_pp (toy_auth h k) = toy_prims" "au_hmac (toy_auth h k) = h" "au_exporter (toy_auth h k) = Some (replicate 32 9)"
  "au_scalar (toy_auth h k) = replicate 32 k" "ps_share (toy_end r ad k) = replicate 32 k"
  by (simp_all add: toy_auth_def toy_end_def)

lemma toy_auth_New:
  "pake_New toy_prims r \<lparr>pa_PRS = c, pa_CI = ci, pa_SID = replicate 32 9, pa_AD = ad\<rparr> (replicate 32 k) = Inr (toy_end r ad k)"
  using toy_New [of "replicate 32 k" r] by (simp add: toy_end_def ShareSize_def)

lemma toy_dh: "pp_x25519 toy_prims (replicate 32 5) (replicate 32 7) = Some (replicate 32 12)"
  "pp_x25519 toy_prims (replicate 32 7) (replicate 32 5) = Some (replicate 32 12)"
  by (simp_all add: toy_prims_def ShareSize_def zip_replicate)

lemma toy_share: "length (ps_share (toy_end r ad k)) = ShareSize"
  by (simp add: ShareSize_def)

theorem peer_auth_agrees_witness:
  "\<exists>b outA outB.
    (case authenticatePeer (toy_auth (\<lambda>_ _. replicate 32 3) 5) ''abc'' roleSender \<lparr>r_data = outB, r_end = IoEOF\<rparr>
        \<lparr>w_out = [], w_room = None\<rparr> of (res, _, w) \<Rightarrow> res = Inr b \<and> w_out w = outA) \<and>
    (case authenticatePeer (toy_auth (\<lambda>_ _. replicate 32 3) 7) ''abc'' roleReceiver \<lparr>r_data = outA, r_end = IoEOF\<rparr>
        \<lparr>w_out = [], w_room = None\<rparr> of (res, _, w) \<Rightarrow> res = Inr b \<and> w_out w = outB)"
  by (rule peer_auth_agrees [of _ "replicate 32 9" _ _ "toy_end Initiator adSender 5" "toy_end Responder adReceiver 7" "replicate 32 12"])
    (simp_all add: toy_auth_New toy_dh tagLen_def ShareSize_def)

definition toy_key :: bytes where
  "toy_key = isk_input (replicate 32 9) (replicate 32 12) (replicate 32 5) adSender (replicate 32 7) adReceiver"

text \<open>An HMAC with one special value, the receiver's tag.\<close>

definition toy_hmac :: "bytes \<Rightarrow> bytes \<Rightarrow> bytes" where
  "toy_hmac key m =
     (if key = toy_key \<and> m = confirm_input (replicate 32 9) roleReceiver (pake_msg (replicate 32 5)) (pake_msg (replicate 32 7))
      then replicate 32 1 else replicate 32 0)"

lemma toy_Finish:
  "fst (pake_Finish toy_prims (replicate 32 7) adReceiver (toy_end Initiator adSender 5)) = Inr toy_key"
  "fst (pake_Finish toy_prims (replicate 32 5) adSender (toy_end Responder adReceiver 7)) = Inr toy_key"
  using toy_dh by (simp_all add: pake_Finish_def toy_end_def scalarMult_def toy_key_def ShareSize_def) (simp_all add: toy_prims_def)


end
