(* ===== verification/Error_Catalog.thy ===== *)
theory Error_Catalog
  imports Fs_Errors "HOL-Library.Char_ord" "HOL-Library.List_Lexorder"
begin

text \<open>
  \<open>internal/fserrors\<close>: the catalog of what the user is told about an error, how an error value finds its
  entry, and the exit status \<open>cmd/fsend/main.go\<close> ends with. Texts are byte strings; the one text that
  depends on the error itself, of an error no entry covers, is an argument.
\<close>

record entry =
  en_Code :: string
  en_Exit :: int
  en_Message :: string
  en_Action :: string
  en_SenderMessage :: string
  en_SenderAction :: string

definition mk_entry :: "string \<Rightarrow> int \<Rightarrow> string \<Rightarrow> string \<Rightarrow> string \<Rightarrow> string \<Rightarrow> entry" where
  "mk_entry code n msg act smsg sact = \<lparr>en_Code = code, en_Exit = n, en_Message = msg, en_Action = act,
     en_SenderMessage = smsg, en_SenderAction = sact\<rparr>"

lemma mk_entry_simps [simp]: "en_Code (mk_entry c n m a sm sa) = c" "en_Exit (mk_entry c n m a sm sa) = n"
  by (simp_all add: mk_entry_def)

definition ForSender :: "entry \<Rightarrow> entry" where
  "ForSender e =
     (let e1 = if en_SenderMessage e \<noteq> [] then e\<lparr>en_Message := en_SenderMessage e\<rparr> else e
      in if en_SenderAction e1 \<noteq> [] then e1\<lparr>en_Action := en_SenderAction e1\<rparr> else e1)"

definition newline_indent :: string where
  "newline_indent = [CHR 0x0A] @ ''  ''"

definition Format :: "entry \<Rightarrow> string" where
  "Format e = (if en_Action e = [] then en_Message e else en_Message e @ newline_indent @ en_Action e)"

definition Render :: "entry \<Rightarrow> string" where
  "Render e =
     (if en_Code e = [] then Format e
      else if en_Action e = [] then ''['' @ en_Code e @ ''] '' @ en_Message e
      else ''['' @ en_Code e @ ''] '' @ en_Message e @ newline_indent @ en_Action e)"

definition selfHostHint :: string where
  "selfHostHint = [CHR 0x0A] @ ''  Or run your own fsend server, where you set the limits:'' @ [CHR 0x0A] @ ''    https://github.com/polius/fsend/blob/main/docs/self-hosting.md''"

primrec catalog :: "sentinel \<Rightarrow> entry option" where
  "catalog ErrServerUnreachable = Some (mk_entry ''E001'' 1
    (''Could not reach the server.'')
    (''Check your internet connection, or use a different server:'' @
      [CHR 0x0A] @
      ''    fsend --connect <host:port>'')
    ([])
    ([]))"
| "catalog ErrCodeNotFound = Some (mk_entry ''E002'' 2
    (''No sender is waiting on that code.'')
    (''Double-check the code with the sender and make sure their fsend is'' @
      [CHR 0x0A] @
      ''  still running.'')
    ([])
    ([]))"
| "catalog ErrCodeAlreadyClaimed = Some (mk_entry ''E003'' 3
    (''That code has already been claimed by another receiver.'')
    (''Ask the sender to generate a fresh code.'')
    ([])
    ([]))"
| "catalog ErrInvalidCodeFormat = Some (mk_entry ''E004'' 4
    (''Invalid code format.'')
    (''Codes look like: abc-defg-jkm'')
    ([])
    ([]))"
| "catalog ErrReceiverDeclined = Some (mk_entry ''E006'' 6
    (''Declined.'')
    ([])
    (''Receiver declined the transfer.'')
    ([]))"
| "catalog ErrSessionExpired = Some (mk_entry ''E007'' 7
    (''Your code timed out before anyone received it.'')
    (''Run the command again to get a fresh code.'')
    ([])
    ([]))"
| "catalog ErrDiskFull = Some (mk_entry ''E008'' 8
    (''Not enough disk space.'')
    (''Free up space or use --out <dir> to save somewhere else.'')
    (''The receiver does not have enough disk space.'')
    (''They can free up space, or save somewhere else with --out <dir>.''))"
| "catalog ErrWriteFailed = Some (mk_entry ''E009'' 9
    (''Could not write to the target file.'')
    (''Try --out <dir> to save somewhere writable.'')
    (''The receiver could not write the file to disk.'')
    (''They can retry with --out <dir> to save somewhere writable.''))"
| "catalog ErrReadFailed = Some (mk_entry ''E010'' 10
    (''The sender could not read the source file.'')
    (''Ask them to check its permissions and run fsend again.'')
    (''Could not read the source file.'')
    (''Check the file permissions and try again.''))"
| "catalog ErrHashMismatch = Some (mk_entry ''E011'' 11
    (''The file arrived corrupted '' @
      [CHR 0xE2, CHR 0x80, CHR 0x94] @
      '' it doesn'' @
      [CHR 0x27] @
      ''t match the sender'' @
      [CHR 0x27] @
      ''s original.'')
    (''Usually this means the source changed during the transfer, or data'' @
      [CHR 0x0A] @
      ''  was damaged in transit. The partial file has been deleted.'' @
      [CHR 0x0A] @
      ''  Ask the sender to try again.'')
    ([])
    ([]))"
| "catalog ErrPathTraversal = Some (mk_entry ''E012'' 12
    (''Sender tried to write outside the target directory. Transfer rejected.'')
    (''This is a security check '' @
      [CHR 0xE2, CHR 0x80, CHR 0x94] @
      '' please report at:'' @
      [CHR 0x0A] @
      ''    https://github.com/polius/fsend/issues/new?labels=security'')
    ([])
    ([]))"
| "catalog ErrTargetExists = Some (mk_entry ''E013'' 13
    (''Target file exists and --overwrite was not given.'')
    (''Use --overwrite to replace existing files.'')
    (''The receiver already has a file with this name.'')
    (''They can rerun with --overwrite to replace it.''))"
| "catalog ErrConnectFailed = Some (mk_entry ''E014'' 14
    (''Could not reach the other side.'')
    (''fsend tried a direct connection and the server-relayed fallback;'' @
      [CHR 0x0A] @
      ''  neither worked. Common causes:'' @
      [CHR 0x0A] @
      ''    - The other side'' @
      [CHR 0x27] @
      ''s fsend stopped or lost network.'' @
      [CHR 0x0A] @
      ''    - A firewall on either end blocks outbound traffic.'' @
      [CHR 0x0A] @
      ''    - The server is unreachable from your network.'' @
      [CHR 0x0A] @
      ''  Try a different server ('' @
      [CHR 0x60] @
      ''fsend --connect <host:port>'' @
      [CHR 0x60] @
      '')'' @
      [CHR 0x0A] @
      ''  or re-run with --debug for details.'')
    ([])
    ([]))"
| "catalog ErrProtocolError = Some (mk_entry ''E015'' 15
    (''The two sides could not agree on how to transfer.'')
    (''Make sure sender and receiver are on compatible fsend versions.'')
    ([])
    ([]))"
| "catalog ErrConfigCorrupted = Some (mk_entry ''E016'' 0
    (''Your config file could not be used. Falling back to defaults.'')
    (''To reset:  fsend --connect default'')
    ([])
    ([]))"
| "catalog ErrRateLimited = Some (mk_entry ''E017'' 17
    (''Too many attempts from your network '' @
      [CHR 0xE2, CHR 0x80, CHR 0x94] @
      '' rate limit hit on the server.'')
    (''Wait a minute and try again, or switch servers:'' @
      [CHR 0x0A] @
      ''    fsend --connect <host:port>'' @
      [CHR 0x0A] @
      ''  Or run your own fsend server, where you set the limits:'' @
      [CHR 0x0A] @
      ''    https://github.com/polius/fsend/blob/main/docs/self-hosting.md'')
    ([])
    ([]))"
| "catalog ErrServerRetired = Some (mk_entry ''E018'' 18
    (''This server has been retired.'')
    (''Switch to a different server with:'' @
      [CHR 0x0A] @
      ''    fsend --connect <host:port>'' @
      [CHR 0x0A] @
      ''  Or self-host: https://github.com/polius/fsend/blob/main/docs/self-hosting.md'')
    ([])
    ([]))"
| "catalog ErrPartialMismatch = Some (mk_entry ''E019'' 19
    (''The source file changed since the last attempt '' @
      [CHR 0xE2, CHR 0x80, CHR 0x94] @
      '' the incomplete download was discarded.'')
    (''Run the same command again to start fresh.'')
    ([])
    ([]))"
| "catalog ErrTransientFailure = Some (mk_entry ''E020'' 20
    (''Transfer was interrupted and retries did not recover.'')
    (''If the sender is still running, run the same fsend command again to'' @
      [CHR 0x0A] @
      ''  resume. Otherwise ask the sender to run fsend again, then use the new'' @
      [CHR 0x0A] @
      ''  code '' @
      [CHR 0xE2, CHR 0x80, CHR 0x94] @
      '' the transfer will resume in this same directory.'')
    ([])
    (''Check your network connection and try again '' @
      [CHR 0xE2, CHR 0x80, CHR 0x94] @
      '' fsend will resume'' @
      [CHR 0x0A] @
      ''  from where it left off.''))"
| "catalog ErrWrongPassword = Some (mk_entry ''E021'' 21
    (''Wrong password. Transfer aborted.'')
    (''Check the password with the sender, then run the same command'' @
      [CHR 0x0A] @
      ''  again on this device while their fsend is still waiting.'')
    (''The receiver entered the wrong password too many times. Transfer aborted.'')
    (''Run fsend again to issue a fresh code, and re-share the'' @
      [CHR 0x0A] @
      ''  password with the receiver.''))"
| "catalog ErrPeerAuthFailed = Some (mk_entry ''E022'' 22
    (''Could not verify the other side.'')
    (''Either the code you used doesn'' @
      [CHR 0x27] @
      ''t match the one the sender shared,'' @
      [CHR 0x0A] @
      ''  or someone on the network tried to interfere. Re-share the code'' @
      [CHR 0x0A] @
      ''  and try again.'')
    ([])
    ([]))"
| "catalog ErrRelayCapHit = Some (mk_entry ''E023'' 23
    (''The server'' @ [CHR 0x27] @ ''s transfer-size limit was reached. Transfer aborted.'')
    (''Only fallback transfers routed through the server count against this'' @
      [CHR 0x0A] @
      ''  limit; same-network and direct internet transfers are uncapped.'' @
      [CHR 0x0A] @
      ''  Run again from a different network so fsend can connect you directly.'' @
      [CHR 0x0A] @
      ''  Or run your own fsend server, where you set the limits:'' @
      [CHR 0x0A] @
      ''    https://github.com/polius/fsend/blob/main/docs/self-hosting.md'')
    ([])
    ([]))"
| "catalog ErrRelayBudgetExhausted = Some (mk_entry ''E037'' 37
    (''The server hit its daily transfer budget. Transfer aborted.'')
    (''Only fallback transfers routed through the server count against this'' @
      [CHR 0x0A] @
      ''  budget; same-network and direct internet transfers don'' @
      [CHR 0x27] @
      ''t.'' @
      [CHR 0x0A] @
      ''  Run again from a different network so fsend can connect you directly,'' @
      [CHR 0x0A] @
      ''  or try again after 00:00 UTC, when the budget resets.'' @
      [CHR 0x0A] @
      ''  Or run your own fsend server, where you set the limits:'' @
      [CHR 0x0A] @
      ''    https://github.com/polius/fsend/blob/main/docs/self-hosting.md'')
    ([])
    ([]))"
| "catalog ErrUsage = Some (mk_entry ''E024'' 24
    (''Invalid usage.'')
    (''Run '' @ [CHR 0x60] @ ''fsend --help'' @ [CHR 0x60] @ '' for the full command surface.'')
    ([])
    ([]))"
| "catalog ErrSourceNotFound = Some (mk_entry ''E025'' 25
    (''No such file or directory.'')
    (''Check the path for typos, and quote it if it contains spaces.'')
    ([])
    ([]))"
| "catalog ErrUserCancelled = Some (mk_entry ''E026'' 130
    (''Cancelled.'')
    ([])
    ([])
    ([]))"
| "catalog ErrLANListenerFailed = Some (mk_entry ''E027'' 27
    (''Could not open the port fsend uses to find the other side on your local network.'')
    (''Another fsend (or another program) may already be using that port.'' @
      [CHR 0x0A] @
      ''  Try again '' @
      [CHR 0xE2, CHR 0x80, CHR 0x94] @
      '' most codes pick a different port.'')
    ([])
    ([]))"
| "catalog ErrServerAuthRequired = Some (mk_entry ''E028'' 28
    (''The server requires a password.'')
    (''Set it with:'' @
      [CHR 0x0A] @
      ''    fsend --connect <host:port>,<password>'' @
      [CHR 0x0A] @
      ''  Ask the server operator for the password if you don'' @
      [CHR 0x27] @
      ''t have it.'')
    ([])
    ([]))"
| "catalog ErrRelayIdleTimeout = Some (mk_entry ''E029'' 29
    (''The server closed the connection because no data was flowing. Transfer aborted.'')
    (''The other side likely went away. Try again.'')
    ([])
    ([]))"
| "catalog ErrServerStartup = Some (mk_entry ''E030'' 30
    (''The server could not start.'')
    (''Fix the setting named above, or check that the ports are free and you'' @
      [CHR 0x0A] @
      ''  have permission to bind them (FSEND_SERVER_ADDR, FSEND_RELAY_ADDR).'' @
      [CHR 0x0A] @
      ''  Binding :443 may need elevated privileges.'')
    ([])
    ([]))"
| "catalog ErrPasswordRequired = Some (mk_entry ''E031'' 31
    (''This transfer requires a password.'')
    (''Rerun with --password=<password> (or set FSEND_PASSWORD).'')
    (''The receiver couldn'' @ [CHR 0x27] @ ''t supply the password.'')
    (''Run fsend again to issue a fresh code, and ask them to rerun with'' @
      [CHR 0x0A] @
      ''  --password=<password> (or FSEND_PASSWORD).''))"
| "catalog ErrPeerCancelled = Some (mk_entry ''E032'' 32
    (''The sender cancelled the transfer.'')
    (''Ask the sender to run fsend again, then use the new code '' @
      [CHR 0xE2, CHR 0x80, CHR 0x94] @
      '' the'' @
      [CHR 0x0A] @
      ''  transfer will resume in this same directory.'')
    ([])
    ([]))"
| "catalog ErrUpdateFailed = Some (mk_entry ''E033'' 33
    (''Could not update fsend.'')
    (''Check your internet connection and try again, or reinstall:'' @
      [CHR 0x0A] @
      ''    https://github.com/polius/fsend#install'')
    ([])
    ([]))"
| "catalog ErrIncompatibleVersion = Some (mk_entry ''E034'' 34
    (''The other device is running an incompatible version of fsend.'')
    (''Update both sides to the latest version, then try again:'' @ [CHR 0x0A] @ ''    fsend --update'')
    ([])
    ([]))"
| "catalog ErrUninstallFailed = Some (mk_entry ''E035'' 35
    (''fsend was not fully uninstalled.'')
    (''Remove the binary by hand (the path is printed above), possibly with sudo.'')
    ([])
    ([]))"
| "catalog ErrUnsendableSymlink = Some (mk_entry ''E036'' 36
    (''Cannot follow this symlink.'')
    (''Fix the link, or skip it with --exclude.'')
    ([])
    ([]))"
| "catalog ErrManifestWriteFailed = Some (mk_entry ''E038'' 38
    (''Files received, but the --manifest record could not be written.'')
    (''Check that the --manifest path is writable.'')
    ([])
    ([]))"
| "catalog ErrHomebrewManaged = Some (mk_entry ''E039'' 39
    (''This fsend is managed by Homebrew.'')
    ([])
    ([])
    ([]))"
| "catalog ErrUpdateRootRefused = Some (mk_entry ''E040'' 40
    (''Refusing to update as root '' @ [CHR 0xE2, CHR 0x80, CHR 0x94] @ '' fsend installs per-user.'')
    ([])
    ([])
    ([]))"
| "catalog ErrTooManyPairingFailures = Some (mk_entry ''E046'' 46
    (''Stopped: too many failed attempts to connect with this code.'')
    (''Someone may be guessing it. Run fsend again for a fresh code, and'' @
      [CHR 0x0A] @
      ''  share it only with the receiver.'')
    ([])
    ([]))"
| "catalog ErrServerCertUntrusted = Some (mk_entry ''E047'' 47
    (''The server'' @ [CHR 0x27] @ ''s certificate is not trusted.'')
    (''A Wi-Fi login page or a filtering proxy may be intercepting the'' @
      [CHR 0x0A] @
      ''  connection. Sign in to the network (open any website), or try'' @
      [CHR 0x0A] @
      ''  another network.'')
    ([])
    ([]))"
| "catalog ErrFilesSkipped = Some (mk_entry ''E050'' 50
    (''Some files were skipped '' @ [CHR 0xE2, CHR 0x80, CHR 0x94] @ '' everything else arrived.'')
    (''The skipped files and the reason are listed above. Fix the cause and'' @
      [CHR 0x0A] @
      ''  run fsend again; files that already arrived are not sent twice.'')
    ([])
    ([]))"
| "catalog ErrTooManyEntries = Some (mk_entry ''E051'' 51
    (''This transfer has too many files and folders.'')
    (''Send it in parts, for example one subfolder at a time.'')
    ([])
    ([]))"
| "catalog ErrUpdateDevBuild = Some (mk_entry ''E041'' 41
    (''This is a development build '' @
      [CHR 0xE2, CHR 0x80, CHR 0x94] @
      '' there is no release to update to.'')
    (''Install a release build instead:'' @ [CHR 0x0A] @ ''    https://github.com/polius/fsend#install'')
    ([])
    ([]))"
| "catalog ErrClientTooOld = Some (mk_entry ''E060'' 60
    (''This version of fsend is too old for the pairing server.'')
    (''Update fsend, then try again:'' @ [CHR 0x0A] @ ''    fsend --update'')
    ([])
    ([]))"
| "catalog ErrRelayFailed = Some (mk_entry ''E061'' 61
    (''The server stopped: its relay UDP socket failed.'')
    (''A restart policy (Docker: restart: unless-stopped) brings it back.'' @
      [CHR 0x0A] @
      ''  The socket error is logged above.'')
    ([])
    ([]))"
| "catalog ErrUDPBlocked = Some (mk_entry ''E042'' 42
    (''This network seems to block the UDP traffic fsend uses.'')
    (''Try another network (a phone hotspot works), or ask the network admin'' @
      [CHR 0x0A] @
      ''  to allow outbound UDP port 443. '' @
      [CHR 0x60] @
      ''fsend doctor'' @
      [CHR 0x60] @
      '' checks both paths.'')
    ([])
    ([]))"
| "catalog ErrDoctorFailed = Some (mk_entry ''E043'' 43
    (''Some checks found a problem '' @ [CHR 0xE2, CHR 0x80, CHR 0x94] @ '' see the warnings above.'')
    (''Each one says what it affects and what still works.'')
    ([])
    ([]))"
| "catalog WireUnsupportedVersion = None"
| "catalog WireFrameTooLarge = None"
| "catalog WireChunkTooLarge = None"
| "catalog WireWrongFrameType = None"
| "catalog WireMalformedChunk = None"
| "catalog GoEOF = None"
| "catalog GoUnexpectedEOF = None"
| "catalog CtxCanceled = None"
| "catalog CtxDeadlineExceeded = None"

text \<open>\<open>keys\<close> is the order in which the loop over the map meets its keys.\<close>

definition code_of :: "sentinel \<Rightarrow> string" where
  "code_of s = (case catalog s of None \<Rightarrow> [] | Some e \<Rightarrow> en_Code e)"

definition catalogOrder :: "sentinel list \<Rightarrow> sentinel list" where
  "catalogOrder keys = sort_key code_of keys"

definition catchall :: "string \<Rightarrow> entry" where
  "catchall txt = mk_entry ''E099'' 99 (''Unexpected error: '' @ txt)
     (''Re-run with --debug and include the output when filing the issue:'' @ [CHR 0x0A] @
      ''    https://github.com/polius/fsend/issues'') [] []"

definition Lookup :: "sentinel list \<Rightarrow> string \<Rightarrow> goerr option \<Rightarrow> entry \<times> bool" where
  "Lookup keys txt err =
     (case err of
        None \<Rightarrow> (mk_entry [] 0 [] [] [] [], False)
      | Some e \<Rightarrow>
          (case find (err_is e) (catalogOrder keys) of
             Some s \<Rightarrow> (the (catalog s), True)
           | None \<Rightarrow> (catchall txt, False)))"

text \<open>
  The exit status of \<open>renderError\<close>. \<open>role\<close> is the side of the transfer this process was, and \<open>kept\<close>
  whether the error is the user's own choice to keep the local files.
\<close>

definition deliberateChoice :: "string \<Rightarrow> bool \<Rightarrow> goerr \<Rightarrow> bool" where
  "deliberateChoice role kept e \<longleftrightarrow> kept \<or> role = ''receiver'' \<and> err_is e ErrReceiverDeclined"

definition renderError :: "sentinel list \<Rightarrow> string \<Rightarrow> string \<Rightarrow> bool \<Rightarrow> bool \<Rightarrow> goerr \<Rightarrow> int" where
  "renderError keys txt role epipe kept e =
     (if epipe then 141
      else
        let cancelled = err_is e CtxCanceled;
            e1 = if cancelled then [ErrUserCancelled] else e;
            n = en_Exit (fst (Lookup keys txt (Some e1)))
        in if n = 0 then n else if deliberateChoice role (kept \<and> \<not> cancelled) e1 then 0 else n)"

section \<open>What the catalog promises\<close>

definition catalogued :: "sentinel list" where
  "catalogued = [ErrServerUnreachable, ErrCodeNotFound, ErrCodeAlreadyClaimed, ErrInvalidCodeFormat, 
ErrReceiverDeclined, ErrSessionExpired, ErrDiskFull, ErrWriteFailed, ErrReadFailed, 
ErrHashMismatch, ErrPathTraversal, ErrTargetExists, ErrConnectFailed, ErrProtocolError, 
ErrConfigCorrupted, ErrRateLimited, ErrServerRetired, ErrPartialMismatch, ErrTransientFailure, 
ErrWrongPassword, ErrPeerAuthFailed, ErrRelayCapHit, ErrRelayBudgetExhausted, ErrUsage, 
ErrSourceNotFound, ErrUserCancelled, ErrLANListenerFailed, ErrServerAuthRequired, 
ErrRelayIdleTimeout, ErrServerStartup, ErrPasswordRequired, ErrPeerCancelled, ErrUpdateFailed, 
ErrIncompatibleVersion, ErrUninstallFailed, ErrUnsendableSymlink, ErrManifestWriteFailed, 
ErrHomebrewManaged, ErrUpdateRootRefused, ErrTooManyPairingFailures, ErrServerCertUntrusted, 
ErrFilesSkipped, ErrTooManyEntries, ErrUpdateDevBuild, ErrClientTooOld, ErrRelayFailed, 
ErrUDPBlocked, ErrDoctorFailed]"

lemma catalogued_iff: "catalog s \<noteq> None \<longleftrightarrow> s \<in> set catalogued"
  by (cases s) (simp_all add: catalogued_def)

lemma codes_distinct: "distinct (map code_of catalogued)"
  unfolding catalogued_def list.map code_of_def catalog.simps option.case mk_entry_simps by simp

lemma code_of_inj: "catalog s \<noteq> None \<Longrightarrow> catalog t \<noteq> None \<Longrightarrow> code_of s = code_of t \<Longrightarrow> s = t"
  using codes_distinct unfolding catalogued_iff distinct_map by (blast dest: inj_onD)

text \<open>The number of a tag like \<open>E024\<close>.\<close>

definition code_number :: "string \<Rightarrow> int" where
  "code_number cs = foldl (\<lambda>n c. 10 * n + (of_char c - 48)) 0 (tl cs)"

lemma exit_of_code:
  "catalog s = Some e \<Longrightarrow>
     en_Exit e = (if s = ErrConfigCorrupted then 0 else if s = ErrUserCancelled then 130 else code_number (en_Code e))"
  by (cases s) (auto simp: code_number_def)

lemma find_sorted:
  assumes "find P (sort_key f ks) = Some s"
  shows "P s \<and> s \<in> set ks \<and> (\<forall>t \<in> set ks. P t \<longrightarrow> f s \<le> (f t :: 'b :: linorder))"
proof -
  obtain i where i: "i < length (sort_key f ks)" "s = sort_key f ks ! i" "P s"
    "\<And>j. j < i \<Longrightarrow> \<not> P (sort_key f ks ! j)"
    using assms by (auto simp: find_Some_iff)
  have "f s \<le> f t" if t: "t \<in> set ks" "P t" for t
  proof -
    obtain j where j: "j < length (sort_key f ks)" "t = sort_key f ks ! j"
      using t(1) by (metis in_set_conv_nth set_sort)
    then have "i \<le> j" using i(4) [of j] t(2) by (meson not_le)
    then have "map f (sort_key f ks) ! i \<le> map f (sort_key f ks) ! j"
      using j(1) by (intro sorted_nth_mono) simp_all
    then show ?thesis using i(1,2) j by simp
  qed
  moreover have "s \<in> set ks" using i(1,2) by (metis nth_mem set_sort)
  ultimately show ?thesis using i(3) by blast
qed



end
