(* ===== verification/Retry_Backoff.thy ===== *)
theory Retry_Backoff
  imports Fs_Errors Fs_Text
begin

text \<open>
  \<open>internal/retry\<close>: which errors are worth another attempt, and the loop that makes the attempts. What
  an attempt returns, what the context says, how a sleep ends and the random draws of the jitter are
  arguments. A duration is a signed 64-bit number of nanoseconds.
\<close>

section \<open>Transient errors\<close>

text \<open>
  What the classifier asks of an error: the sentinels it reaches, the verdicts of \<open>syserr\<close>, the
  first network error's timeout, the QUIC errors it reaches and its text.
\<close>

record net_err =
  ne_chain :: goerr
  ne_noRoute :: bool
  ne_addrNotAvail :: bool
  ne_timeout :: bool
  ne_idle :: bool
  ne_app :: "(bool \<times> nat) option"
  ne_streamRemote :: bool
  ne_text :: string

definition closeCancelled :: nat where "closeCancelled = 16"

definition terminalSentinels :: "sentinel list" where
  "terminalSentinels =
     [ErrHashMismatch, ErrReceiverDeclined, ErrPartialMismatch, ErrInvalidCodeFormat, ErrPathTraversal, ErrProtocolError,
      ErrTargetExists, ErrServerRetired, ErrWrongPassword, ErrPasswordRequired, ErrCodeAlreadyClaimed, ErrWriteFailed,
      ErrReadFailed, ErrDiskFull, ErrPeerCancelled, ErrIncompatibleVersion, CtxCanceled]"

definition strings_Contains :: "string \<Rightarrow> string \<Rightarrow> bool" where
  "strings_Contains s sub = list_ex (\<lambda>i. take (length sub) (drop i s) = sub) [0..<Suc (length s)]"

definition transientTexts :: "string list" where
  "transientTexts =
     [''idle timeout'', ''no candidate pairs available'', ''network is unreachable'', ''no route to host'',
      ''can'' @ [CHR 0x27] @ ''t assign requested address'', ''cannot assign requested address'', ''connection reset by peer'',
      ''use of closed network connection'', ''Application error 0x'', ''canceled by remote'',
      ''failed to write STUN message to ICE connection'']"

definition IsTransient :: "net_err option \<Rightarrow> bool" where
  "IsTransient err =
     (case err of
        None \<Rightarrow> False
      | Some e \<Rightarrow>
          if list_ex (err_is (ne_chain e)) terminalSentinels then False
          else if err_is (ne_chain e) CtxDeadlineExceeded then True
          else if err_is (ne_chain e) GoEOF \<or> err_is (ne_chain e) GoUnexpectedEOF then True
          else if err_is (ne_chain e) ErrConnectFailed then True
          else if ne_noRoute e \<or> ne_addrNotAvail e then True
          else if ne_timeout e then True
          else if ne_idle e then True
          else (case ne_app e of
              Some (remote, code) \<Rightarrow> \<not> remote \<or> code \<noteq> closeCancelled
            | None \<Rightarrow>
                if ne_streamRemote e then True
                else list_ex (strings_Contains (ne_text e)) transientTexts))"

section \<open>The attempts\<close>

record options =
  op_Attempts :: int
  op_Base :: int
  op_Max :: int

definition DefaultAttempts :: int where "DefaultAttempts = 3"

definition defaultOptions :: options where
  "defaultOptions = \<lparr>op_Attempts = DefaultAttempts, op_Base = 1000000000, op_Max = 30 * 1000000000\<rparr>"

text \<open>Signed 64-bit arithmetic.\<close>

definition i64 :: "int \<Rightarrow> int" where
  "i64 x = sint (word_of_int x :: 64 word)"

text \<open>\<open>draw h\<close> is \<open>rand.Int64N(h + 1)\<close>.\<close>

definition jitter :: "(int \<Rightarrow> int) \<Rightarrow> int \<Rightarrow> int" where
  "jitter draw d = (if d \<le> 0 then d else d div 2 + draw (d div 2))"

record attempts_env =
  at_ctx :: "nat \<Rightarrow> goerr option"
  at_op :: "nat \<Rightarrow> net_err option"
  at_sleep :: "nat \<Rightarrow> goerr option"
  at_draw :: "nat \<Rightarrow> int \<Rightarrow> int"

datatype retry_result = Rt_ok | Rt_context goerr | Rt_error net_err | Rt_exhausted net_err | Rt_invalid

text \<open>What a run did: the attempts it made and the sleeps before the next one.\<close>

datatype retry_event = Attempted nat | Slept nat int

text \<open>The loop from attempt \<open>k\<close> on, with \<open>n\<close> attempts left.\<close>

fun backoff_loop ::
  "attempts_env \<Rightarrow> (net_err option \<Rightarrow> bool) \<Rightarrow> int \<Rightarrow> nat \<Rightarrow> nat \<Rightarrow> int \<Rightarrow> retry_event list \<times> retry_result" where
  "backoff_loop env tr mx k 0 wait = ([], Rt_ok)"
| "backoff_loop env tr mx k (Suc n) wait =
     (case at_ctx env k of
        Some c \<Rightarrow> ([], Rt_context c)
      | None \<Rightarrow>
          (case at_op env k of
             None \<Rightarrow> ([Attempted k], Rt_ok)
           | Some e \<Rightarrow>
               if \<not> tr (Some e) then ([Attempted k], Rt_error e)
               else if n = 0 then ([Attempted k], Rt_exhausted e)
               else
                 let sleep = jitter (at_draw env k) wait; wait1 = i64 (3 * wait); wait2 = if mx < wait1 then mx else wait1 in
                 (case at_sleep env k of
                    Some c \<Rightarrow> ([Attempted k, Slept (Suc k) sleep], Rt_context c)
                  | None \<Rightarrow> apfst ((@) [Attempted k, Slept (Suc k) sleep]) (backoff_loop env tr mx (Suc k) n wait2))))"

definition with_defaults :: "options \<Rightarrow> options" where
  "with_defaults o1 =
     \<lparr>op_Attempts = (if op_Attempts o1 = 0 then op_Attempts defaultOptions else op_Attempts o1),
      op_Base = (if op_Base o1 = 0 then op_Base defaultOptions else op_Base o1),
      op_Max = (if op_Max o1 = 0 then op_Max defaultOptions else op_Max o1)\<rparr>"

definition WithBackoff ::
  "attempts_env \<Rightarrow> options \<Rightarrow> (net_err option \<Rightarrow> bool) option \<Rightarrow> retry_event list \<times> retry_result" where
  "WithBackoff env opts isTransient =
     (let o1 = with_defaults opts; tr = (case isTransient of None \<Rightarrow> IsTransient | Some f \<Rightarrow> f) in
      if op_Attempts o1 < 0 then ([], Rt_invalid)
      else backoff_loop env tr (op_Max o1) 1 (nat (op_Attempts o1)) (op_Base o1))"

text \<open>The error a run returns with: an exhausted one wraps only \<open>ErrTransientFailure\<close>.\<close>

definition retry_chain :: "retry_result \<Rightarrow> goerr option" where
  "retry_chain r =
     (case r of Rt_ok \<Rightarrow> None | Rt_context c \<Rightarrow> Some c | Rt_error e \<Rightarrow> Some (ne_chain e)
      | Rt_exhausted e \<Rightarrow> Some [ErrTransientFailure] | Rt_invalid \<Rightarrow> Some [])"

section \<open>Properties\<close>

fun attempts_of :: "retry_event list \<Rightarrow> nat list" where
  "attempts_of [] = []"
| "attempts_of (Attempted k # es) = k # attempts_of es"
| "attempts_of (Slept k s # es) = attempts_of es"

text \<open>The outcome, as the last attempt determines it.\<close>

definition outcome_ok ::
  "attempts_env \<Rightarrow> (net_err option \<Rightarrow> bool) \<Rightarrow> nat \<Rightarrow> nat \<Rightarrow> nat list \<Rightarrow> retry_result \<Rightarrow> bool" where
  "outcome_ok env tr lst nxt ks res =
     (case res of
        Rt_ok \<Rightarrow> ks \<noteq> [] \<and> at_op env (last ks) = None
      | Rt_error e \<Rightarrow> ks \<noteq> [] \<and> at_op env (last ks) = Some e \<and> \<not> tr (Some e)
      | Rt_exhausted e \<Rightarrow> ks \<noteq> [] \<and> last ks = lst \<and> at_op env (last ks) = Some e \<and> tr (Some e)
      | Rt_context c \<Rightarrow> (ks \<noteq> [] \<and> at_sleep env (last ks) = Some c) \<or> at_ctx env nxt = Some c
      | Rt_invalid \<Rightarrow> False)"

lemma loop_outcome:
  assumes "backoff_loop env tr mx k (Suc n) wait = (es, res)"
  shows "\<exists>m \<le> Suc n. attempts_of es = [k..<k + m] \<and>
    (\<forall>j \<in> set (butlast [k..<k + m]). \<exists>e. at_op env j = Some e \<and> tr (Some e)) \<and>
    outcome_ok env tr (k + n) (k + m) [k..<k + m] res"
  using assms
proof (induction n arbitrary: k wait es res)
  case 0
  show ?case
  proof (cases "at_ctx env k")
    case None
    then show ?thesis using 0
      by (intro exI [of _ "Suc 0"]) (auto simp: outcome_ok_def split: option.splits if_splits)
  next
    case (Some c)
    then show ?thesis using 0 by (intro exI [of _ 0]) (auto simp: outcome_ok_def)
  qed
next
  case (Suc n)
  show ?case
  proof (cases "at_ctx env k = None \<and> (\<exists>e. at_op env k = Some e \<and> tr (Some e)) \<and> at_sleep env k = None")
    case False
    then show ?thesis
    proof (cases "at_ctx env k")
      case None
      then show ?thesis using Suc.prems False
        by (intro exI [of _ "Suc 0"]) (auto simp: outcome_ok_def Let_def split: option.splits if_splits)
    next
      case (Some c)
      then show ?thesis using Suc.prems by (intro exI [of _ 0]) (auto simp: outcome_ok_def)
    qed
  next
    case True
    then obtain e where e: "at_op env k = Some e" "tr (Some e)" by blast
    obtain es' where es: "es = [Attempted k, Slept (Suc k) (jitter (at_draw env k) wait)] @ es'"
      "backoff_loop env tr mx (Suc k) (Suc n) (if mx < i64 (3 * wait) then mx else i64 (3 * wait)) = (es', res)"
      using Suc.prems True e by (auto simp: Let_def apfst_def map_prod_def split: prod.splits simp del: backoff_loop.simps(2)
          simp: backoff_loop.simps(2) [of env tr mx k])
    from Suc.IH [OF es(2)] obtain m where m: "m \<le> Suc n" "attempts_of es' = [Suc k..<Suc k + m]"
      "\<forall>j \<in> set (butlast [Suc k..<Suc k + m]). \<exists>e. at_op env j = Some e \<and> tr (Some e)"
      "outcome_ok env tr (Suc k + n) (Suc k + m) [Suc k..<Suc k + m] res" by blast
    have ks: "[k..<k + Suc m] = k # [Suc k..<Suc k + m]" by (simp add: upt_conv_Cons)
    show ?thesis
    proof (intro exI [of _ "Suc m"] conjI)
      show "attempts_of es = [k..<k + Suc m]"
        unfolding es(1) append_Cons append_Nil attempts_of.simps m(2) ks ..
      show "\<forall>j \<in> set (butlast [k..<k + Suc m]). \<exists>e. at_op env j = Some e \<and> tr (Some e)"
        using m(3) e unfolding ks by (cases "[Suc k..<Suc k + m] = []") (simp_all only: butlast.simps if_True if_False, auto)
      show "outcome_ok env tr (k + Suc n) (k + Suc m) [k..<k + Suc m] res"
        using m(4) by (auto simp: ks outcome_ok_def last_ConsR simp del: upt_Suc split: retry_result.splits if_splits)
    qed (use m(1) in simp)
  qed
qed

lemma i64_small: "0 \<le> x \<Longrightarrow> x < 2 ^ 63 \<Longrightarrow> i64 x = x"
  by (simp add: i64_def signed_of_int signed_take_bit_int_eq_self)

lemma jitter_bounds:
  assumes "0 < d" "\<And>h. 0 \<le> h \<Longrightarrow> 0 \<le> draw h \<and> draw h \<le> h"
  shows "d div 2 \<le> jitter draw d \<and> jitter draw d \<le> d"
  using assms(1) assms(2) [of "d div 2"] by (simp add: jitter_def) linarith

text \<open>The nominal sleep triples up to the maximum, and each sleep is between its half and itself.\<close>

lemma loop_sleeps:
  assumes "backoff_loop env tr mx k n wait = (es, res)" "Slept j s \<in> set es"
    and "0 < wait" "wait \<le> mx" "3 * mx < 2 ^ 63"
    and "\<And>i h. 0 \<le> h \<Longrightarrow> 0 \<le> at_draw env i h \<and> at_draw env i h \<le> h"
  shows "k < j \<and> (let d = min (3 ^ (j - Suc k) * wait) mx in d div 2 \<le> s \<and> s \<le> d)"
  using assms(1-4)
proof (induction n arbitrary: k wait es res)
  case (Suc n)
  let ?w = "if mx < i64 (3 * wait) then mx else i64 (3 * wait)"
  have w: "?w = min (3 * wait) mx" using i64_small [of "3 * wait"] Suc.prems(3,4) assms(5) by auto
  have here: "wait div 2 \<le> jitter (at_draw env k) wait \<and> jitter (at_draw env k) wait \<le> wait"
    using jitter_bounds assms(6) Suc.prems(3) by blast
  have "Slept j s = Slept (Suc k) (jitter (at_draw env k) wait) \<or>
      (\<exists>es'. backoff_loop env tr mx (Suc k) n ?w = (es', res) \<and> Slept j s \<in> set es')"
    using Suc.prems(1,2) by (auto simp: Let_def apfst_def map_prod_def split: option.splits if_splits prod.splits)
  then show ?case
  proof (elim disjE exE conjE)
    assume "Slept j s = Slept (Suc k) (jitter (at_draw env k) wait)"
    then show ?thesis using here Suc.prems(3,4) by (simp add: Let_def)
  next
    fix es' assume rest: "backoff_loop env tr mx (Suc k) n ?w = (es', res)" "Slept j s \<in> set es'"
    have pos: "0 < ?w" "?w \<le> mx" using w Suc.prems(3,4) by auto
    from Suc.IH [OF rest pos] have j: "Suc k < j"
      and d: "let d = min (3 ^ (j - Suc (Suc k)) * ?w) mx in d div 2 \<le> s \<and> s \<le> d" by blast+
    have "min (3 ^ (j - Suc (Suc k)) * min (3 * wait) mx) mx = min (3 ^ (j - Suc k) * wait) mx"
    proof -
      have e: "j - Suc k = Suc (j - Suc (Suc k))" using j by simp
      let ?c = "3 ^ (j - Suc (Suc k)) :: int"
      have grow: "x \<le> ?c * x" if "0 \<le> x" for x
        using mult_right_mono [of 1 ?c x] that by simp
      have rhs: "3 ^ (j - Suc k) * wait = ?c * (3 * wait)" by (simp add: e)
      show ?thesis
      proof (cases "3 * wait \<le> mx")
        case True
        then show ?thesis unfolding rhs by simp
      next
        case False
        then have "mx \<le> ?c * mx" "mx \<le> ?c * (3 * wait)"
          using grow [of mx] grow [of "3 * wait"] Suc.prems(3,4) by linarith+
        then show ?thesis unfolding rhs using False by simp
      qed
    qed
    then show ?thesis using d j by (simp add: w)
  qed
qed simp

lemma terminal_not_transient:
  "t \<in> set terminalSentinels \<Longrightarrow> t \<in> set (ne_chain e) \<Longrightarrow> \<not> IsTransient (Some e)"
  by (auto simp: IsTransient_def list_ex_iff err_is_def)

text \<open>
  C38. A run of \<open>WithBackoff\<close> always ends, makes the attempts 1, 2, \<open>\<dots>\<close> in order and at most as many as it was
  given; every attempt but the last failed with a transient error, so with the default classifier an
  error that reaches a terminal sentinel is never retried. It reports success only when the last attempt
  succeeded, returns an error that is not transient unchanged, and gives up only after its last attempt
  failed. Each sleep lies between half and the whole of its nominal length, which triples from the base
  up to the maximum.
\<close>

theorem retry_bounded:
  assumes "o1 = with_defaults opts" "0 < op_Attempts o1"
    and "0 < op_Base o1" "op_Base o1 \<le> op_Max o1" "3 * op_Max o1 < 2 ^ 63"
    and "\<And>i h. 0 \<le> h \<Longrightarrow> 0 \<le> at_draw env i h \<and> at_draw env i h \<le> h"
    and "tr = (case isTransient of None \<Rightarrow> IsTransient | Some f \<Rightarrow> f)"
    and "WithBackoff env opts isTransient = (es, res)"
  shows "(\<exists>m. int m \<le> op_Attempts o1 \<and> attempts_of es = [1..<Suc m] \<and>
      (\<forall>j \<in> set (butlast [1..<Suc m]). \<exists>e. at_op env j = Some e \<and> tr (Some e) \<and>
         (isTransient = None \<longrightarrow> (\<forall>t \<in> set terminalSentinels. t \<notin> set (ne_chain e)))) \<and>
      (case res of
         Rt_ok \<Rightarrow> 0 < m \<and> at_op env m = None
       | Rt_error e \<Rightarrow> 0 < m \<and> at_op env m = Some e \<and> \<not> tr (Some e)
       | Rt_exhausted e \<Rightarrow> int m = op_Attempts o1 \<and> at_op env m = Some e \<and> tr (Some e)
       | Rt_context c \<Rightarrow> 0 < m \<and> at_sleep env m = Some c \<or> at_ctx env (Suc m) = Some c
       | Rt_invalid \<Rightarrow> False)) \<and>
    (\<forall>j s. Slept j s \<in> set es \<longrightarrow>
      (let d = min (3 ^ (j - 2) * op_Base o1) (op_Max o1) in d div 2 \<le> s \<and> s \<le> d))"
proof -
  obtain n where n: "nat (op_Attempts o1) = Suc n" using assms(2) by (metis gr0_conv_Suc zero_less_nat_eq)
  have run: "backoff_loop env tr (op_Max o1) 1 (Suc n) (op_Base o1) = (es, res)"
    using assms(1,2,7,8) n by (simp add: WithBackoff_def Let_def)
  obtain m where m: "m \<le> Suc n" "attempts_of es = [1..<1 + m]"
    "\<forall>j \<in> set (butlast [1..<1 + m]). \<exists>e. at_op env j = Some e \<and> tr (Some e)"
    "outcome_ok env tr (1 + n) (1 + m) [1..<1 + m] res"
    using loop_outcome [OF run] by blast
  have ks: "[1..<1 + m] \<noteq> [] \<longleftrightarrow> 0 < m" "0 < m \<Longrightarrow> last [1..<1 + m] = m" by simp_all
  have N: "op_Attempts o1 = int (Suc n)" using n assms(2) by linarith
  have terminal: "isTransient = None \<longrightarrow> (\<forall>t \<in> set terminalSentinels. t \<notin> set (ne_chain e))" if "tr (Some e)" for e
    using that terminal_not_transient assms(7) by auto
  have outcome: "case res of
         Rt_ok \<Rightarrow> 0 < m \<and> at_op env m = None
       | Rt_error e \<Rightarrow> 0 < m \<and> at_op env m = Some e \<and> \<not> tr (Some e)
       | Rt_exhausted e \<Rightarrow> int m = op_Attempts o1 \<and> at_op env m = Some e \<and> tr (Some e)
       | Rt_context c \<Rightarrow> 0 < m \<and> at_sleep env m = Some c \<or> at_ctx env (Suc m) = Some c
       | Rt_invalid \<Rightarrow> False"
    using m(4) ks N unfolding outcome_ok_def by (cases res) (auto simp del: upt_Suc)
  have "Slept j s \<in> set es \<Longrightarrow> let d = min (3 ^ (j - 2) * op_Base o1) (op_Max o1) in d div 2 \<le> s \<and> s \<le> d" for j s
    using loop_sleeps [OF run _ assms(3-6)] by (simp add: numeral_2_eq_2)
  moreover have "\<exists>m. int m \<le> op_Attempts o1 \<and> attempts_of es = [1..<Suc m] \<and>
      (\<forall>j \<in> set (butlast [1..<Suc m]). \<exists>e. at_op env j = Some e \<and> tr (Some e) \<and>
         (isTransient = None \<longrightarrow> (\<forall>t \<in> set terminalSentinels. t \<notin> set (ne_chain e)))) \<and>
      (case res of
         Rt_ok \<Rightarrow> 0 < m \<and> at_op env m = None
       | Rt_error e \<Rightarrow> 0 < m \<and> at_op env m = Some e \<and> \<not> tr (Some e)
       | Rt_exhausted e \<Rightarrow> int m = op_Attempts o1 \<and> at_op env m = Some e \<and> tr (Some e)
       | Rt_context c \<Rightarrow> 0 < m \<and> at_sleep env m = Some c \<or> at_ctx env (Suc m) = Some c
       | Rt_invalid \<Rightarrow> False)"
    using m(1,2) N outcome terminal m(3) by (intro exI [of _ m]) (auto simp del: upt_Suc)
  ultimately show ?thesis by blast
qed

text \<open>A connection that drops twice and then comes up.\<close>

definition sample_drop :: net_err where
  "sample_drop = \<lparr>ne_chain = [ErrConnectFailed], ne_noRoute = False, ne_addrNotAvail = False, ne_timeout = False,
     ne_idle = False, ne_app = None, ne_streamRemote = False, ne_text = []\<rparr>"

definition sample_attempts :: attempts_env where
  "sample_attempts = \<lparr>at_ctx = (\<lambda>_. None), at_op = (\<lambda>k. if k < 3 then Some sample_drop else None),
     at_sleep = (\<lambda>_. None), at_draw = (\<lambda>_ h. h)\<rparr>"

theorem retry_bounded_witness:
  "let es = fst (WithBackoff sample_attempts \<lparr>op_Attempts = 0, op_Base = 0, op_Max = 0\<rparr> None) in
     Slept 3 3000000000 \<in> set es \<and> (\<exists>m. int m \<le> 3 \<and> attempts_of es = [1..<Suc m])"
proof -
  let ?opts = "\<lparr>op_Attempts = 0, op_Base = 0, op_Max = 0\<rparr>"
  have run: "WithBackoff sample_attempts ?opts None
      = ([Attempted 1, Slept 2 1000000000, Attempted 2, Slept 3 3000000000, Attempted 3], Rt_ok)"
    by code_simp
  have "\<exists>m. int m \<le> op_Attempts (with_defaults ?opts) \<and>
      attempts_of [Attempted 1, Slept 2 1000000000, Attempted 2, Slept 3 3000000000, Attempted 3] = [1..<Suc m]"
    using retry_bounded [OF refl _ _ _ _ _ refl run]
    by (force simp: with_defaults_def defaultOptions_def DefaultAttempts_def sample_attempts_def simp del: upt_Suc attempts_of.simps)
  then show ?thesis
    unfolding run by (simp add: with_defaults_def defaultOptions_def DefaultAttempts_def del: upt_Suc)
qed

end
