(* ===== verification/Source_Walk.thy ===== *)
theory Source_Walk
  imports Sender Safe_Paths Transfer_Control Fs_Text "HOL-Library.Char_ord" "HOL-Library.List_Lexorder"
begin

text \<open>
  \<open>internal/transfer/walk.go\<close> and the exclude patterns of \<open>paths.go\<close>: how the sender turns its
  arguments into the list of sources. The sender runs on a Unix host. Its file tree is what the
  system calls answer, one answer for each path during the walk; \<open>os.SameFile\<close> compares the
  identities of two files. The recursion of \<open>addEntry\<close> follows symbolic links, so it need not end on
  every tree: the definition has fuel, and \<open>walk_returns\<close> says for which trees and how much of it suffices.
\<close>

section \<open>Glob patterns\<close>

text \<open>
  \<open>filepath.Match\<close> of the standard library: \<open>None\<close> is \<open>ErrBadPattern\<close>. \<open>get_esc\<close> reads one end of a
  range of a character class, \<open>match_class\<close> the class, \<open>match_chunk\<close> a chunk without stars.
\<close>

definition first_rune :: "string \<Rightarrow> rune \<times> string" where
  "first_rune s = (case decode_rune (map of_char s) of (r, w) \<Rightarrow> (r, drop (max 1 w) s))"

definition get_esc :: "string \<Rightarrow> (rune \<times> string) option" where
  "get_esc chunk =
     (if chunk = [] \<or> hd chunk = CHR ''-'' \<or> hd chunk = CHR '']'' then None
      else let c1 = if hd chunk = CHR 0x5C then tl chunk else chunk in
        if c1 = [] then None
        else case decode_rune (map of_char c1) of (r, w) \<Rightarrow>
          if (r = 0xFFFD \<and> w = 1) \<or> drop (max 1 w) c1 = [] then None else Some (r, drop (max 1 w) c1))"

lemma get_esc_shorter: "get_esc c = Some (r, d) \<Longrightarrow> length d < length c"
  by (cases c) (auto simp: get_esc_def Let_def split: if_splits prod.splits)

function match_class :: "rune \<Rightarrow> bool \<Rightarrow> bool \<Rightarrow> string \<Rightarrow> (bool \<times> string) option" where
  "match_class r ranges m chunk =
     (if chunk \<noteq> [] \<and> hd chunk = CHR '']'' \<and> ranges then Some (m, tl chunk)
      else case get_esc chunk of
        None \<Rightarrow> None
      | Some (lo, c1) \<Rightarrow>
          (case (if hd c1 = CHR ''-'' then get_esc (tl c1) else Some (lo, c1)) of
             None \<Rightarrow> None
           | Some (hi, c2) \<Rightarrow> match_class r True (m \<or> (lo \<le> r \<and> r \<le> hi)) c2))"
  by pat_completeness auto
termination
proof (relation "measure (\<lambda>(r, b, m, c). length c)", goal_cases)
  case (2 r b m chunk x lo c1 y hi c2)
  have "length c1 < length chunk" using 2(2,3) get_esc_shorter by blast
  moreover have "length c2 \<le> length c1"
    using 2(4,5) get_esc_shorter [of "tl c1"] by (cases c1) (auto split: if_splits)
  ultimately show ?case by simp
qed simp

declare match_class.simps [simp del]

lemma match_class_shorter: "match_class r b m c = Some (x, d) \<Longrightarrow> length d < length c"
proof (induction r b m c rule: match_class.induct)
  case (1 r b m c)
  show ?case
  proof (cases "c \<noteq> [] \<and> hd c = CHR '']'' \<and> b")
    case True
    then show ?thesis using 1(2) by (subst (asm) match_class.simps) (cases c; auto)
  next
    case False
    with 1(2) obtain lo c1 hi c2 where e: "get_esc c = Some (lo, c1)"
      "(if hd c1 = CHR ''-'' then get_esc (tl c1) else Some (lo, c1)) = Some (hi, c2)"
      "match_class r True (m \<or> (lo \<le> r \<and> r \<le> hi)) c2 = Some (x, d)"
      by (auto simp: match_class.simps [of r b m c] simp del: if_split split: option.splits)
    have "length c2 \<le> length c1"
      using e(2) get_esc_shorter [of "tl c1"] by (cases c1) (auto split: if_splits)
    with 1(1) [OF False e(1) refl e(2) refl e(3)] get_esc_shorter [OF e(1)] show ?thesis by simp
  qed
qed

function match_chunk :: "bool \<Rightarrow> string \<Rightarrow> string \<Rightarrow> string option option" where
  "match_chunk f [] s = Some (if f then None else Some s)"
| "match_chunk f (c # chunk) s =
     (let f1 = f \<or> s = [] in
      if c = CHR ''['' then
        (let (r, s1) = if f1 then (0, s) else first_rune s;
             neg = chunk \<noteq> [] \<and> hd chunk = CHR ''^''
         in case match_class r False False (if neg then tl chunk else chunk) of
              None \<Rightarrow> None
            | Some (m, chunk1) \<Rightarrow> match_chunk (f1 \<or> m = neg) chunk1 s1)
      else if c = CHR ''?'' then
        (if f1 then match_chunk True chunk s
         else match_chunk (hd s = CHR ''/'') chunk (snd (first_rune s)))
      else if c = CHR 0x5C then
        (case chunk of
           [] \<Rightarrow> None
         | l # chunk1 \<Rightarrow> match_chunk (f1 \<or> l \<noteq> hd s) chunk1 (if f1 then s else tl s))
      else match_chunk (f1 \<or> c \<noteq> hd s) chunk (if f1 then s else tl s))"
  by pat_completeness auto
termination
proof (relation "measure (\<lambda>(f, c, s). length c)", goal_cases)
  case (2 f c chunk s f1 x r s1 neg y m chunk1)
  then have "length chunk1 < length (if neg then tl chunk else chunk)"
    by (auto dest!: match_class_shorter simp del: if_split)
  then show ?case by (auto split: if_splits)
qed auto

declare match_chunk.simps(2) [simp del]

fun scan_body :: "bool \<Rightarrow> string \<Rightarrow> string \<times> string" where
  "scan_body inr [] = ([], [])"
| "scan_body inr (c # cs) =
     (if c = CHR 0x5C then
        (case cs of [] \<Rightarrow> ([c], []) | d # ds \<Rightarrow> (case scan_body inr ds of (a, b) \<Rightarrow> (c # d # a, b)))
      else if c = CHR ''*'' \<and> \<not> inr then ([], c # cs)
      else case scan_body (if c = CHR ''['' then True else if c = CHR '']'' then False else inr) cs of
        (a, b) \<Rightarrow> (c # a, b))"

definition scan_chunk :: "string \<Rightarrow> bool \<times> string \<times> string" where
  "scan_chunk p = (p \<noteq> [] \<and> hd p = CHR ''*'', scan_body False (dropWhile (\<lambda>c. c = CHR ''*'') p))"

declare scan_body.simps(2) [simp del]

lemma scan_body_length: "length (snd (scan_body i p)) \<le> length p"
proof (induction i p rule: scan_body.induct)
  case (2 i c cs)
  then show ?case
    by (subst scan_body.simps) (force split: list.splits prod.splits if_splits)
qed simp

lemma scan_body_step: "c \<noteq> CHR ''*'' \<Longrightarrow> length (snd (scan_body i (c # cs))) \<le> length cs"
  using scan_body_length [of i "tl cs"]
    scan_body_length [of "if c = CHR ''['' then True else if c = CHR '']'' then False else i" cs]
  by (subst scan_body.simps) (force split: list.splits prod.splits)

lemma scan_chunk_shorter:
  assumes "p \<noteq> []" "scan_chunk p = (star, chunk, rest)"
  shows "length rest < length p"
proof -
  obtain c cs where p: "p = c # cs" using assms(1) by (cases p) auto
  have rest: "rest = snd (scan_body False (dropWhile (\<lambda>c. c = CHR ''*'') p))"
    using assms(2) by (auto simp: scan_chunk_def)
  show ?thesis
  proof (cases "c = CHR ''*''")
    case True
    have "length rest \<le> length (dropWhile (\<lambda>c. c = CHR ''*'') cs)"
      unfolding rest p using True scan_body_length by simp
    also have "\<dots> \<le> length cs" by (rule length_dropWhile_le)
    finally show ?thesis using p by simp
  next
    case False
    then show ?thesis unfolding rest p using scan_body_step [of c False cs] by simp
  qed
qed

fun try_at :: "string \<Rightarrow> bool \<Rightarrow> string list \<Rightarrow> string option option" where
  "try_at chunk last_chunk [] = Some None"
| "try_at chunk last_chunk (n # ns) =
     (case match_chunk False chunk n of
        None \<Rightarrow> None
      | Some None \<Rightarrow> try_at chunk last_chunk ns
      | Some (Some t) \<Rightarrow> if t = [] \<or> \<not> last_chunk then Some (Some t) else try_at chunk last_chunk ns)"

text \<open>The rest of a name behind each of its bytes up to the first separator.\<close>

fun skips :: "string \<Rightarrow> string list" where
  "skips [] = []"
| "skips (c # cs) = (if c = CHR ''/'' then [] else cs # skips cs)"

function well_formed_rest :: "string \<Rightarrow> bool" where
  "well_formed_rest p =
     (if p = [] then True
      else case scan_chunk p of (_, chunk, rest) \<Rightarrow> match_chunk False chunk [] \<noteq> None \<and> well_formed_rest rest)"
  by pat_completeness auto
termination
  by (relation "measure length") (auto dest!: scan_chunk_shorter [OF _ sym])

declare well_formed_rest.simps [simp del]

function Match :: "string \<Rightarrow> string \<Rightarrow> bool option" where
  "Match p name =
     (if p = [] then Some (name = [])
      else case scan_chunk p of (star, chunk, rest) \<Rightarrow>
        if star \<and> chunk = [] then Some (CHR ''/'' \<notin> set name)
        else case try_at chunk (rest = []) (name # (if star then skips name else [])) of
          None \<Rightarrow> None
        | Some (Some t) \<Rightarrow> Match rest t
        | Some None \<Rightarrow> if well_formed_rest rest then Some False else None)"
  by pat_completeness auto
termination
  by (relation "measure (length \<circ> fst)") (auto dest!: scan_chunk_shorter [OF _ sym])

declare Match.simps [simp del]

section \<open>Excluded paths\<close>

fun keep_patterns :: "string list \<Rightarrow> goerr + string list" where
  "keep_patterns [] = Inr []"
| "keep_patterns (raw # ps) =
     (let p = TrimSpace raw in
      if p = [] then keep_patterns ps
      else if Match p [] = None then Inl [ErrUsage]
      else case keep_patterns ps of Inl e \<Rightarrow> Inl e | Inr out \<Rightarrow> Inr (p # out))"

definition newExcludeMatcher :: "string list \<Rightarrow> goerr + string list" where
  "newExcludeMatcher patterns = keep_patterns patterns"

definition exclude_match :: "string list \<Rightarrow> string \<Rightarrow> bool" where
  "exclude_match m rel \<longleftrightarrow>
     list_ex (\<lambda>pat. Match pat rel = Some True \<or> list_ex (\<lambda>part. Match pat part = Some True) (split_on (CHR ''/'') rel)) m"

section \<open>The walk\<close>

datatype file_kind = KDir | KRegular | KSymlink | KPipe | KSocket | KDevice | KIrregular

record file_info =
  fi_kind :: file_kind
  fi_perm :: u32
  fi_mtime :: int
  fi_size :: u64
  fi_ident :: nat

datatype os_error = OsNotExist | OsPermission | OsOther

text \<open>The answers of the system calls; \<open>tr_cwd\<close> is \<open>os.Getwd\<close>.\<close>

record source_tree =
  tr_cwd :: "string option"
  tr_Lstat :: "string \<Rightarrow> os_error + file_info"
  tr_Stat :: "string \<Rightarrow> os_error + file_info"
  tr_Readlink :: "string \<Rightarrow> string option"
  tr_ReadDir :: "string \<Rightarrow> string list option"
  tr_Open :: "string \<Rightarrow> bool"

text \<open>A source with the field only the sender uses, the file a followed link leads to.\<close>

record walk_source = Source +
  so_LinkTarget :: string

record walk_state =
  wk_out :: "walk_source list"
  wk_seen :: "string set"

text \<open>\<open>None\<close> is out of fuel; \<open>Inl\<close> an error, after which the state is dropped.\<close>

type_synonym walk_result = "(goerr + walk_state) option"

definition symlinkError :: "os_error \<Rightarrow> goerr" where
  "symlinkError e = (case e of OsNotExist \<Rightarrow> [ErrUnsendableSymlink] | OsPermission \<Rightarrow> [ErrUnsendableSymlink]
     | OsOther \<Rightarrow> [ErrUnsendableSymlink])"

text \<open>The loop over the entries of a folder; \<open>rel_of\<close> names a child inside the transfer.\<close>

fun add_children ::
  "(string \<Rightarrow> string \<Rightarrow> file_info \<Rightarrow> walk_state \<Rightarrow> walk_result) \<Rightarrow> source_tree \<Rightarrow> string \<Rightarrow> (string \<Rightarrow> string)
     \<Rightarrow> string list \<Rightarrow> walk_state \<Rightarrow> walk_result" where
  "add_children add t dir rel_of [] s = Some (Inr s)"
| "add_children add t dir rel_of (c # cs) s =
     (let cAbs = path_join dir c in
      case tr_Lstat t cAbs of
        Inl e \<Rightarrow> Some (Inl [])
      | Inr cst \<Rightarrow>
          (case add cAbs (rel_of c) cst s of
             None \<Rightarrow> None
           | Some (Inl e) \<Rightarrow> Some (Inl e)
           | Some (Inr s1) \<Rightarrow> add_children add t dir rel_of cs s1))"

definition entry_origin :: "string \<Rightarrow> string \<Rightarrow> string \<Rightarrow> string" where
  "entry_origin linkTarget srcPrefix rel =
     (if linkTarget = [] \<and> srcPrefix \<noteq> []
      then srcPrefix @ CHR ''/'' # snd (path_split rel) else linkTarget)"

definition walk_entry :: "EntryType \<Rightarrow> string \<Rightarrow> file_info \<Rightarrow> ListingEntry" where
  "walk_entry ty rel st = \<lparr>le_Index = 0, le_RelativePath = rel,
     le_Size = (if ty = EntryFile then fi_size st else 0), le_ModTimeSec = fi_mtime st,
     le_Mode = fi_perm st, le_Type = ty, le_SymlinkTarget = []\<rparr>"

definition emit :: "EntryType \<Rightarrow> string \<Rightarrow> string \<Rightarrow> string \<Rightarrow> file_info \<Rightarrow> walk_state \<Rightarrow> walk_state" where
  "emit ty dir rel src st s =
     s\<lparr>wk_out := wk_out s @ [\<lparr>so_Entry = walk_entry ty rel st, so_AbsPath = dir, so_LinkTarget = src\<rparr>]\<rparr>"

text \<open>
  \<open>addEntry\<close> behind its checks, once the entry's link is resolved: \<open>add\<close> is the recursive call, with
  the stack and the prefix it gets.
\<close>

definition add_resolved ::
  "(file_info list \<Rightarrow> string \<Rightarrow> string \<Rightarrow> string \<Rightarrow> file_info \<Rightarrow> walk_state \<Rightarrow> walk_result) \<Rightarrow> source_tree
     \<Rightarrow> file_info list \<Rightarrow> string \<Rightarrow> string \<Rightarrow> string \<Rightarrow> string \<Rightarrow> file_info \<Rightarrow> walk_state \<Rightarrow> walk_result" where
  "add_resolved add t stack srcPrefix linkTarget dir rel st s =
     (let src = entry_origin linkTarget srcPrefix rel in
      case fi_kind st of
        KDir \<Rightarrow>
          if linkTarget \<noteq> [] \<and> list_ex (\<lambda>anc. fi_ident st = fi_ident anc) stack
          then Some (Inl [ErrUnsendableSymlink])
          else (case tr_ReadDir t dir of
                  None \<Rightarrow> Some (Inl [])
                | Some children \<Rightarrow>
                    add_children (add (stack @ [st]) src) t dir (\<lambda>c. rel @ CHR ''/'' # c) (sort children)
                      (emit EntryDir dir rel [] st s))
      | KRegular \<Rightarrow> Some (Inr (emit EntryFile dir rel src st s))
      | _ \<Rightarrow> if linkTarget \<noteq> [] then Some (Inl [ErrUnsendableSymlink]) else Some (Inr s))"

primrec addEntry ::
  "nat \<Rightarrow> source_tree \<Rightarrow> string list \<Rightarrow> file_info list \<Rightarrow> string \<Rightarrow> string \<Rightarrow> string \<Rightarrow> file_info
     \<Rightarrow> walk_state \<Rightarrow> walk_result" where
  "addEntry 0 t m stack srcPrefix dir rel st s = None"
| "addEntry (Suc n) t m stack srcPrefix dir rel st s =
     (if exclude_match m rel then Some (Inr s)
      else if rel \<in> wk_seen s then Some (Inl [ErrUsage])
      else let s1 = s\<lparr>wk_seen := insert rel (wk_seen s)\<rparr> in
        if fi_kind st = KSymlink then
          (let linkTarget = (case tr_Readlink t dir of None \<Rightarrow> [] | Some x \<Rightarrow> x) in
           case tr_Stat t dir of
             Inl e \<Rightarrow> Some (Inl (symlinkError e))
           | Inr st1 \<Rightarrow> add_resolved (addEntry n t m) t stack srcPrefix linkTarget dir rel st1 s1)
        else add_resolved (addEntry n t m) t stack srcPrefix [] dir rel st s1)"

definition IsContentsRef :: "string \<Rightarrow> bool" where
  "IsContentsRef p \<longleftrightarrow>
     (let s = trim_right (\<lambda>c. c = CHR ''/'') p in s = ''.'' \<or> has_suffix ''/.'' s)"

definition abs_of :: "source_tree \<Rightarrow> string \<Rightarrow> string option" where
  "abs_of t p = (if is_abs p then Some (path_clean p)
     else case tr_cwd t of None \<Rightarrow> None | Some wd \<Rightarrow> Some (path_join wd p))"

text \<open>
  The loop of \<open>Walk\<close> over its arguments: \<open>walk_arg\<close> is its body, \<open>roots\<close> the names already taken at the
  top level.
\<close>

definition walk_arg ::
  "nat \<Rightarrow> source_tree \<Rightarrow> string list \<Rightarrow> string \<Rightarrow> string set \<Rightarrow> walk_state
     \<Rightarrow> (goerr + string set \<times> walk_state) option" where
  "walk_arg n t m raw roots s =
     (case abs_of t raw of
        None \<Rightarrow> Some (Inl [])
      | Some dir \<Rightarrow>
        (case tr_Lstat t dir of
           Inl e \<Rightarrow> Some (Inl (if e = OsNotExist then [ErrSourceNotFound] else []))
         | Inr st \<Rightarrow>
           if IsContentsRef raw \<and> fi_kind st = KDir then
             (case tr_ReadDir t dir of
                None \<Rightarrow> Some (Inl [])
              | Some children \<Rightarrow>
                  map_option (map_sum id (Pair roots))
                    (add_children (addEntry n t m [] []) t dir (\<lambda>c. c) (sort children) s))
           else if fi_kind st \<notin> {KDir, KRegular, KSymlink} then Some (Inl [ErrUsage])
           else if fi_kind st = KRegular \<and> \<not> tr_Open t dir then Some (Inl [])
           else let root = path_base dir in
             if root \<in> roots then Some (Inl [ErrUsage])
             else map_option (map_sum id (Pair (insert root roots))) (addEntry n t m [] [] dir root st s)))"

fun walk_args ::
  "nat \<Rightarrow> source_tree \<Rightarrow> string list \<Rightarrow> string list \<Rightarrow> string set \<Rightarrow> walk_state \<Rightarrow> walk_result" where
  "walk_args n t m [] roots s = Some (Inr s)"
| "walk_args n t m (raw # raws) roots s =
     (case walk_arg n t m raw roots s of
        None \<Rightarrow> None
      | Some (Inl e) \<Rightarrow> Some (Inl e)
      | Some (Inr (roots1, s1)) \<Rightarrow> walk_args n t m raws roots1 s1)"

definition index_sources :: "walk_source list \<Rightarrow> walk_source list" where
  "index_sources out = map (\<lambda>(i, src). src\<lparr>so_Entry := so_Entry src\<lparr>le_Index := of_nat i\<rparr>\<rparr>) (enumerate 0 out)"

definition Walk :: "nat \<Rightarrow> source_tree \<Rightarrow> string list \<Rightarrow> string list \<Rightarrow> (goerr + walk_source list) option" where
  "Walk n t paths excludes =
     (if paths = [] then Some (Inl [])
      else case newExcludeMatcher excludes of
        Inl e \<Rightarrow> Some (Inl e)
      | Inr m \<Rightarrow>
          map_option (map_sum id (\<lambda>s. index_sources (wk_out s)))
            (walk_args n t m paths {} \<lparr>wk_out = [], wk_seen = {}\<rparr>))"

definition CountFiles :: "walk_source list \<Rightarrow> nat" where
  "CountFiles sources = length (filter (\<lambda>s. le_Type (so_Entry s) \<noteq> EntryDir) sources)"

definition TotalBytes :: "walk_source list \<Rightarrow> u64" where
  "TotalBytes sources = sum_list (map (\<lambda>s. le_Size (so_Entry s)) sources)"

section \<open>What a walk that succeeds has done\<close>

text \<open>
  The successful runs without fuel, stack and errors: \<open>entry_run\<close> is one entry, \<open>kids_run\<close> a folder's
  entries in turn.
\<close>

definition resolve :: "source_tree \<Rightarrow> string \<Rightarrow> file_info \<Rightarrow> os_error + file_info" where
  "resolve t dir st = (if fi_kind st = KSymlink then tr_Stat t dir else Inr st)"

definition mark :: "string \<Rightarrow> walk_state \<Rightarrow> walk_state" where
  "mark rel s = s\<lparr>wk_seen := insert rel (wk_seen s)\<rparr>"

inductive entry_run :: "source_tree \<Rightarrow> string list \<Rightarrow> string \<Rightarrow> string \<Rightarrow> file_info \<Rightarrow> walk_state \<Rightarrow> walk_state \<Rightarrow> bool"
  and kids_run :: "source_tree \<Rightarrow> string list \<Rightarrow> string \<Rightarrow> (string \<Rightarrow> string) \<Rightarrow> string list \<Rightarrow> walk_state \<Rightarrow> walk_state \<Rightarrow> bool"
  for t m where
  excluded: "exclude_match m rel \<Longrightarrow> entry_run t m dir rel st s s"
| regular: "\<not> exclude_match m rel \<Longrightarrow> rel \<notin> wk_seen s \<Longrightarrow> resolve t dir st = Inr st1 \<Longrightarrow> fi_kind st1 = KRegular
    \<Longrightarrow> entry_run t m dir rel st s (emit EntryFile dir rel src st1 (mark rel s))"
| folder: "\<not> exclude_match m rel \<Longrightarrow> rel \<notin> wk_seen s \<Longrightarrow> resolve t dir st = Inr st1 \<Longrightarrow> fi_kind st1 = KDir
    \<Longrightarrow> tr_ReadDir t dir = Some cs
    \<Longrightarrow> kids_run t m dir (\<lambda>c. rel @ CHR ''/'' # c) (sort cs) (emit EntryDir dir rel [] st1 (mark rel s)) s'
    \<Longrightarrow> entry_run t m dir rel st s s'"
| special: "\<not> exclude_match m rel \<Longrightarrow> rel \<notin> wk_seen s \<Longrightarrow> resolve t dir st = Inr st1
    \<Longrightarrow> fi_kind st1 \<notin> {KDir, KRegular} \<Longrightarrow> entry_run t m dir rel st s (mark rel s)"
| kids_Nil: "kids_run t m dir rel_of [] s s"
| kids_Cons: "tr_Lstat t (path_join dir c) = Inr cst \<Longrightarrow> entry_run t m (path_join dir c) (rel_of c) cst s s1
    \<Longrightarrow> kids_run t m dir rel_of cs s1 s2 \<Longrightarrow> kids_run t m dir rel_of (c # cs) s s2"

lemma add_children_run:
  assumes "\<And>dir rel st s s'. add dir rel st s = Some (Inr s') \<Longrightarrow> entry_run t m dir rel st s s'"
    and "add_children add t dir rel_of cs s = Some (Inr s')"
  shows "kids_run t m dir rel_of cs s s'"
  using assms(2)
  by (induction cs arbitrary: s)
    (auto simp: Let_def split: sum.splits option.splits intro: kids_Nil intro!: kids_Cons assms(1))

lemma add_resolved_run:
  assumes "\<And>stack pre dir rel st s s'. add stack pre dir rel st s = Some (Inr s') \<Longrightarrow> entry_run t m dir rel st s s'"
    and "\<not> exclude_match m rel" "rel \<notin> wk_seen s" "resolve t dir st = Inr st1"
    and "add_resolved add t stack pre link dir rel st1 (mark rel s) = Some (Inr s')"
  shows "entry_run t m dir rel st s s'"
proof (cases "fi_kind st1 = KDir")
  case True
  with assms(5) obtain cs where "tr_ReadDir t dir = Some cs"
    "add_children (add (stack @ [st1]) (entry_origin link pre rel)) t dir (\<lambda>c. rel @ CHR ''/'' # c) (sort cs)
      (emit EntryDir dir rel [] st1 (mark rel s)) = Some (Inr s')"
    by (auto simp: add_resolved_def Let_def split: if_splits option.splits)
  then show ?thesis
    by (intro folder [OF assms(2-4) True]
        add_children_run [where add = "add (stack @ [st1]) (entry_origin link pre rel)"] assms(1))
next
  case False
  then show ?thesis
    using assms(5) regular [OF assms(2-4)] special [OF assms(2-4)]
    by (cases "fi_kind st1") (auto simp: add_resolved_def Let_def split: if_splits)
qed

lemma addEntry_run: "addEntry n t m stack pre dir rel st s = Some (Inr s') \<Longrightarrow> entry_run t m dir rel st s s'"
proof (induction n arbitrary: stack pre dir rel st s s')
  case (Suc n)
  show ?case
  proof (cases "exclude_match m rel")
    case True
    then show ?thesis using Suc.prems by (auto intro: excluded)
  next
    case False
    with Suc.prems have new: "rel \<notin> wk_seen s" by (auto split: if_splits)
    with False Suc.prems obtain st1 link where "resolve t dir st = Inr st1"
      "add_resolved (addEntry n t m) t stack pre link dir rel st1 (mark rel s) = Some (Inr s')"
      by (auto simp: Let_def resolve_def mark_def split: if_splits sum.splits)
    then show ?thesis
      by (intro add_resolved_run [where add = "addEntry n t m", OF _ False new] Suc.IH)
  qed
qed simp

text \<open>Which files and folders an entry stands for: the links followed, the excluded subtrees left out.\<close>

inductive offered :: "source_tree \<Rightarrow> string list \<Rightarrow> string \<Rightarrow> string \<Rightarrow> file_info \<Rightarrow> EntryType \<times> string \<times> string \<Rightarrow> bool"
  for t m where
  offered_file: "\<not> exclude_match m rel \<Longrightarrow> resolve t dir st = Inr st1 \<Longrightarrow> fi_kind st1 = KRegular
    \<Longrightarrow> offered t m dir rel st (EntryFile, rel, dir)"
| offered_folder: "\<not> exclude_match m rel \<Longrightarrow> resolve t dir st = Inr st1 \<Longrightarrow> fi_kind st1 = KDir
    \<Longrightarrow> offered t m dir rel st (EntryDir, rel, dir)"
| offered_inside: "\<not> exclude_match m rel \<Longrightarrow> resolve t dir st = Inr st1 \<Longrightarrow> fi_kind st1 = KDir
    \<Longrightarrow> tr_ReadDir t dir = Some cs \<Longrightarrow> c \<in> set cs \<Longrightarrow> tr_Lstat t (path_join dir c) = Inr cst
    \<Longrightarrow> offered t m (path_join dir c) (rel @ CHR ''/'' # c) cst k \<Longrightarrow> offered t m dir rel st k"

lemma offered_unfold:
  "exclude_match m rel \<Longrightarrow> \<not> offered t m dir rel st k"
  "\<not> exclude_match m rel \<Longrightarrow> resolve t dir st = Inr st1 \<Longrightarrow> fi_kind st1 = KRegular
     \<Longrightarrow> offered t m dir rel st k \<longleftrightarrow> k = (EntryFile, rel, dir)"
  "resolve t dir st = Inr st1 \<Longrightarrow> fi_kind st1 \<notin> {KDir, KRegular} \<Longrightarrow> \<not> offered t m dir rel st k"
  by (subst offered.simps; auto)+

definition source_key :: "walk_source \<Rightarrow> EntryType \<times> string \<times> string" where
  "source_key w = (le_Type (so_Entry w), le_RelativePath (so_Entry w), so_AbsPath w)"

definition offered_by :: "source_tree \<Rightarrow> string list \<Rightarrow> string \<Rightarrow> (string \<Rightarrow> string) \<Rightarrow> string list \<Rightarrow> (EntryType \<times> string \<times> string) set" where
  "offered_by t m dir rel_of cs =
     {k. \<exists>c cst. c \<in> set cs \<and> tr_Lstat t (path_join dir c) = Inr cst \<and> offered t m (path_join dir c) (rel_of c) cst k}"

lemma offered_by_Cons:
  "tr_Lstat t (path_join dir c) = Inr cst \<Longrightarrow>
   offered_by t m dir rel_of (c # cs) = {k. offered t m (path_join dir c) (rel_of c) cst k} \<union> offered_by t m dir rel_of cs"
  by (auto simp: offered_by_def)

lemma offered_folder_unfold:
  "\<not> exclude_match m rel \<Longrightarrow> resolve t dir st = Inr st1 \<Longrightarrow> fi_kind st1 = KDir \<Longrightarrow> tr_ReadDir t dir = Some cs
     \<Longrightarrow> {k. offered t m dir rel st k}
       = insert (EntryDir, rel, dir) (offered_by t m dir (\<lambda>c. rel @ CHR ''/'' # c) (sort cs))"
  unfolding offered_by_def by (subst offered.simps) auto

lemma run_offers:
  "entry_run t m dir rel st s s' \<Longrightarrow>
     \<exists>new. wk_out s' = wk_out s @ new \<and> source_key ` set new = {k. offered t m dir rel st k}"
  "kids_run t m dir rel_of cs s s' \<Longrightarrow>
     \<exists>new. wk_out s' = wk_out s @ new \<and> source_key ` set new = offered_by t m dir rel_of cs"
proof (induction rule: entry_run_kids_run.inducts)
  case (excluded rel dir st s)
  then show ?case by (simp add: offered_unfold)
next
  case (regular rel s dir st st1 src)
  then have "{k. offered t m dir rel st k} = {(EntryFile, rel, dir)}"
    by (simp add: offered_unfold)
  then show ?case by (auto simp: emit_def mark_def source_key_def walk_entry_def)
next
  case (folder rel s dir st st1 cs s')
  have "{k. offered t m dir rel st k} = insert (EntryDir, rel, dir) (offered_by t m dir (\<lambda>c. rel @ CHR ''/'' # c) (sort cs))"
    by (rule offered_folder_unfold) (use folder in auto)
  moreover from folder.IH obtain new where "wk_out s' = wk_out (emit EntryDir dir rel [] st1 (mark rel s)) @ new"
    "source_key ` set new = offered_by t m dir (\<lambda>c. rel @ CHR ''/'' # c) (sort cs)" by blast
  ultimately show ?case
    by (intro exI [of _ "\<lparr>so_Entry = walk_entry EntryDir rel st1, so_AbsPath = dir, so_LinkTarget = []\<rparr> # new"])
      (simp add: emit_def mark_def source_key_def walk_entry_def)
next
  case (special rel s dir st st1)
  then have "{k. offered t m dir rel st k} = {}"
    by (simp add: offered_unfold)
  then show ?case by (auto simp: mark_def)
next
  case (kids_Nil dir rel_of s)
  then show ?case by (simp add: offered_by_def)
next
  case (kids_Cons dir c cst rel_of s s1 cs s2)
  from kids_Cons.IH obtain a b where "wk_out s1 = wk_out s @ a" "source_key ` set a = {k. offered t m (path_join dir c) (rel_of c) cst k}"
    "wk_out s2 = wk_out s1 @ b" "source_key ` set b = offered_by t m dir rel_of cs" by blast
  then show ?case
    by (intro exI [of _ "a @ b"]) (simp add: image_Un offered_by_Cons [OF kids_Cons(1)])
qed

lemma offered_kept: "offered t m dir rel st k \<Longrightarrow> fst k \<in> {EntryFile, EntryDir} \<and> \<not> exclude_match m (fst (snd k))"
  by (induction rule: offered.induct) auto

section \<open>The names of a listing\<close>

abbreviation relp :: "walk_source \<Rightarrow> string" where
  "relp w \<equiv> le_RelativePath (so_Entry w)"

definition name_ok :: "string \<Rightarrow> bool" where
  "name_ok c \<longleftrightarrow> comp_ok c \<and> c \<noteq> ''..''"

text \<open>What \<open>readdir\<close> promises of the names it returns.\<close>

definition tree_names :: "source_tree \<Rightarrow> bool" where
  "tree_names t \<longleftrightarrow> (\<forall>dir cs. tr_ReadDir t dir = Some cs \<longrightarrow> list_all name_ok cs)"

text \<open>A listing where an entry is at the top or stands behind its folder.\<close>

definition at_home :: "string set \<Rightarrow> string \<Rightarrow> bool" where
  "at_home dirs rel \<longleftrightarrow> CHR ''/'' \<notin> set rel \<or> rel = ''/''
     \<or> (\<exists>d \<in> dirs. \<exists>c. CHR ''/'' \<notin> set c \<and> rel = d @ CHR ''/'' # c)"

definition folder_of :: "walk_source \<Rightarrow> string set" where
  "folder_of w = (if le_Type (so_Entry w) = EntryDir then {relp w} else {})"

fun parents_first :: "string set \<Rightarrow> walk_source list \<Rightarrow> bool" where
  "parents_first dirs [] = True"
| "parents_first dirs (w # ws) \<longleftrightarrow> at_home dirs (relp w) \<and> parents_first (folder_of w \<union> dirs) ws"

lemma at_home_mono: "at_home D r \<Longrightarrow> D \<subseteq> E \<Longrightarrow> at_home E r"
  by (auto simp: at_home_def)

lemma parents_first_append:
  "parents_first D (a @ b) \<longleftrightarrow> parents_first D a \<and> parents_first (\<Union> (folder_of ` set a) \<union> D) b"
  by (induction a arbitrary: D) (auto simp: Un_ac)

definition listed :: "(string \<Rightarrow> bool) \<Rightarrow> string set \<Rightarrow> walk_state \<Rightarrow> walk_state \<Rightarrow> bool" where
  "listed P D s s' \<longleftrightarrow> (\<exists>new. wk_out s' = wk_out s @ new \<and> wk_seen s \<subseteq> wk_seen s'
     \<and> distinct (map relp new) \<and> relp ` set new \<subseteq> wk_seen s' - wk_seen s
     \<and> (\<forall>w \<in> set new. P (relp w)) \<and> parents_first D new)"

lemma listed_refl: "listed P D s s"
  by (simp add: listed_def)

lemma listed_mark: "listed P D s (mark rel s)"
  by (auto simp: listed_def mark_def)

lemma listed_trans:
  assumes "listed P D s s1" "\<And>E. D \<subseteq> E \<Longrightarrow> listed P E s1 s2"
  shows "listed P D s s2"
proof -
  from assms(1) obtain a where a: "wk_out s1 = wk_out s @ a" "wk_seen s \<subseteq> wk_seen s1"
    "distinct (map relp a)" "relp ` set a \<subseteq> wk_seen s1 - wk_seen s" "\<forall>w \<in> set a. P (relp w)" "parents_first D a"
    by (auto simp: listed_def)
  from assms(2) [of "\<Union> (folder_of ` set a) \<union> D"] obtain b where
    b: "wk_out s2 = wk_out s1 @ b" "wk_seen s1 \<subseteq> wk_seen s2" "distinct (map relp b)"
    "relp ` set b \<subseteq> wk_seen s2 - wk_seen s1" "\<forall>w \<in> set b. P (relp w)"
    "parents_first (\<Union> (folder_of ` set a) \<union> D) b"
    by (auto simp: listed_def)
  have disj: "relp ` set a \<inter> relp ` set b = {}" using a(4) b(4) by blast
  show ?thesis
    unfolding listed_def
  proof (intro exI [of _ "a @ b"] conjI)
    show "relp ` set (a @ b) \<subseteq> wk_seen s2 - wk_seen s" using a(2,4) b(2,4) by (auto simp: image_Un)
    show "distinct (map relp (a @ b))" using a(3) b(3) disj by simp
  qed (use a b in \<open>auto simp: parents_first_append\<close>)
qed

lemma listed_emit:
  assumes "rel \<notin> wk_seen s" "P rel" "at_home D rel"
  shows "listed P D s (emit ty dir rel src st (mark rel s))"
  unfolding listed_def
  by (intro exI [of _ "[\<lparr>so_Entry = walk_entry ty rel st, so_AbsPath = dir, so_LinkTarget = src\<rparr>]"])
    (use assms in \<open>auto simp: emit_def mark_def walk_entry_def\<close>)

lemma listed_folder:
  assumes "rel \<notin> wk_seen s" "P rel" "at_home D rel"
    and "listed P (insert rel D) (emit EntryDir dir rel src st (mark rel s)) s'"
  shows "listed P D s s'"
proof -
  let ?w = "\<lparr>so_Entry = walk_entry EntryDir rel st, so_AbsPath = dir, so_LinkTarget = src\<rparr>"
  from assms(4) obtain new where "wk_out s' = (wk_out s @ [?w]) @ new" "insert rel (wk_seen s) \<subseteq> wk_seen s'"
    "distinct (map relp new)" "relp ` set new \<subseteq> wk_seen s' - insert rel (wk_seen s)"
    "\<forall>w \<in> set new. P (relp w)" "parents_first (insert rel D) new"
    by (auto simp: listed_def emit_def mark_def)
  then show ?thesis
    unfolding listed_def using assms(1-3)
    by (intro exI [of _ "?w # new"]) (auto simp: walk_entry_def folder_of_def)
qed

text \<open>\<open>P\<close> is any property of paths inside the transfer that goes down from a folder to its entries.\<close>

lemma run_listed:
  assumes names: "tree_names t" and down: "\<And>r c. P r \<Longrightarrow> name_ok c \<Longrightarrow> P (r @ CHR ''/'' # c)"
  shows "entry_run t m dir rel st s s' \<Longrightarrow> P rel \<Longrightarrow> at_home D rel \<Longrightarrow> listed P D s s'"
    and "kids_run t m dir rel_of cs s s' \<Longrightarrow> \<forall>c \<in> set cs. P (rel_of c) \<and> at_home D (rel_of c) \<Longrightarrow> listed P D s s'"
proof (induction arbitrary: D and D rule: entry_run_kids_run.inducts)
  case (folder rel s dir st st1 cs s')
  have cs: "list_all name_ok cs" using folder names by (auto simp: tree_names_def)
  have "listed P (insert rel D) (emit EntryDir dir rel [] st1 (mark rel s)) s'"
    using cs down [OF folder.prems(1)]
    by (intro folder.IH) (auto simp: list_all_iff at_home_def name_ok_def comp_ok_def)
  then show ?case using folder by (intro listed_folder [of rel s P D dir "[]" st1 s']) auto
next
  case (kids_Cons dir c cst rel_of s s1 cs s2)
  then have "listed P D s s1" by simp
  moreover have "listed P E s1 s2" if "D \<subseteq> E" for E
    using kids_Cons that by (meson at_home_mono list.set_intros(2))
  ultimately show ?case by (rule listed_trans)
qed (auto intro: listed_refl listed_emit listed_mark)

text \<open>What a path inside the transfer looks like: components, or anything below a root of the file system.\<close>

definition transfer_name :: "string \<Rightarrow> bool" where
  "transfer_name r \<longleftrightarrow> (\<exists>cs. cs \<noteq> [] \<and> list_all name_ok cs \<and> r = join_with (CHR ''/'') cs) \<or> has_prefix ''/'' r"

lemma transfer_name_down: "transfer_name r \<Longrightarrow> name_ok c \<Longrightarrow> transfer_name (r @ CHR ''/'' # c)"
proof -
  assume r: "transfer_name r" and c: "name_ok c"
  show ?thesis
  proof (cases "has_prefix ''/'' r")
    case True
    then show ?thesis by (cases r) (auto simp: transfer_name_def has_prefix_def)
  next
    case False
    with r obtain cs where cs: "cs \<noteq> []" "list_all name_ok cs" "r = join_with (CHR ''/'') cs"
      by (auto simp: transfer_name_def)
    then show ?thesis
      unfolding transfer_name_def using c by (intro disjI1 exI [of _ "cs @ [c]"]) (simp add: join_with_snoc)
  qed
qed

lemma transfer_name_single: "name_ok c \<Longrightarrow> transfer_name c" "name_ok c \<Longrightarrow> CHR ''/'' \<notin> set c"
proof -
  assume c: "name_ok c"
  then show "transfer_name c"
    unfolding transfer_name_def by (intro disjI1 exI [of _ "[c]"]) simp
  show "CHR ''/'' \<notin> set c" using c by (simp add: name_ok_def comp_ok_def)
qed

lemma run_transfer_names:
  assumes "tree_names t"
  shows "entry_run t m dir rel st s s' \<Longrightarrow> transfer_name rel \<Longrightarrow> at_home D rel \<Longrightarrow> listed transfer_name D s s'"
    and "kids_run t m dir rel_of cs s s' \<Longrightarrow> \<forall>c \<in> set cs. transfer_name (rel_of c) \<and> at_home D (rel_of c)
      \<Longrightarrow> listed transfer_name D s s'"
  using run_listed [of t transfer_name] assms transfer_name_down by blast+

lemma path_base_rooted:
  assumes "normal_comps True cs"
  shows "path_base (path_of True cs) = (if cs = [] then ''/'' else last cs)"
proof (cases cs rule: rev_cases)
  case Nil
  then show ?thesis by (simp add: path_base_def path_of_def)
next
  case (snoc xs c)
  have c: "CHR ''/'' \<notin> set c" "c \<noteq> []" using assms snoc by (auto simp: normal_comps_def comp_ok_def)
  have p: "path_of True cs = (if xs = [] then [] else path_of True xs) @ CHR ''/'' # c"
    using snoc by (simp add: path_of_snoc) (simp add: path_of_def)
  have "dropWhile (\<lambda>x. x = CHR ''/'') (rev (path_of True cs)) = rev (path_of True cs)"
    using c by (cases c rule: rev_cases) (auto simp: p)
  moreover have "snd (path_split (path_of True cs)) = c" "path_of True cs \<noteq> []"
    by (simp_all only: p path_split_cut [OF c(1)]) auto
  ultimately show ?thesis
    using snoc by (simp add: path_base_def)
qed

definition tree_ok :: "source_tree \<Rightarrow> bool" where
  "tree_ok t \<longleftrightarrow> tree_names t \<and> (\<forall>wd. tr_cwd t = Some wd \<longrightarrow> is_abs wd)"

lemma is_abs_Nil: "\<not> is_abs []"
  by (simp add: is_abs_def has_prefix_def)

lemma root_name:
  assumes "abs_of t raw = Some dir" "tree_ok t"
  shows "transfer_name (path_base dir)" "at_home D (path_base dir)"
proof -
  obtain p where p: "dir = path_clean p" "is_abs p"
    using assms
    by (auto simp: abs_of_def tree_ok_def path_join_def is_abs_append is_abs_Nil split: if_splits option.splits)
  have n: "normal_comps True (path_comps p)" using path_comps_normal [of p] p by simp
  then have b: "path_base dir = (if path_comps p = [] then ''/'' else last (path_comps p))"
    using path_base_rooted [OF n] p by (simp add: path_clean_def)
  have "path_comps p \<noteq> [] \<Longrightarrow> name_ok (last (path_comps p))"
    using n last_in_set [of "path_comps p"] by (metis list_all_iff name_ok_def normal_rooted)
  then show "transfer_name (path_base dir)" "at_home D (path_base dir)"
    using transfer_name_single [of "last (path_comps p)"]
    by (auto simp: b at_home_def transfer_name_def [of "''/''"] has_prefix_def)
qed

text \<open>What one argument of a successful walk contributed.\<close>

lemma map_sum_Inr: "map_sum id g x = Inr y \<longleftrightarrow> (\<exists>z. x = Inr z \<and> y = g z)"
  by (cases x) auto

lemma walk_arg_cases:
  assumes "walk_arg n t m raw roots s = Some (Inr (rs, s1))"
  obtains (contents) dir st cs where "abs_of t raw = Some dir" "tr_Lstat t dir = Inr st"
      "IsContentsRef raw \<and> fi_kind st = KDir" "tr_ReadDir t dir = Some cs"
      "kids_run t m dir (\<lambda>c. c) (sort cs) s s1"
  | (named) dir st where "abs_of t raw = Some dir" "tr_Lstat t dir = Inr st"
      "\<not> (IsContentsRef raw \<and> fi_kind st = KDir)" "entry_run t m dir (path_base dir) st s s1"
proof -
  from assms obtain dir st where dir: "abs_of t raw = Some dir" and st: "tr_Lstat t dir = Inr st"
    by (auto simp: walk_arg_def split: option.splits sum.splits)
  show thesis
  proof (cases "IsContentsRef raw \<and> fi_kind st = KDir")
    case True
    with assms dir st obtain cs where cs: "tr_ReadDir t dir = Some cs"
      "add_children (addEntry n t m [] []) t dir (\<lambda>c. c) (sort cs) s = Some (Inr s1)"
      by (auto simp: walk_arg_def map_sum_Inr split: option.splits)
    have "kids_run t m dir (\<lambda>c. c) (sort cs) s s1"
      by (intro add_children_run [where add = "addEntry n t m [] []", OF _ cs(2)] addEntry_run)
    with dir st True cs(1) show thesis by (rule contents)
  next
    case False
    with assms dir st have "addEntry n t m [] [] dir (path_base dir) st s = Some (Inr s1)"
      by (auto simp: walk_arg_def Let_def map_sum_Inr split: if_splits)
    with dir st False show thesis by (intro named addEntry_run)
  qed
qed

lemma walk_args_Cons:
  assumes "walk_args n t m (raw # raws) roots s = Some (Inr s')"
  obtains rs s1 where "walk_arg n t m raw roots s = Some (Inr (rs, s1))" "walk_args n t m raws rs s1 = Some (Inr s')"
  using assms by (auto split: option.splits sum.splits prod.splits)

lemma walk_args_listed:
  assumes "tree_ok t" "walk_args n t m raws roots s = Some (Inr s')"
  shows "listed transfer_name D s s'"
  using assms(2)
proof (induction raws arbitrary: roots s D)
  case (Cons raw raws)
  have names: "tree_names t" using assms(1) by (simp add: tree_ok_def)
  note run = run_transfer_names [OF names]
  from Cons.prems obtain rs s1 where arg: "walk_arg n t m raw roots s = Some (Inr (rs, s1))"
    and rest: "walk_args n t m raws rs s1 = Some (Inr s')" by (rule walk_args_Cons)
  from arg have "listed transfer_name D s s1"
  proof (cases rule: walk_arg_cases)
    case (contents dir st cs)
    have "list_all name_ok cs" using names contents(4) by (auto simp: tree_names_def)
    then have "\<forall>c \<in> set (sort cs). transfer_name c \<and> at_home D c"
      using transfer_name_single by (auto simp: list_all_iff at_home_def)
    with run(2) contents(5) show ?thesis by blast
  next
    case (named dir st)
    show ?thesis by (rule run(1) [OF named(4)]) (auto intro: root_name [OF named(1) assms(1)])
  qed
  then show ?case using Cons.IH [OF rest] by (rule listed_trans)
qed (simp add: listed_refl)

lemma index_sources_simps:
  "length (index_sources out) = length out" "map relp (index_sources out) = map relp out"
  "i < length out \<Longrightarrow> so_Entry (index_sources out ! i) = so_Entry (out ! i)\<lparr>le_Index := of_nat i\<rparr>"
  by (simp_all add: index_sources_def nth_enumerate_eq list_eq_iff_nth_eq)

lemma source_key_index: "source_key ` set (index_sources out) = source_key ` set out"
proof -
  have "map source_key (index_sources out) = map source_key out"
    by (simp add: index_sources_def source_key_def list_eq_iff_nth_eq nth_enumerate_eq)
  then show ?thesis by (metis list.set_map)
qed

lemma parents_first_cong:
  "map (\<lambda>w. (relp w, le_Type (so_Entry w))) a = map (\<lambda>w. (relp w, le_Type (so_Entry w))) b
     \<Longrightarrow> parents_first D a = parents_first D b"
proof (induction a arbitrary: b D)
  case (Cons x a)
  then obtain y c where b: "b = y # c" by (cases b) simp_all
  with Cons.prems have xy: "relp x = relp y" "folder_of x = folder_of y" by (simp_all add: folder_of_def)
  have "parents_first E a = parents_first E c" for E using Cons.IH Cons.prems b by simp
  then show ?case by (simp add: b xy)
qed simp

lemma validate_indexed:
  "(\<And>i. i < length es \<Longrightarrow> le_Index (es ! i) = of_nat (k + i)) \<Longrightarrow> validate_from k es = None"
proof (induction es arbitrary: k)
  case (Cons e es)
  have "le_Index (es ! i) = of_nat (Suc k + i)" if "i < length es" for i
    using Cons.prems [of "Suc i"] that by simp
  with Cons.IH [of "Suc k"] Cons.prems [of 0] show ?case by simp
qed simp

lemma sanitize_transfer_name:
  assumes "transfer_name r" "\<not> has_prefix ''/'' r" "\<not> has_prefix [CHR 0x5C] r" "\<not> drive_letter r"
  shows "sanitizeRelativePath upper r ''linux'' = Some r"
proof -
  obtain cs where cs: "cs \<noteq> []" "list_all name_ok cs" "r = join_with (CHR ''/'') cs"
    using assms(1,2) by (auto simp: transfer_name_def)
  have n: "normal_comps False cs" and r: "r = path_of False cs" and up: "''..'' \<notin> set cs"
    using cs by (auto simp: normal_comps_def list_all_iff name_ok_def path_of_def dest: set_dropWhileD)
  have "path_clean r = r"
    using path_comps_of [OF n] is_abs_path_of [OF n] by (simp add: path_clean_def r)
  moreover have split: "split_on (CHR ''/'') r = cs" using path_of_split [OF n] cs(1) by (simp add: r)
  moreover have "r \<noteq> []"
  proof
    assume "r = []"
    with split have "[] \<in> set cs" by auto
    with cs(2) show False by (auto simp: list_all_iff name_ok_def comp_ok_def)
  qed
  moreover have "\<not> is_abs r" "\<not> has_prefix ''//'' r" "\<not> has_prefix [CHR 0x5C, CHR 0x5C] r"
    using assms(2,3) by (cases r; auto simp: is_abs_def has_prefix_def)+
  ultimately show ?thesis
    using assms(2-4) up by (simp add: sanitizeRelativePath_def)
qed


section \<open>What the arguments stand for\<close>

definition arg_offers :: "source_tree \<Rightarrow> string list \<Rightarrow> string \<Rightarrow> (EntryType \<times> string \<times> string) set" where
  "arg_offers t m raw =
     (case abs_of t raw of
        None \<Rightarrow> {}
      | Some dir \<Rightarrow>
        (case tr_Lstat t dir of
           Inl _ \<Rightarrow> {}
         | Inr st \<Rightarrow>
           if IsContentsRef raw \<and> fi_kind st = KDir
           then (case tr_ReadDir t dir of None \<Rightarrow> {} | Some cs \<Rightarrow> offered_by t m dir (\<lambda>c. c) cs)
           else {k. offered t m dir (path_base dir) st k}))"

lemma walk_args_offers:
  "walk_args n t m raws roots s = Some (Inr s') \<Longrightarrow>
   \<exists>new. wk_out s' = wk_out s @ new \<and> source_key ` set new = (\<Union>raw \<in> set raws. arg_offers t m raw)"
proof (induction raws arbitrary: roots s)
  case (Cons raw raws)
  from Cons.prems obtain rs s1 where arg: "walk_arg n t m raw roots s = Some (Inr (rs, s1))"
    and rest: "walk_args n t m raws rs s1 = Some (Inr s')" by (rule walk_args_Cons)
  from arg have "\<exists>a. wk_out s1 = wk_out s @ a \<and> source_key ` set a = arg_offers t m raw"
  proof (cases rule: walk_arg_cases)
    case (contents dir st cs)
    have "arg_offers t m raw = offered_by t m dir (\<lambda>c. c) (sort cs)"
      by (simp add: arg_offers_def offered_by_def contents(1-4))
    with run_offers(2) [OF contents(5)] show ?thesis by simp
  next
    case (named dir st)
    have "arg_offers t m raw = {k. offered t m dir (path_base dir) st k}"
      by (simp only: arg_offers_def named(1-3) option.case sum.case if_False)
    with run_offers(1) [OF named(4)] show ?thesis by simp
  qed
  then obtain a where a: "wk_out s1 = wk_out s @ a" "source_key ` set a = arg_offers t m raw" by blast
  from Cons.IH [OF rest] obtain b where "wk_out s' = wk_out s1 @ b"
    "source_key ` set b = (\<Union>raw \<in> set raws. arg_offers t m raw)" by blast
  with a show ?case by (intro exI [of _ "a @ b"]) (simp add: image_Un)
qed simp

lemma Walk_SomeD:
  assumes "Walk n t paths excludes = Some (Inr out)"
  obtains m s where "newExcludeMatcher excludes = Inr m" "out = index_sources (wk_out s)"
    "walk_args n t m paths {} \<lparr>wk_out = [], wk_seen = {}\<rparr> = Some (Inr s)"
proof -
  show thesis using assms that by (auto simp: Walk_def map_sum_Inr split: if_splits sum.splits)
qed

lemma arg_offers_kept:
  assumes "k \<in> arg_offers t m raw"
  shows "fst k \<in> {EntryFile, EntryDir} \<and> \<not> exclude_match m (fst (snd k))"
proof -
  from assms obtain dir rel st where "offered t m dir rel st k"
    by (auto simp: arg_offers_def offered_by_def split: option.splits sum.splits if_splits)
  then show ?thesis by (rule offered_kept)
qed

text \<open>
  C32. What is listed is what the arguments offer. When \<open>Walk\<close> succeeds, the files and folders of the
  listing are exactly those reached from the arguments by opening folders and following links,
  without the excluded subtrees, each under the path it has inside the transfer and read from the
  path it has on the sender; only plain files and folders are listed and none of them is excluded.
\<close>

theorem walk_lists_tree:
  assumes "Walk n t paths excludes = Some (Inr out)"
  shows "\<exists>m. newExcludeMatcher excludes = Inr m
    \<and> source_key ` set out = (\<Union>raw \<in> set paths. arg_offers t m raw)
    \<and> (\<forall>w \<in> set out. le_Type (so_Entry w) \<in> {EntryFile, EntryDir} \<and> \<not> exclude_match m (le_RelativePath (so_Entry w)))"
proof -
  from assms obtain m s where m: "newExcludeMatcher excludes = Inr m" and out: "out = index_sources (wk_out s)"
    and run: "walk_args n t m paths {} \<lparr>wk_out = [], wk_seen = {}\<rparr> = Some (Inr s)" by (rule Walk_SomeD)
  from walk_args_offers [OF run] have keys: "source_key ` set out = (\<Union>raw \<in> set paths. arg_offers t m raw)"
    by (auto simp: out source_key_index)
  with arg_offers_kept have "\<forall>w \<in> set out. fst (source_key w) \<in> {EntryFile, EntryDir} \<and> \<not> exclude_match m (fst (snd (source_key w)))"
    by (metis (no_types, lifting) UN_iff imageI)
  with m keys show ?thesis by (auto simp: source_key_def)
qed


text \<open>
  C33. What is listed can be received. On a tree whose folders hold proper file names, the sources
  of a walk that succeeds have indices the receiver's check accepts and pairwise distinct paths; a path
  is a single name or stands behind the folder it is in, which is listed as one; and the receiver on a
  Unix host accepts every path as it is, but for the names its rules refuse: a transfer of the root
  folder itself, and names that start like a backslash or drive-letter path.
\<close>

theorem walk_acceptable:
  assumes "tree_ok t" and "Walk n t paths excludes = Some (Inr out)"
  shows "validateListing (map so_Entry out) = None
    \<and> distinct (map (\<lambda>w. le_RelativePath (so_Entry w)) out)
    \<and> parents_first {} out
    \<and> (\<forall>w \<in> set out. let r = le_RelativePath (so_Entry w) in
         sanitizeRelativePath upper r ''linux'' = Some r
         \<or> has_prefix ''/'' r \<or> has_prefix [CHR 0x5C] r \<or> drive_letter r)"
proof -
  from assms(2) obtain m s where out: "out = index_sources (wk_out s)"
    and run: "walk_args n t m paths {} \<lparr>wk_out = [], wk_seen = {}\<rparr> = Some (Inr s)" by (rule Walk_SomeD)
  from walk_args_listed [OF assms(1) run, of "{}"]
  have new: "distinct (map relp (wk_out s))" "\<forall>w \<in> set (wk_out s). transfer_name (relp w)" "parents_first {} (wk_out s)"
    by (auto simp: listed_def)
  have "validateListing (map so_Entry out) = None"
    unfolding validateListing_def by (rule validate_indexed) (simp add: out index_sources_simps)
  moreover have "distinct (map relp out)" using new(1) by (simp add: out index_sources_simps)
  moreover have "parents_first {} out"
    using new(3) by (subst parents_first_cong [of _ "wk_out s"]) (simp_all add: out index_sources_def list_eq_iff_nth_eq nth_enumerate_eq)
  moreover have name: "transfer_name (relp w)" if "w \<in> set out" for w
  proof -
    have "relp w \<in> set (map relp (index_sources (wk_out s)))" using that out by auto
    then show ?thesis using new(2) by (auto simp only: index_sources_simps(2) set_map)
  qed
  moreover have "\<forall>w \<in> set out. let r = relp w in sanitizeRelativePath upper r ''linux'' = Some r
      \<or> has_prefix ''/'' r \<or> has_prefix [CHR 0x5C] r \<or> drive_letter r"
    unfolding Let_def using sanitize_transfer_name [OF name] by blast
  ultimately show ?thesis by blast
qed

section \<open>The walk ends\<close>

lemma add_children_returns:
  assumes "\<And>c cst s. c \<in> set cs \<Longrightarrow> tr_Lstat t (path_join dir c) = Inr cst
      \<Longrightarrow> add (path_join dir c) (rel_of c) cst s \<noteq> None"
  shows "add_children add t dir rel_of cs s \<noteq> None"
  using assms
proof (induction cs arbitrary: s)
  case (Cons c cs)
  have rest: "add_children add t dir rel_of cs s1 \<noteq> None" for s1 using Cons by simp
  have "tr_Lstat t (path_join dir c) = Inr cst \<Longrightarrow> add (path_join dir c) (rel_of c) cst s \<noteq> None" for cst
    using Cons.prems by simp
  with rest show ?case
    by (cases "tr_Lstat t (path_join dir c)") (auto simp: Let_def split: sum.split)
qed simp

text \<open>
  A tree that is finite and has no cycles but for links: \<open>F\<close> holds the identities of its folders, and a
  folder is higher than the folders in it, by at most \<open>B\<close>. Where a link leads can be read.
\<close>

definition finite_tree :: "source_tree \<Rightarrow> nat set \<Rightarrow> (nat \<Rightarrow> nat) \<Rightarrow> nat \<Rightarrow> bool" where
  "finite_tree t F height B \<longleftrightarrow> finite F \<and> (\<forall>i \<in> F. height i \<le> B) \<and>
     (\<forall>dir st st1. tr_Lstat t dir = Inr st \<and> resolve t dir st = Inr st1 \<and> fi_kind st1 = KDir \<longrightarrow>
        fi_ident st1 \<in> F
        \<and> (fi_kind st = KSymlink \<longrightarrow> (\<exists>x. tr_Readlink t dir = Some x \<and> x \<noteq> []))
        \<and> (\<forall>cs c cst. tr_ReadDir t dir = Some cs \<and> c \<in> set cs \<and> tr_Lstat t (path_join dir c) = Inr cst
             \<and> fi_kind cst = KDir \<longrightarrow> height (fi_ident cst) < height (fi_ident st1)))"

definition fuel_for :: "nat set \<Rightarrow> (nat \<Rightarrow> nat) \<Rightarrow> nat \<Rightarrow> file_info list \<Rightarrow> file_info \<Rightarrow> nat" where
  "fuel_for F height B stack st =
     card (F - fi_ident ` set stack) * (B + 2) + (if fi_kind st = KDir then height (fi_ident st) + 1 else 0) + 1"

lemma fuel_step:
  assumes t: "finite_tree t F height B" and dir: "tr_Lstat t dir = Inr st" "resolve t dir st = Inr st1" "fi_kind st1 = KDir"
    and new: "fi_kind st = KSymlink \<Longrightarrow> fi_ident st1 \<notin> fi_ident ` set stack"
    and child: "tr_ReadDir t dir = Some cs" "c \<in> set cs" "tr_Lstat t (path_join dir c) = Inr cst"
  shows "fuel_for F height B (stack @ [st1]) cst < fuel_for F height B stack st"
proof -
  from t dir have F: "fi_ident st1 \<in> F" "finite F" "height (fi_ident st1) \<le> B"
    and h: "fi_kind cst = KDir \<Longrightarrow> height (fi_ident cst) < height (fi_ident st1)"
    using child unfolding finite_tree_def by blast+
  let ?S = "F - fi_ident ` set stack" and ?S' = "F - fi_ident ` set (stack @ [st1])"
  have le: "card ?S' \<le> card ?S" using F(2) by (intro card_mono) auto
  show ?thesis
  proof (cases "fi_kind st = KSymlink")
    case True
    then have "?S' \<subset> ?S" using new F(1) by auto
    then have "card ?S' < card ?S" using F(2) by (intro psubset_card_mono) auto
    then have "card ?S' * (B + 2) + (B + 2) \<le> card ?S * (B + 2)"
      by (metis Suc_leI add.commute mult_Suc mult_le_mono1)
    with h F(3) True show ?thesis by (auto simp: fuel_for_def)
  next
    case False
    then have "st1 = st" using dir by (simp add: resolve_def)
    with mult_le_mono1 [OF le, of "B + 2"] h dir(3) show ?thesis by (auto simp: fuel_for_def)
  qed
qed

lemma addEntry_returns:
  assumes "finite_tree t F height B" "fuel_for F height B stack st \<le> n" "tr_Lstat t dir = Inr st"
  shows "addEntry n t m stack pre dir rel st s \<noteq> None"
  using assms(2,3)
proof (induction n arbitrary: stack pre dir rel st s)
  case 0
  then show ?case by (simp add: fuel_for_def)
next
  case (Suc n)
  have "add_resolved (addEntry n t m) t stack pre link dir rel st1 s1 \<noteq> None"
    if r: "resolve t dir st = Inr st1" and link: "fi_kind st = KSymlink \<Longrightarrow> fi_kind st1 = KDir \<Longrightarrow> link \<noteq> []" for st1 s1 link
  proof (cases "fi_kind st1 = KDir")
    case True
    have "addEntry n t m (stack @ [st1]) p (path_join dir c) r cst s2 \<noteq> None"
      if "\<not> (link \<noteq> [] \<and> list_ex (\<lambda>anc. fi_ident st1 = fi_ident anc) stack)"
        "tr_ReadDir t dir = Some cs" "c \<in> set cs" "tr_Lstat t (path_join dir c) = Inr cst" for p c r cst s2 cs
    proof (rule Suc.IH [OF _ that(4)])
      have "fuel_for F height B (stack @ [st1]) cst < fuel_for F height B stack st"
        by (rule fuel_step [OF assms(1) Suc.prems(2) r True _ that(2-4)]) (use that(1) link True in \<open>auto simp: list_ex_iff\<close>)
      with Suc.prems(1) show "fuel_for F height B (stack @ [st1]) cst \<le> n" by simp
    qed
    with True show ?thesis
      by (auto simp: add_resolved_def Let_def split: option.splits intro!: add_children_returns [THEN not_None_eq [THEN iffD1]])
  next
    case False
    then show ?thesis by (cases "fi_kind st1") (auto simp: add_resolved_def)
  qed
  note res = this
  have "\<exists>x. tr_Readlink t dir = Some x \<and> x \<noteq> []" if "fi_kind st = KSymlink" "tr_Stat t dir = Inr st1" "fi_kind st1 = KDir" for st1
    using assms(1) Suc.prems(2) that unfolding finite_tree_def resolve_def by metis
  then have "add_resolved (addEntry n t m) t stack pre (case tr_Readlink t dir of None \<Rightarrow> [] | Some x \<Rightarrow> x) dir rel st1 s1 \<noteq> None"
    if "fi_kind st = KSymlink" "tr_Stat t dir = Inr st1" for st1 s1
    using that by (intro res) (auto simp: resolve_def)
  moreover have "add_resolved (addEntry n t m) t stack pre [] dir rel st s1 \<noteq> None" if "fi_kind st \<noteq> KSymlink" for s1
    using that by (intro res) (auto simp: resolve_def)
  ultimately show ?case by (simp add: Let_def split: sum.splits)
qed

text \<open>More fuel does not change a result.\<close>

lemma add_children_mono:
  assumes "\<And>dir rel st s r. add dir rel st s = Some r \<Longrightarrow> add' dir rel st s = Some r"
    and "add_children add t dir rel_of cs s = Some r"
  shows "add_children add' t dir rel_of cs s = Some r"
  using assms(2)
proof (induction cs arbitrary: s)
  case (Cons c cs)
  show ?case
  proof (cases "tr_Lstat t (path_join dir c)")
    case (Inr cst)
    with Cons.prems obtain x where x: "add (path_join dir c) (rel_of c) cst s = Some x"
      by (auto simp: Let_def split: option.splits)
    with Cons Inr assms(1) [OF x] show ?thesis by (cases x) (auto simp: Let_def)
  qed (use Cons.prems in \<open>simp add: Let_def\<close>)
qed simp

lemma add_resolved_mono:
  assumes "\<And>stack pre dir rel st s r. add stack pre dir rel st s = Some r \<Longrightarrow> add' stack pre dir rel st s = Some r"
    and "add_resolved add t stack pre link dir rel st s = Some r"
  shows "add_resolved add' t stack pre link dir rel st s = Some r"
proof (cases "fi_kind st = KDir")
  case True
  let ?p = "entry_origin link pre rel"
  have kids: "add_children (add (stack @ [st]) ?p) t d f cs s1 = Some r
      \<Longrightarrow> add_children (add' (stack @ [st]) ?p) t d f cs s1 = Some r" for d f cs s1
    by (rule add_children_mono [of "add (stack @ [st]) ?p"]) (rule assms(1))
  from True show ?thesis
    using assms(2) kids by (cases "tr_ReadDir t dir") (auto simp: add_resolved_def Let_def split: if_splits)
next
  case False
  then show ?thesis using assms(2) by (cases "fi_kind st") (simp_all add: add_resolved_def)
qed

lemma addEntry_mono:
  "addEntry n t m stack pre dir rel st s = Some r \<Longrightarrow> n \<le> k \<Longrightarrow> addEntry k t m stack pre dir rel st s = Some r"
proof (induction n arbitrary: k stack pre dir rel st s r)
  case (Suc n)
  then obtain k' where k: "k = Suc k'" "n \<le> k'" by (cases k) auto
  have mono: "add_resolved (addEntry n t m) t stack pre link dir rel st1 s1 = Some r
      \<Longrightarrow> add_resolved (addEntry k' t m) t stack pre link dir rel st1 s1 = Some r" for link st1 s1
    by (rule add_resolved_mono [of "addEntry n t m"]) (rule Suc.IH [OF _ k(2)])
  show ?case
    using Suc.prems(1) unfolding k(1) addEntry.simps Let_def
    by (auto split: if_splits sum.splits intro: mono)
qed simp

lemma walk_arg_mono:
  assumes "n \<le> k" "walk_arg n t m raw roots s = Some r"
  shows "walk_arg k t m raw roots s = Some r"
proof -
  have entry: "addEntry n t m [] [] dir rel st s1 = Some x \<Longrightarrow> addEntry k t m [] [] dir rel st s1 = Some x" for dir rel st s1 x
    using addEntry_mono [OF _ assms(1)] .
  have kids: "add_children (addEntry n t m [] []) t dir f cs s1 = Some x
      \<Longrightarrow> add_children (addEntry k t m [] []) t dir f cs s1 = Some x" for dir f cs s1 x
    by (rule add_children_mono [of "addEntry n t m [] []"]) (rule entry)
  obtain dir where dir: "abs_of t raw = Some dir \<or> abs_of t raw = None" by (cases "abs_of t raw") auto
  show ?thesis
  proof (cases "tr_Lstat t dir")
    case Inl
    then show ?thesis using assms(2) dir by (auto simp: walk_arg_def)
  next
    case (Inr st)
    show ?thesis
      using assms(2) dir Inr
      by (cases "tr_ReadDir t dir")
        (auto simp: walk_arg_def Let_def split: if_splits dest!: entry kids)
  qed
qed

lemma walk_args_mono:
  "n \<le> k \<Longrightarrow> walk_args n t m raws roots s = Some r \<Longrightarrow> walk_args k t m raws roots s = Some r"
proof (induction raws arbitrary: roots s)
  case (Cons raw raws)
  from Cons.prems(2) obtain x where x: "walk_arg n t m raw roots s = Some x" by (auto split: option.splits)
  from Cons.prems(2) x walk_arg_mono [OF Cons.prems(1) x] Cons.IH [OF Cons.prems(1)] show ?case
    by (auto split: sum.splits)
qed simp

lemma walk_args_returns:
  assumes t: "finite_tree t F height B" and n: "card F * (B + 2) + B + 2 \<le> n"
  shows "walk_args n t m raws roots s \<noteq> None"
proof (induction raws arbitrary: roots s)
  case (Cons raw raws)
  have "fuel_for F height B [] st \<le> n" if "tr_Lstat t dir = Inr st" for dir st
  proof -
    have "fi_kind st = KDir \<Longrightarrow> height (fi_ident st) \<le> B"
      using t that unfolding finite_tree_def resolve_def by (metis file_kind.distinct(3))
    then show ?thesis using n by (auto simp: fuel_for_def)
  qed
  then have entry: "tr_Lstat t dir = Inr st \<Longrightarrow> addEntry n t m [] [] dir rel st s \<noteq> None" for dir st rel s
    using addEntry_returns [OF t] by blast
  then have kids: "add_children (addEntry n t m [] []) t dir (\<lambda>c. c) cs s \<noteq> None" for dir cs s
    by (intro add_children_returns)
  have "walk_arg n t m raw roots s \<noteq> None"
    unfolding walk_arg_def using entry kids by (simp add: Let_def split: option.split sum.split)
  then obtain x where "walk_arg n t m raw roots s = Some x" by blast
  with Cons.IH show ?case by (simp split: sum.split prod.split)
qed simp

text \<open>
  C34. Walking ends. On a tree with finitely many folders, of bounded height, in which only links
  can lead back up and every link to a folder can be read, \<open>Walk\<close> returns: a link into the folders
  being walked is an error, so a path follows at most one link for each folder. With the fuel named
  here it has its answer, and more fuel does not change it.
\<close>

theorem walk_returns:
  assumes "finite_tree t F height B"
  shows "\<exists>r. \<forall>n \<ge> card F * (B + 2) + B + 2. Walk n t paths excludes = Some r"
proof -
  let ?n = "card F * (B + 2) + B + 2"
  have "\<exists>r. Walk ?n t paths excludes = Some r"
    using walk_args_returns [OF assms order_refl] by (auto simp: Walk_def split: sum.split)
  then obtain r where r: "Walk ?n t paths excludes = Some r" by blast
  have "Walk n t paths excludes = Some r" if "?n \<le> n" for n
    using r walk_args_mono [OF that] by (auto simp: Walk_def split: sum.splits if_splits)
  then show ?thesis by blast
qed

section \<open>A concrete tree\<close>

text \<open>
  A folder \<open>/r\<close> with a file, a log file, and two links: \<open>up\<close> leads back to \<open>/r\<close> where the walk may
  find it, \<open>to\<close> to a file elsewhere. \<open>looped\<close> says whether \<open>up\<close> is there.
\<close>

definition sample_info :: "file_kind \<Rightarrow> nat \<Rightarrow> file_info" where
  "sample_info k i = \<lparr>fi_kind = k, fi_perm = 420, fi_mtime = 7, fi_size = 5, fi_ident = i\<rparr>"

definition sample_tree :: "bool \<Rightarrow> source_tree" where
  "sample_tree looped = \<lparr>tr_cwd = Some ''/'',
     tr_Lstat = (\<lambda>p. if p = ''/r'' then Inr (sample_info KDir 1)
        else if p = ''/r/a'' then Inr (sample_info KRegular 2)
        else if p = ''/r/b.log'' then Inr (sample_info KRegular 3)
        else if p = ''/r/to'' \<or> looped \<and> p = ''/r/up'' then Inr (sample_info KSymlink 4)
        else Inl OsNotExist),
     tr_Stat = (\<lambda>p. if p = ''/r/to'' then Inr (sample_info KRegular 5)
        else if p = ''/r/up'' then Inr (sample_info KDir 1) else Inl OsNotExist),
     tr_Readlink = (\<lambda>p. if p = ''/r/to'' then Some ''/e'' else if p = ''/r/up'' then Some ''.'' else None),
     tr_ReadDir = (\<lambda>p. if p = ''/r'' then Some ([''to'', ''b.log'', ''a''] @ (if looped then [''up''] else []))
        else None),
     tr_Open = (\<lambda>_. True)\<rparr>"

definition sample_listing :: "walk_source list" where
  "sample_listing =
     [\<lparr>so_Entry = (walk_entry EntryDir ''r'' (sample_info KDir 1)), so_AbsPath = ''/r'', so_LinkTarget = []\<rparr>,
      \<lparr>so_Entry = (walk_entry EntryFile ''r/a'' (sample_info KRegular 2))\<lparr>le_Index := 1\<rparr>, so_AbsPath = ''/r/a'', so_LinkTarget = []\<rparr>,
      \<lparr>so_Entry = (walk_entry EntryFile ''r/to'' (sample_info KRegular 5))\<lparr>le_Index := 2\<rparr>, so_AbsPath = ''/r/to'', so_LinkTarget = ''/e''\<rparr>]"

lemma sample_excludes: "newExcludeMatcher [''*.log''] = Inr [''*.log'']"
proof -
  have "TrimSpace ''*.log'' = ''*.log''" by (rule TrimSpace_id) (auto simp: ascii_def is_space_def)
  moreover have "Match ''*.log'' [] = Some False" by code_simp
  ultimately show ?thesis by (simp add: newExcludeMatcher_def)
qed

lemma sample_walk: "Walk 4 (sample_tree False) [''r''] [''*.log''] = Some (Inr sample_listing)"
proof -
  have "map_option (map_sum id (\<lambda>s. index_sources (wk_out s)))
      (walk_args 4 (sample_tree False) [''*.log''] [''r''] {} \<lparr>wk_out = [], wk_seen = {}\<rparr>) = Some (Inr sample_listing)"
    by code_simp
  then show ?thesis by (simp only: Walk_def sample_excludes list.distinct if_False sum.case)
qed

lemma sample_walk_loop: "Walk 4 (sample_tree True) [''/r''] [] = Some (Inl [ErrUnsendableSymlink])"
  by code_simp

lemma sample_tree_ok: "tree_ok (sample_tree b)"
  by (auto simp: tree_ok_def tree_names_def sample_tree_def name_ok_def comp_ok_def is_abs_def has_prefix_def)

lemma sample_finite: "finite_tree (sample_tree True) {1} (\<lambda>_. 0) 0"
proof -
  have "path_join ''/r'' ''to'' = ''/r/to''" "path_join ''/r'' ''b.log'' = ''/r/b.log''"
    "path_join ''/r'' ''a'' = ''/r/a''" "path_join ''/r'' ''up'' = ''/r/up''" by code_simp+
  then show ?thesis
    by (auto simp: finite_tree_def sample_tree_def sample_info_def resolve_def split: if_splits)
qed

theorem walk_lists_tree_witness:
  "source_key ` set sample_listing = arg_offers (sample_tree False) [''*.log''] ''r''
   \<and> (EntryFile, ''r/to'', ''/r/to'') \<in> source_key ` set sample_listing"
proof -
  from walk_lists_tree [OF sample_walk] sample_excludes
  have "source_key ` set sample_listing = arg_offers (sample_tree False) [''*.log''] ''r''" by auto
  moreover have "(EntryFile, ''r/to'', ''/r/to'') \<in> source_key ` set sample_listing"
    by (simp add: source_key_def sample_listing_def walk_entry_def)
  ultimately show ?thesis by (rule conjI)
qed

theorem walk_acceptable_witness:
  "validateListing (map so_Entry sample_listing) = None \<and> parents_first {} sample_listing
   \<and> sanitizeRelativePath id ''r/to'' ''linux'' = Some ''r/to''"
proof -
  have "sanitizeRelativePath id ''r/to'' ''linux'' = Some ''r/to''"
    using walk_acceptable [OF sample_tree_ok sample_walk, of id]
    by (auto simp: sample_listing_def walk_entry_def Let_def has_prefix_def drive_letter_def)
  with walk_acceptable [OF sample_tree_ok sample_walk, of id] show ?thesis by blast
qed

theorem walk_returns_witness:
  "Walk 4 (sample_tree True) [''/r''] [] = Some (Inl [ErrUnsendableSymlink])
    \<and> Walk 100 (sample_tree True) [''/r''] [] = Some (Inl [ErrUnsendableSymlink])"
proof -
  from walk_returns [OF sample_finite, of "[''/r'']" "[]"] obtain r
    where r: "n \<ge> 4 \<Longrightarrow> Walk n (sample_tree True) [''/r''] [] = Some r" for n by auto
  have "r = Inl [ErrUnsendableSymlink]" using r [of 4] sample_walk_loop by simp
  with r [of 4] r [of 100] show ?thesis by simp
qed

end
