(* ===== verification/Client_Files.thy ===== *)
theory Client_Files
  imports Fs_Errors Safe_Paths
begin

text \<open>
  \<open>internal/atomicfile\<close> and \<open>internal/config\<close>: the small files the client keeps, written so that a reader
  never sees half of one. The store maps paths to contents; every system call can fail by an arbitrary
  schedule, and the states a concurrent reader or a crash could see are recorded. JSON, the
  environment and the place of the configuration are arguments.
\<close>

section \<open>Files\<close>

type_synonym files = "string \<rightharpoonup> bytes"

record client_fs =
  cf_files :: files
  cf_seen :: "files list"
  cf_tick :: nat

text \<open>
  \<open>fe_fault n\<close> says whether the \<open>n\<close>-th call fails, \<open>fe_wrote n\<close> how much a failing write has put down, and
  \<open>fe_tmp\<close> is the name \<open>os.CreateTemp\<close> picks: one that does not exist.
\<close>

record file_env =
  fe_fault :: "nat \<Rightarrow> bool"
  fe_wrote :: "nat \<Rightarrow> nat"
  fe_tmp :: "files \<Rightarrow> string"

definition put_files :: "files \<Rightarrow> client_fs \<Rightarrow> client_fs" where
  "put_files m s = s\<lparr>cf_files := m, cf_seen := m # cf_seen s, cf_tick := Suc (cf_tick s)\<rparr>"

definition fs_call :: "file_env \<Rightarrow> (files \<Rightarrow> files) \<Rightarrow> client_fs \<Rightarrow> bool \<times> client_fs" where
  "fs_call env f s =
     (if fe_fault env (cf_tick s) then (False, put_files (cf_files s) s) else (True, put_files (f (cf_files s)) s))"

definition write_call :: "file_env \<Rightarrow> string \<Rightarrow> bytes \<Rightarrow> client_fs \<Rightarrow> bool \<times> client_fs" where
  "write_call env p data s =
     (if fe_fault env (cf_tick s)
      then (False, put_files ((cf_files s)(p \<mapsto> take (fe_wrote env (cf_tick s)) data)) s)
      else (True, put_files ((cf_files s)(p \<mapsto> data)) s))"

text \<open>Calls in turn, each made only if the one before it succeeded.\<close>

fun run_calls :: "(client_fs \<Rightarrow> bool \<times> client_fs) list \<Rightarrow> client_fs \<Rightarrow> bool \<times> client_fs" where
  "run_calls [] s = (True, s)"
| "run_calls (c # cs) s = (case c s of (False, s1) \<Rightarrow> (False, s1) | (True, s1) \<Rightarrow> run_calls cs s1)"

lemma run_calls_append:
  "run_calls (cs @ ds) s = (case run_calls cs s of (False, s1) \<Rightarrow> (False, s1) | (True, s1) \<Rightarrow> run_calls ds s1)"
  by (induction cs arbitrary: s) (auto split: prod.splits bool.splits)

lemma run_calls_keep:
  assumes "\<And>c s x s'. c \<in> set cs \<Longrightarrow> I s \<Longrightarrow> c s = (x, s') \<Longrightarrow> I s'" "I s" "run_calls cs s = (ok, s')"
  shows "I s'"
  using assms
proof (induction cs arbitrary: s)
  case (Cons c cs)
  obtain x s1 where c: "c s = (x, s1)" by (metis surj_pair)
  then have "I s1" using Cons.prems(1) [of c s] Cons.prems(2) by simp
  then show ?case using Cons.prems c Cons.IH [of s1] by (cases x) auto
qed simp

section \<open>Atomic writes\<close>

text \<open>
  The body of \<open>atomicfile.Write\<close> behind \<open>CreateTemp\<close>: write, chmod, sync, close and rename. Permissions are
  not kept in the store; \<open>SyncDir\<close> changes nothing a reader sees.
\<close>

definition write_body :: "file_env \<Rightarrow> string \<Rightarrow> string \<Rightarrow> bytes \<Rightarrow> client_fs \<Rightarrow> bool \<times> client_fs" where
  "write_body env tmp path data =
     run_calls [write_call env tmp data, fs_call env id, fs_call env id, fs_call env id,
       fs_call env (\<lambda>m. (m(path := m tmp))(tmp := None))]"

definition atomic_write :: "file_env \<Rightarrow> string \<Rightarrow> bytes \<Rightarrow> client_fs \<Rightarrow> bool \<times> client_fs" where
  "atomic_write env path data s =
     (let tmp = fe_tmp env (cf_files s) in
      case fs_call env (\<lambda>m. m(tmp \<mapsto> [])) s of
        (False, s1) \<Rightarrow> (False, s1)
      | (True, s1) \<Rightarrow>
          (case write_body env tmp path data s1 of
             (ok, s2) \<Rightarrow> (ok, snd (fs_call env (\<lambda>m. m(tmp := None)) s2))))"

lemma call_cases:
  "fs_call env f s = (x, s') \<Longrightarrow> cf_files s' = (if x then f (cf_files s) else cf_files s) \<and> cf_seen s' = cf_files s' # cf_seen s"
  "write_call env p data s = (x, s') \<Longrightarrow>
     \<exists>d. cf_files s' = (cf_files s)(p \<mapsto> d) \<and> (x \<longrightarrow> d = data) \<and> cf_seen s' = cf_files s' # cf_seen s"
  by (auto simp: fs_call_def write_call_def put_files_def split: if_splits)

text \<open>
  States of an atomic write of \<open>data\<close> to \<open>path\<close> that started from the files \<open>m0\<close>: the file is the old one or
  the new one, and nothing but the temporary file changes beside it.
\<close>

definition between :: "string \<Rightarrow> string \<Rightarrow> bytes \<Rightarrow> files \<Rightarrow> files \<Rightarrow> bool" where
  "between tmp path data m0 m \<longleftrightarrow> m path \<in> {m0 path, Some data} \<and> (\<forall>q. q \<noteq> path \<and> q \<noteq> tmp \<longrightarrow> m q = m0 q)"

definition seen_between :: "string \<Rightarrow> string \<Rightarrow> bytes \<Rightarrow> client_fs \<Rightarrow> client_fs \<Rightarrow> bool" where
  "seen_between tmp path data s0 s \<longleftrightarrow> between tmp path data (cf_files s0) (cf_files s)
     \<and> (\<exists>new. cf_seen s = new @ cf_seen s0 \<and> list_all (between tmp path data (cf_files s0)) new)"

lemma seen_between_step:
  "seen_between tmp path data s0 s \<Longrightarrow> between tmp path data (cf_files s0) (cf_files s')
     \<Longrightarrow> cf_seen s' = cf_files s' # cf_seen s \<Longrightarrow> seen_between tmp path data s0 s'"
proof -
  assume s: "seen_between tmp path data s0 s" and b: "between tmp path data (cf_files s0) (cf_files s')"
    and c: "cf_seen s' = cf_files s' # cf_seen s"
  from s obtain new where "cf_seen s = new @ cf_seen s0" "list_all (between tmp path data (cf_files s0)) new"
    by (auto simp: seen_between_def)
  with b c show ?thesis unfolding seen_between_def by (intro conjI exI [of _ "cf_files s' # new"]) simp_all
qed

lemma write_body_effect:
  assumes "write_body env tmp path data s = (ok, s')" "tmp \<noteq> path" "seen_between tmp path data s0 s"
    "cf_files s path = cf_files s0 path"
  shows "seen_between tmp path data s0 s' \<and> cf_files s' path = (if ok then Some data else cf_files s0 path)"
proof -
  let ?I = "\<lambda>s. seen_between tmp path data s0 s \<and> cf_files s path = cf_files s0 path"
  have w: "?I s1 \<and> (x \<longrightarrow> cf_files s1 tmp = Some data)" if "write_call env tmp data s = (x, s1)" for x s1
    using call_cases(2) [OF that] assms(2-4)
    by (auto simp: seen_between_def between_def intro!: seen_between_step [OF assms(3)])
  obtain o1 s1 where 1: "write_call env tmp data s = (o1, s1)" by (metis surj_pair)
  obtain o2 s2 where 2: "run_calls [fs_call env id, fs_call env id, fs_call env id] s1 = (o2, s2)" by (metis surj_pair)
  have keep: "?I s2 \<and> cf_files s2 tmp = cf_files s1 tmp" if "?I s1"
    by (rule run_calls_keep [OF _ _ 2, of "\<lambda>s. ?I s \<and> cf_files s tmp = cf_files s1 tmp"])
      (use that call_cases(1) [of env id] in \<open>auto intro!: seen_between_step simp: seen_between_def split: if_splits\<close>)
  have split: "write_body env tmp path data s = (if \<not> o1 then (False, s1) else if \<not> o2 then (False, s2)
      else fs_call env (\<lambda>m. (m(path := m tmp))(tmp := None)) s2)"
    using 1 2 run_calls_append [of "[fs_call env id, fs_call env id, fs_call env id]" "[fs_call env (\<lambda>m. (m(path := m tmp))(tmp := None))]" s1]
    by (auto simp: write_body_def split: prod.splits bool.splits)
  show ?thesis
  proof (cases "o1 \<and> o2")
    case False
    then show ?thesis using assms(1) split w [OF 1] keep by (cases o1; cases o2) auto
  next
    case True
    then have "cf_files s2 tmp = Some data" "?I s2" using w [OF 1] keep by auto
    moreover have r: "fs_call env (\<lambda>m. (m(path := m tmp))(tmp := None)) s2 = (ok, s')" using True assms(1) split by simp
    ultimately show ?thesis
      using call_cases(1) [OF r] assms(2)
      by (auto simp: seen_between_def between_def intro!: seen_between_step [of tmp path data s0 s2])
  qed
qed


text \<open>
  A write is atomic. Whatever calls fail, the file holds the new content when \<open>Write\<close> reports success and what
  it held before when it reports an error; in every state on the way it is one of the two, and
  no other file but the temporary one is touched.
\<close>

theorem write_atomic:
  assumes "atomic_write env path data s = (ok, s')" "fe_tmp env (cf_files s) = tmp" "tmp \<noteq> path"
  shows "cf_files s' path = (if ok then Some data else cf_files s path)
    \<and> (\<forall>q. q \<noteq> path \<and> q \<noteq> tmp \<longrightarrow> cf_files s' q = cf_files s q)
    \<and> (\<exists>new. cf_seen s' = new @ cf_seen s \<and> list_all (\<lambda>m. m path = cf_files s path \<or> m path = Some data) new)"
proof -
  have start: "seen_between tmp path data s s" by (simp add: seen_between_def between_def)
  have fin: ?thesis if "seen_between tmp path data s s'" "cf_files s' path = (if ok then Some data else cf_files s path)"
    using that by (fastforce simp: seen_between_def between_def list_all_iff)
  obtain o1 s1 where 1: "fs_call env (\<lambda>m. m(tmp \<mapsto> [])) s = (o1, s1)" by (metis surj_pair)
  have first: "seen_between tmp path data s s1" "cf_files s1 path = cf_files s path"
    using call_cases(1) [OF 1] assms(3) by (auto simp: between_def intro!: seen_between_step [OF start])
  show ?thesis
  proof (cases o1)
    case False
    then show ?thesis using fin first assms(1,2) 1 by (simp add: atomic_write_def)
  next
    case True
    obtain o2 s2 where 2: "write_body env tmp path data s1 = (o2, s2)" by (metis surj_pair)
    obtain o3 s3 where 3: "fs_call env (\<lambda>m. m(tmp := None)) s2 = (o3, s3)" by (metis surj_pair)
    have s': "ok = o2" "s' = s3" using assms(1,2) 1 2 3 True by (simp_all add: atomic_write_def)
    note body = write_body_effect [OF 2 assms(3) first]
    have "seen_between tmp path data s s3 \<and> cf_files s3 path = cf_files s2 path"
      using call_cases(1) [OF 3] assms(3) body
      by (auto simp: seen_between_def between_def intro!: seen_between_step [of tmp path data s s2])
    with body s' show ?thesis by (intro fin) auto
  qed
qed

section \<open>The configuration\<close>

record config =
  cg_SchemaVersion :: int
  cg_Server :: string
  cg_ServerPassword :: string

definition SchemaVersion :: int where "SchemaVersion = 1"
definition DefaultServer :: string where "DefaultServer = ''fsend.alzina.dev:443''"

definition zero_config :: config where
  "zero_config = \<lparr>cg_SchemaVersion = 0, cg_Server = [], cg_ServerPassword = []\<rparr>"

definition EffectiveServer :: "config \<Rightarrow> string" where
  "EffectiveServer c = (if cg_Server c = [] then DefaultServer else cg_Server c)"

definition IsDefault :: "config \<Rightarrow> bool" where
  "IsDefault c \<longleftrightarrow> cg_Server c = []"

text \<open>
  \<open>ce_xdg\<close> is where \<open>xdg.ConfigFile\<close> puts the file, \<open>ce_override\<close> the path the tests set; \<open>ce_readable\<close> says which files
  can be read.
\<close>

record config_env =
  ce_override :: string
  ce_xdg :: "string option"
  ce_mkdir :: bool
  ce_readable :: "string \<Rightarrow> bool"
  ce_enc :: "config \<Rightarrow> bytes option"
  ce_dec :: "bytes \<Rightarrow> config option"
  ce_files :: file_env

definition config_path :: "config_env \<Rightarrow> string option" where
  "config_path env = (if ce_override env \<noteq> [] then Some (ce_override env) else ce_xdg env)"

definition config_dir :: "config_env \<Rightarrow> string option" where
  "config_dir env = map_option path_dir (config_path env)"

text \<open>A load always gives a configuration, beside the warning it may come with.\<close>

definition config_Load :: "config_env \<Rightarrow> files \<Rightarrow> config \<times> goerr option" where
  "config_Load env m =
     (case config_path env of
        None \<Rightarrow> (zero_config, None)
      | Some p \<Rightarrow>
        (case m p of
           None \<Rightarrow> (zero_config, None)
         | Some data \<Rightarrow>
           if \<not> ce_readable env p then (zero_config, Some [ErrConfigCorrupted])
           else (case ce_dec env data of
              None \<Rightarrow> (zero_config, Some [ErrConfigCorrupted])
            | Some c \<Rightarrow>
                if cg_SchemaVersion c \<noteq> SchemaVersion then (zero_config, Some [ErrConfigCorrupted]) else (c, None))))"

text \<open>\<open>Save\<close> writes a temporary file beside the target and renames it, as \<open>atomicfile.Write\<close> does.\<close>

definition config_Save :: "config_env \<Rightarrow> config \<Rightarrow> client_fs \<Rightarrow> goerr option \<times> client_fs" where
  "config_Save env c0 s =
     (let c = c0\<lparr>cg_SchemaVersion := SchemaVersion\<rparr> in
      case config_path env of
        None \<Rightarrow> (Some [], s)
      | Some p \<Rightarrow>
          if \<not> ce_mkdir env then (Some [], s)
          else (case ce_enc env c of
              None \<Rightarrow> (Some [], s)
            | Some data \<Rightarrow>
                (case atomic_write (ce_files env) p data s of
                   (ok, s1) \<Rightarrow> (if ok then None else Some [], s1))))"

lemma config_saved:
  assumes "config_Save env c s = (e, s')" "config_path env = Some p" "ce_readable env p"
    and "fe_tmp (ce_files env) (cf_files s) \<noteq> p" "\<And>x b. ce_enc env x = Some b \<Longrightarrow> ce_dec env b = Some x"
  shows "config_Load env (cf_files s')
    = (if e = None then (c\<lparr>cg_SchemaVersion := SchemaVersion\<rparr>, None) else config_Load env (cf_files s))"
proof -
  have w: "cf_files s1 p = (if ok then Some data else cf_files s p)"
    if "atomic_write (ce_files env) p data s = (ok, s1)" for ok s1 data
    using write_atomic [OF that refl assms(4)] by blast
  show ?thesis
    using assms(1,2,3,5) w
    by (auto simp: config_Save_def config_Load_def Let_def split: if_splits option.splits prod.splits)
qed

end
