(* ===== verification/Pairing_Keys.thy ===== *)
theory Pairing_Keys
  imports Client_Files Share_Code Peer_Auth
begin

text \<open>
  \<open>cmd/fsend/resume.go\<close> with the sessions of \<open>sendpair.go\<close> and \<open>receive.go\<close>: the key two ends find each other
  under. A fresh transfer uses the code; the first successful handshake replaces it on both ends by a
  key derived from the session binding, which the receiver also keeps on disk. The HMAC, the hash of
  the file name and the JSON codec are arguments; times are nanoseconds.
\<close>

section \<open>Keys\<close>

record pairKey =
  pk_rendezvous :: string
  pk_secret :: bytes

definition codeKey :: "string \<Rightarrow> pairKey" where
  "codeKey c = \<lparr>pk_rendezvous = c, pk_secret = str c\<rparr>"

text \<open>The letters are bytes of the MAC reduced to the alphabet; a byte past the MAC's end would panic.\<close>

definition mac_letters :: "bytes \<Rightarrow> string" where
  "mac_letters r = map (\<lambda>i. Alphabet ! (unat (r ! i) mod length Alphabet)) [0..<Length]"

definition resumeKey :: "(bytes \<Rightarrow> bytes \<Rightarrow> bytes) \<Rightarrow> bytes \<Rightarrow> pairKey" where
  "resumeKey hmac binding =
     (let l = mac_letters (hmac binding (str ''fsend-resume-rendezvous-v1''))
      in \<lparr>pk_rendezvous = take 3 l @ ''-'' @ take 4 (drop 3 l) @ ''-'' @ drop 7 l,
          pk_secret = str (hex_string (hmac binding (str ''fsend-resume-pake-v1'')))\<rparr>)"

lemma mac_letters_ok: "length (mac_letters r) = Length" "list_all code_class (mac_letters r)"
proof -
  show "length (mac_letters r) = Length" by (simp add: mac_letters_def)
  have "Alphabet ! (n mod length Alphabet) \<in> set Alphabet" for n
    by (rule nth_mem) (simp add: Alphabet_props)
  then show "list_all code_class (mac_letters r)"
    by (auto simp: mac_letters_def list_all_iff code_class_Alphabet)
qed

text \<open>Discovery treats a resume key like any code.\<close>

lemma resume_key_is_code: "IsCode (pk_rendezvous (resumeKey hmac binding))"
proof -
  let ?l = "mac_letters (hmac binding (str ''fsend-resume-rendezvous-v1''))"
  have "drop 7 ?l = take 3 (drop 7 ?l)" using mac_letters_ok(1) [of "hmac binding (str ''fsend-resume-rendezvous-v1'')"]
    by (simp add: Length_def)
  then have "pk_rendezvous (resumeKey hmac binding) = format_code ?l"
    by (simp add: resumeKey_def Let_def format_code_unfold)
  then show ?thesis by (simp add: IsCode_format mac_letters_ok)
qed

section \<open>The key on disk\<close>

record resumeRecord =
  rr_Rendezvous :: string
  rr_Secret :: bytes
  rr_Saved :: int

definition resumeTTL :: int where "resumeTTL = 24 * 3600 * 1000000000"

record resume_env =
  rn_cfg :: config_env
  rn_sha :: "bytes \<Rightarrow> bytes"
  rn_enc :: "resumeRecord \<Rightarrow> bytes option"
  rn_dec :: "bytes \<Rightarrow> resumeRecord option"
  rn_mkdir :: bool
  rn_hmac :: "bytes \<Rightarrow> bytes \<Rightarrow> bytes"

definition resumePath :: "resume_env \<Rightarrow> string \<Rightarrow> string option" where
  "resumePath env c =
     (case config_dir (rn_cfg env) of
        None \<Rightarrow> None
      | Some dir \<Rightarrow>
          Some (path_join (path_join dir ''resume'')
            (hex_string (take 16 (rn_sha env (str (''fsend-resume-file-v1/'' @ c)))))))"

text \<open>Saving is best effort: whatever goes wrong, the transfer goes on.\<close>

definition saveResumeKey :: "resume_env \<Rightarrow> string \<Rightarrow> pairKey \<Rightarrow> int \<Rightarrow> client_fs \<Rightarrow> client_fs" where
  "saveResumeKey env c k now s =
     (case resumePath env c of
        None \<Rightarrow> s
      | Some p \<Rightarrow>
          if \<not> rn_mkdir env then s
          else (case rn_enc env \<lparr>rr_Rendezvous = pk_rendezvous k, rr_Secret = pk_secret k, rr_Saved = now\<rparr> of
              None \<Rightarrow> s
            | Some b \<Rightarrow> snd (atomic_write (ce_files (rn_cfg env)) p b s)))"

definition loadResumeKey :: "resume_env \<Rightarrow> string \<Rightarrow> int \<Rightarrow> client_fs \<Rightarrow> pairKey option \<times> client_fs" where
  "loadResumeKey env c now s =
     (case resumePath env c of
        None \<Rightarrow> (None, s)
      | Some p \<Rightarrow>
        (case cf_files s p of
           None \<Rightarrow> (None, s)
         | Some b \<Rightarrow>
           if \<not> ce_readable (rn_cfg env) p then (None, s)
           else (let drop = (None, snd (fs_call (ce_files (rn_cfg env)) (\<lambda>m. m(p := None)) s)) in
             case rn_dec env b of
               None \<Rightarrow> drop
             | Some r \<Rightarrow>
                 if rr_Rendezvous r = [] \<or> rr_Secret r = [] \<or> resumeTTL < now - rr_Saved r then drop
                 else (Some \<lparr>pk_rendezvous = rr_Rendezvous r, pk_secret = rr_Secret r\<rparr>, s))))"

definition forgetResumeKey :: "resume_env \<Rightarrow> string \<Rightarrow> client_fs \<Rightarrow> client_fs" where
  "forgetResumeKey env c s =
     (case resumePath env c of
        None \<Rightarrow> s
      | Some p \<Rightarrow> snd (fs_call (ce_files (rn_cfg env)) (\<lambda>m. m(p := None)) s))"

section \<open>The two sessions\<close>

record recvSession =
  rv_code :: string
  rv_key :: pairKey
  rv_resumed :: bool

definition newRecvSession :: "resume_env \<Rightarrow> string \<Rightarrow> int \<Rightarrow> client_fs \<Rightarrow> recvSession \<times> client_fs" where
  "newRecvSession env c now s =
     (case loadResumeKey env c now s of
        (Some k, s1) \<Rightarrow> (\<lparr>rv_code = c, rv_key = k, rv_resumed = True\<rparr>, s1)
      | (None, s1) \<Rightarrow> (\<lparr>rv_code = c, rv_key = codeKey c, rv_resumed = False\<rparr>, s1))"

definition recv_paired :: "resume_env \<Rightarrow> bytes \<Rightarrow> int \<Rightarrow> recvSession \<times> client_fs \<Rightarrow> recvSession \<times> client_fs" where
  "recv_paired env binding now st =
     (case st of (rs, s) \<Rightarrow>
        if rv_resumed rs then (rs, s)
        else (let k = resumeKey (rn_hmac env) binding in
          (rs\<lparr>rv_key := k, rv_resumed := True\<rparr>, saveResumeKey env (rv_code rs) k now s)))"

record sendSession =
  sd_key :: pairKey
  sd_resumed :: bool
  sd_authFails :: nat

definition newSendSession :: "string \<Rightarrow> sendSession" where
  "newSendSession c = \<lparr>sd_key = codeKey c, sd_resumed = False, sd_authFails = 0\<rparr>"

definition send_paired :: "(bytes \<Rightarrow> bytes \<Rightarrow> bytes) \<Rightarrow> bytes \<Rightarrow> sendSession \<Rightarrow> pairKey \<times> sendSession" where
  "send_paired hmac binding ss =
     (if sd_resumed ss then (sd_key ss, ss)
      else (let k = resumeKey hmac binding in (k, ss\<lparr>sd_key := k, sd_resumed := True\<rparr>)))"

definition maxAuthFailures :: nat where "maxAuthFailures = 10"

text \<open>
  The counter is atomic: a failed handshake adds one and sees the sum. \<open>Some\<close> is the error that ends
  the session.
\<close>

definition authFailed :: "goerr \<Rightarrow> sendSession \<Rightarrow> goerr option \<times> sendSession" where
  "authFailed err ss =
     (if err_is err ErrPeerAuthFailed
      then (let n = Suc (sd_authFails ss); ss1 = ss\<lparr>sd_authFails := n\<rparr>
            in (if maxAuthFailures \<le> n then Some [ErrTooManyPairingFailures] else None, ss1))
      else (None, ss))"

section \<open>Both ends meet again\<close>

text \<open>
  The store keeps what is written in one piece, JSON gives back the record it encoded, and the written file
  can be read.
\<close>

definition store_ok :: "resume_env \<Rightarrow> string \<Rightarrow> pairKey \<Rightarrow> int \<Rightarrow> client_fs \<Rightarrow> bool" where
  "store_ok env p k t0 s \<longleftrightarrow> rn_mkdir env \<and> ce_readable (rn_cfg env) p \<and> (\<forall>n. \<not> fe_fault (ce_files (rn_cfg env)) n)
     \<and> fe_tmp (ce_files (rn_cfg env)) (cf_files s) \<noteq> p
     \<and> (let r = \<lparr>rr_Rendezvous = pk_rendezvous k, rr_Secret = pk_secret k, rr_Saved = t0\<rparr>
         in \<exists>b. rn_enc env r = Some b \<and> rn_dec env b = Some r)"

lemma no_fault_calls:
  "(\<forall>n. \<not> fe_fault env n) \<Longrightarrow> fst (fs_call env f s)"
  "(\<forall>n. \<not> fe_fault env n) \<Longrightarrow> fst (write_call env p d s)"
  "(\<forall>n. \<not> fe_fault env n) \<Longrightarrow> fst (run_calls [write_call env p d, fs_call env f1, fs_call env f2, fs_call env f3, fs_call env f4] s)"
  by (auto simp: fs_call_def write_call_def)

lemma no_fault_write:
  assumes "\<forall>n. \<not> fe_fault env n"
  shows "fst (atomic_write env path data s)"
proof -
  have "fst (write_body env t path data s1)" for t s1
    unfolding write_body_def by (rule no_fault_calls(3) [OF assms])
  then show ?thesis
    using no_fault_calls(1) [OF assms]
    by (auto simp: atomic_write_def Let_def split: prod.splits bool.splits) (metis fst_conv)+
qed

lemma saved_key_loads:
  assumes "resumePath env c = Some p" "store_ok env p k t0 s" "pk_rendezvous k \<noteq> []" "pk_secret k \<noteq> []"
    and "t1 - t0 \<le> resumeTTL"
  shows "fst (loadResumeKey env c t1 (saveResumeKey env c k t0 s)) = Some k"
proof -
  let ?r = "\<lparr>rr_Rendezvous = pk_rendezvous k, rr_Secret = pk_secret k, rr_Saved = t0\<rparr>"
  obtain b where b: "rn_enc env ?r = Some b" "rn_dec env b = Some ?r" using assms(2) by (auto simp: store_ok_def Let_def)
  obtain ok s' where w: "atomic_write (ce_files (rn_cfg env)) p b s = (ok, s')" by (metis surj_pair)
  have "ok" using no_fault_write [of "ce_files (rn_cfg env)" p b s] w assms(2) by (simp add: store_ok_def)
  then have "cf_files s' p = Some b"
    using write_atomic [OF w refl] assms(2) by (simp add: store_ok_def)
  then show ?thesis
    using assms b w by (simp add: saveResumeKey_def loadResumeKey_def store_ok_def Let_def)
qed

lemma resume_secret_ne:
  assumes "hmac binding (str ''fsend-resume-pake-v1'') \<noteq> []"
  shows "pk_secret (resumeKey hmac binding) \<noteq> []" "pk_rendezvous (resumeKey hmac binding) \<noteq> []"
  using assms by (cases "hmac binding (str ''fsend-resume-pake-v1'')"; simp add: resumeKey_def Let_def hex_string_def str_def)+


text \<open>A concrete environment: a constant hash, and a codec for one record.\<close>

definition sample_resume :: resume_env where
  "sample_resume =
     (let hmac = (\<lambda>k d. replicate 31 7 @ [of_nat (length d)]);
          k = resumeKey hmac [1]
      in \<lparr>rn_cfg = \<lparr>ce_override = ''/c/config.json'', ce_xdg = None, ce_mkdir = True, ce_readable = \<lambda>_. True,
            ce_enc = \<lambda>_. None, ce_dec = \<lambda>_. None,
            ce_files = \<lparr>fe_fault = \<lambda>_. False, fe_wrote = \<lambda>_. 0, fe_tmp = \<lambda>_. ''/t''\<rparr>\<rparr>,
          rn_sha = \<lambda>_. [7], rn_enc = \<lambda>_. Some [9],
          rn_dec = \<lambda>_. Some \<lparr>rr_Rendezvous = pk_rendezvous k, rr_Secret = pk_secret k, rr_Saved = 5\<rparr>,
          rn_mkdir = True, rn_hmac = hmac\<rparr>)"


end
