(* ===== verification/Guess_Cap.thy ===== *)
theory Guess_Cap
  imports Pairing_Keys
begin

text \<open>
  How failed handshakes are counted: \<open>SenderHandshake\<close> and \<open>closeOnFailure\<close> of \<open>internal/quicconn/quicconn.go\<close> with
  \<open>acceptCounting\<close> of \<open>cmd/fsend/sendpair.go\<close>. The counter is meant to cap the guesses of a code; it counts
  the failures that wrap \<open>ErrPeerAuthFailed\<close>.
\<close>

section \<open>One handshake\<close>

definition closeHandshakeFailed :: nat where "closeHandshakeFailed = 17"

text \<open>\<open>remote\<close> is the code the peer closed the connection with, when the error carries one.\<close>

definition closeOnFailure :: "nat option \<Rightarrow> goerr \<Rightarrow> goerr" where
  "closeOnFailure remote err =
     (if remote = Some closeHandshakeFailed \<and> \<not> err_is err ErrPeerAuthFailed then [ErrPeerAuthFailed] else err)"

text \<open>What \<open>Accept\<close> hands out: a peer, or an error, with whether it wraps \<open>ErrHandshakeFailed\<close> and the context's error by then.\<close>

record accept_err =
  ae_chain :: goerr
  ae_handshake :: bool
  ae_ctx :: "goerr option"

definition handshake_outcome :: "nat option \<Rightarrow> goerr option \<Rightarrow> goerr + bytes \<Rightarrow> accept_err + bytes" where
  "handshake_outcome remote ctx res =
     (case res of Inr b \<Rightarrow> Inr b
      | Inl e \<Rightarrow> Inl \<lparr>ae_chain = closeOnFailure remote e, ae_handshake = True, ae_ctx = ctx\<rparr>)"

section \<open>The accept loop\<close>

text \<open>One element per return of \<open>Accept\<close>; \<open>None\<close> when the loop is still waiting after the last.\<close>

fun acceptCounting :: "(accept_err + bytes) list \<Rightarrow> sendSession \<Rightarrow> (goerr + bytes) option \<times> sendSession" where
  "acceptCounting [] ss = (None, ss)"
| "acceptCounting (Inr b # es) ss = (Some (Inr b), ss)"
| "acceptCounting (Inl a # es) ss =
     (case ae_ctx a of
        Some ce \<Rightarrow> (Some (Inl ce), ss)
      | None \<Rightarrow>
          (case authFailed (ae_chain a) ss of
             (Some capErr, ss1) \<Rightarrow> (Some (Inl capErr), ss1)
           | (None, ss1) \<Rightarrow> if \<not> ae_handshake a then (Some (Inl (ae_chain a)), ss1) else acceptCounting es ss1))"

definition counted :: "accept_err + bytes \<Rightarrow> bool" where
  "counted r \<longleftrightarrow> (case r of Inl a \<Rightarrow> err_is (ae_chain a) ErrPeerAuthFailed | Inr _ \<Rightarrow> False)"

definition impostor :: "accept_err + bytes \<Rightarrow> bool" where
  "impostor r \<longleftrightarrow> (case r of Inl a \<Rightarrow> ae_handshake a \<and> ae_ctx a = None | Inr _ \<Rightarrow> False)"

lemma counted_simps [simp]:
  "counted (Inl a) = err_is (ae_chain a) ErrPeerAuthFailed" "counted (Inr b) = False"
  by (simp_all add: counted_def)

lemma authFailed_cases:
  "authFailed e ss = (if err_is e ErrPeerAuthFailed
     then (if maxAuthFailures \<le> Suc (sd_authFails ss) then Some [ErrTooManyPairingFailures] else None,
       ss\<lparr>sd_authFails := Suc (sd_authFails ss)\<rparr>)
     else (None, ss))"
  by (simp add: authFailed_def Let_def)

text \<open>A run of impostors below the cap leaves the loop waiting, whatever else of them went uncounted.\<close>

lemma impostors_absorbed:
  assumes "list_all impostor es" "sd_authFails ss + length (filter counted es) < maxAuthFailures"
  shows "acceptCounting (es @ rest) ss =
    acceptCounting rest (ss\<lparr>sd_authFails := sd_authFails ss + length (filter counted es)\<rparr>)"
  using assms
proof (induction es arbitrary: ss)
  case (Cons r es)
  then obtain a where "r = Inl a" "ae_handshake a" "ae_ctx a = None"
    by (auto simp: impostor_def split: sum.splits)
  then show ?case using Cons.prems Cons.IH by (cases "err_is (ae_chain a) ErrPeerAuthFailed") (simp_all add: authFailed_cases)
qed simp

text \<open>
  C40. The cap on failed handshakes. Impostors whose failures are counted are absorbed until the
  tenth of the session, which ends the loop with \<open>ErrTooManyPairingFailures\<close> whatever follows; before it, the real
  receiver still gets through, however many there were.
\<close>

theorem guesses_capped:
  assumes "list_all impostor es" "sd_authFails ss + length (filter counted es) < maxAuthFailures"
  shows "acceptCounting (es @ [Inr b]) ss = (Some (Inr b), ss\<lparr>sd_authFails := sd_authFails ss + length (filter counted es)\<rparr>)
    \<and> (\<forall>r rest. impostor r \<and> counted r \<and> Suc (sd_authFails ss + length (filter counted es)) = maxAuthFailures
        \<longrightarrow> acceptCounting (es @ r # rest) ss = (Some (Inl [ErrTooManyPairingFailures]), ss\<lparr>sd_authFails := maxAuthFailures\<rparr>))"
  using impostors_absorbed [OF assms]
  by (auto simp: impostor_def authFailed_cases split: sum.splits)

theorem guesses_capped_witness:
  "acceptCounting (replicate 9 (Inl \<lparr>ae_chain = [ErrPeerAuthFailed], ae_handshake = True, ae_ctx = None\<rparr>) @ [Inr [1]])
     (newSendSession ''abc'') = (Some (Inr [1]), newSendSession ''abc''\<lparr>sd_authFails := 9\<rparr>)"
proof -
  let ?r = "Inl \<lparr>ae_chain = [ErrPeerAuthFailed], ae_handshake = True, ae_ctx = None\<rparr> :: accept_err + bytes"
  have "list_all impostor (replicate 9 ?r)" "filter counted (replicate 9 ?r) = replicate 9 ?r"
    by (simp_all add: impostor_def list_all_iff)
  then show ?thesis
    using guesses_capped [of "replicate 9 ?r" "newSendSession ''abc''" "[1]"]
    by (simp add: newSendSession_def maxAuthFailures_def)
qed

section \<open>A guess that is not counted\<close>

text \<open>The sender's tag, which it writes before it has read the peer's.\<close>

lemma guess_gets_tag:
  assumes "au_exporter env = Some exporter"
    and "pake_New (au_pp env) Initiator \<lparr>pa_PRS = str code, pa_CI = str ''fsend'', pa_SID = exporter, pa_AD = adSender\<rparr>
           (au_scalar env) = Inr st"
    and "length (ps_share st) = ShareSize" "length peer = ShareSize"
    and "fst (pake_Finish (au_pp env) peer adReceiver st) = Inr key"
  shows "authenticatePeer env code roleSender \<lparr>r_data = be16 (of_nat (length (pake_msg peer))) @ pake_msg peer, r_end = IoEOF\<rparr>
      \<lparr>w_out = [], w_room = None\<rparr>
    = (Inl (io_goerr IoEOF), \<lparr>r_data = [], r_end = IoEOF\<rparr>,
       \<lparr>w_out = sent_by (au_hmac env) key exporter roleSender (ps_share st) peer, w_room = None\<rparr>)"
proof -
  have len: "0 < length (pake_msg b)" "length (pake_msg b) \<le> maxPakeMsgLen" if "length b = ShareSize" for b
    using that by (simp_all add: pake_msg_def ShareSize_def maxPakeMsgLen_def)
  note w = frame_roundtrip(1) [OF len [OF assms(3)]] and rd = frame_roundtrip(2) [OF len [OF assms(4)], of "[]"]
  note parse = parse_own [OF assms(4), folded pake_msg_def]
  show ?thesis
    unfolding authenticatePeer_def assms(1) option.case Let_def pake_msg_def [symmetric]
    using rd by (simp add: pake_role_def my_ad_def assms(2,5) w parse sent_by_def transcript_def confirm_key_def stream_simps read_full_def tagLen_def)
qed

text \<open>
  C12. A guess that is not counted. A peer that sends a well-formed share and closes its side of the
  stream is sent the sender's confirmation tag, under the key of the sender's code and this share, which is
  what a guess is checked against; the handshake then fails with the end of the stream and not with
  \<open>ErrPeerAuthFailed\<close>, so \<open>acceptCounting\<close> goes on with the counter untouched, however often this happens.
\<close>

theorem guess_uncounted:
  assumes "au_exporter env = Some exporter"
    and "pake_New (au_pp env) Initiator \<lparr>pa_PRS = str code, pa_CI = str ''fsend'', pa_SID = exporter, pa_AD = adSender\<rparr>
           (au_scalar env) = Inr st"
    and "length (ps_share st) = ShareSize" "length peer = ShareSize"
    and "fst (pake_Finish (au_pp env) peer adReceiver st) = Inr key"
  shows "case authenticatePeer env code roleSender
           \<lparr>r_data = be16 (of_nat (length (pake_msg peer))) @ pake_msg peer, r_end = IoEOF\<rparr> \<lparr>w_out = [], w_room = None\<rparr>
         of (res, _, w) \<Rightarrow>
           (\<exists>before. w_out w = before @ confirmTag (au_hmac env) key exporter roleSender (pake_msg (ps_share st)) (pake_msg peer))
           \<and> (\<forall>n. acceptCounting (replicate n (handshake_outcome None None res)) ss = (None, ss))"
proof -
  let ?r = "handshake_outcome None None (Inl (io_goerr IoEOF))"
  have "acceptCounting (replicate n ?r) ss = (None, ss)" for n
    by (induction n) (simp_all add: handshake_outcome_def closeOnFailure_def authFailed_cases)
  then show ?thesis
    by (simp add: guess_gets_tag [OF assms] sent_by_def transcript_def)
qed

theorem guess_uncounted_witness:
  "case authenticatePeer (toy_auth (\<lambda>_ _. replicate 32 3) 5) ''abc'' roleSender
      \<lparr>r_data = be16 (of_nat (length (pake_msg (replicate 32 7)))) @ pake_msg (replicate 32 7), r_end = IoEOF\<rparr>
      \<lparr>w_out = [], w_room = None\<rparr>
    of (res, _, w) \<Rightarrow>
      (\<exists>before. w_out w = before @ replicate 32 3)
      \<and> (\<forall>n. acceptCounting (replicate n (handshake_outcome None None res)) (newSendSession ''abc'') = (None, newSendSession ''abc''))"
  using guess_uncounted [of "toy_auth (\<lambda>_ _. replicate 32 3) 5" "replicate 32 9" "''abc''" "toy_end Initiator adSender 5" "replicate 32 7" toy_key]
  by (simp add: toy_auth_New toy_Finish(1) ShareSize_def confirmTag_def)

end
