(* ===== verification/Send_Round.thy ===== *)
theory Send_Round
  imports Pairing_Keys "HOL-Library.Multiset"
begin

text \<open>
  \<open>runSendOnce\<close> of \<open>cmd/fsend/sendpair.go\<close>: one pairing round of the sender. Two goroutines look for the receiver, on
  the local network and through the server; the coordinator takes the first pairing and tears the
  other down. A pairing is a number; a goroutine reports once, on its channel. The events of the
  system are what the goroutines do and what the coordinator takes from its channels, in any
  order in which they can happen.
\<close>

section \<open>The coordinator\<close>

text \<open>An error of a pairing path, and whether it wraps \<open>errPairedGone\<close>.\<close>

record pair_err =
  pe_chain :: goerr
  pe_gone :: bool

type_synonym outcome = "pair_err + nat"

record round_flags =
  rd_quiet :: bool
  rd_lanDisabled :: bool
  rd_serverDisabled :: bool
  rd_resume :: bool

datatype round_notice = ServerDownNotice goerr | LanDownNotice

text \<open>The winner is the pairing of the local network (\<open>Inl\<close>) or of the server (\<open>Inr\<close>).\<close>

record coord =
  co_lanDone :: bool
  co_serverDone :: bool
  co_lanErr :: "goerr option"
  co_serverErr :: "goerr option"
  co_serverDownErr :: "goerr option"
  co_lanDownNoticed :: bool
  co_winner :: "(nat + nat) option"
  co_notices :: "round_notice list"

definition isServerDown :: "goerr option \<Rightarrow> bool" where
  "isServerDown err \<longleftrightarrow> (case err of None \<Rightarrow> False | Some e \<Rightarrow> err_is e ErrServerUnreachable)"

definition pickFinalSendError :: "goerr option \<Rightarrow> goerr option \<Rightarrow> goerr option" where
  "pickFinalSendError lanErr serverErr =
     (if isServerDown serverErr then serverErr else if lanErr \<noteq> None then lanErr else serverErr)"

definition noticeServerDown :: "round_flags \<Rightarrow> goerr \<Rightarrow> coord \<Rightarrow> coord" where
  "noticeServerDown f err c =
     (if co_serverDownErr c \<noteq> None \<or> rd_quiet f \<or> rd_lanDisabled f then c\<lparr>co_serverDownErr := Some err\<rparr>
      else c\<lparr>co_serverDownErr := Some err, co_notices := co_notices c @ [ServerDownNotice err]\<rparr>)"

definition canceled :: "goerr option \<Rightarrow> bool" where
  "canceled err \<longleftrightarrow> (case err of None \<Rightarrow> False | Some e \<Rightarrow> err_is e CtxCanceled)"

text \<open>The cases of the select; the second component is the error an abort returns.\<close>

definition take_down :: "round_flags \<Rightarrow> goerr \<Rightarrow> coord \<Rightarrow> coord \<times> goerr option" where
  "take_down f err c =
     (let c1 = noticeServerDown f err c in
      if co_lanDone c1 \<and> co_lanErr c1 \<noteq> None \<and> \<not> canceled (co_lanErr c1)
      then (c1, pickFinalSendError (co_lanErr c1) (Some err)) else (c1, None))"

definition take_lan :: "round_flags \<Rightarrow> outcome \<Rightarrow> coord \<Rightarrow> coord \<times> goerr option" where
  "take_lan f res c =
     (let c1 = c\<lparr>co_lanDone := True\<rparr> in
      case res of
        Inr p \<Rightarrow> (c1\<lparr>co_winner := Some (Inl p)\<rparr>, None)
      | Inl err \<Rightarrow>
          (let e = pe_chain err; c2 = c1\<lparr>co_lanErr := Some e\<rparr> in
           if err_is e CtxCanceled then (c2, None)
           else if err_is e ErrTooManyPairingFailures then (c2, Some e)
           else if co_serverDownErr c2 \<noteq> None then (c2, pickFinalSendError (Some e) (co_serverDownErr c2))
           else if \<not> co_lanDownNoticed c2 \<and> \<not> rd_quiet f \<and> \<not> rd_serverDisabled f
           then (c2\<lparr>co_lanDownNoticed := True, co_notices := co_notices c2 @ [LanDownNotice]\<rparr>, None)
           else (c2, None)))"

definition take_server :: "round_flags \<Rightarrow> outcome \<Rightarrow> coord \<Rightarrow> coord \<times> goerr option" where
  "take_server f res c =
     (let c1 = c\<lparr>co_serverDone := True\<rparr> in
      case res of
        Inr p \<Rightarrow> (c1\<lparr>co_winner := Some (Inr p)\<rparr>, None)
      | Inl err \<Rightarrow>
          (let e = pe_chain err; c2 = c1\<lparr>co_serverErr := Some e\<rparr> in
           if err_is e CtxCanceled then (c2, None)
           else if pe_gone err \<or> err_is e ErrTooManyPairingFailures then (c2, Some e)
           else (noticeServerDown f e c2, None)))"

section \<open>The round with its goroutines\<close>

text \<open>
  \<open>PhLoop\<close> is the select loop; an abort drains the path of the local network, then the server's
  (\<open>drainBoth\<close>); with a winner the transfer runs while \<open>drainLoser\<close> waits for the other path.
\<close>

datatype phase =
    PhLoop
  | PhAbortLan "goerr option"
  | PhAbortServer "goerr option"
  | PhWon "nat + nat" bool bool
  | PhDone "goerr option + (nat + nat)"

record round_sys =
  ry_co :: coord
  ry_lanRun :: bool
  ry_serverRun :: bool
  ry_lanCh :: "outcome option"
  ry_serverCh :: "outcome option"
  ry_downCh :: "goerr option"
  ry_phase :: phase
  ry_paired :: bool
  ry_made :: "nat list"
  ry_cleaned :: "nat list"
  ry_sessions :: "(nat option \<times> bool) list"
  ry_fails :: nat

text \<open>The end of a server session: consumed when this round spent the code (\<open>consumeCode\<close>), else deleted.\<close>

definition consumeCode :: "round_flags \<Rightarrow> round_sys \<Rightarrow> bool" where
  "consumeCode f s \<longleftrightarrow> ry_paired s \<and> \<not> rd_resume f"

definition end_session :: "round_flags \<Rightarrow> nat option \<Rightarrow> round_sys \<Rightarrow> round_sys" where
  "end_session f p s = s\<lparr>ry_sessions := ry_sessions s @ [(p, consumeCode f s)]\<rparr>"

definition clean_lan :: "nat \<Rightarrow> round_sys \<Rightarrow> round_sys" where
  "clean_lan p s = s\<lparr>ry_cleaned := ry_cleaned s @ [p]\<rparr>"

definition clean_server :: "round_flags \<Rightarrow> nat \<Rightarrow> round_sys \<Rightarrow> round_sys" where
  "clean_server f p s = end_session f (Some p) (s\<lparr>ry_cleaned := ry_cleaned s @ [p]\<rparr>)"

definition made_by :: "outcome \<Rightarrow> nat list" where
  "made_by res = (case res of Inl _ \<Rightarrow> [] | Inr p \<Rightarrow> [p])"

definition lan_reports :: "outcome \<Rightarrow> round_sys \<Rightarrow> round_sys" where
  "lan_reports res s = s\<lparr>ry_lanRun := False, ry_lanCh := Some res, ry_made := ry_made s @ made_by res\<rparr>"

definition server_reports :: "outcome \<Rightarrow> round_sys \<Rightarrow> round_sys" where
  "server_reports res s = s\<lparr>ry_serverRun := False, ry_serverCh := Some res, ry_made := ry_made s @ made_by res\<rparr>"

text \<open>After a case of the select: abort, leave the loop with or without a winner, or go round again.\<close>

definition loop_on :: "coord \<times> goerr option \<Rightarrow> round_sys \<Rightarrow> round_sys" where
  "loop_on r s =
     (case r of
        (c, Some e) \<Rightarrow> s\<lparr>ry_co := c, ry_phase := if co_lanDone c then (if co_serverDone c then PhDone (Inl (Some e)) else PhAbortServer (Some e)) else PhAbortLan (Some e)\<rparr>
      | (c, None) \<Rightarrow>
          (case co_winner c of
             Some w \<Rightarrow> s\<lparr>ry_co := c, ry_paired := True,
                 ry_phase := PhWon w (case w of Inl _ \<Rightarrow> co_serverDone c | Inr _ \<Rightarrow> co_lanDone c) False\<rparr>
           | None \<Rightarrow>
               s\<lparr>ry_co := c, ry_phase := if co_lanDone c \<and> co_serverDone c
                   then PhDone (Inl (pickFinalSendError (co_lanErr c) (co_serverErr c))) else PhLoop\<rparr>))"

definition drain_lan :: "round_sys \<Rightarrow> round_sys" where
  "drain_lan s = (case ry_lanCh s of
     Some (Inr p) \<Rightarrow> clean_lan p (s\<lparr>ry_lanCh := None\<rparr>)
   | _ \<Rightarrow> s\<lparr>ry_lanCh := None\<rparr>)"

definition drain_server :: "round_flags \<Rightarrow> round_sys \<Rightarrow> round_sys" where
  "drain_server f s = (case ry_serverCh s of
     Some (Inr p) \<Rightarrow> clean_server f p (s\<lparr>ry_serverCh := None\<rparr>)
   | _ \<Rightarrow> s\<lparr>ry_serverCh := None\<rparr>)"

definition won :: "nat + nat \<Rightarrow> bool \<Rightarrow> bool \<Rightarrow> phase" where
  "won w drained sent = (if drained \<and> sent then PhDone (Inr w) else PhWon w drained sent)"

datatype round_event =
    LanReports outcome
  | LanAuthFails
  | ServerReports bool outcome
  | ServerAuthFails bool
  | ServerIsDown goerr
  | TakeCtx goerr
  | TakeTtl
  | TakeDown
  | TakeLan
  | TakeServer
  | Drain
  | TransferEnds

text \<open>
  A failed handshake is counted by the session (\<open>authFailed\<close>). On the local network the accept loop goes on until the cap;
  the server's path accepts once, ends its session and reports, its error wrapped unless the context is already done. \<open>ServerReports True (Inl e)\<close> ends a session before it reports.
  During the transfer the winner's listener accepts re-dials with the resume key; those failures are not
  the round's.
\<close>

primrec round_step :: "round_flags \<Rightarrow> round_event \<Rightarrow> round_sys \<Rightarrow> round_sys" where
  "round_step f (LanReports res) s = lan_reports res s"
| "round_step f LanAuthFails s =
     (let s1 = s\<lparr>ry_fails := Suc (ry_fails s)\<rparr> in
      if maxAuthFailures \<le> ry_fails s1
      then lan_reports (Inl \<lparr>pe_chain = [ErrTooManyPairingFailures], pe_gone = False\<rparr>) s1 else s1)"
| "round_step f (ServerReports ends res) s =
     server_reports res (if ends \<and> made_by res = [] then end_session f None s else s)"
| "round_step f (ServerAuthFails ctxDone) s =
     (let s1 = end_session f None (s\<lparr>ry_fails := Suc (ry_fails s)\<rparr>) in
      server_reports (Inl (if maxAuthFailures \<le> ry_fails s1
         then \<lparr>pe_chain = [ErrTooManyPairingFailures], pe_gone = False\<rparr>
         else if ctxDone then \<lparr>pe_chain = [ErrPeerAuthFailed], pe_gone = False\<rparr>
         else \<lparr>pe_chain = [ErrConnectFailed], pe_gone = True\<rparr>)) s1)"
| "round_step f (ServerIsDown e) s = (if ry_downCh s = None then s\<lparr>ry_downCh := Some e\<rparr> else s)"
| "round_step f (TakeCtx e) s = loop_on (ry_co s, Some e) s"
| "round_step f TakeTtl s = loop_on (ry_co s, Some [ErrSessionExpired]) s"
| "round_step f TakeDown s =
     (case ry_downCh s of None \<Rightarrow> s | Some e \<Rightarrow> loop_on (take_down f e (ry_co s)) (s\<lparr>ry_downCh := None\<rparr>))"
| "round_step f TakeLan s =
     (case ry_lanCh s of None \<Rightarrow> s | Some res \<Rightarrow> loop_on (take_lan f res (ry_co s)) (s\<lparr>ry_lanCh := None\<rparr>))"
| "round_step f TakeServer s =
     (case ry_serverCh s of None \<Rightarrow> s | Some res \<Rightarrow> loop_on (take_server f res (ry_co s)) (s\<lparr>ry_serverCh := None\<rparr>))"
| "round_step f Drain s =
     (case ry_phase s of
        PhAbortLan e \<Rightarrow> (drain_lan s)\<lparr>ry_phase := if co_serverDone (ry_co s) then PhDone (Inl e) else PhAbortServer e\<rparr>
      | PhAbortServer e \<Rightarrow> (drain_server f s)\<lparr>ry_phase := PhDone (Inl e)\<rparr>
      | PhWon w drained sent \<Rightarrow>
          (case w of Inl _ \<Rightarrow> (drain_server f s)\<lparr>ry_phase := won w True sent\<rparr> | Inr _ \<Rightarrow> (drain_lan s)\<lparr>ry_phase := won w True sent\<rparr>)
      | _ \<Rightarrow> s)"
| "round_step f TransferEnds s =
     (case ry_phase s of
        PhWon w drained sent \<Rightarrow>
          (case w of Inl p \<Rightarrow> (clean_lan p s)\<lparr>ry_phase := won w drained True\<rparr>
           | Inr p \<Rightarrow> (clean_server f p s)\<lparr>ry_phase := won w drained True\<rparr>)
      | _ \<Rightarrow> s)"

text \<open>When an event can happen: a channel is read only if something is in it, a goroutine acts while it runs.\<close>

definition waits_for_server :: "round_sys \<Rightarrow> bool" where
  "waits_for_server s \<longleftrightarrow> (case ry_phase s of PhAbortServer _ \<Rightarrow> True | PhWon (Inl _) False _ \<Rightarrow> True | _ \<Rightarrow> False)"

definition waits_for_lan :: "round_sys \<Rightarrow> bool" where
  "waits_for_lan s \<longleftrightarrow> (case ry_phase s of PhAbortLan _ \<Rightarrow> True | PhWon (Inr _) False _ \<Rightarrow> True | _ \<Rightarrow> False)"

primrec event_can :: "round_flags \<Rightarrow> round_event \<Rightarrow> round_sys \<Rightarrow> bool" where
  "event_can f (LanReports res) s \<longleftrightarrow> ry_lanRun s \<and> set (made_by res) \<inter> set (ry_made s) = {}"
| "event_can f LanAuthFails s \<longleftrightarrow> ry_lanRun s"
| "event_can f (ServerReports ends res) s \<longleftrightarrow> ry_serverRun s \<and> set (made_by res) \<inter> set (ry_made s) = {}"
| "event_can f (ServerAuthFails ctxDone) s \<longleftrightarrow> ry_serverRun s"
| "event_can f (ServerIsDown e) s \<longleftrightarrow> ry_serverRun s \<and> \<not> rd_lanDisabled f"
| "event_can f (TakeCtx e) s \<longleftrightarrow> ry_phase s = PhLoop"
| "event_can f TakeTtl s \<longleftrightarrow> ry_phase s = PhLoop"
| "event_can f TakeDown s \<longleftrightarrow> ry_phase s = PhLoop \<and> ry_downCh s \<noteq> None"
| "event_can f TakeLan s \<longleftrightarrow> ry_phase s = PhLoop \<and> ry_lanCh s \<noteq> None"
| "event_can f TakeServer s \<longleftrightarrow> ry_phase s = PhLoop \<and> ry_serverCh s \<noteq> None"
| "event_can f Drain s \<longleftrightarrow> (waits_for_lan s \<and> ry_lanCh s \<noteq> None) \<or> (waits_for_server s \<and> ry_serverCh s \<noteq> None)"
| "event_can f TransferEnds s \<longleftrightarrow> (\<exists>w d. ry_phase s = PhWon w d False)"

definition round_start :: "round_flags \<Rightarrow> nat \<Rightarrow> round_sys" where
  "round_start f fails =
     \<lparr>ry_co = \<lparr>co_lanDone = rd_lanDisabled f, co_serverDone = rd_serverDisabled f, co_lanErr = None, co_serverErr = None,
        co_serverDownErr = None, co_lanDownNoticed = False, co_winner = None, co_notices = []\<rparr>,
      ry_lanRun = \<not> rd_lanDisabled f, ry_serverRun = \<not> rd_serverDisabled f, ry_lanCh = None, ry_serverCh = None,
      ry_downCh = None, ry_phase = PhLoop, ry_paired = False, ry_made = [], ry_cleaned = [], ry_sessions = [], ry_fails = fails\<rparr>"


section \<open>The invariant\<close>

definition lan_over :: "round_sys \<Rightarrow> bool" where
  "lan_over s \<longleftrightarrow> \<not> ry_lanRun s \<and> ry_lanCh s = None"

definition server_over :: "round_sys \<Rightarrow> bool" where
  "server_over s \<longleftrightarrow> \<not> ry_serverRun s \<and> ry_serverCh s = None"

definition chan_made :: "outcome option \<Rightarrow> nat list" where
  "chan_made ch = (case ch of None \<Rightarrow> [] | Some res \<Rightarrow> made_by res)"

definition held :: "phase \<Rightarrow> nat list" where
  "held ph = (case ph of PhWon w d False \<Rightarrow> [case_sum id id w] | _ \<Rightarrow> [])"

definition phase_ok :: "round_sys \<Rightarrow> bool" where
  "phase_ok s =
     (case ry_phase s of
        PhLoop \<Rightarrow> co_lanDone (ry_co s) = lan_over s \<and> co_serverDone (ry_co s) = server_over s
          \<and> \<not> (lan_over s \<and> server_over s) \<and> co_winner (ry_co s) = None \<and> \<not> ry_paired s
      | PhAbortLan e \<Rightarrow> \<not> lan_over s \<and> co_serverDone (ry_co s) = server_over s \<and> \<not> ry_paired s
      | PhAbortServer e \<Rightarrow> lan_over s \<and> \<not> server_over s \<and> \<not> ry_paired s
      | PhWon (Inl p) d sent \<Rightarrow> lan_over s \<and> d = server_over s \<and> \<not> (d \<and> sent) \<and> ry_paired s
      | PhWon (Inr p) d sent \<Rightarrow> server_over s \<and> d = lan_over s \<and> \<not> (d \<and> sent) \<and> ry_paired s
      | PhDone r \<Rightarrow> lan_over s \<and> server_over s \<and> (ry_paired s \<longleftrightarrow> (\<exists>w. r = Inr w)))"

definition round_inv :: "round_flags \<Rightarrow> nat \<Rightarrow> round_sys \<Rightarrow> bool" where
  "round_inv f n s \<longleftrightarrow>
     distinct (ry_made s)
     \<and> mset (ry_made s) = mset (ry_cleaned s) + mset (chan_made (ry_lanCh s)) + mset (chan_made (ry_serverCh s))
         + mset (held (ry_phase s))
     \<and> (ry_lanRun s \<longrightarrow> ry_lanCh s = None) \<and> (ry_serverRun s \<longrightarrow> ry_serverCh s = None)
     \<and> phase_ok s
     \<and> ry_fails s \<le> max n 9 + of_bool (\<not> ry_lanRun s) + of_bool (\<not> ry_serverRun s)"

lemmas round_defs = lan_over_def server_over_def chan_made_def held_def phase_ok_def

lemma round_inv_start: "\<not> (rd_lanDisabled f \<and> rd_serverDisabled f) \<Longrightarrow> round_inv f n (round_start f n)"
  by (auto simp: round_inv_def round_start_def round_defs)

text \<open>What the cases of the select do to the flags of the coordinator.\<close>

lemma noticeServerDown_keeps [simp]:
  "co_lanDone (noticeServerDown f e c) = co_lanDone c" "co_serverDone (noticeServerDown f e c) = co_serverDone c"
  "co_winner (noticeServerDown f e c) = co_winner c" "co_lanErr (noticeServerDown f e c) = co_lanErr c"
  "co_serverErr (noticeServerDown f e c) = co_serverErr c"
  by (simp_all add: noticeServerDown_def)

lemma take_flags:
  "take_down f e c = (c', r) \<Longrightarrow> co_lanDone c' = co_lanDone c \<and> co_serverDone c' = co_serverDone c \<and> co_winner c' = co_winner c"
  "take_lan f res c = (c', r) \<Longrightarrow> co_lanDone c' \<and> co_serverDone c' = co_serverDone c
     \<and> (case res of Inl _ \<Rightarrow> co_winner c' = co_winner c | Inr p \<Rightarrow> co_winner c' = Some (Inl p) \<and> r = None)"
  "take_server f res c = (c', r) \<Longrightarrow> co_serverDone c' \<and> co_lanDone c' = co_lanDone c
     \<and> (case res of Inl _ \<Rightarrow> co_winner c' = co_winner c | Inr p \<Rightarrow> co_winner c' = Some (Inr p) \<and> r = None)"
  by (auto simp: take_down_def take_lan_def take_server_def Let_def split: if_splits sum.splits)

text \<open>\<open>loop_on\<close> restores the invariant from what a case of the select has left.\<close>

lemma loop_on_inv:
  assumes "distinct (ry_made s)" "ry_lanRun s \<longrightarrow> ry_lanCh s = None" "ry_serverRun s \<longrightarrow> ry_serverCh s = None"
    and "ry_fails s \<le> max n 9 + of_bool (\<not> ry_lanRun s) + of_bool (\<not> ry_serverRun s)"
    and flags: "co_lanDone c = lan_over s" "co_serverDone c = server_over s" "\<not> ry_paired s"
    and made: "mset (ry_made s) = mset (ry_cleaned s) + mset (chan_made (ry_lanCh s)) + mset (chan_made (ry_serverCh s))
         + mset (case co_winner c of None \<Rightarrow> [] | Some w \<Rightarrow> [case_sum id id w])"
    and winner: "case co_winner c of None \<Rightarrow> True | Some (Inl p) \<Rightarrow> lan_over s \<and> r = None | Some (Inr p) \<Rightarrow> server_over s \<and> r = None"
  shows "round_inv f n (loop_on (c, r) s)"
proof -
  have "phase_ok (loop_on (c, r) s)"
    using flags winner
    by (auto simp: loop_on_def phase_ok_def lan_over_def server_over_def split: option.splits sum.splits)
  moreover have "mset (ry_made s) = mset (ry_cleaned s) + mset (chan_made (ry_lanCh s)) + mset (chan_made (ry_serverCh s))
         + mset (held (ry_phase (loop_on (c, r) s)))"
    using made winner by (auto simp: loop_on_def held_def split: option.splits sum.splits)
  ultimately show ?thesis
    using assms(1-4) by (auto simp: round_inv_def loop_on_def split: option.splits)
qed


lemma reports_inv:
  assumes "round_inv f n s" "set (made_by res) \<inter> set (ry_made s) = {}"
  shows "ry_lanRun s \<Longrightarrow> round_inv f n (lan_reports res s)"
    "ry_serverRun s \<Longrightarrow> round_inv f n (server_reports res s)"
proof -
  have d: "distinct (ry_made s @ made_by res)"
    using assms by (cases res) (auto simp: round_inv_def made_by_def)
  show "ry_lanRun s \<Longrightarrow> round_inv f n (lan_reports res s)"
    using assms(1) d by (auto simp: round_inv_def lan_reports_def round_defs split: phase.splits sum.splits)
  show "ry_serverRun s \<Longrightarrow> round_inv f n (server_reports res s)"
    using assms(1) d by (auto simp: round_inv_def server_reports_def round_defs split: phase.splits sum.splits)
qed

lemma phase_ok_cong:
  assumes "ry_phase s' = ry_phase s" "lan_over s' = lan_over s" "server_over s' = server_over s"
    "ry_co s' = ry_co s" "ry_paired s' = ry_paired s"
  shows "phase_ok s' = phase_ok s"
  unfolding phase_ok_def assms ..

lemma end_session_inv [simp]: "round_inv f n (end_session f' p s) = round_inv f n s"
  using phase_ok_cong [of "end_session f' p s" s]
  by (simp add: round_inv_def end_session_def lan_over_def server_over_def)

lemma lan_auth_inv:
  assumes "round_inv f n s" "ry_lanRun s"
  shows "round_inv f n (round_step f LanAuthFails s)"
proof (cases "maxAuthFailures \<le> Suc (ry_fails s)")
  case True
  let ?s = "lan_reports (Inl \<lparr>pe_chain = [ErrTooManyPairingFailures], pe_gone = False\<rparr>) s"
  have "round_inv f n ?s" by (rule reports_inv(1) [OF assms(1) _ assms(2)]) (simp add: made_by_def)
  moreover have "ry_fails s \<le> max n 9 + of_bool (\<not> ry_serverRun s)" using assms by (simp add: round_inv_def)
  ultimately have "round_inv f n (?s\<lparr>ry_fails := Suc (ry_fails s)\<rparr>)"
    by (auto simp: round_inv_def round_defs lan_reports_def split: phase.splits sum.splits)
  moreover have "lan_reports res (s\<lparr>ry_fails := k\<rparr>) = (lan_reports res s)\<lparr>ry_fails := k\<rparr>" for res k
    by (cases s) (simp add: lan_reports_def)
  ultimately show ?thesis using True by (simp add: Let_def)
next
  case False
  then have "Suc (ry_fails s) \<le> max n 9" by (simp add: maxAuthFailures_def)
  then show ?thesis
    using assms(1) False
    by (auto simp: round_inv_def round_defs Let_def split: phase.splits sum.splits)
qed

lemma server_auth_inv:
  assumes "round_inv f n s" "ry_serverRun s"
  shows "round_inv f n (round_step f (ServerAuthFails ctxDone) s)"
proof -
  have "round_inv f n ((server_reports (Inl e) s)\<lparr>ry_fails := Suc (ry_fails s)\<rparr>)" for e
    using reports_inv(2) [OF assms(1) _ assms(2), of "Inl e"] assms
    by (auto simp: round_inv_def round_defs server_reports_def made_by_def split: phase.splits sum.splits)
  moreover have "server_reports res (end_session f None (s\<lparr>ry_fails := k\<rparr>)) =
      end_session f None ((server_reports res s)\<lparr>ry_fails := k\<rparr>)" for res k
    by (cases s) (simp add: server_reports_def end_session_def consumeCode_def)
  ultimately show ?thesis by (simp add: Let_def)
qed

lemma take_inv:
  assumes "round_inv f n s" "ry_phase s = PhLoop"
  shows "ry_downCh s \<noteq> None \<Longrightarrow> round_inv f n (round_step f TakeDown s)"
    and "ry_lanCh s \<noteq> None \<Longrightarrow> round_inv f n (round_step f TakeLan s)"
    and "ry_serverCh s \<noteq> None \<Longrightarrow> round_inv f n (round_step f TakeServer s)"
    and "round_inv f n (loop_on (ry_co s, Some e) s)"
proof -
  note inv = assms(1) [unfolded round_inv_def phase_ok_def assms(2), simplified]
  have h: "held PhLoop = []" by (simp add: held_def)
  show "round_inv f n (loop_on (ry_co s, Some e) s)"
    by (rule loop_on_inv) (use inv h in auto)
  show "round_inv f n (round_step f TakeDown s)" if "ry_downCh s \<noteq> None"
  proof -
    from that obtain e where e: "ry_downCh s = Some e" by auto
    obtain c r where t: "take_down f e (ry_co s) = (c, r)" by (metis surj_pair)
    have "round_inv f n (loop_on (c, r) (s\<lparr>ry_downCh := None\<rparr>))"
      by (rule loop_on_inv) (use inv h take_flags(1) [OF t] in \<open>auto simp: lan_over_def server_over_def\<close>)
    then show ?thesis by (simp add: e t)
  qed
  show "round_inv f n (round_step f TakeLan s)" if "ry_lanCh s \<noteq> None"
  proof -
    from that obtain res where e: "ry_lanCh s = Some res" by auto
    obtain c r where t: "take_lan f res (ry_co s) = (c, r)" by (metis surj_pair)
    have "round_inv f n (loop_on (c, r) (s\<lparr>ry_lanCh := None\<rparr>))"
      by (rule loop_on_inv)
        (use inv h e take_flags(2) [OF t] in \<open>auto simp: lan_over_def server_over_def chan_made_def made_by_def split: sum.splits\<close>)
    then show ?thesis by (simp add: e t)
  qed
  show "round_inv f n (round_step f TakeServer s)" if "ry_serverCh s \<noteq> None"
  proof -
    from that obtain res where e: "ry_serverCh s = Some res" by auto
    obtain c r where t: "take_server f res (ry_co s) = (c, r)" by (metis surj_pair)
    have "round_inv f n (loop_on (c, r) (s\<lparr>ry_serverCh := None\<rparr>))"
      by (rule loop_on_inv)
        (use inv h e take_flags(3) [OF t] in \<open>auto simp: lan_over_def server_over_def chan_made_def made_by_def split: sum.splits\<close>)
    then show ?thesis by (simp add: e t)
  qed
qed

lemma drain_keeps:
  "ry_lanRun (drain_lan s) = ry_lanRun s" "ry_serverRun (drain_lan s) = ry_serverRun s" "ry_lanCh (drain_lan s) = None"
  "ry_serverCh (drain_lan s) = ry_serverCh s" "ry_made (drain_lan s) = ry_made s" "ry_paired (drain_lan s) = ry_paired s"
  "ry_fails (drain_lan s) = ry_fails s" "ry_co (drain_lan s) = ry_co s"
  "ry_cleaned (drain_lan s) = ry_cleaned s @ chan_made (ry_lanCh s)"
  "ry_lanRun (drain_server f s) = ry_lanRun s" "ry_serverRun (drain_server f s) = ry_serverRun s" "ry_serverCh (drain_server f s) = None"
  "ry_lanCh (drain_server f s) = ry_lanCh s" "ry_made (drain_server f s) = ry_made s" "ry_paired (drain_server f s) = ry_paired s"
  "ry_fails (drain_server f s) = ry_fails s" "ry_co (drain_server f s) = ry_co s"
  "ry_cleaned (drain_server f s) = ry_cleaned s @ chan_made (ry_serverCh s)"
  by (auto simp: drain_lan_def drain_server_def clean_lan_def clean_server_def end_session_def chan_made_def made_by_def
      split: option.splits sum.splits)

lemma held_won: "held (won w d sent) = (if sent then [] else [case_sum id id w])"
  by (simp add: won_def held_def)

lemma drain_inv:
  assumes "round_inv f n s" "event_can f Drain s"
  shows "round_inv f n (round_step f Drain s)"
proof -
  note inv = assms(1) [unfolded round_inv_def]
  show ?thesis
  proof (cases "ry_phase s")
    case (PhAbortLan e)
    then show ?thesis using inv assms(2)
      by (auto simp: round_inv_def round_defs drain_keeps waits_for_lan_def waits_for_server_def)
  next
    case (PhAbortServer e)
    then show ?thesis using inv assms(2)
      by (auto simp: round_inv_def round_defs drain_keeps waits_for_lan_def waits_for_server_def)
  next
    case (PhWon w d sent)
    then show ?thesis using inv assms(2)
      by (cases w; cases sent; cases d)
        (auto simp: round_inv_def lan_over_def server_over_def chan_made_def phase_ok_def drain_keeps won_def held_def
          waits_for_lan_def waits_for_server_def)
  qed (use assms(2) in \<open>auto simp: waits_for_lan_def waits_for_server_def\<close>)
qed

lemma transfer_ends_inv:
  assumes "round_inv f n s" "event_can f TransferEnds s"
  shows "round_inv f n (round_step f TransferEnds s)"
proof -
  obtain w d where w: "ry_phase s = PhWon w d False" using assms(2) by auto
  show ?thesis
    using assms(1) w
    by (cases w; cases d) (auto simp: round_inv_def lan_over_def server_over_def chan_made_def phase_ok_def won_def held_def
        clean_lan_def clean_server_def end_session_def)
qed

lemma round_inv_step:
  assumes "round_inv f n s" "event_can f e s"
  shows "round_inv f n (round_step f e s)"
proof (cases e)
  case (ServerReports ends res)
  let ?s = "if ends \<and> made_by res = [] then end_session f None s else s"
  have kept: "ry_serverRun (end_session f None s) = ry_serverRun s" "ry_made (end_session f None s) = ry_made s"
    by (simp_all add: end_session_def)
  have "round_inv f n ?s" using assms(1) by simp
  moreover have "ry_serverRun ?s" "set (made_by res) \<inter> set (ry_made ?s) = {}"
    using assms(2) ServerReports kept by auto
  ultimately show ?thesis using reports_inv(2) [of f n ?s res] ServerReports by simp
next
  case (ServerIsDown err)
  then show ?thesis using assms(1) by (auto simp: round_inv_def round_defs split: phase.splits sum.splits)
qed (use assms take_inv reports_inv lan_auth_inv server_auth_inv drain_inv transfer_ends_inv in \<open>auto simp del: round_step.simps(2,4,8-12) event_can.simps(11,12)\<close>)

interpretation send_round: invariant_machine "round_step f" "event_can f" "round_inv f n" for f n
  by unfold_locales (rule round_inv_step)


section \<open>What a round leaves behind\<close>

text \<open>Which server sessions a round has consumed instead of deleted.\<close>

definition sessions_ok :: "round_flags \<Rightarrow> round_sys \<Rightarrow> bool" where
  "sessions_ok f s \<longleftrightarrow> (\<forall>p c. (Some p, c) \<in> set (ry_sessions s) \<longrightarrow> c = consumeCode f s)
     \<and> (ry_phase s = PhLoop \<longrightarrow> (\<forall>p c. (Some p, c) \<notin> set (ry_sessions s)))"

lemma loop_on_sessions:
  assumes "ry_phase s = PhLoop" "sessions_ok f s"
  shows "sessions_ok f ((loop_on r s))"
  using assms by (auto simp: sessions_ok_def loop_on_def consumeCode_def split: prod.splits option.splits)

lemma take_sessions:
  assumes "ry_phase s = PhLoop" "sessions_ok f s"
  shows "sessions_ok f (loop_on r (s\<lparr>ry_downCh := d\<rparr>))" "sessions_ok f (loop_on r (s\<lparr>ry_lanCh := ch\<rparr>))"
    "sessions_ok f (loop_on r (s\<lparr>ry_serverCh := ch\<rparr>))"
  by (rule loop_on_sessions; use assms in \<open>simp add: sessions_ok_def consumeCode_def\<close>)+

lemma sessions_frame:
  assumes "sessions_ok f s" "ry_paired s' = ry_paired s" "ry_phase s' = ry_phase s"
    "set (ry_sessions s') \<subseteq> set (ry_sessions s) \<union> {(None, c) | c. True}"
  shows "sessions_ok f s'"
  using assms by (fastforce simp: sessions_ok_def consumeCode_def)

lemma sessions_drain:
  assumes "sessions_ok f s" "ph \<noteq> PhLoop"
  shows "sessions_ok f ((drain_lan s)\<lparr>ry_phase := ph\<rparr>)" "sessions_ok f ((drain_server f s)\<lparr>ry_phase := ph\<rparr>)"
    "sessions_ok f ((clean_lan p s)\<lparr>ry_phase := ph\<rparr>)" "sessions_ok f ((clean_server f p s)\<lparr>ry_phase := ph\<rparr>)"
  using assms
  by (auto simp: sessions_ok_def drain_lan_def drain_server_def clean_lan_def clean_server_def end_session_def consumeCode_def
      split: option.splits sum.splits)

lemma sessions_step:
  assumes "event_can f e s" "sessions_ok f s"
  shows "sessions_ok f (round_step f e s)"
proof (cases e)
  case Drain
  then show ?thesis using assms sessions_drain [OF assms(2)]
    by (auto simp: waits_for_lan_def waits_for_server_def won_def split: phase.splits sum.splits bool.splits)
next
  case TransferEnds
  then show ?thesis using assms sessions_drain [OF assms(2)] by (auto simp: won_def split: sum.splits)
qed (use assms in \<open>auto simp: Let_def lan_reports_def server_reports_def end_session_def
      intro: take_sessions loop_on_sessions sessions_frame [OF assms(2)]\<close>)


text \<open>A sample round: the server pairs, the local network pairs too before it hears of it.\<close>

definition sample_round :: "round_event list" where
  "sample_round = [ServerReports False (Inr 1), TakeServer, LanReports (Inr 2), Drain, TransferEnds]"

definition sample_flags :: round_flags where
  "sample_flags = \<lparr>rd_quiet = False, rd_lanDisabled = False, rd_serverDisabled = False, rd_resume = False\<rparr>"


section \<open>A round ends\<close>

definition round_rank :: "round_sys \<Rightarrow> nat" where
  "round_rank s = (case ry_phase s of
      PhLoop \<Rightarrow> 3 + of_bool (ry_lanCh s \<noteq> None) + of_bool (ry_serverCh s \<noteq> None) + of_bool (ry_downCh s \<noteq> None)
    | PhAbortLan _ \<Rightarrow> 2
    | PhAbortServer _ \<Rightarrow> 1
    | PhWon _ drained sent \<Rightarrow> of_bool (\<not> drained) + of_bool (\<not> sent)
    | PhDone _ \<Rightarrow> 0)"

lemma loop_on_rank:
  "ry_lanRun (loop_on r s) = ry_lanRun s" "ry_serverRun (loop_on r s) = ry_serverRun s"
  "snd r \<noteq> None \<Longrightarrow> round_rank (loop_on r s) < 3"
  "ry_phase s = PhLoop \<Longrightarrow> round_rank (loop_on r s) \<le> round_rank s"
  by (auto simp: loop_on_def round_rank_def of_bool_def split: prod.splits option.splits sum.splits)

lemma round_rank_won [simp]:
  "round_rank (s\<lparr>ry_phase := won w drained sent\<rparr>) = of_bool (\<not> drained) + of_bool (\<not> sent)"
  by (simp add: round_rank_def won_def)

lemma round_rank_step:
  assumes "round_inv f n s" "event_can f e s" "\<not> ry_lanRun s" "\<not> ry_serverRun s"
  shows "round_rank (round_step f e s) < round_rank s \<and> \<not> ry_lanRun (round_step f e s) \<and> \<not> ry_serverRun (round_step f e s)"
proof -
  have take: "round_rank (loop_on r s') < round_rank s" if "ry_phase s' = PhLoop" "round_rank s' < round_rank s" for r s'
    using loop_on_rank(4) [OF that(1), of r] that(2) by linarith
  have chans:
    "round_rank (loop_on r (s\<lparr>ry_downCh := None\<rparr>)) < round_rank s" if "ry_phase s = PhLoop" "ry_downCh s \<noteq> None" for r
    by (rule take) (use that in \<open>simp_all add: round_rank_def\<close>)
  have chans2:
    "round_rank (loop_on r (s\<lparr>ry_lanCh := None\<rparr>)) < round_rank s" if "ry_phase s = PhLoop" "ry_lanCh s \<noteq> None" for r
    by (rule take) (use that in \<open>simp_all add: round_rank_def\<close>)
  have chans3:
    "round_rank (loop_on r (s\<lparr>ry_serverCh := None\<rparr>)) < round_rank s" if "ry_phase s = PhLoop" "ry_serverCh s \<noteq> None" for r
    by (rule take) (use that in \<open>simp_all add: round_rank_def\<close>)
  have loop: "3 \<le> round_rank s" if "ry_phase s = PhLoop" using that by (simp add: round_rank_def)
  have abort: "round_rank (loop_on (ry_co s, Some e') s) < round_rank s" if "ry_phase s = PhLoop" for e'
    using loop_on_rank(3) [of "(ry_co s, Some e')" s] loop [OF that] by simp
  have ok: "phase_ok s" using assms(1) by (simp add: round_inv_def)
  show ?thesis
  proof (cases e)
    case Drain
    then show ?thesis using assms(2-4) ok
      by (auto simp: waits_for_lan_def waits_for_server_def round_rank_def drain_keeps phase_ok_def lan_over_def server_over_def won_def
          split: phase.splits sum.splits bool.splits)
  next
    case TransferEnds
    then show ?thesis using assms(2-4)
      by (auto simp: round_rank_def won_def clean_lan_def clean_server_def end_session_def split: sum.splits)
  qed (use assms(2-4) in \<open>auto simp: loop_on_rank(1,2) chans chans2 chans3 abort\<close>)
qed

lemma round_counts_down:
  assumes "round_inv f n s" "\<not> ry_lanRun s" "\<not> ry_serverRun s" "run_ok (round_step f) (event_can f) s es"
  shows "length es \<le> round_rank s"
  using assms
proof (induction es arbitrary: s)
  case (Cons e es)
  then have e: "event_can f e s" by simp
  have "length es \<le> round_rank (round_step f e s)"
    using Cons.IH [OF round_inv_step [OF Cons.prems(1) e]] round_rank_step [OF Cons.prems(1) e] Cons.prems by simp
  then show ?case using round_rank_step [OF Cons.prems(1) e] Cons.prems(2,3) by simp
qed simp

lemma round_not_stuck:
  assumes "round_inv f n s" "\<not> ry_lanRun s" "\<not> ry_serverRun s" "\<And>r. ry_phase s \<noteq> PhDone r"
  shows "event_can f TakeTtl s \<or> event_can f Drain s \<or> event_can f TransferEnds s"
  using assms
  by (auto simp: round_inv_def phase_ok_def lan_over_def server_over_def waits_for_lan_def waits_for_server_def
      split: phase.splits sum.splits bool.splits)

lemma round_done_stuck:
  assumes "ry_phase s = PhDone r" "\<not> ry_lanRun s" "\<not> ry_serverRun s"
  shows "\<not> event_can f e s"
  using assms by (cases e) (auto simp: waits_for_lan_def waits_for_server_def)

text \<open>
  C39. A round always ends. Once both paths have reported, the coordinator takes at most six
  more steps, whatever they are, and while the round has not returned it has one to take: it never waits on a
  channel that nothing will be sent to.
\<close>

theorem round_ends:
  assumes "\<not> (rd_lanDisabled f \<and> rd_serverDisabled f)"
    and "run_ok (round_step f) (event_can f) (round_start f n) es" "s = fold (round_step f) es (round_start f n)"
    and "\<not> ry_lanRun s" "\<not> ry_serverRun s"
  shows "(\<forall>es'. run_ok (round_step f) (event_can f) s es' \<longrightarrow> length es' \<le> 6)
    \<and> ((\<exists>e. event_can f e s) \<longleftrightarrow> (\<forall>r. ry_phase s \<noteq> PhDone r))"
proof -
  have inv: "round_inv f n s"
    unfolding assms(3) by (rule send_round.inv_run [OF round_inv_start [OF assms(1)] assms(2)])
  have "round_rank s \<le> 6" by (simp add: round_rank_def split: phase.splits)
  then show ?thesis
    using round_counts_down [OF inv assms(4,5)] round_not_stuck [OF inv assms(4,5)] round_done_stuck [OF _ assms(4,5)]
    by (meson le_trans)
qed

theorem round_ends_witness:
  "let s = fold (round_step sample_flags) [ServerReports False (Inr 1), LanReports (Inr 2)] (round_start sample_flags 0)
   in \<exists>e. event_can sample_flags e s"
proof -
  let ?es = "[ServerReports False (Inr 1), LanReports (Inr 2)]"
  let ?s = "fold (round_step sample_flags) ?es (round_start sample_flags 0)"
  have r: "run_ok (round_step sample_flags) (event_can sample_flags) (round_start sample_flags 0) ?es"
    and e: "\<not> ry_lanRun ?s" "\<not> ry_serverRun ?s" "ry_phase ?s = PhLoop"
    by (simp_all add: sample_flags_def round_start_def server_reports_def lan_reports_def made_by_def)
  show ?thesis
    using round_ends [of sample_flags 0 ?es ?s, OF _ r refl e(1,2)] e(3) by (simp add: sample_flags_def Let_def)
qed

end
