(* ===== verification/Spec2Isabelle.thy ===== *)
theory Spec2Isabelle
  imports Fs_Prelude Fs_Decimal Fs_Errors Wire_Proto Wire_Control Wire_Chunk File_Hash Chunk_Packer
    Safe_Paths Fs_Model Partial_Store Classifier Transfer_Control Receive_File Receiver Receive_Consent
    Cpace Password_Gate Sender Stream_Receive Recv_Entry
    Fs_Text Share_Code Base32 Release_Version Session_Table Session_Inv Session_Claims Relay_Frame Relay_Server Relay_Claims
    Peer_Auth Error_Catalog Retry_Backoff Source_Walk
    Client_Files Pairing_Keys Guess_Cap Send_Round
begin

text \<open>
  A verification development of fsend, a peer-to-peer file transfer tool written in Go.

  \<^bold>\<open>The program.\<close> Two people share a short code. Each side stretches it to a slot of the pairing
  server, which introduces the two addresses; a QUIC connection is made directly or through the
  server's relay, and the code authenticates it with a PAKE. On that connection the sender lists
  its entries, the receiver decides per entry, and the data follows in compressed chunks that are
  hashed block by block, written to hidden partial files and moved into place. The password gate is
  a second PAKE inside the session.

  \<^bold>\<open>Shared vocabulary.\<close> \<open>Fs_Prelude\<close>: bytes are \<open>8 word\<close>, Go's integers keep their width as words or
  are \<open>int\<close>/\<open>nat\<close> with the range written out, a stream read by \<open>io.ReadFull\<close> is a list of bytes with
  the error that follows it; the locales \<open>counted_codec\<close> (a frame format with a reader) and
  \<open>invariant_machine\<close> (events that keep an invariant). \<open>Fs_Decimal\<close>, \<open>Fs_Text\<close>, \<open>Base32\<close>: what the
  code uses of \<open>strconv\<close>, \<open>strings\<close>, UTF-8 and \<open>encoding/base32\<close>. \<open>Fs_Errors\<close>: the sentinels of
  \<open>internal/fserrors\<close>; an operation that can fail returns \<open>goerr + 'a\<close> or an optional error beside
  the new state, so each early return of the source is a branch.

  \<^bold>\<open>Wire format\<close> (\<open>internal/wire\<close>). \<open>Wire_Proto\<close> has the versions, frame types and payloads,
  \<open>Wire_Control\<close> the control frames and \<open>Wire_Chunk\<close> the data chunks with their segments; both are
  interpretations of \<open>counted_codec\<close>, whose laws give the round trips of whole streams.

  \<^bold>\<open>Transfer engine\<close> (\<open>internal/transfer\<close>). \<open>File_Hash\<close> (\<open>filehash.go\<close>) is the incremental
  block-tree hasher, an interpretation of the locale \<open>resumable_hasher\<close>: any way to cut a stream
  into writes gives the root of the specification. \<open>Chunk_Packer\<close> (\<open>pack.go\<close>) has both goroutines of the
  packer; its locale \<open>event_packer\<close> carries the simulation of an abstract log of bytes and markers.
  \<open>Safe_Paths\<close> (\<open>paths.go\<close>) is the sanitation of peer paths. \<open>Fs_Model\<close> is the receiving disk, a finite map
  of nodes whose calls consume an arbitrary schedule of faults, and \<open>Partial_Store\<close> (\<open>partials.go\<close>,
  \<open>fsmeta.go\<close>) the partials on it. \<open>Classifier\<close> (\<open>classify.go\<close>) plans each listed entry, \<open>Transfer_Control\<close>
  (\<open>listing.go\<close>, part of \<open>recv.go\<close>) exchanges listing and decisions, \<open>Receive_File\<close> and \<open>Receiver\<close> (\<open>recv.go\<close>)
  write, verify, commit and place the files, and \<open>Receive_Consent\<close> shows what a peer can change on the
  disk over a whole run. \<open>Sender\<close> (\<open>send.go\<close>, \<open>ctxstream.go\<close>, \<open>transport.go\<close>) is the other side.
  \<open>Source_Walk\<close> (\<open>walk.go\<close>) lists what is offered: exclude patterns, links that are followed, archive
  entries; a listing that comes out is one the receiver accepts but for named exceptions.
  \<open>Stream_Receive\<close> is the single-stream receive and its composition with the sender's stream through
  packer, framing and verification; \<open>Recv_Entry\<close> (\<open>sink.go\<close>, entry points of \<open>recv.go\<close>) has the tar sink
  and the gates every receive passes. \<open>Cpace\<close> (\<open>internal/pake\<close>) and \<open>Password_Gate\<close> (\<open>password.go\<close>) are the
  PAKE and the two ends of the gate.

  \<^bold>\<open>Codes and releases.\<close> \<open>Share_Code\<close> (\<open>internal/code\<close>): generating and reading codes, epochs and slots,
  the memo of stretched keys (an interpretation of \<open>invariant_machine\<close>). \<open>Release_Version\<close>
  (\<open>internal/update\<close>, \<open>internal/version\<close>): comparing releases, the cached check, the verified download.

  \<^bold>\<open>Pairing server\<close> (\<open>internal/server\<close>). \<open>Session_Table\<close> has every endpoint, the janitor, the rate and
  concurrency limits and the saved state over one record \<open>server\<close>; sessions are shared by two maps
  in the code, so they live in a store under references. One event is one critical section under
  the server's mutex; a long poll is two events, parked and woken. \<open>Session_Inv\<close> classifies what each
  event does (\<open>change\<close>), \<open>Session_Claims\<close> concludes: the invariant of every reachable state, the
  refinement of an abstract table of sessions, that a code is claimed once, and the limits.

  \<^bold>\<open>Relay\<close> (\<open>internal/relay\<close>, for pairs that cannot reach each other). \<open>Relay_Frame\<close> is the framing
  of both transports (\<open>framing.go\<close>, \<open>conn.go\<close>). \<open>Relay_Server\<close> (\<open>server.go\<close>, \<open>budget.go\<close>, the server half of
  \<open>ws.go\<close>) keeps the allocations in a store under references. A datagram that is forwarded takes
  three atomic steps (\<open>task\<close>: look up and count, charge, send), which interleave with those of
  other readers; every other handler is one step, and \<open>handle_is_run\<close> shows that the steps of
  one datagram compose to the handler as it is written. \<open>Relay_Claims\<close> interprets \<open>invariant_machine\<close>
  twice: the limits hold in every interleaving, a datagram only goes to the other peer of its
  allocation, and what a bound peer sends within the limits arrives.

  \<^bold>\<open>Peers, errors, retries.\<close> \<open>Peer_Auth\<close> (\<open>internal/quicconn/auth.go\<close>, \<open>connid.go\<close>) runs the PAKE
  between the two ends of a TLS connection and binds it to that connection. \<open>Error_Catalog\<close> is the whole
  catalog of \<open>internal/fserrors\<close> with the exit status \<open>cmd/fsend/main.go\<close> derives from it, and
  \<open>Retry_Backoff\<close> the retry loop of \<open>internal/retry\<close>, its delays at the width of \<open>time.Duration\<close>.

  \<^bold>\<open>Client.\<close> \<open>Client_Files\<close> (\<open>internal/atomicfile\<close>, \<open>internal/config\<close>): a file is replaced atomically whatever
  call fails, and the configuration on top of it. \<open>Pairing_Keys\<close> (\<open>cmd/fsend/resume.go\<close>, the sessions of
  \<open>sendpair.go\<close> and \<open>receive.go\<close>): the key that replaces the code after the first handshake. \<open>Guess_Cap\<close>: how
  failed handshakes are counted (\<open>acceptCounting\<close>), and which are not. \<open>Send_Round\<close>: \<open>runSendOnce\<close> as a system
  of two goroutines and the coordinator, whose events interleave freely; \<open>invariant_machine\<close> gives that no
  pairing is leaked or released twice, a rank that a round ends.

  \<^bold>\<open>Bounds and termination.\<close> Only the walk of the sender's tree runs on fuel, because links are followed;
  \<open>walk_returns\<close> shows that on a finite tree \<open>card F * (B + 2) + B + 2\<close> is enough, for the folders \<open>F\<close> and the bound \<open>B\<close>
  of its statement. Loops over data are \<open>fun\<close>s or \<open>function\<close>s with a
  measure; a loop over a stream ends because every turn takes bytes off it. The search for a free
  name, the rounds of the password gate and the random choice of a connection id are
  \<open>partial_function\<close>s; the termination of the first two is a theorem of its own
  (\<open>freeName_total\<close>, \<open>password_gate_returns\<close>), the last ends with the first draw that does not place the STUN cookie.
  \<open>retry_bounded\<close> bounds the attempts of a retry. The limits of the wire (64 KiB control frames, chunk
  and segment sizes) are the code's constants. The byte counters of the relay are 64-bit words;
  its limits are shown for runs in which they do not overflow and charged days do not run
  backwards, which the hypotheses of those properties say.

  \<^bold>\<open>Parameters.\<close> Code outside the repository is an argument: BLAKE3, zstd, gob, SHA-2, HMAC, X25519,
  argon2id, HKDF, the TLS exporter, the STUN and WebSocket libraries, the parser of IP addresses,
  seeded hashes, sockets, system calls, the JSON codec, randomness, clocks, and the user's answers. A property
  names what it relies on (a decompressor inverts its compressor, a gob decoder its encoder), and
  its witness instantiates it with a concrete function.

  \<^bold>\<open>Not modelled.\<close> The QUIC, ICE, mDNS and HTTP libraries and the glue that drives
  them (\<open>quicconn.go\<close>, \<open>iceconn\<close>, \<open>landisc\<close>, \<open>signaling\<close>, the relay's client connection \<open>wsconn.go\<close>), the
  terminal user interface (\<open>uxlog\<close>, the prompts and views of \<open>cmd/fsend\<close>), \<open>connpath\<close>, installers,
  the metrics page and platform calls. Of \<open>sendpair.go\<close>, what a goroutine does before it reports. Of \<open>fserrors\<close> the chain printed in
  debug mode is left out. The goroutines of the hasher are not observable and are not kept; deadlines
  on streams are a polled context.
\<close>

end
